(* ===== verification/Prelude.thy ===== *)
theory Prelude
  imports Main "HOL-Library.AList"
begin

text \<open>
  The prelude of the development: the fragment of the JavaScript standard library that the
  repository's TypeScript relies on, with the lemmas the component theories share.

  \<^item> String operations (\<open>startsWith\<close>, \<open>endsWith\<close>, \<open>split\<close>, \<open>toLowerCase\<close>) on HOL's
    \<open>string\<close>, that is on lists of 8-bit characters.
  \<^item> \<open>Map\<close> as an association list in insertion order, and \<open>Set\<close> as a list without
    duplicates in insertion order. Iteration order matters to several components (the
    oldest key of a \<open>Map\<close> is evicted first), so the order is part of the model.
  \<^item> The \<open>neverthrow\<close> result type is HOL's sum: \<open>Inl e\<close> for \<open>err(e)\<close> and \<open>Inr v\<close> for
    \<open>ok(v)\<close>.
\<close>

named_theorems js_str "string primitives"
named_theorems jmap_laws "laws of the insertion-ordered map"

section \<open>Strings\<close>

definition starts_with :: "string \<Rightarrow> string \<Rightarrow> bool" where
  "starts_with s p \<longleftrightarrow> take (length p) s = p"

definition ends_with :: "string \<Rightarrow> string \<Rightarrow> bool" where
  "ends_with s p \<longleftrightarrow> length p \<le> length s \<and> drop (length s - length p) s = p"

fun str_includes :: "string \<Rightarrow> string \<Rightarrow> bool" where
  "str_includes [] p = (p = [])"
| "str_includes (c # s) p = (starts_with (c # s) p \<or> str_includes s p)"

fun split_on :: "char \<Rightarrow> string \<Rightarrow> string list" where
  "split_on d [] = [[]]"
| "split_on d (c # s) =
     (if c = d then [] # split_on d s
      else (case split_on d s of [] \<Rightarrow> [[c]] | w # ws \<Rightarrow> (c # w) # ws))"

definition lower_char :: "char \<Rightarrow> char" where
  "lower_char c = (let n = (of_char c :: nat) in if 65 \<le> n \<and> n \<le> 90 then char_of (n + 32) else c)"

definition to_lower :: "string \<Rightarrow> string" where
  "to_lower s = map lower_char s"

definition white_space :: "char \<Rightarrow> bool" where
  "white_space c \<longleftrightarrow> (let n = (of_char c :: nat) in n = 32 \<or> (9 \<le> n \<and> n \<le> 13) \<or> n = 160)"

definition js_trim :: "string \<Rightarrow> string" where
  "js_trim s = rev (dropWhile white_space (rev (dropWhile white_space s)))"

lemma starts_with_append [simp]: "starts_with (p @ s) p"
  by (simp add: starts_with_def)

lemma starts_with_iff [js_str]: "starts_with s p \<longleftrightarrow> (\<exists>r. s = p @ r)"
  by (metis append_take_drop_id append_eq_conv_conj starts_with_def)

lemma starts_with_self [simp]: "starts_with s s"
  by (simp add: starts_with_def)

lemma ends_with_append [simp]: "ends_with (s @ p) p"
  by (simp add: ends_with_def)

lemma ends_with_iff [js_str]: "ends_with s p \<longleftrightarrow> (\<exists>r. s = r @ p)"
  by (metis append_take_drop_id ends_with_append ends_with_def)

lemma split_on_not_Nil [simp]: "split_on d s \<noteq> []"
  by (cases s) (auto split: list.splits)

lemma split_on_no_sep: "d \<notin> set s \<Longrightarrow> split_on d s = [s]"
  by (induction s) auto

lemma split_on_append: "d \<notin> set w \<Longrightarrow> split_on d (w @ d # s) = w # split_on d s"
  by (induction w) auto

lemma split_on_join: "split_on d (s @ d # w) = split_on d s @ split_on d w"
  by (induction s) (auto split: list.splits)

lemma split_on_last_no_sep:
  "d \<notin> set w \<Longrightarrow> last (split_on d (s @ d # w)) = w"
  by (simp add: split_on_join split_on_no_sep)

lemma str_includes_append: "str_includes (u @ p @ v) p"
proof (induction u)
  case Nil
  then show ?case
    by (cases p; cases v) (simp_all add: starts_with_def)
next
  case (Cons c u)
  then show ?case by simp
qed

section \<open>Insertion-ordered maps\<close>

type_synonym ('k, 'v) jmap = "('k \<times> 'v) list"

definition jm_get :: "('k, 'v) jmap \<Rightarrow> 'k \<Rightarrow> 'v option" where
  "jm_get m k = map_of m k"

definition jm_has :: "('k, 'v) jmap \<Rightarrow> 'k \<Rightarrow> bool" where
  "jm_has m k \<longleftrightarrow> jm_get m k \<noteq> None"

definition jm_set :: "'k \<Rightarrow> 'v \<Rightarrow> ('k, 'v) jmap \<Rightarrow> ('k, 'v) jmap" where
  "jm_set k v m = AList.update k v m"

definition jm_delete :: "'k \<Rightarrow> ('k, 'v) jmap \<Rightarrow> ('k, 'v) jmap" where
  "jm_delete k m = AList.delete k m"

definition jm_keys :: "('k, 'v) jmap \<Rightarrow> 'k list" where
  "jm_keys m = map fst m"

definition jm_size :: "('k, 'v) jmap \<Rightarrow> nat" where
  "jm_size m = length m"

definition jm_ok :: "('k, 'v) jmap \<Rightarrow> bool" where
  "jm_ok m \<longleftrightarrow> distinct (jm_keys m)"

lemma jm_ok_Nil [simp]: "jm_ok []"
  by (simp add: jm_ok_def jm_keys_def)

lemma jm_ok_set [simp]: "jm_ok m \<Longrightarrow> jm_ok (jm_set k v m)"
  by (simp add: jm_ok_def jm_keys_def jm_set_def distinct_update)

lemma jm_ok_delete [simp]: "jm_ok m \<Longrightarrow> jm_ok (jm_delete k m)"
  by (simp add: jm_ok_def jm_keys_def jm_delete_def distinct_delete)

lemma jm_ok_filter [simp]: "jm_ok m \<Longrightarrow> jm_ok (filter P m)"
  by (simp add: jm_ok_def jm_keys_def distinct_map_filter)

lemma jm_get_Nil [simp]: "jm_get [] k = None"
  by (simp add: jm_get_def)

lemma jm_get_set [jmap_laws]: "jm_get (jm_set k v m) k' = (if k' = k then Some v else jm_get m k')"
  by (simp add: jm_get_def jm_set_def update_conv')

lemma jm_get_delete [jmap_laws]: "jm_get (jm_delete k m) k' = (if k' = k then None else jm_get m k')"
  by (simp add: jm_get_def jm_delete_def delete_conv')

lemma jm_get_filter:
  "jm_ok m \<Longrightarrow> jm_get (filter P m) k =
     (case jm_get m k of None \<Rightarrow> None | Some v \<Rightarrow> if P (k, v) then Some v else None)"
proof (induction m)
  case Nil
  then show ?case by simp
next
  case (Cons kv m)
  obtain k0 v0 where kv: "kv = (k0, v0)" by (cases kv)
  have fresh: "k0 \<notin> fst ` set m"
    using Cons.prems kv by (auto simp: jm_ok_def jm_keys_def)
  then have none: "map_of (filter P m) k0 = None" and none': "map_of m k0 = None"
    by (auto simp: map_of_eq_None_iff)
  show ?case
    using Cons kv none none' by (auto simp: jm_get_def jm_ok_def jm_keys_def split: option.splits)
qed

lemma jm_get_in_set: "jm_get m k = Some v \<Longrightarrow> (k, v) \<in> set m"
  by (simp add: jm_get_def map_of_SomeD)

lemma jm_get_iff_in_set: "jm_ok m \<Longrightarrow> jm_get m k = Some v \<longleftrightarrow> (k, v) \<in> set m"
  by (auto simp: jm_get_def jm_ok_def jm_keys_def map_of_eq_Some_iff)

lemma jm_get_None_iff: "jm_get m k = None \<longleftrightarrow> k \<notin> set (jm_keys m)"
  by (simp add: jm_get_def jm_keys_def map_of_eq_None_iff)

lemma jm_has_iff: "jm_has m k \<longleftrightarrow> k \<in> set (jm_keys m)"
  by (simp add: jm_has_def jm_get_None_iff)

lemma jm_keys_set: "jm_keys (jm_set k v m) = (if jm_has m k then jm_keys m else jm_keys m @ [k])"
  by (simp add: jm_has_iff jm_keys_def jm_set_def update_keys)

lemma jm_keys_delete: "jm_keys (jm_delete k m) = filter (\<lambda>x. x \<noteq> k) (jm_keys m)"
  by (induction m) (auto simp: jm_keys_def jm_delete_def)

lemma jm_size_set: "jm_size (jm_set k v m) = (if jm_has m k then jm_size m else Suc (jm_size m))"
  using arg_cong [OF jm_keys_set [of k v m], of length]
  by (simp add: jm_keys_def jm_size_def split: if_splits)

lemma jm_size_delete_le: "jm_size (jm_delete k m) \<le> jm_size m"
  by (simp add: jm_size_def jm_delete_def AList.delete_eq)

lemma jm_size_filter_le: "jm_size (filter P m) \<le> jm_size m"
  by (simp add: jm_size_def)

lemma jm_size_delete:
  "jm_ok m \<Longrightarrow> jm_has m k \<Longrightarrow> Suc (jm_size (jm_delete k m)) = jm_size m"
proof (induction m)
  case Nil
  then show ?case by (simp add: jm_has_def)
next
  case (Cons kv m)
  obtain k0 v0 where kv: "kv = (k0, v0)" by (cases kv)
  show ?case
  proof (cases "k0 = k")
    case True
    with Cons.prems kv have "k \<notin> fst ` set m"
      by (auto simp: jm_ok_def jm_keys_def)
    then have "AList.delete k m = m" by (rule AList.delete_id)
    with True kv show ?thesis by (simp add: jm_size_def jm_delete_def)
  next
    case False
    with Cons kv show ?thesis
      by (simp add: jm_size_def jm_delete_def jm_ok_def jm_has_def jm_get_def jm_keys_def)
  qed
qed

lemma find_in: "find P xs = Some a \<Longrightarrow> a \<in> set xs \<and> P a"
  by (auto simp: find_Some_iff)

section \<open>Insertion-ordered sets\<close>

definition js_add :: "'a \<Rightarrow> 'a list \<Rightarrow> 'a list" where
  "js_add x xs = (if x \<in> set xs then xs else xs @ [x])"

definition js_remove :: "'a \<Rightarrow> 'a list \<Rightarrow> 'a list" where
  "js_remove x xs = filter (\<lambda>y. y \<noteq> x) xs"

lemma set_js_add [simp]: "set (js_add x xs) = insert x (set xs)"
  by (auto simp: js_add_def)

lemma set_js_remove [simp]: "set (js_remove x xs) = set xs - {x}"
  by (auto simp: js_remove_def)

lemma js_remove_notin [simp]: "x \<notin> set xs \<Longrightarrow> js_remove x xs = xs"
  by (induction xs) (auto simp: js_remove_def)

lemma distinct_js_add [simp]: "distinct xs \<Longrightarrow> distinct (js_add x xs)"
  by (simp add: js_add_def)

lemma distinct_js_remove [simp]: "distinct xs \<Longrightarrow> distinct (js_remove x xs)"
  by (simp add: js_remove_def)

lemma js_add_member [simp]: "x \<in> set xs \<Longrightarrow> js_add x xs = xs"
  by (simp add: js_add_def)

lemma length_js_add: "length (js_add x xs) = (if x \<in> set xs then length xs else Suc (length xs))"
  by (simp add: js_add_def)

lemma js_remove_length_le: "length (js_remove x xs) \<le> length xs"
  by (simp add: js_remove_def)

text \<open>\<open>Array.from(new Set(xs))\<close>: keep the first occurrence of each element, in order.\<close>

definition js_add_all :: "'a list \<Rightarrow> 'a list \<Rightarrow> 'a list" where
  "js_add_all ys xs = fold js_add ys xs"

lemma set_js_add_all [simp]: "set (js_add_all ys xs) = set xs \<union> set ys"
  by (induction ys arbitrary: xs) (auto simp: js_add_all_def)

lemma distinct_js_add_all [simp]: "distinct xs \<Longrightarrow> distinct (js_add_all ys xs)"
  by (induction ys arbitrary: xs) (auto simp: js_add_all_def)

section \<open>Results\<close>

fun is_ok :: "'e + 'a \<Rightarrow> bool" where
  "is_ok (Inl e) = False"
| "is_ok (Inr a) = True"

fun and_then :: "'e + 'a \<Rightarrow> ('a \<Rightarrow> 'e + 'b) \<Rightarrow> 'e + 'b" where
  "and_then (Inl e) f = Inl e"
| "and_then (Inr a) f = f a"

lemma is_ok_iff: "is_ok r \<longleftrightarrow> (\<exists>a. r = Inr a)"
  by (cases r) auto

lemma and_then_ok: "and_then r f = Inr b \<longleftrightarrow> (\<exists>a. r = Inr a \<and> f a = Inr b)"
  by (cases r) auto

end
