(* ===== verification/Permissions.thy ===== *)
theory Permissions
  imports Prelude
begin

text \<open>
  Model of \<open>packages/authorization/src/permissions.ts\<close>: the permission vocabulary, the role
  tables, the matching of a granted permission against a required one, and the resolution of
  a principal's permissions from its platform role and its tenant role.

  A permission is a string, as in the source. The role tables are association lists keyed by
  role name; a lookup sees the table's own keys only, so a role name that happens to be the
  name of a member of \<open>Object.prototype\<close> counts as unknown here.
\<close>

type_synonym permission = string

section \<open>The vocabulary and the role tables\<close>

definition Permissions_all :: "permission list" where
  "Permissions_all =
    [''users:read'', ''users:write'', ''users:delete'',
     ''files:read'', ''files:upload'', ''files:delete'', ''files:write'',
     ''organizations:read'', ''organizations:write'', ''organizations:delete'',
     ''team:read'', ''team:invite'', ''team:manage'', ''team:remove'',
     ''members:read'', ''members:write'', ''invitations:read'', ''invitations:write'',
     ''privacy:export:self'', ''privacy:erase:self'', ''privacy:erase:tenant'',
     ''privacy:requests:read'', ''notifications:read'', ''notifications:write'']"

definition RolePermissions :: "(string \<times> permission list) list" where
  "RolePermissions =
    [(''admin'',
      [''users:read'', ''users:write'', ''users:delete'',
       ''files:read'', ''files:upload'', ''files:delete'',
       ''organizations:read'', ''organizations:write'', ''organizations:delete'',
       ''team:read'', ''team:invite'', ''team:manage'', ''team:remove'',
       ''members:read'', ''members:write'', ''invitations:read'', ''invitations:write'',
       ''privacy:export:self'', ''privacy:erase:self'', ''privacy:erase:tenant'',
       ''privacy:requests:read'', ''notifications:read'', ''notifications:write'']),
     (''user'',
      [''files:read'', ''files:upload'', ''files:delete'', ''files:write'',
       ''privacy:export:self'', ''privacy:erase:self'',
       ''notifications:read'', ''notifications:write''])]"

definition TenantAdministrativePermissions :: "permission list" where
  "TenantAdministrativePermissions =
    [''organizations:read'', ''organizations:write'', ''organizations:delete'',
     ''team:read'', ''team:invite'', ''team:manage'', ''team:remove'',
     ''members:read'', ''members:write'', ''invitations:read'', ''invitations:write'',
     ''files:read'', ''files:upload'', ''files:delete'', ''privacy:erase:tenant'',
     ''notifications:read'', ''notifications:write'']"

definition PLATFORM_ROLE_PERMISSIONS :: "(string \<times> permission list) list" where
  "PLATFORM_ROLE_PERMISSIONS =
    [(''admin'',
      [''users:read'', ''users:write'', ''users:delete'',
       ''privacy:export:self'', ''privacy:erase:self'', ''privacy:requests:read'']),
     (''user'', [''privacy:export:self'', ''privacy:erase:self''])]"

definition TenantRolePermissions :: "(string \<times> permission list) list" where
  "TenantRolePermissions =
    [(''owner'', TenantAdministrativePermissions),
     (''admin'',
      [''organizations:read'', ''organizations:write'',
       ''team:read'', ''team:invite'', ''team:manage'', ''team:remove'',
       ''members:read'', ''members:write'', ''invitations:read'', ''invitations:write'',
       ''files:read'', ''files:upload'', ''files:delete'', ''files:write'',
       ''privacy:export:self'', ''privacy:erase:self'', ''privacy:erase:tenant'',
       ''privacy:requests:read'', ''notifications:read'', ''notifications:write'']),
     (''member'',
      [''organizations:read'', ''team:read'', ''members:read'',
       ''files:read'', ''files:upload'',
       ''privacy:export:self'', ''privacy:erase:self'',
       ''notifications:read'', ''notifications:write''])]"

section \<open>The permission syntax\<close>

text \<open>
  \<open>PERMISSION_PATTERN = /^[a-z][a-z0-9-]*(?::(?:[a-z][a-z0-9-]*|\*))+$/\<close>, recognised by
  splitting at the colons: neither the identifiers nor the star contain one.
\<close>

definition is_az :: "char \<Rightarrow> bool" where
  "is_az c \<longleftrightarrow> (let n = (of_char c :: nat) in 97 \<le> n \<and> n \<le> 122)"

definition is_az09dash :: "char \<Rightarrow> bool" where
  "is_az09dash c \<longleftrightarrow>
     is_az c \<or> (let n = (of_char c :: nat) in 48 \<le> n \<and> n \<le> 57) \<or> c = CHR ''-''"

fun pattern_ident :: "string \<Rightarrow> bool" where
  "pattern_ident [] = False"
| "pattern_ident (c # cs) = (is_az c \<and> list_all is_az09dash cs)"

definition PERMISSION_PATTERN :: "string \<Rightarrow> bool" where
  "PERMISSION_PATTERN s =
     (case split_on CHR '':'' s of
        [] \<Rightarrow> False
      | w # ws \<Rightarrow> pattern_ident w \<and> ws \<noteq> [] \<and> list_all (\<lambda>v. pattern_ident v \<or> v = ''*'') ws)"

section \<open>Matching and resolution\<close>

definition matchesPermission :: "permission \<Rightarrow> permission \<Rightarrow> bool" where
  "matchesPermission userPerm requiredPerm =
    (if userPerm = ''*'' \<or> userPerm = ''admin'' \<or> userPerm = requiredPerm then True
     else if ends_with userPerm '':*'' \<and> starts_with requiredPerm (butlast userPerm) then True
     else if userPerm = ''files:write'' then requiredPerm = ''files:upload''
     else if userPerm = ''team:manage'' \<and>
             (starts_with requiredPerm ''team:'' \<or> starts_with requiredPerm ''members:'' \<or>
              starts_with requiredPerm ''invitations:'') then True
     else if userPerm = ''team:invite'' \<and> requiredPerm = ''invitations:write'' then True
     else if userPerm = ''invitations:write'' \<and> requiredPerm = ''team:invite'' then True
     else if userPerm = ''team:read'' \<and>
             (requiredPerm = ''members:read'' \<or> requiredPerm = ''invitations:read'') then True
     else if userPerm = ''members:read'' \<and> requiredPerm = ''team:read'' then True
     else False)"

datatype one_or_many = One string | Many "string list"

fun as_array :: "one_or_many \<Rightarrow> string list" where
  "as_array (One s) = [s]"
| "as_array (Many ss) = ss"

datatype match_mode = AllOf | AnyOf

definition hasPermission :: "permission list \<Rightarrow> one_or_many \<Rightarrow> match_mode \<Rightarrow> bool" where
  "hasPermission userPermissions required mode =
    (let reqs = as_array required in
     if reqs = [] then True
     else if mode = AnyOf
     then list_ex (\<lambda>req. list_ex (\<lambda>perm. matchesPermission perm req) userPermissions) reqs
     else list_all (\<lambda>req. list_ex (\<lambda>perm. matchesPermission perm req) userPermissions) reqs)"

datatype perm_scope = GlobalScope | TenantScope

definition role_entry :: "(string \<times> permission list) list \<Rightarrow> string option \<Rightarrow> permission list" where
  "role_entry tbl role =
     (case role of None \<Rightarrow> []
      | Some r \<Rightarrow> if r = [] then []
                  else (case map_of tbl (to_lower r) of None \<Rightarrow> [] | Some ps \<Rightarrow> ps))"

definition resolveUserPermissions ::
  "string option \<Rightarrow> string option \<Rightarrow> string list \<Rightarrow> perm_scope \<Rightarrow> permission list" where
  "resolveUserPermissions role tenantRole extraPermissions scope =
    (let roleMap = (if scope = TenantScope then PLATFORM_ROLE_PERMISSIONS else RolePermissions);
         perms1 = js_add_all (role_entry roleMap role) [];
         perms2 = js_add_all (role_entry TenantRolePermissions tenantRole) perms1
     in js_add_all (filter PERMISSION_PATTERN extraPermissions) perms2)"

section \<open>Lemmas on matching\<close>

lemma matchesPermission_refl [simp]: "matchesPermission p p"
  by (simp add: matchesPermission_def)

lemma matchesPermission_wildcard:
  "starts_with q (p @ '':'') \<Longrightarrow> matchesPermission (p @ '':*'') q"
  by (simp add: matchesPermission_def ends_with_def butlast_append)

lemma hasPermission_One:
  "hasPermission ps (One q) m \<longleftrightarrow> (\<exists>p\<in>set ps. matchesPermission p q)"
  by (simp add: hasPermission_def list_ex_iff)

lemma hasPermission_Many_all:
  "hasPermission ps (Many qs) AllOf \<longleftrightarrow> (\<forall>q\<in>set qs. \<exists>p\<in>set ps. matchesPermission p q)"
  by (auto simp: hasPermission_def list_ex_iff list_all_iff)

lemma hasPermission_Many_any:
  "hasPermission ps (Many qs) AnyOf \<longleftrightarrow>
     qs = [] \<or> (\<exists>q\<in>set qs. \<exists>p\<in>set ps. matchesPermission p q)"
  by (auto simp: hasPermission_def list_ex_iff)

lemmas hasPermission_simps = hasPermission_One hasPermission_Many_all hasPermission_Many_any

lemma hasPermission_mono:
  "set ps \<subseteq> set qs \<Longrightarrow> hasPermission ps r m \<Longrightarrow> hasPermission qs r m"
  by (cases r; cases m) (auto simp: hasPermission_simps; blast)+

lemma set_resolveUserPermissions:
  "set (resolveUserPermissions role tenantRole extra scope) =
     set (role_entry (if scope = TenantScope then PLATFORM_ROLE_PERMISSIONS else RolePermissions) role)
     \<union> set (role_entry TenantRolePermissions tenantRole)
     \<union> {p \<in> set extra. PERMISSION_PATTERN p}"
  by (auto simp: resolveUserPermissions_def Let_def)

lemma distinct_resolveUserPermissions:
  "distinct (resolveUserPermissions role tenantRole extra scope)"
  by (simp add: resolveUserPermissions_def Let_def)

text \<open>A plain (wildcard-free, alias-free) permission matches itself only.\<close>

definition plain_perm :: "permission \<Rightarrow> bool" where
  "plain_perm p \<longleftrightarrow>
     p \<notin> {''*'', ''admin'', ''files:write'', ''team:manage'', ''team:invite'',
          ''invitations:write'', ''team:read'', ''members:read''} \<and> \<not> ends_with p '':*''"

lemma plain_perm_matches: "plain_perm p \<Longrightarrow> matchesPermission p q \<longleftrightarrow> p = q"
  by (simp add: matchesPermission_def plain_perm_def)

lemma alias_matches:
  "matchesPermission ''files:write'' q \<longleftrightarrow> q \<in> {''files:write'', ''files:upload''}"
  "matchesPermission ''team:invite'' q \<longleftrightarrow> q \<in> {''team:invite'', ''invitations:write''}"
  "matchesPermission ''invitations:write'' q \<longleftrightarrow> q \<in> {''invitations:write'', ''team:invite''}"
  "matchesPermission ''team:read'' q \<longleftrightarrow> q \<in> {''team:read'', ''members:read'', ''invitations:read''}"
  "matchesPermission ''members:read'' q \<longleftrightarrow> q \<in> {''members:read'', ''team:read''}"
  by (auto simp: matchesPermission_def ends_with_def)

lemma team_manage_matches:
  "matchesPermission ''team:manage'' q \<longleftrightarrow>
     starts_with q ''team:'' \<or> starts_with q ''members:'' \<or> starts_with q ''invitations:''"
  by (auto simp: matchesPermission_def ends_with_def starts_with_def)

end
