(* ===== verification/JsValue.thy ===== *)
theory JsValue
  imports Prelude
begin

text \<open>
  Dynamically typed JavaScript values, for the places where the source inspects an
  \<open>unknown\<close> or a \<open>Record<string, unknown>\<close>: property reads, truthiness, the nullish
  operator \<open>??\<close> and \<open>typeof v === "string"\<close>. Objects carry their own properties as an
  association list. Strict equality is structural equality, which agrees with \<open>===\<close>
  whenever one side is a primitive; the source compares with strings and booleans only.
\<close>

datatype js =
    JUndef
  | JNull
  | JBool bool
  | JNum int
  | JStr string
  | JArr "js list"
  | JObj "(string \<times> js) list"

fun js_truthy :: "js \<Rightarrow> bool" where
  "js_truthy JUndef = False"
| "js_truthy JNull = False"
| "js_truthy (JBool b) = b"
| "js_truthy (JNum n) = (n \<noteq> 0)"
| "js_truthy (JStr s) = (s \<noteq> [])"
| "js_truthy (JArr _) = True"
| "js_truthy (JObj _) = True"

fun js_get :: "js \<Rightarrow> string \<Rightarrow> js" where
  "js_get (JObj fs) k = (case map_of fs k of None \<Rightarrow> JUndef | Some v \<Rightarrow> v)"
| "js_get _ k = JUndef"

fun js_has :: "js \<Rightarrow> string \<Rightarrow> bool" where
  "js_has (JObj fs) k = (map_of fs k \<noteq> None)"
| "js_has _ k = False"

text \<open>\<open>a ?? b\<close>\<close>

fun nullish :: "js \<Rightarrow> js \<Rightarrow> js" where
  "nullish JUndef b = b"
| "nullish JNull b = b"
| "nullish a b = a"

fun js_string :: "js \<Rightarrow> string option" where
  "js_string (JStr s) = Some s"
| "js_string _ = None"

text \<open>An optional string property as a value: absent is \<open>undefined\<close>.\<close>

fun ostr :: "string option \<Rightarrow> js" where
  "ostr None = JUndef"
| "ostr (Some s) = JStr s"

lemma ostr_inject [simp]: "ostr a = ostr b \<longleftrightarrow> a = b"
  by (cases a; cases b) auto

lemma js_truthy_ostr [simp]: "js_truthy (ostr a) \<longleftrightarrow> (\<exists>s. a = Some s \<and> s \<noteq> [])"
  by (cases a) auto

lemma ostr_eq_JStr [simp]: "ostr a = JStr s \<longleftrightarrow> a = Some s" "JStr s = ostr a \<longleftrightarrow> a = Some s"
  by (cases a; auto)+

lemma nullish_truthy [simp]: "js_truthy a \<Longrightarrow> nullish a b = a"
  by (cases a) auto

lemma js_string_SomeD: "js_string v = Some s \<longleftrightarrow> v = JStr s"
  by (cases v) auto

end
