(* ===== verification/Authorization.thy ===== *)
theory Authorization
  imports Permissions JsValue
begin

text \<open>
  Model of the policy decision point: \<open>packages/authorization/src/types.ts\<close>,
  \<open>ownership.ts\<close> and \<open>evaluator.ts\<close>. A request names a principal, an action and
  possibly a resource; the evaluator filters the registered policies by action and resource
  type, lets a matching \<open>DENY\<close> win, admits super administrators, enforces the tenant
  boundary, tries the matching \<open>ALLOW\<close> policies and falls back to the role tables for
  resource-free requests.

  The resource of a request is an arbitrary value, as in the source, and
  \<^theory_text>\<open>normalizeResource\<close> turns it into a descriptor whose fields are values too.
\<close>

section \<open>Types\<close>

record principal =
  p_id :: string
  p_email :: string
  p_role :: string
  p_tenantId :: "string option"
  p_tenantRole :: "string option"
  p_department :: "string option"
  p_attributes :: js

record descriptor =
  d_type :: js
  d_id :: js
  d_tenantId :: js
  d_ownerId :: js
  d_attributes :: js
  d_data :: js

datatype effect = ALLOW | DENY

record policy =
  pol_id :: string
  pol_resourceType :: "one_or_many option"
  pol_action :: one_or_many
  pol_effect :: effect
  pol_condition :: "principal \<Rightarrow> descriptor option \<Rightarrow> js \<Rightarrow> bool"

record auth_request =
  rq_principal :: principal
  rq_action :: string
  rq_resource :: js
  rq_resourceType :: "string option"
  rq_context :: js

datatype decision_reason =
    SUPERADMIN
  | RBAC_ROLE
  | REBAC_RELATION
  | ABAC_POLICY
  | DEFAULT_DENY
  | EXPLICIT_DENY
  | TENANT_MISMATCH

record decision =
  allowed :: bool
  reason :: decision_reason
  matchedPolicyId :: "string option"
  details :: "string option"

section \<open>Ownership\<close>

definition DEFAULT_OWNERSHIP_FIELDS :: "(string \<times> string) list" where
  "DEFAULT_OWNERSHIP_FIELDS =
     [(''note'', ''createdBy''), (''file'', ''uploadedBy''), (''user'', ''id'')]"

text \<open>The module-level record of custom fields is the state; registering returns the new one.\<close>

definition registerOwnershipField ::
  "(string, string) jmap \<Rightarrow> string \<Rightarrow> string \<Rightarrow> (string, string) jmap" where
  "registerOwnershipField custom resourceType fieldName = jm_set resourceType fieldName custom"

definition getOwnershipField :: "(string, string) jmap \<Rightarrow> string \<Rightarrow> string option" where
  "getOwnershipField custom resourceType =
     (case jm_get custom resourceType of
        Some f \<Rightarrow> Some f
      | None \<Rightarrow> map_of DEFAULT_OWNERSHIP_FIELDS resourceType)"

definition ownership_field_of :: "(string, string) jmap \<Rightarrow> js \<Rightarrow> string option" where
  "ownership_field_of custom rtype =
     (case js_string rtype of None \<Rightarrow> None | Some t \<Rightarrow> getOwnershipField custom t)"

definition resolveResourceOwnerId :: "(string, string) jmap \<Rightarrow> js \<Rightarrow> js \<Rightarrow> js" where
  "resolveResourceOwnerId custom resourceType data =
     (if \<not> js_truthy data then JUndef
      else
        let field = ownership_field_of custom resourceType;
            generic =
              nullish (js_get data ''ownerId'') (nullish (js_get data ''owner_id'')
                (nullish (js_get data ''createdBy'') (nullish (js_get data ''created_by'')
                (nullish (js_get data ''uploadedBy'') (nullish (js_get data ''uploaded_by'')
                (nullish (js_get data ''userId'') (js_get data ''user_id'')))))));
            val = (case field of
                Some f \<Rightarrow> if f \<noteq> [] then js_get data f else generic
              | None \<Rightarrow> generic)
        in (case js_string val of Some s \<Rightarrow> JStr s | None \<Rightarrow> JUndef))"

section \<open>The evaluator\<close>

definition normalizeResource ::
  "(string, string) jmap \<Rightarrow> js \<Rightarrow> string option \<Rightarrow> descriptor option" where
  "normalizeResource custom resource fallback =
    (let fallbackType = (case fallback of None \<Rightarrow> ''resource'' | Some t \<Rightarrow> t) in
     if \<not> js_truthy resource then None
     else if js_has resource ''type'' then
       let source = nullish (js_get resource ''attributes'')
                      (nullish (js_get resource ''data'') resource) in
       Some \<lparr>d_type = js_get resource ''type'',
             d_id = js_get resource ''id'',
             d_tenantId = js_get resource ''tenantId'',
             d_ownerId = nullish (js_get resource ''ownerId'')
                           (resolveResourceOwnerId custom (js_get resource ''type'') source),
             d_attributes = nullish (js_get resource ''attributes'') source,
             d_data = js_get resource ''data''\<rparr>
     else
       let ty = (case js_string (js_get resource ''type'') of Some t \<Rightarrow> t | None \<Rightarrow> fallbackType) in
       Some \<lparr>d_type = JStr ty,
             d_id = ostr (js_string (js_get resource ''id'')),
             d_tenantId = ostr (js_string (js_get resource ''tenantId'')),
             d_ownerId = resolveResourceOwnerId custom (JStr ty) resource,
             d_attributes = resource,
             d_data = resource\<rparr>)"

definition matchesAction :: "one_or_many \<Rightarrow> string \<Rightarrow> bool" where
  "matchesAction policyAction requestAction =
     hasPermission (as_array policyAction) (One requestAction) AllOf"

fun policy_type_falsy :: "one_or_many option \<Rightarrow> bool" where
  "policy_type_falsy None = True"
| "policy_type_falsy (Some (One s)) = (s = [])"
| "policy_type_falsy (Some (Many _)) = False"

definition matchesResourceType :: "one_or_many option \<Rightarrow> js \<Rightarrow> bool" where
  "matchesResourceType policyType reqType =
     (if policy_type_falsy policyType then True
      else if \<not> js_truthy reqType then False
      else let types = (case policyType of None \<Rightarrow> [] | Some t \<Rightarrow> as_array t) in
           list_ex (\<lambda>t. t = ''*'') types \<or> list_ex (\<lambda>t. JStr t = reqType) types)"

definition resource_type_of :: "descriptor option \<Rightarrow> js" where
  "resource_type_of r = (case r of None \<Rightarrow> JUndef | Some d \<Rightarrow> d_type d)"

definition applies :: "string \<Rightarrow> descriptor option \<Rightarrow> policy \<Rightarrow> bool" where
  "applies action resource p \<longleftrightarrow>
     matchesAction (pol_action p) action \<and>
     matchesResourceType (pol_resourceType p) (resource_type_of resource)"

definition evaluateAuthorization ::
  "(string, string) jmap \<Rightarrow> auth_request \<Rightarrow> policy list \<Rightarrow> decision" where
  "evaluateAuthorization custom request policies =
    (let pr = rq_principal request;
         action = rq_action request;
         resource = normalizeResource custom (rq_resource request) (rq_resourceType request);
         matchingPolicies = filter (applies action resource) policies;
         holds = (\<lambda>p. pol_condition p pr resource (rq_context request))
     in case List.find holds (filter (\<lambda>p. pol_effect p = DENY) matchingPolicies) of
       Some p \<Rightarrow> \<lparr>allowed = False, reason = EXPLICIT_DENY, matchedPolicyId = Some (pol_id p),
                  details = None\<rparr>
     | None \<Rightarrow>
        if p_role pr = ''*'' \<or> js_get (p_attributes pr) ''superAdmin'' = JBool True then
          \<lparr>allowed = True, reason = SUPERADMIN, matchedPolicyId = None, details = None\<rparr>
        else if (case resource of None \<Rightarrow> False
                 | Some r \<Rightarrow> js_truthy (d_tenantId r) \<and> d_tenantId r \<noteq> ostr (p_tenantId pr)) then
          \<lparr>allowed = False, reason = TENANT_MISMATCH, matchedPolicyId = None,
           details = Some ''Cross-tenant access forbidden''\<rparr>
        else if js_truthy (ostr (p_tenantId pr)) \<and>
                (case resource of None \<Rightarrow> False
                 | Some r \<Rightarrow> \<not> js_truthy (d_tenantId r) \<and> d_type r \<noteq> JStr ''request'') then
          \<lparr>allowed = False, reason = TENANT_MISMATCH, matchedPolicyId = None,
           details = Some ''Missing tenant scope''\<rparr>
        else (case List.find holds (filter (\<lambda>p. pol_effect p = ALLOW) matchingPolicies) of
          Some p \<Rightarrow>
            \<lparr>allowed = True,
             reason = (if (case resource of None \<Rightarrow> JUndef | Some r \<Rightarrow> d_ownerId r) = JStr (p_id pr)
                       then REBAC_RELATION else ABAC_POLICY),
             matchedPolicyId = Some (pol_id p), details = None\<rparr>
        | None \<Rightarrow>
            if (case resource of None \<Rightarrow> True | Some r \<Rightarrow> d_type r = JStr ''request'') \<and>
               hasPermission
                 (resolveUserPermissions (Some (p_role pr)) (p_tenantRole pr) []
                    (if js_truthy (ostr (p_tenantId pr)) then TenantScope else GlobalScope))
                 (One action) AllOf
            then \<lparr>allowed = True, reason = RBAC_ROLE, matchedPolicyId = None, details = None\<rparr>
            else \<lparr>allowed = False, reason = DEFAULT_DENY, matchedPolicyId = None, details = None\<rparr>))"

section \<open>What the evaluator decides\<close>

text \<open>The four ingredients of a decision, named.\<close>

definition request_resource :: "(string, string) jmap \<Rightarrow> auth_request \<Rightarrow> descriptor option" where
  "request_resource custom rq = normalizeResource custom (rq_resource rq) (rq_resourceType rq)"

definition fires :: "(string, string) jmap \<Rightarrow> auth_request \<Rightarrow> effect \<Rightarrow> policy \<Rightarrow> bool" where
  "fires custom rq e p \<longleftrightarrow>
     applies (rq_action rq) (request_resource custom rq) p \<and> pol_effect p = e \<and>
     pol_condition p (rq_principal rq) (request_resource custom rq) (rq_context rq)"

definition is_super :: "principal \<Rightarrow> bool" where
  "is_super p \<longleftrightarrow> p_role p = ''*'' \<or> js_get (p_attributes p) ''superAdmin'' = JBool True"

definition has_tenant :: "principal \<Rightarrow> bool" where
  "has_tenant p \<longleftrightarrow> js_truthy (ostr (p_tenantId p))"

definition crosses_tenant :: "principal \<Rightarrow> descriptor option \<Rightarrow> bool" where
  "crosses_tenant p res \<longleftrightarrow>
     (case res of None \<Rightarrow> False
      | Some r \<Rightarrow> js_truthy (d_tenantId r) \<and> d_tenantId r \<noteq> ostr (p_tenantId p) \<or>
                  has_tenant p \<and> \<not> js_truthy (d_tenantId r) \<and> d_type r \<noteq> JStr ''request'')"

definition role_grants :: "auth_request \<Rightarrow> descriptor option \<Rightarrow> bool" where
  "role_grants rq res \<longleftrightarrow>
     (case res of None \<Rightarrow> True | Some r \<Rightarrow> d_type r = JStr ''request'') \<and>
     hasPermission
       (resolveUserPermissions (Some (p_role (rq_principal rq))) (p_tenantRole (rq_principal rq)) []
          (if has_tenant (rq_principal rq) then TenantScope else GlobalScope))
       (One (rq_action rq)) AllOf"

lemma find_filter_None: "List.find Q (filter P xs) = None \<longleftrightarrow> (\<forall>x\<in>set xs. P x \<longrightarrow> \<not> Q x)"
  by (auto simp: find_None_iff)

lemma find_filter_Some:
  "(\<exists>x. List.find Q (filter P xs) = Some x) \<longleftrightarrow> (\<exists>x\<in>set xs. P x \<and> Q x)"
  using find_filter_None [of Q P xs] by (auto simp flip: not_None_eq)

lemma find_filter_SomeD: "List.find Q (filter P xs) = Some x \<Longrightarrow> x \<in> set xs \<and> P x \<and> Q x"
  by (auto simp: find_Some_iff dest: nth_mem)

lemma allowed_cases:
  "allowed (evaluateAuthorization custom rq ps) \<longleftrightarrow>
     \<not> (\<exists>p\<in>set ps. fires custom rq DENY p) \<and>
     (is_super (rq_principal rq) \<or>
      \<not> crosses_tenant (rq_principal rq) (request_resource custom rq) \<and>
      ((\<exists>p\<in>set ps. fires custom rq ALLOW p) \<or> role_grants rq (request_resource custom rq)))"
proof (cases "List.find (\<lambda>p. pol_condition p (rq_principal rq) (request_resource custom rq) (rq_context rq))
     (filter (\<lambda>p. pol_effect p = DENY) (filter (applies (rq_action rq) (request_resource custom rq)) ps))")
  case (Some p)
  then have "p \<in> set ps \<and> fires custom rq DENY p"
    by (auto simp: fires_def dest!: find_filter_SomeD)
  with Some show ?thesis
    by (auto simp: evaluateAuthorization_def Let_def request_resource_def)
next
  case None
  then have no_deny: "\<not> (\<exists>p\<in>set ps. fires custom rq DENY p)"
    by (auto simp: fires_def find_filter_None)
  have grant: "(\<exists>p. List.find (\<lambda>p. pol_condition p (rq_principal rq) (request_resource custom rq) (rq_context rq))
     (filter (\<lambda>p. pol_effect p = ALLOW) (filter (applies (rq_action rq) (request_resource custom rq)) ps)) = Some p)
     \<longleftrightarrow> (\<exists>p\<in>set ps. fires custom rq ALLOW p)"
    unfolding find_filter_Some by (auto simp: fires_def)
  show ?thesis
    using None no_deny unfolding grant [symmetric]
    by (cases "request_resource custom rq";
        simp add: evaluateAuthorization_def Let_def request_resource_def [symmetric] is_super_def
          crosses_tenant_def has_tenant_def role_grants_def
          del: js_truthy_ostr filter_filter split: option.split;
        blast)
qed


section \<open>The contract of a decision point\<close>

text \<open>
  What the callers of the evaluator rely on, whatever policies the modules register: a
  firing denial wins, the outcome depends only on which denials and grants fire, and more
  grants never revoke access. The laws are discharged below for the evaluator.
\<close>

locale decision_point =
  fixes decide :: "'p list \<Rightarrow> bool"
    and denies :: "'p \<Rightarrow> bool"
    and grants :: "'p \<Rightarrow> bool"
  assumes deny_wins: "p \<in> set ps \<Longrightarrow> denies p \<Longrightarrow> \<not> decide ps"
    and grant_mono:
      "decide ps \<Longrightarrow> \<not> (\<exists>p\<in>set qs. denies p) \<Longrightarrow>
       (\<exists>p\<in>set ps. grants p) \<longrightarrow> (\<exists>p\<in>set qs. grants p) \<Longrightarrow> decide qs"
begin

lemma decide_no_deny: "decide ps \<Longrightarrow> p \<in> set ps \<Longrightarrow> \<not> denies p"
  using deny_wins by blast

lemma decide_same_set:
  assumes "set ps = set qs"
  shows "decide ps \<longleftrightarrow> decide qs"
  using assms grant_mono [of ps qs] grant_mono [of qs ps] decide_no_deny by metis

lemma register_grants:
  assumes "decide ps" and "\<forall>p\<in>set new. \<not> denies p"
  shows "decide (ps @ new)"
  using assms grant_mono [of ps "ps @ new"] decide_no_deny by (metis Un_iff set_append)

lemma register_denials:
  assumes "decide (ps @ new)" and "\<forall>p\<in>set new. \<not> grants p"
  shows "decide ps"
proof -
  have "\<not> (\<exists>p\<in>set ps. denies p)"
    using decide_no_deny [OF assms(1)] by simp
  moreover have "(\<exists>p\<in>set (ps @ new). grants p) \<longrightarrow> (\<exists>p\<in>set ps. grants p)"
    using assms(2) by auto
  ultimately show ?thesis using grant_mono [OF assms(1)] by blast
qed

end

interpretation evaluator: decision_point
  "\<lambda>ps. allowed (evaluateAuthorization custom rq ps)" "fires custom rq DENY" "fires custom rq ALLOW"
  for custom rq
proof (unfold_locales, goal_cases)
  case 1
  then show ?case by (auto simp: allowed_cases)
next
  case 2
  then show ?case by (auto simp: allowed_cases)
qed

lemma fires_effect: "fires custom rq e p \<Longrightarrow> pol_effect p = e"
  by (simp add: fires_def)

end
