(* ===== verification/Policies.thy ===== *)
theory Policies
  imports Authorization
begin

text \<open>
  The policies the modules register and the services that ask the evaluator:
  \<open>AuthorizationService\<close> (apps/api/src/infrastructure/authorization), the ownership and
  tenant administrator policies, the note and file policies, the permission and the tenant
  context guards (apps/api/src/common/guards), \<open>resource-authorization.ts\<close> and the query
  that resolves a tenant membership.
\<close>

section \<open>Policies\<close>

definition createOwnershipPolicy :: "string \<Rightarrow> permission list \<Rightarrow> string option \<Rightarrow> policy" where
  "createOwnershipPolicy resourceType actions idOpt =
     \<lparr>pol_id = (case idOpt of None \<Rightarrow> resourceType @ ''-owner-access'' | Some i \<Rightarrow> i),
      pol_resourceType = Some (One resourceType),
      pol_action = Many actions,
      pol_effect = ALLOW,
      pol_condition = (\<lambda>pr resource ctx.
        case resource of None \<Rightarrow> False
        | Some r \<Rightarrow> d_ownerId r = JStr (p_id pr) \<and>
                    (\<not> js_truthy (d_tenantId r) \<or> d_tenantId r = ostr (p_tenantId pr)))\<rparr>"

definition genericTenantAdminPolicy :: policy where
  "genericTenantAdminPolicy =
     \<lparr>pol_id = ''generic-tenant-admin-manage'',
      pol_resourceType = Some (One ''*''),
      pol_action = Many TenantAdministrativePermissions,
      pol_effect = ALLOW,
      pol_condition = (\<lambda>pr resource ctx.
        case resource of None \<Rightarrow> False
        | Some r \<Rightarrow>
            let isTenantAdmin = p_role pr = ''admin'' \<or> p_tenantRole pr = Some ''admin'' \<or>
                                p_tenantRole pr = Some ''owner'';
                isSameTenant = d_tenantId r = ostr (p_tenantId pr)
            in isTenantAdmin \<and> isSameTenant)\<rparr>"

definition defaultFoundationalPolicies :: "policy list" where
  "defaultFoundationalPolicies = [genericTenantAdminPolicy]"

definition notePolicies :: "policy list" where
  "notePolicies =
    [\<lparr>pol_id = ''note-request-role-access'',
      pol_resourceType = Some (One ''request''),
      pol_action = Many [''notes:read'', ''notes:create'', ''notes:update'', ''notes:delete''],
      pol_effect = ALLOW,
      pol_condition = (\<lambda>pr resource ctx.
        p_role pr = ''admin'' \<or>
        \<not> js_truthy (ostr (p_tenantId pr)) \<and> p_role pr = ''user'' \<or>
        (case p_tenantRole pr of None \<Rightarrow> [] | Some r \<Rightarrow> r) \<in> {''owner'', ''admin'', ''member''})\<rparr>,
     \<lparr>pol_id = ''note-owner-access'',
      pol_resourceType = Some (One ''note''),
      pol_action = Many [''notes:read'', ''notes:update'', ''notes:delete''],
      pol_effect = ALLOW,
      pol_condition = (\<lambda>pr resource ctx.
        case resource of None \<Rightarrow> False
        | Some r \<Rightarrow> d_tenantId r = ostr (p_tenantId pr) \<and> d_ownerId r = JStr (p_id pr))\<rparr>,
     \<lparr>pol_id = ''note-department-read'',
      pol_resourceType = Some (One ''note''),
      pol_action = One ''notes:read'',
      pol_effect = ALLOW,
      pol_condition = (\<lambda>pr resource ctx.
        case resource of None \<Rightarrow> False
        | Some r \<Rightarrow>
            let sameDept = (case js_string (js_get (d_attributes r) ''department'') of
                              None \<Rightarrow> False | Some d \<Rightarrow> p_department pr = Some d);
                sameTenant = d_tenantId r = ostr (p_tenantId pr)
            in sameDept \<and> sameTenant)\<rparr>]"

definition filePolicies :: "policy list" where
  "filePolicies =
    [\<lparr>pol_id = ''file-owner-access'',
      pol_resourceType = Some (One ''file''),
      pol_action = Many [''files:read'', ''files:upload'', ''files:delete''],
      pol_effect = ALLOW,
      pol_condition = (\<lambda>pr resource ctx.
        case resource of None \<Rightarrow> False
        | Some r \<Rightarrow>
            let uploadedBy = nullish (js_get (d_data r) ''uploadedBy'')
                               (js_get (d_attributes r) ''uploadedBy'')
            in (\<not> js_truthy (d_tenantId r) \<or> d_tenantId r = ostr (p_tenantId pr)) \<and>
               (d_ownerId r = JStr (p_id pr) \<or> uploadedBy = JStr (p_id pr)))\<rparr>,
     \<lparr>pol_id = ''file-avatar-read'',
      pol_resourceType = Some (One ''file''),
      pol_action = One ''files:read'',
      pol_effect = ALLOW,
      pol_condition = (\<lambda>pr resource ctx.
        case resource of None \<Rightarrow> False
        | Some r \<Rightarrow>
            js_get (d_data r) ''slot'' = JStr ''avatar'' \<or>
            js_get (d_data r) ''parentType'' = JStr ''user'' \<or>
            js_get (d_attributes r) ''slot'' = JStr ''avatar'' \<or>
            js_get (d_attributes r) ''parentType'' = JStr ''user'')\<rparr>,
     \<lparr>pol_id = ''file-public-download'',
      pol_resourceType = Some (One ''file''),
      pol_action = One ''files:read'',
      pol_effect = ALLOW,
      pol_condition = (\<lambda>pr resource ctx.
        case resource of None \<Rightarrow> False
        | Some r \<Rightarrow>
            let isNotConfidential = js_get (d_attributes r) ''isConfidential'' \<noteq> JBool True;
                sameTenant = \<not> js_truthy (d_tenantId r) \<or> d_tenantId r = ostr (p_tenantId pr)
            in isNotConfidential \<and> sameTenant)\<rparr>]"

section \<open>AuthorizationService\<close>

text \<open>
  The service holds the policy list and an optional event emitter. A denied check emits one
  \<open>authorization.denied\<close> event; its random \<open>decisionId\<close> is left out, and so is the debug
  log line of every decision.
\<close>

record authorization_service =
  svc_policies :: "policy list"
  svc_has_events :: bool

record denied_event =
  ev_principalId :: string
  ev_action :: string
  ev_resourceType :: "string option"
  ev_tenantId :: "string option"
  ev_reason :: decision_reason

definition new_service :: "bool \<Rightarrow> authorization_service" where
  "new_service has_events = \<lparr>svc_policies = defaultFoundationalPolicies, svc_has_events = has_events\<rparr>"

definition registerPolicies :: "authorization_service \<Rightarrow> policy list \<Rightarrow> authorization_service" where
  "registerPolicies svc newPolicies = svc\<lparr>svc_policies := svc_policies svc @ newPolicies\<rparr>"

definition getResourceType :: "js \<Rightarrow> string option" where
  "getResourceType resource = js_string (js_get resource ''type'')"

definition check ::
  "(string, string) jmap \<Rightarrow> authorization_service \<Rightarrow> auth_request \<Rightarrow> decision \<times> denied_event list" where
  "check custom svc request =
    (let decision = evaluateAuthorization custom request (svc_policies svc) in
     (decision,
      if \<not> allowed decision \<and> svc_has_events svc then
        [\<lparr>ev_principalId = p_id (rq_principal request),
          ev_action = rq_action request,
          ev_resourceType = (case rq_resourceType request of
              Some t \<Rightarrow> Some t | None \<Rightarrow> getResourceType (rq_resource request)),
          ev_tenantId = p_tenantId (rq_principal request),
          ev_reason = reason decision\<rparr>]
      else []))"

datatype http_error =
    Forbidden "decision_reason option"
  | BadRequest string
  | Unauthorized
  | TooManyRequests

definition assert_access ::
  "(string, string) jmap \<Rightarrow> authorization_service \<Rightarrow> auth_request
     \<Rightarrow> (http_error + decision) \<times> denied_event list" where
  "assert_access custom svc request =
    (let (decision, evs) = check custom svc request in
     (if \<not> allowed decision then Inl (Forbidden (Some (reason decision))) else Inr decision, evs))"

definition can ::
  "(string, string) jmap \<Rightarrow> authorization_service \<Rightarrow> principal \<Rightarrow> string \<Rightarrow> js \<Rightarrow> string option
     \<Rightarrow> bool \<times> denied_event list" where
  "can custom svc pr action resource resourceType =
    (let (decision, evs) = check custom svc
           \<lparr>rq_principal = pr, rq_action = action, rq_resource = resource,
            rq_resourceType = resourceType, rq_context = JUndef\<rparr>
     in (allowed decision, evs))"

text \<open>
  \<open>actions.some(can)\<close> stops at the first allowed action, \<open>actions.every(can)\<close> at the
  first denied one; the events of the checks made so far stay emitted.
\<close>

fun some_can :: "(string \<Rightarrow> bool \<times> 'e list) \<Rightarrow> string list \<Rightarrow> bool \<times> 'e list" where
  "some_can c [] = (False, [])"
| "some_can c (a # as) =
     (case c a of (True, evs) \<Rightarrow> (True, evs)
      | (False, evs) \<Rightarrow> (case some_can c as of (r, evs') \<Rightarrow> (r, evs @ evs')))"

fun every_can :: "(string \<Rightarrow> bool \<times> 'e list) \<Rightarrow> string list \<Rightarrow> bool \<times> 'e list" where
  "every_can c [] = (True, [])"
| "every_can c (a # as) =
     (case c a of (False, evs) \<Rightarrow> (False, evs)
      | (True, evs) \<Rightarrow> (case every_can c as of (r, evs') \<Rightarrow> (r, evs @ evs')))"

section \<open>The permission guard\<close>

record authenticated_user =
  sub :: string
  email :: string
  role :: string

datatype tenancy_mode = Single | Multi

record tenant_context =
  tc_mode :: tenancy_mode
  tc_tenantId :: "string option"
  tc_membershipId :: "string option"
  tc_role :: "string option"

datatype permission_meta = MetaList "permission list" | MetaRequirement "permission list" match_mode

definition resolveRequestResource :: "js \<Rightarrow> string option \<Rightarrow> js" where
  "resolveRequestResource params tenantId =
    JObj ([(''type'', JStr ''request'')] @
      (case js_string (js_get params ''id'') of
         Some i \<Rightarrow> if i \<noteq> [] then [(''id'', JStr i)] else [] | None \<Rightarrow> []) @
      (case tenantId of Some t \<Rightarrow> if t \<noteq> [] then [(''tenantId'', JStr t)] else [] | None \<Rightarrow> []))"

definition guard_principal :: "authenticated_user \<Rightarrow> tenant_context option \<Rightarrow> principal" where
  "guard_principal user tenant =
     \<lparr>p_id = sub user, p_email = email user, p_role = role user,
      p_tenantId = Option.bind tenant tc_tenantId,
      p_tenantRole = Option.bind tenant tc_role,
      p_department = None, p_attributes = JUndef\<rparr>"

definition PermissionsGuard_canActivate ::
  "(string, string) jmap \<Rightarrow> authorization_service option \<Rightarrow> permission_meta option
     \<Rightarrow> authenticated_user option \<Rightarrow> tenant_context option \<Rightarrow> js
     \<Rightarrow> (http_error + bool) \<times> denied_event list" where
  "PermissionsGuard_canActivate custom authorization raw user tenant params =
    (case raw of None \<Rightarrow> (Inr True, [])
     | Some meta \<Rightarrow>
       let (permissions, mode) = (case meta of MetaList ps \<Rightarrow> (ps, AllOf)
                                  | MetaRequirement ps m \<Rightarrow> (ps, m)) in
       if permissions = [] then (Inr True, [])
       else (case user of None \<Rightarrow> (Inl (Forbidden None), [])
         | Some u \<Rightarrow>
           if role u = [] then (Inl (Forbidden None), [])
           else (case authorization of None \<Rightarrow> (Inl (Forbidden None), [])
             | Some svc \<Rightarrow>
               let pr = guard_principal u tenant;
                   resource = resolveRequestResource params (Option.bind tenant tc_tenantId);
                   ask = (\<lambda>action. can custom svc pr action resource (Some ''request''));
                   (ok, evs) = (if mode = AnyOf then some_can ask permissions
                                else every_can ask permissions)
               in (if \<not> ok then Inl (Forbidden None) else Inr True, evs))))"

section \<open>Object-level checks\<close>

definition principalFor :: "authenticated_user \<Rightarrow> tenant_context option \<Rightarrow> principal" where
  "principalFor actor tenant =
     \<lparr>p_id = sub actor, p_email = email actor, p_role = role actor,
      p_tenantId = Option.bind tenant tc_tenantId,
      p_tenantRole = Option.bind tenant tc_role,
      p_department = None, p_attributes = JUndef\<rparr>"

definition canAccessResource ::
  "(string, string) jmap \<Rightarrow> authorization_service option \<Rightarrow> tenant_context option
     \<Rightarrow> authenticated_user \<Rightarrow> string \<Rightarrow> string \<Rightarrow> js \<Rightarrow> bool \<times> denied_event list" where
  "canAccessResource custom authorization tenant actor action resourceType resource =
    (case authorization of None \<Rightarrow> (False, [])
     | Some svc \<Rightarrow>
       let (decision, evs) = check custom svc
             \<lparr>rq_principal = principalFor actor tenant, rq_action = action, rq_resource = resource,
              rq_resourceType = Some resourceType, rq_context = JUndef\<rparr>
       in (allowed decision, evs))"

definition canListTenantResources ::
  "(string, string) jmap \<Rightarrow> authorization_service option \<Rightarrow> tenant_context option
     \<Rightarrow> authenticated_user \<Rightarrow> string \<Rightarrow> bool \<times> denied_event list" where
  "canListTenantResources custom authorization tenant actor action =
    (case authorization of None \<Rightarrow> (False, [])
     | Some svc \<Rightarrow> can custom svc (principalFor actor tenant) action JUndef None)"

end
