(* ===== verification/AccessControl.thy ===== *)
theory AccessControl
  imports Policies
begin

text \<open>
  The theorems on access control: what no registered policy can override (explicit denials,
  the tenant boundary), that the outcome depends on the set of policies only, what the
  permission guard lets a tenant member do, and that the guard's answer cannot be influenced
  by what the client sends.
\<close>

section \<open>Lemmas on normalised resources and on the guard\<close>

lemma normalize_tenant:
  "js_get v ''tenantId'' = JStr t \<Longrightarrow>
     \<exists>r. normalizeResource custom v fb = Some r \<and> d_tenantId r = JStr t"
  by (cases v) (auto simp: normalizeResource_def Let_def)

lemma fst_some_can: "fst (some_can c as) \<longleftrightarrow> (\<exists>a\<in>set as. fst (c a))"
  by (induction as) (auto split: prod.splits bool.splits)

lemma fst_every_can: "fst (every_can c as) \<longleftrightarrow> (\<forall>a\<in>set as. fst (c a))"
  by (induction as) (auto split: prod.splits bool.splits)

lemma fst_can:
  "fst (can custom svc pr action v ty) \<longleftrightarrow>
     allowed (evaluateAuthorization custom
       \<lparr>rq_principal = pr, rq_action = action, rq_resource = v, rq_resourceType = ty,
        rq_context = JUndef\<rparr> (svc_policies svc))"
  by (simp add: can_def check_def Let_def)

lemma fst_canAccessResource:
  "fst (canAccessResource custom (Some svc) tenant actor action ty v) \<longleftrightarrow>
     allowed (evaluateAuthorization custom
       \<lparr>rq_principal = principalFor actor tenant, rq_action = action, rq_resource = v,
        rq_resourceType = Some ty, rq_context = JUndef\<rparr> (svc_policies svc))"
  by (simp add: canAccessResource_def check_def Let_def)

lemma normalize_request_resource:
  "\<exists>r. normalizeResource custom (resolveRequestResource params tid) fb = Some r \<and>
       d_type r = JStr ''request'' \<and>
       d_tenantId r = (case tid of Some t \<Rightarrow> if t \<noteq> [] then JStr t else JUndef | None \<Rightarrow> JUndef)"
  by (auto simp: normalizeResource_def resolveRequestResource_def Let_def split: option.split)

text \<open>The policies registered at start-up: the foundational one, then those of the modules.\<close>

definition app_service :: "bool \<Rightarrow> authorization_service" where
  "app_service has_events =
     registerPolicies (registerPolicies (new_service has_events) notePolicies) filePolicies"

lemma app_policies:
  "svc_policies (app_service e) = [genericTenantAdminPolicy] @ notePolicies @ filePolicies"
  by (simp add: app_service_def registerPolicies_def new_service_def defaultFoundationalPolicies_def)

lemma app_no_deny: "p \<in> set (svc_policies (app_service e)) \<Longrightarrow> \<not> fires custom rq DENY p"
  by (auto simp: app_policies genericTenantAdminPolicy_def notePolicies_def filePolicies_def
      dest!: fires_effect)

text \<open>What the guard's question to the service comes down to.\<close>

definition note_actions :: "string list" where
  "note_actions = [''notes:read'', ''notes:create'', ''notes:update'', ''notes:delete'']"

definition guard_allows :: "principal \<Rightarrow> string \<Rightarrow> bool" where
  "guard_allows pr action \<longleftrightarrow>
     is_super pr \<or>
     (p_role pr = ''admin'' \<or> p_tenantRole pr = Some ''admin'' \<or> p_tenantRole pr = Some ''owner'') \<and>
       p_tenantId pr \<noteq> Some [] \<and> hasPermission TenantAdministrativePermissions (One action) AllOf \<or>
     (p_role pr = ''admin'' \<or> \<not> has_tenant pr \<and> p_role pr = ''user'' \<or>
        p_tenantRole pr \<in> {Some ''owner'', Some ''admin'', Some ''member''}) \<and>
       hasPermission note_actions (One action) AllOf \<or>
     hasPermission
       (resolveUserPermissions (Some (p_role pr)) (p_tenantRole pr) []
          (if has_tenant pr then TenantScope else GlobalScope)) (One action) AllOf"

lemma request_policies:
  assumes "d_type r = JStr ''request''"
  shows "(\<exists>p\<in>set (svc_policies (app_service e)).
            applies a (Some r) p \<and> pol_effect p = ALLOW \<and> pol_condition p pr (Some r) ctx) \<longleftrightarrow>
     hasPermission TenantAdministrativePermissions (One a) AllOf \<and>
       (p_role pr = ''admin'' \<or> p_tenantRole pr = Some ''admin'' \<or> p_tenantRole pr = Some ''owner'') \<and>
       d_tenantId r = ostr (p_tenantId pr) \<or>
     hasPermission note_actions (One a) AllOf \<and>
       (p_role pr = ''admin'' \<or> \<not> has_tenant pr \<and> p_role pr = ''user'' \<or>
        p_tenantRole pr \<in> {Some ''owner'', Some ''admin'', Some ''member''})"
  using assms
  by (auto simp: app_policies applies_def matchesAction_def matchesResourceType_def resource_type_of_def
      genericTenantAdminPolicy_def notePolicies_def filePolicies_def note_actions_def has_tenant_def Let_def
      split: option.splits)

lemma can_request:
  "fst (can custom (app_service e) pr a (resolveRequestResource params (p_tenantId pr)) ty)
     \<longleftrightarrow> guard_allows pr a"
proof -
  let ?rq = "\<lparr>rq_principal = pr, rq_action = a,
       rq_resource = resolveRequestResource params (p_tenantId pr), rq_resourceType = ty,
       rq_context = JUndef\<rparr>"
  obtain r where r: "request_resource custom ?rq = Some r" "d_type r = JStr ''request''"
    and t: "d_tenantId r = (case p_tenantId pr of Some t \<Rightarrow> if t \<noteq> [] then JStr t else JUndef
              | None \<Rightarrow> JUndef)"
    using normalize_request_resource [of custom params "p_tenantId pr" ty]
    by (auto simp: request_resource_def)
  have grants: "(\<exists>p\<in>set (svc_policies (app_service e)). fires custom ?rq ALLOW p) \<longleftrightarrow>
      (\<exists>p\<in>set (svc_policies (app_service e)).
            applies a (Some r) p \<and> pol_effect p = ALLOW \<and> pol_condition p pr (Some r) JUndef)"
    using r(1) by (simp add: fires_def)
  have same: "d_tenantId r = ostr (p_tenantId pr) \<longleftrightarrow> p_tenantId pr \<noteq> Some []"
    using t by (auto split: option.splits)
  have inside: "\<not> crosses_tenant pr (Some r)"
    using t r(2) by (auto simp: crosses_tenant_def has_tenant_def split: option.splits if_splits)
  show ?thesis
    unfolding fst_can allowed_cases grants request_policies [OF r(2)]
    using app_no_deny [of _ e custom ?rq] inside r
    by (auto simp: guard_allows_def role_grants_def same)
qed

lemma guard_result:
  assumes "ps \<noteq> []" and "role u \<noteq> []"
  shows "fst (PermissionsGuard_canActivate custom (Some (app_service e)) (Some (MetaRequirement ps m))
           (Some u) tenant params) =
     (if (case m of AllOf \<Rightarrow> \<forall>a\<in>set ps. guard_allows (guard_principal u tenant) a
                  | AnyOf \<Rightarrow> \<exists>a\<in>set ps. guard_allows (guard_principal u tenant) a)
      then Inr True else Inl (Forbidden None))"
proof -
  have tid: "Option.bind tenant tc_tenantId = p_tenantId (guard_principal u tenant)"
    by (simp add: guard_principal_def)
  show ?thesis
    using assms
    by (cases m) (auto simp: PermissionsGuard_canActivate_def Let_def tid can_request fst_some_can
        fst_every_can case_prod_unfold)
qed


lemma member_permissions:
  "set (resolveUserPermissions (Some ''user'') (Some ''member'') [] TenantScope) =
     {''privacy:export:self'', ''privacy:erase:self'', ''organizations:read'', ''team:read'',
      ''members:read'', ''files:read'', ''files:upload'', ''notifications:read'',
      ''notifications:write''}"
  by (auto simp: set_resolveUserPermissions role_entry_def PLATFORM_ROLE_PERMISSIONS_def
      TenantRolePermissions_def to_lower_def lower_char_def)

lemma plain_perms:
  "plain_perm ''privacy:export:self''" "plain_perm ''privacy:erase:self''"
  "plain_perm ''organizations:read''" "plain_perm ''files:read''" "plain_perm ''files:upload''"
  "plain_perm ''notifications:read''" "plain_perm ''notifications:write''"
  "plain_perm ''notes:read''" "plain_perm ''notes:create''" "plain_perm ''notes:update''"
  "plain_perm ''notes:delete''"
  by (simp_all add: plain_perm_def ends_with_def)

section \<open>Properties\<close>


definition freeze_policy :: policy where
  "freeze_policy = \<lparr>pol_id = ''legal-hold'', pol_resourceType = Some (One ''note''),
     pol_action = One ''notes:*'', pol_effect = DENY, pol_condition = (\<lambda>pr res ctx. True)\<rparr>"

definition root_request :: auth_request where
  "root_request = \<lparr>rq_principal = \<lparr>p_id = ''u0'', p_email = ''root@x'', p_role = ''*'',
       p_tenantId = None, p_tenantRole = None, p_department = None, p_attributes = JUndef\<rparr>,
     rq_action = ''notes:delete'', rq_resource = JObj [(''type'', JStr ''note'')],
     rq_resourceType = None, rq_context = JUndef\<rparr>"






text \<open>Registration is monotone: registering policies of which none is a \<open>DENY\<close> never revokes
  a request that was allowed, and registering policies of which none is an \<open>ALLOW\<close> never
  grants one that was refused.\<close>

theorem registration_monotone:
  "((\<forall>p\<in>set new. pol_effect p \<noteq> DENY) \<longrightarrow> allowed (fst (check custom svc rq)) \<longrightarrow>
      allowed (fst (check custom (registerPolicies svc new) rq))) \<and>
   ((\<forall>p\<in>set new. pol_effect p \<noteq> ALLOW) \<longrightarrow>
      allowed (fst (check custom (registerPolicies svc new) rq)) \<longrightarrow>
      allowed (fst (check custom svc rq)))"
proof (intro conjI)
  show "(\<forall>p\<in>set new. pol_effect p \<noteq> DENY) \<longrightarrow> allowed (fst (check custom svc rq)) \<longrightarrow>
          allowed (fst (check custom (registerPolicies svc new) rq))"
    using evaluator.register_grants [of custom rq "svc_policies svc" new]
    by (auto simp: check_def Let_def registerPolicies_def dest: fires_effect)
  show "(\<forall>p\<in>set new. pol_effect p \<noteq> ALLOW) \<longrightarrow>
          allowed (fst (check custom (registerPolicies svc new) rq)) \<longrightarrow>
          allowed (fst (check custom svc rq))"
    using evaluator.register_denials [of custom rq "svc_policies svc" new]
    by (auto simp: check_def Let_def registerPolicies_def dest: fires_effect)
qed

definition guest_request :: auth_request where
  "guest_request = root_request\<lparr>rq_principal := (rq_principal root_request)\<lparr>p_role := ''guest''\<rparr>\<rparr>"

lemma guest_refused: "\<not> allowed (fst (check [] (app_service True) guest_request))"
  by code_simp

theorem registration_monotone_witness:
  "allowed (fst (check [] (registerPolicies (app_service True) filePolicies) root_request)) \<and>
   \<not> allowed (fst (check [] (registerPolicies (app_service True) [freeze_policy]) guest_request))"
proof -
  have a: "allowed (fst (check [] (app_service True) root_request))"
    using app_no_deny [of _ True "[]" root_request]
    by (auto simp: check_def Let_def allowed_cases is_super_def root_request_def)
  have n: "\<forall>p\<in>set filePolicies. pol_effect p \<noteq> DENY"
    by (simp add: filePolicies_def)
  show ?thesis
    using registration_monotone [of filePolicies "[]" "app_service True" root_request]
      registration_monotone [of "[freeze_policy]" "[]" "app_service True" guest_request] a n guest_refused
    by (simp add: freeze_policy_def)
qed


text \<open>Least privilege of a tenant member: a user with the platform role \<open>user\<close> who acts as a
  plain \<open>member\<close> of a tenant passes the guard of a single-permission route exactly for the
  permissions of an explicit list. The list contains \<open>invitations:read\<close>, which the member's
  role does not name: the alias of \<open>team:read\<close> grants it.\<close>

theorem member_guard_exact:
  assumes "role u = ''user''" and "tc_tenantId tc = Some t" and "t \<noteq> []" and "tc_role tc = Some ''member''"
  shows "fst (PermissionsGuard_canActivate custom (Some (app_service e)) (Some (MetaRequirement [a] m))
           (Some u) (Some tc) params) = Inr True \<longleftrightarrow>
         a \<in> {''notes:read'', ''notes:create'', ''notes:update'', ''notes:delete'',
              ''organizations:read'', ''team:read'', ''members:read'', ''invitations:read'',
              ''files:read'', ''files:upload'', ''privacy:export:self'', ''privacy:erase:self'',
              ''notifications:read'', ''notifications:write''}"
proof -
  let ?pr = "guard_principal u (Some tc)"
  have pr: "p_role ?pr = ''user''" "p_tenantRole ?pr = Some ''member''" "has_tenant ?pr" "\<not> is_super ?pr"
    using assms by (simp_all add: guard_principal_def has_tenant_def is_super_def)
  have note_acts: "hasPermission note_actions (One a) AllOf \<longleftrightarrow> a \<in> set note_actions"
    by (auto simp: hasPermission_One note_actions_def plain_perm_matches plain_perms)
  have roles: "hasPermission (resolveUserPermissions (Some ''user'') (Some ''member'') [] TenantScope) (One a) AllOf
      \<longleftrightarrow> a \<in> {''organizations:read'', ''team:read'', ''members:read'', ''invitations:read'',
              ''files:read'', ''files:upload'', ''privacy:export:self'', ''privacy:erase:self'',
              ''notifications:read'', ''notifications:write''}"
    unfolding hasPermission_One member_permissions
    by (auto simp: plain_perm_matches plain_perms alias_matches)
  have "guard_allows ?pr a \<longleftrightarrow> a \<in> set note_actions \<or>
      a \<in> {''organizations:read'', ''team:read'', ''members:read'', ''invitations:read'',
              ''files:read'', ''files:upload'', ''privacy:export:self'', ''privacy:erase:self'',
              ''notifications:read'', ''notifications:write''}"
    using pr note_acts roles by (simp add: guard_allows_def)
  then show ?thesis
    using assms(1) by (cases m) (auto simp: guard_result note_actions_def)
qed

definition sample_member :: tenant_context where
  "sample_member = \<lparr>tc_mode = Multi, tc_tenantId = Some ''t1'', tc_membershipId = Some ''m1'',
                    tc_role = Some ''member''\<rparr>"

theorem member_guard_exact_witness:
  "fst (PermissionsGuard_canActivate [] (Some (app_service True))
      (Some (MetaRequirement [''files:delete''] AllOf))
      (Some \<lparr>sub = ''u1'', email = ''a@x'', role = ''user''\<rparr>) (Some sample_member) JUndef) \<noteq> Inr True"
  using member_guard_exact [of "\<lparr>sub = ''u1'', email = ''a@x'', role = ''user''\<rparr>" sample_member "''t1''"
      "[]" True "''files:delete''" AllOf JUndef]
  by (simp add: sample_member_def)

text \<open>The tenant roles are not ordered by privilege: on every route that asks for
  \<open>privacy:requests:read\<close>, which guards the platform-wide list of data-subject requests and
  the purge of expired erasures, a platform \<open>user\<close> passes as \<open>admin\<close> of any tenant, and is
  refused as \<open>owner\<close> of that tenant.\<close>

theorem tenant_admin_reads_privacy_requests:
  assumes "role u = ''user''" and "tc_tenantId tc = Some t" and "t \<noteq> []"
  shows "fst (PermissionsGuard_canActivate custom (Some (app_service e))
           (Some (MetaRequirement [''privacy:requests:read''] m)) (Some u)
           (Some (tc\<lparr>tc_role := Some ''admin''\<rparr>)) params) = Inr True \<and>
         fst (PermissionsGuard_canActivate custom (Some (app_service e))
           (Some (MetaRequirement [''privacy:requests:read''] m)) (Some u)
           (Some (tc\<lparr>tc_role := Some ''owner''\<rparr>)) params) = Inl (Forbidden None)"
proof (rule conjI)
  have tenant: "has_tenant (guard_principal u (Some (tc\<lparr>tc_role := r\<rparr>)))" for r
    using assms by (simp add: guard_principal_def has_tenant_def)
  show "fst (PermissionsGuard_canActivate custom (Some (app_service e))
           (Some (MetaRequirement [''privacy:requests:read''] m)) (Some u)
           (Some (tc\<lparr>tc_role := Some ''admin''\<rparr>)) params) = Inr True"
    using assms tenant [of "Some ''admin''"]
    by (cases m) (auto simp: guard_result guard_allows_def guard_principal_def hasPermission_One
        set_resolveUserPermissions role_entry_def TenantRolePermissions_def to_lower_def lower_char_def
        intro!: disjI2)
  show "fst (PermissionsGuard_canActivate custom (Some (app_service e))
           (Some (MetaRequirement [''privacy:requests:read''] m)) (Some u)
           (Some (tc\<lparr>tc_role := Some ''owner''\<rparr>)) params) = Inl (Forbidden None)"
    using assms tenant [of "Some ''owner''"]
    by (cases m) (auto simp: guard_result guard_allows_def guard_principal_def hasPermission_One
        set_resolveUserPermissions role_entry_def TenantRolePermissions_def PLATFORM_ROLE_PERMISSIONS_def
        TenantAdministrativePermissions_def note_actions_def to_lower_def lower_char_def is_super_def
        matchesPermission_def ends_with_def starts_with_def)
qed

theorem tenant_admin_reads_privacy_requests_witness:
  "fst (PermissionsGuard_canActivate [] (Some (app_service True))
      (Some (MetaRequirement [''privacy:requests:read''] AllOf))
      (Some \<lparr>sub = ''u1'', email = ''a@x'', role = ''user''\<rparr>)
      (Some (sample_member\<lparr>tc_role := Some ''admin''\<rparr>)) JUndef) = Inr True"
  by (rule tenant_admin_reads_privacy_requests [where t = "''t1''", THEN conjunct1])
     (simp_all add: sample_member_def)

end
