(* ===== verification/Repository.thy ===== *)
theory Repository
  imports JsValue
begin

text \<open>
  The base classes of every repository, \<open>infrastructure/database/repositories/base-read.repository.ts\<close>,
  \<open>base.repository.ts\<close> and \<open>cursor-pagination.helper.ts\<close>, with the tenant context they consult,
  \<open>infrastructure/database/tenancy/tenant-context.service.ts\<close>. A table is the list of its rows and
  a query is evaluated on it. What PostgreSQL decides is an argument: how it compares values and
  what random ids and clocks show.
\<close>

section \<open>Tenant context\<close>

datatype deployment = Single | Multi

record context_store =
  cs_tenantMode :: deployment
  cs_tenantId :: "string option"
  cs_membershipId :: "string option"
  cs_role :: "string option"
  cs_systemScope :: bool

record tenancy =
  ty_mode :: deployment
  ty_tenantId :: "string option"
  ty_membershipId :: "string option"
  ty_role :: "string option"

definition context_get :: "deployment \<Rightarrow> context_store \<Rightarrow> tenancy" where
  "context_get mode cls =
    (if mode = Single then \<lparr>ty_mode = Single, ty_tenantId = None, ty_membershipId = None, ty_role = None\<rparr>
     else \<lparr>ty_mode = Multi, ty_tenantId = cs_tenantId cls, ty_membershipId = cs_membershipId cls, ty_role = cs_role cls\<rparr>)"

definition isSystemScope :: "context_store \<Rightarrow> bool" where
  "isSystemScope cls \<longleftrightarrow> cs_systemScope cls"

definition getRequiredTenantId :: "deployment \<Rightarrow> context_store \<Rightarrow> string option" where
  "getRequiredTenantId mode cls = ty_tenantId (context_get mode cls)"

definition runWithScope :: "deployment \<Rightarrow> tenancy \<Rightarrow> bool \<Rightarrow> (context_store \<Rightarrow> 'a) \<Rightarrow> 'a" where
  "runWithScope mode ctx systemScope callback =
     callback \<lparr>cs_tenantMode = (if systemScope then mode else ty_mode ctx), cs_tenantId = ty_tenantId ctx,
       cs_membershipId = ty_membershipId ctx, cs_role = ty_role ctx, cs_systemScope = systemScope\<rparr>"

definition context_run :: "deployment \<Rightarrow> tenancy \<Rightarrow> (context_store \<Rightarrow> 'a) \<Rightarrow> 'a" where
  "context_run mode ctx callback = runWithScope mode ctx False callback"

definition runSystem :: "deployment \<Rightarrow> tenancy \<Rightarrow> (context_store \<Rightarrow> 'a) \<Rightarrow> 'a" where
  "runSystem mode ctx callback = runWithScope mode ctx True callback"

section \<open>Rows and conditions\<close>

text \<open>
  The value of a column: what JSON can carry, or a point in time (milliseconds). \<open>Null\<close> is SQL's
  \<open>NULL\<close>. A comparison with \<open>NULL\<close> is not true, so that it selects no row.
\<close>

datatype cell = Val js | Time int

abbreviation Null :: cell where "Null \<equiv> Val JNull"

type_synonym row = "(string \<times> cell) list"

definition cell_of :: "row \<Rightarrow> string \<Rightarrow> cell" where
  "cell_of r col = (case map_of r col of None \<Rightarrow> Null | Some c \<Rightarrow> c)"

definition sql_eq :: "cell \<Rightarrow> cell \<Rightarrow> bool" where
  "sql_eq a b \<longleftrightarrow> a \<noteq> Null \<and> b \<noteq> Null \<and> a = b"

definition sql_lt :: "(cell \<Rightarrow> cell \<Rightarrow> bool) \<Rightarrow> cell \<Rightarrow> cell \<Rightarrow> bool" where
  "sql_lt lt a b \<longleftrightarrow> a \<noteq> Null \<and> b \<noteq> Null \<and> lt a b"

text \<open>A repository: the columns of its table with their defaults, and whether it is scoped to tenants.\<close>

record repo =
  rp_columns :: "string list"
  rp_defaults :: row
  rp_tenantScoped :: bool

datatype repo_error = UnknownFilter string | UnknownSort string | StatementFailed

definition tenantFilter :: "repo \<Rightarrow> deployment \<Rightarrow> context_store \<Rightarrow> row" where
  "tenantFilter rp mode cls =
    (if \<not> rp_tenantScoped rp then []
     else (case ty_tenantId (context_get mode cls) of
             None \<Rightarrow> [] | Some t \<Rightarrow> if t = [] then [] else [(''tenantId'', Val (JStr t))]))"

definition isTenantIsolationRequired :: "repo \<Rightarrow> deployment \<Rightarrow> bool" where
  "isTenantIsolationRequired rp mode \<longleftrightarrow> rp_tenantScoped rp \<and> mode = Multi"

definition hasMissingTenantContext :: "repo \<Rightarrow> deployment \<Rightarrow> context_store \<Rightarrow> bool" where
  "hasMissingTenantContext rp mode cls \<longleftrightarrow>
     isTenantIsolationRequired rp mode \<and> tenantFilter rp mode cls = [] \<and> \<not> isSystemScope cls"

text \<open>\<open>{...a, ...b}\<close>\<close>

definition spread :: "row \<Rightarrow> row \<Rightarrow> row" where
  "spread a b = fold (\<lambda>(k, v) r. AList.update k v r) b a"

record find_options =
  fo_sort :: "(string \<times> int) list option"
  fo_limit :: "int option"
  fo_skip :: "int option"
  fo_includeDeleted :: bool
  fo_onlyDeleted :: bool

fun filter_clauses :: "repo \<Rightarrow> row \<Rightarrow> repo_error + (row \<Rightarrow> bool) list" where
  "filter_clauses rp [] = Inr []"
| "filter_clauses rp ((key, v) # rest) =
    (if key \<notin> set (rp_columns rp) then Inl (UnknownFilter key)
     else and_then (filter_clauses rp rest) (\<lambda>cs. Inr ((\<lambda>r. sql_eq (cell_of r key) v) # cs)))"

definition deleted_clauses :: "repo \<Rightarrow> bool \<Rightarrow> bool \<Rightarrow> (row \<Rightarrow> bool) list" where
  "deleted_clauses rp includeDeleted onlyDeleted =
    (if ''deletedAt'' \<notin> set (rp_columns rp) then []
     else if onlyDeleted then [\<lambda>r. cell_of r ''deletedAt'' \<noteq> Null]
     else if \<not> includeDeleted then [\<lambda>r. cell_of r ''deletedAt'' = Null] else [])"

text \<open>The conjunction of the clauses; with none the query is not restricted.\<close>

definition buildConditions :: "repo \<Rightarrow> row \<Rightarrow> bool \<Rightarrow> bool \<Rightarrow> repo_error + (row \<Rightarrow> bool)" where
  "buildConditions rp flt includeDeleted onlyDeleted =
     and_then (filter_clauses rp flt) (\<lambda>cs. Inr (\<lambda>r. \<forall>c\<in>set (cs @ deleted_clauses rp includeDeleted onlyDeleted). c r))"

section \<open>Order\<close>

datatype direction = Asc | Desc

text \<open>In the order of PostgreSQL \<open>NULL\<close> comes after every value.\<close>

definition cell_before :: "(cell \<Rightarrow> cell \<Rightarrow> bool) \<Rightarrow> cell \<Rightarrow> cell \<Rightarrow> bool" where
  "cell_before lt a b \<longleftrightarrow> (if a = Null then False else if b = Null then True else lt a b)"

fun row_before :: "(cell \<Rightarrow> cell \<Rightarrow> bool) \<Rightarrow> (string \<times> direction) list \<Rightarrow> row \<Rightarrow> row \<Rightarrow> bool" where
  "row_before lt [] r r' = False"
| "row_before lt ((col, d) # cols) r r' =
    (if cell_of r col = cell_of r' col then row_before lt cols r r'
     else if d = Asc then cell_before lt (cell_of r col) (cell_of r' col)
     else cell_before lt (cell_of r' col) (cell_of r col))"

fun insert_row :: "(row \<Rightarrow> row \<Rightarrow> bool) \<Rightarrow> row \<Rightarrow> row list \<Rightarrow> row list" where
  "insert_row before r [] = [r]"
| "insert_row before r (x # xs) = (if before x r then x # insert_row before r xs else r # x # xs)"

definition order_by :: "(cell \<Rightarrow> cell \<Rightarrow> bool) \<Rightarrow> (string \<times> direction) list \<Rightarrow> row list \<Rightarrow> row list" where
  "order_by lt cols rows = foldr (insert_row (row_before lt cols)) rows []"

fun order_columns :: "repo \<Rightarrow> (string \<times> int) list \<Rightarrow> repo_error + (string \<times> direction) list" where
  "order_columns rp [] = Inr []"
| "order_columns rp ((key, d) # rest) =
    (if key \<notin> set (rp_columns rp) then Inl (UnknownSort key)
     else and_then (order_columns rp rest) (\<lambda>cs. Inr ((key, if d = -1 then Desc else Asc) # cs)))"

definition requestedOrder :: "repo \<Rightarrow> (string \<times> int) list option \<Rightarrow> repo_error + (string \<times> direction) list" where
  "requestedOrder rp srt =
    (case srt of None \<Rightarrow> Inr (if ''createdAt'' \<in> set (rp_columns rp) then [(''createdAt'', Desc)] else [])
     | Some entries \<Rightarrow> order_columns rp entries)"

definition stable_order :: "repo \<Rightarrow> (string \<times> int) list option \<Rightarrow> repo_error + (string \<times> direction) list" where
  "stable_order rp srt = and_then (requestedOrder rp srt)
     (\<lambda>cs. Inr (if ''id'' \<in> set (rp_columns rp) then cs @ [(''id'', Asc)] else cs))"

section \<open>Reading\<close>

definition DEFAULT_FIND_LIMIT :: int where "DEFAULT_FIND_LIMIT = 1000"
definition MAX_FIND_LIMIT :: int where "MAX_FIND_LIMIT = 5000"

definition orElse :: "int option \<Rightarrow> int \<Rightarrow> int" where
  "orElse x d = (case x of None \<Rightarrow> d | Some v \<Rightarrow> v)"

definition repo_findOne :: "repo \<Rightarrow> deployment \<Rightarrow> context_store \<Rightarrow> row \<Rightarrow> find_options \<Rightarrow> row list \<Rightarrow> repo_error + row option" where
  "repo_findOne rp mode cls flt opts rows =
    (if hasMissingTenantContext rp mode cls then Inr None
     else and_then (buildConditions rp (spread flt (tenantFilter rp mode cls)) (fo_includeDeleted opts) (fo_onlyDeleted opts))
       (\<lambda>P. Inr (find P rows)))"

definition repo_findById :: "repo \<Rightarrow> deployment \<Rightarrow> context_store \<Rightarrow> string \<Rightarrow> find_options \<Rightarrow> row list \<Rightarrow> repo_error + row option" where
  "repo_findById rp mode cls rid opts rows =
    (if hasMissingTenantContext rp mode cls then Inr None
     else and_then (buildConditions rp (spread [(''id'', Val (JStr rid))] (tenantFilter rp mode cls))
         (fo_includeDeleted opts) (fo_onlyDeleted opts))
       (\<lambda>P. Inr (find P rows)))"

definition repo_find :: "(cell \<Rightarrow> cell \<Rightarrow> bool) \<Rightarrow> repo \<Rightarrow> deployment \<Rightarrow> context_store \<Rightarrow> row \<Rightarrow> find_options \<Rightarrow> row list
    \<Rightarrow> repo_error + row list" where
  "repo_find lt rp mode cls flt opts rows =
    (if hasMissingTenantContext rp mode cls then Inr []
     else
       let limit = min (orElse (fo_limit opts) DEFAULT_FIND_LIMIT) MAX_FIND_LIMIT;
           offset = max 0 (orElse (fo_skip opts) 0)
       in and_then (buildConditions rp (spread flt (tenantFilter rp mode cls)) (fo_includeDeleted opts) (fo_onlyDeleted opts))
         (\<lambda>P. and_then (stable_order rp (fo_sort opts))
         (\<lambda>cols. if limit < 0 then Inl StatementFailed
                 else Inr (take (nat limit) (drop (nat offset) (order_by lt cols (filter P rows)))))))"

definition repo_count :: "repo \<Rightarrow> deployment \<Rightarrow> context_store \<Rightarrow> row \<Rightarrow> row list \<Rightarrow> repo_error + nat" where
  "repo_count rp mode cls flt rows =
    (if hasMissingTenantContext rp mode cls then Inr 0
     else and_then (buildConditions rp (spread flt (tenantFilter rp mode cls)) False False)
       (\<lambda>P. Inr (length (filter P rows))))"

record page =
  pg_items :: "row list"
  pg_total :: int
  pg_page :: int
  pg_limit :: int
  pg_totalPages :: int
  pg_hasNextPage :: bool
  pg_hasPrevPage :: bool

definition repo_paginate :: "(cell \<Rightarrow> cell \<Rightarrow> bool) \<Rightarrow> repo \<Rightarrow> deployment \<Rightarrow> context_store \<Rightarrow> row \<Rightarrow> int option \<Rightarrow> find_options
    \<Rightarrow> row list \<Rightarrow> repo_error + page" where
  "repo_paginate lt rp mode cls flt page_opt opts rows =
    (if hasMissingTenantContext rp mode cls
     then Inr \<lparr>pg_items = [], pg_total = 0, pg_page = orElse page_opt 1, pg_limit = orElse (fo_limit opts) 20,
               pg_totalPages = 1, pg_hasNextPage = False, pg_hasPrevPage = False\<rparr>
     else
       let page = max 1 (orElse page_opt 1);
           limit = min MAX_FIND_LIMIT (max 1 (orElse (fo_limit opts) 20));
           offset = (page - 1) * limit
       in and_then (buildConditions rp (spread flt (tenantFilter rp mode cls)) (fo_includeDeleted opts) (fo_onlyDeleted opts))
         (\<lambda>P. and_then (stable_order rp (fo_sort opts))
         (\<lambda>cols.
           let items = take (nat limit) (drop (nat offset) (order_by lt cols (filter P rows)));
               total = int (length (filter P rows));
               totalPages = max 1 ((total + limit - 1) div limit)
           in Inr \<lparr>pg_items = items, pg_total = total, pg_page = page, pg_limit = limit, pg_totalPages = totalPages,
                   pg_hasNextPage = page < totalPages, pg_hasPrevPage = 1 < page\<rparr>)))"

section \<open>Cursors\<close>

text \<open>
  The library functions a cursor goes through: \<open>JSON.stringify\<close> followed by base64url and its
  inverse, which throws on a text that is no JSON; \<open>Date\<close> to ISO text and back; \<open>String\<close>.
\<close>

record codec =
  cc_pack :: "js \<Rightarrow> string"
  cc_unpack :: "string \<Rightarrow> js option"
  cc_iso :: "int \<Rightarrow> string"
  cc_date :: "string \<Rightarrow> int option"
  cc_string :: "cell \<Rightarrow> string"

definition digit :: "char \<Rightarrow> bool" where "digit c \<longleftrightarrow> c \<in> set ''0123456789''"

definition plain_char :: "char \<Rightarrow> bool" where
  "plain_char c \<longleftrightarrow> c \<in> set ''abcdefghijklmnopqrstuvwxyzABCDEFGHIJKLMNOPQRSTUVWXYZ0123456789_-''"

definition plain_cursor :: "string \<Rightarrow> bool" where
  "plain_cursor s \<longleftrightarrow> s \<noteq> [] \<and> length s \<le> 128 \<and> list_all plain_char s"

fun matches_shape :: "(char \<Rightarrow> bool) list \<Rightarrow> string \<Rightarrow> bool" where
  "matches_shape [] s = True"
| "matches_shape (p # ps) [] = False"
| "matches_shape (p # ps) (c # s) = (p c \<and> matches_shape ps s)"

definition date_like :: "string \<Rightarrow> bool" where
  "date_like s \<longleftrightarrow> matches_shape
     [digit, digit, digit, digit, (=) CHR ''-'', digit, digit, (=) CHR ''-'', digit, digit, (=) CHR ''T''] s"

record decoded_cursor =
  dc_val :: cell
  dc_id :: "string option"

fun is_object :: "js \<Rightarrow> bool" where
  "is_object (JObj fs) = True"
| "is_object (JArr xs) = True"
| "is_object _ = False"

definition revive_date :: "codec \<Rightarrow> js \<Rightarrow> cell" where
  "revive_date cc v =
    (case v of JStr s \<Rightarrow> if date_like s then (case cc_date cc s of None \<Rightarrow> Val v | Some t \<Rightarrow> Time t) else Val v
     | _ \<Rightarrow> Val v)"

definition bare_cursor :: "codec \<Rightarrow> string \<Rightarrow> decoded_cursor option" where
  "bare_cursor cc cursor =
     (if plain_cursor cursor then Some \<lparr>dc_val = revive_date cc (JStr cursor), dc_id = None\<rparr> else None)"

definition decodeCursor :: "codec \<Rightarrow> string option \<Rightarrow> decoded_cursor option" where
  "decodeCursor cc c =
    (case c of None \<Rightarrow> None
     | Some cursor \<Rightarrow>
         if cursor = [] then None
         else (case cc_unpack cc cursor of
                 None \<Rightarrow> bare_cursor cc cursor
               | Some parsed \<Rightarrow>
                   if is_object parsed \<and> js_has parsed ''val''
                   then Some \<lparr>dc_val = revive_date cc (js_get parsed ''val''), dc_id = js_string (js_get parsed ''id'')\<rparr>
                   else if is_object parsed \<and> js_has parsed ''v''
                   then Some \<lparr>dc_val = revive_date cc (js_get parsed ''v''), dc_id = js_string (js_get parsed ''id'')\<rparr>
                   else bare_cursor cc cursor))"

fun cell_json :: "codec \<Rightarrow> cell \<Rightarrow> js" where
  "cell_json cc (Time t) = JStr (cc_iso cc t)"
| "cell_json cc (Val v) = v"

definition cursor_json :: "codec \<Rightarrow> string \<Rightarrow> row \<Rightarrow> js" where
  "cursor_json cc field item = JObj ((''v'', cell_json cc (cell_of item field)) #
     (if cell_of item ''id'' = Null then [] else [(''id'', JStr (cc_string cc (cell_of item ''id'')))]))"

definition encodeCursor :: "codec \<Rightarrow> string \<Rightarrow> row \<Rightarrow> string option" where
  "encodeCursor cc field item =
    (if field = ''id'' then (if cell_of item ''id'' = Null then None else Some (cc_string cc (cell_of item ''id'')))
     else Some (cc_pack cc (cursor_json cc field item)))"

definition buildCursorClause ::
  "(cell \<Rightarrow> cell \<Rightarrow> bool) \<Rightarrow> bool \<Rightarrow> decoded_cursor \<Rightarrow> string \<Rightarrow> direction \<Rightarrow> row \<Rightarrow> bool" where
  "buildCursorClause lt hasId cursor field d r =
    (let c = cell_of r field; i = cell_of r ''id'';
         past = (\<lambda>a b. if d = Desc then sql_lt lt a b else sql_lt lt b a)
     in case dc_id cursor of
          Some cid \<Rightarrow>
            if field \<noteq> ''id'' \<and> cid \<noteq> [] \<and> hasId
            then past c (dc_val cursor) \<or> (sql_eq c (dc_val cursor) \<and> past i (Val (JStr cid)))
            else past c (dc_val cursor)
        | None \<Rightarrow> past c (dc_val cursor))"

definition buildCursorOrder :: "string \<Rightarrow> bool \<Rightarrow> string \<Rightarrow> direction \<Rightarrow> (string \<times> direction) list" where
  "buildCursorOrder orderCol hasId field d =
     (if field \<noteq> ''id'' \<and> hasId then [(orderCol, d), (''id'', d)] else [(orderCol, d)])"

record cursor_options =
  co_cursor :: "string option"
  co_limit :: "int option"
  co_cursorField :: "string option"
  co_direction :: "direction option"
  co_includeDeleted :: bool
  co_onlyDeleted :: bool

record cursor_page =
  cp_items :: "row list"
  cp_limit :: int
  cp_nextCursor :: "string option"
  cp_hasNextPage :: bool

definition empty_page :: "int \<Rightarrow> cursor_page" where
  "empty_page limit = \<lparr>cp_items = [], cp_limit = limit, cp_nextCursor = None, cp_hasNextPage = False\<rparr>"

definition cursor_field :: "cursor_options \<Rightarrow> string" where
  "cursor_field opts = (case co_cursorField opts of None \<Rightarrow> ''id'' | Some f \<Rightarrow> f)"

definition cursor_direction :: "cursor_options \<Rightarrow> direction" where
  "cursor_direction opts = (case co_direction opts of None \<Rightarrow> Desc | Some d \<Rightarrow> d)"

text \<open>The order of the query: by the column of the cursor, else by \<open>id\<close>, else none.\<close>

definition cursor_order :: "repo \<Rightarrow> string \<Rightarrow> direction \<Rightarrow> (string \<times> direction) list" where
  "cursor_order rp field d =
    (let hasId = ''id'' \<in> set (rp_columns rp)
     in if field \<in> set (rp_columns rp) then buildCursorOrder field hasId field d
        else if hasId then buildCursorOrder ''id'' hasId field d else [])"

text \<open>The limit of a page, the condition of its query and the page made of the rows found.\<close>

definition cursor_limit :: "cursor_options \<Rightarrow> int" where
  "cursor_limit opts = min MAX_FIND_LIMIT (max 1 (orElse (co_limit opts) 20))"

definition cursor_condition :: "(cell \<Rightarrow> cell \<Rightarrow> bool) \<Rightarrow> repo \<Rightarrow> cursor_options \<Rightarrow> decoded_cursor option \<Rightarrow> (row \<Rightarrow> bool) \<Rightarrow> row \<Rightarrow> bool" where
  "cursor_condition lt rp opts decoded P r \<longleftrightarrow> P r \<and>
     (case decoded of None \<Rightarrow> True
      | Some c \<Rightarrow> cursor_field opts \<in> set (rp_columns rp) \<longrightarrow>
          buildCursorClause lt (''id'' \<in> set (rp_columns rp)) c (cursor_field opts) (cursor_direction opts) r)"

definition page_of :: "codec \<Rightarrow> cursor_options \<Rightarrow> row list \<Rightarrow> cursor_page" where
  "page_of cc opts found =
    (let limit = cursor_limit opts;
         more = (limit < int (length found));
         items = (if more then take (nat limit) found else found)
     in \<lparr>cp_items = items, cp_limit = limit,
         cp_nextCursor = (if more \<and> items \<noteq> [] then encodeCursor cc (cursor_field opts) (last items) else None),
         cp_hasNextPage = more\<rparr>)"

definition paginateCursor :: "(cell \<Rightarrow> cell \<Rightarrow> bool) \<Rightarrow> codec \<Rightarrow> repo \<Rightarrow> deployment \<Rightarrow> context_store \<Rightarrow> row \<Rightarrow> cursor_options
    \<Rightarrow> row list \<Rightarrow> repo_error + cursor_page" where
  "paginateCursor lt cc rp mode cls flt opts rows =
    (if hasMissingTenantContext rp mode cls then Inr (empty_page (orElse (co_limit opts) 20))
     else
       let decoded = decodeCursor cc (co_cursor opts)
       in if (co_cursorField opts \<notin> {None, Some []} \<and> cursor_field opts \<notin> set (rp_columns rp)) \<or>
             (co_cursor opts \<notin> {None, Some []} \<and> decoded = None)
          then Inr (empty_page (cursor_limit opts))
          else and_then (buildConditions rp (spread flt (tenantFilter rp mode cls)) (co_includeDeleted opts) (co_onlyDeleted opts))
            (\<lambda>P. Inr (page_of cc opts (take (nat (cursor_limit opts + 1))
               (order_by lt (cursor_order rp (cursor_field opts) (cursor_direction opts))
                 (filter (cursor_condition lt rp opts decoded P) rows))))))"

section \<open>Writing\<close>

datatype write_error = TENANT_REQUIRED | CONFLICT | Failed repo_error

definition requiresTenantForWrite :: "repo \<Rightarrow> deployment \<Rightarrow> context_store \<Rightarrow> row \<Rightarrow> bool" where
  "requiresTenantForWrite rp mode cls data =
    (if \<not> isTenantIsolationRequired rp mode \<or> tenantFilter rp mode cls \<noteq> [] then False
     else if \<not> isSystemScope cls then True
     else (case cell_of data ''tenantId'' of Val (JStr t) \<Rightarrow> t = [] | _ \<Rightarrow> True))"

text \<open>
  \<open>INSERT\<close> stores a value for every column: that of the payload, else the default of the column.
  Constraints of particular tables are not part of the base classes; a statement that violates one
  fails and changes nothing.
\<close>

definition insert_payload :: "repo \<Rightarrow> deployment \<Rightarrow> context_store \<Rightarrow> int \<Rightarrow> string \<Rightarrow> row \<Rightarrow> row" where
  "insert_payload rp mode cls now random data =
     spread (spread data (tenantFilter rp mode cls))
       [(''id'', if cell_of data ''id'' = Null then Val (JStr random) else cell_of data ''id''),
        (''createdAt'', Time now), (''updatedAt'', Time now)]"

definition stored_row :: "repo \<Rightarrow> row \<Rightarrow> row" where
  "stored_row rp payload = map (\<lambda>c. (c, case map_of payload c of Some v \<Rightarrow> v | None \<Rightarrow> cell_of (rp_defaults rp) c)) (rp_columns rp)"

definition repo_create :: "repo \<Rightarrow> deployment \<Rightarrow> context_store \<Rightarrow> int \<Rightarrow> string \<Rightarrow> row \<Rightarrow> row list \<Rightarrow> (write_error + row) \<times> row list" where
  "repo_create rp mode cls now random data rows =
    (if requiresTenantForWrite rp mode cls data then (Inl TENANT_REQUIRED, rows)
     else (let r = stored_row rp (insert_payload rp mode cls now random data) in (Inr r, rows @ [r])))"

text \<open>\<open>randoms\<close>: one random id for each item. The query builder refuses an empty list.\<close>

definition repo_createMany :: "repo \<Rightarrow> deployment \<Rightarrow> context_store \<Rightarrow> int \<Rightarrow> string list \<Rightarrow> row list \<Rightarrow> row list
    \<Rightarrow> (write_error + row list) \<times> row list" where
  "repo_createMany rp mode cls now randoms items rows =
    (if list_ex (requiresTenantForWrite rp mode cls) items then (Inl TENANT_REQUIRED, rows)
     else if items = [] then (Inl (Failed StatementFailed), rows)
     else (let rs = map2 (\<lambda>random data. stored_row rp (insert_payload rp mode cls now random data)) randoms items
           in (Inr rs, rows @ rs)))"

text \<open>\<open>UPDATE ... SET ... RETURNING\<close>: only columns of the table are set.\<close>

definition set_columns :: "repo \<Rightarrow> row \<Rightarrow> row \<Rightarrow> row" where
  "set_columns rp update r =
     fold (\<lambda>(k, v) r. if k \<in> set (rp_columns rp) then AList.update k v r else r) update r"

definition update_rows :: "(row \<Rightarrow> bool) \<Rightarrow> (row \<Rightarrow> row) \<Rightarrow> row list \<Rightarrow> row list \<times> row list" where
  "update_rows P f rows = (map f (filter P rows), map (\<lambda>r. if P r then f r else r) rows)"

datatype expected = AnyVersion | ExpectVersion int | ExpectDate int

definition versionKey :: "repo \<Rightarrow> string" where
  "versionKey rp = (if ''version'' \<in> set (rp_columns rp) then ''version'' else ''authVersion'')"

definition version_clause :: "repo \<Rightarrow> expected \<Rightarrow> (row \<Rightarrow> bool) option" where
  "version_clause rp ex =
    (case ex of AnyVersion \<Rightarrow> Some (\<lambda>_. True)
     | ExpectVersion n \<Rightarrow> if versionKey rp \<in> set (rp_columns rp)
                          then Some (\<lambda>r. sql_eq (cell_of r (versionKey rp)) (Val (JNum n))) else None
     | ExpectDate t \<Rightarrow> if ''updatedAt'' \<in> set (rp_columns rp) then Some (\<lambda>r. sql_eq (cell_of r ''updatedAt'') (Time t)) else None)"

definition version_payload :: "repo \<Rightarrow> expected \<Rightarrow> row" where
  "version_payload rp ex = (case ex of ExpectVersion n \<Rightarrow> [(versionKey rp, Val (JNum (n + 1)))] | _ \<Rightarrow> [])"

definition repo_updateById :: "repo \<Rightarrow> deployment \<Rightarrow> context_store \<Rightarrow> int \<Rightarrow> string \<Rightarrow> row \<Rightarrow> expected \<Rightarrow> row list
    \<Rightarrow> (write_error + row option) \<times> row list" where
  "repo_updateById rp mode cls now rid update ex rows =
    (if hasMissingTenantContext rp mode cls then (Inr None, rows)
     else (case version_clause rp ex of
             None \<Rightarrow> (Inl CONFLICT, rows)
           | Some V \<Rightarrow>
               (case buildConditions rp (spread [(''id'', Val (JStr rid))] (tenantFilter rp mode cls)) False False of
                  Inl e \<Rightarrow> (Inl (Failed e), rows)
                | Inr P \<Rightarrow>
                    (case update_rows (\<lambda>r. P r \<and> V r)
                            (set_columns rp (spread (spread update (version_payload rp ex)) [(''updatedAt'', Time now)])) rows of
                       (returned, rows') \<Rightarrow>
                         (case returned of
                            [] \<Rightarrow> (if ex = AnyVersion then Inr None else Inl CONFLICT, rows')
                          | r # _ \<Rightarrow> (Inr (if cell_of r ''deletedAt'' = Null then Some r else None), rows'))))))"

definition repo_updateOne :: "repo \<Rightarrow> deployment \<Rightarrow> context_store \<Rightarrow> int \<Rightarrow> row \<Rightarrow> row \<Rightarrow> row list
    \<Rightarrow> (write_error + row option) \<times> row list" where
  "repo_updateOne rp mode cls now flt update rows =
    (if hasMissingTenantContext rp mode cls then (Inr None, rows)
     else (case buildConditions rp (spread flt (tenantFilter rp mode cls)) False False of
             Inl e \<Rightarrow> (Inl (Failed e), rows)
           | Inr P \<Rightarrow>
               (case update_rows P (set_columns rp (spread update [(''updatedAt'', Time now)])) rows of
                  (returned, rows') \<Rightarrow> (Inr (case returned of [] \<Rightarrow> None | r # _ \<Rightarrow> Some r), rows'))))"

definition tenant_clause :: "repo \<Rightarrow> deployment \<Rightarrow> context_store \<Rightarrow> row \<Rightarrow> bool" where
  "tenant_clause rp mode cls r \<longleftrightarrow>
     (case tenantFilter rp mode cls of
        [] \<Rightarrow> True
      | (k, t) # _ \<Rightarrow> ''tenantId'' \<in> set (rp_columns rp) \<longrightarrow> sql_eq (cell_of r ''tenantId'') t)"

text \<open>A table without the column \<open>deletedAt\<close> has no soft deletion: the statement does not parse.\<close>

definition repo_softDeleteById :: "repo \<Rightarrow> deployment \<Rightarrow> context_store \<Rightarrow> int \<Rightarrow> string \<Rightarrow> row list
    \<Rightarrow> (write_error + row option) \<times> row list" where
  "repo_softDeleteById rp mode cls now rid rows =
    (if hasMissingTenantContext rp mode cls then (Inr None, rows)
     else if ''deletedAt'' \<notin> set (rp_columns rp) then (Inl (Failed StatementFailed), rows)
     else (case update_rows (\<lambda>r. sql_eq (cell_of r ''id'') (Val (JStr rid)) \<and> tenant_clause rp mode cls r \<and> cell_of r ''deletedAt'' = Null)
                  (set_columns rp [(''deletedAt'', Time now), (''updatedAt'', Time now)]) rows of
             (returned, rows') \<Rightarrow> (Inr (case returned of [] \<Rightarrow> None | r # _ \<Rightarrow> Some r), rows')))"

definition repo_deleteById :: "repo \<Rightarrow> deployment \<Rightarrow> context_store \<Rightarrow> string \<Rightarrow> row list \<Rightarrow> (write_error + bool) \<times> row list" where
  "repo_deleteById rp mode cls rid rows =
    (if hasMissingTenantContext rp mode cls then (Inr False, rows)
     else (let P = (\<lambda>r. sql_eq (cell_of r ''id'') (Val (JStr rid)) \<and> tenant_clause rp mode cls r)
           in (Inr (filter P rows \<noteq> []), filter (\<lambda>r. \<not> P r) rows)))"

end
