(* ===== verification/RepositoryGuarantees.thy ===== *)
theory RepositoryGuarantees
  imports Repository
begin

text \<open>
  Tenant isolation of the base repository: over a table that many tenants share, every tenant
  works as if it had a table of its own. The argument is an unwinding: each operation of a context
  answers from the rows of its tenant alone, changes them as it would change a private table, and
  leaves every other row as it is.
\<close>

section \<open>Operations and their answers\<close>

datatype repo_op =
    FindOne row find_options
  | FindById string find_options
  | Find row find_options
  | Count row
  | Paginate row "int option" find_options
  | PaginateCursor row cursor_options
  | Create int string row
  | CreateMany int "string list" "row list"
  | UpdateById int string row expected
  | UpdateOne int row row
  | SoftDeleteById int string
  | DeleteById string

datatype answer =
    OneRow "repo_error + row option"
  | ManyRows "repo_error + row list"
  | Counted "repo_error + nat"
  | Page "repo_error + page"
  | CursorPage "repo_error + cursor_page"
  | Created "write_error + row"
  | CreatedMany "write_error + row list"
  | Updated "write_error + row option"
  | Deleted "write_error + bool"

text \<open>What does not change with the operation: the comparison of the database, the cursor codec, the repository.\<close>

record repo_env =
  re_lt :: "cell \<Rightarrow> cell \<Rightarrow> bool"
  re_cc :: codec
  re_rp :: repo
  re_mode :: deployment

fun repo_exec :: "repo_env \<Rightarrow> context_store \<Rightarrow> repo_op \<Rightarrow> row list \<Rightarrow> answer \<times> row list" where
  "repo_exec e cls (FindOne flt opts) rows = (OneRow (repo_findOne (re_rp e) (re_mode e) cls flt opts rows), rows)"
| "repo_exec e cls (FindById rid opts) rows = (OneRow (repo_findById (re_rp e) (re_mode e) cls rid opts rows), rows)"
| "repo_exec e cls (Find flt opts) rows = (ManyRows (repo_find (re_lt e) (re_rp e) (re_mode e) cls flt opts rows), rows)"
| "repo_exec e cls (Count flt) rows = (Counted (repo_count (re_rp e) (re_mode e) cls flt rows), rows)"
| "repo_exec e cls (Paginate flt n opts) rows = (Page (repo_paginate (re_lt e) (re_rp e) (re_mode e) cls flt n opts rows), rows)"
| "repo_exec e cls (PaginateCursor flt opts) rows =
     (CursorPage (paginateCursor (re_lt e) (re_cc e) (re_rp e) (re_mode e) cls flt opts rows), rows)"
| "repo_exec e cls (Create now random data) rows = map_prod Created id (repo_create (re_rp e) (re_mode e) cls now random data rows)"
| "repo_exec e cls (CreateMany now randoms items) rows =
     map_prod CreatedMany id (repo_createMany (re_rp e) (re_mode e) cls now randoms items rows)"
| "repo_exec e cls (UpdateById now rid update ex) rows =
     map_prod Updated id (repo_updateById (re_rp e) (re_mode e) cls now rid update ex rows)"
| "repo_exec e cls (UpdateOne now flt update) rows = map_prod Updated id (repo_updateOne (re_rp e) (re_mode e) cls now flt update rows)"
| "repo_exec e cls (SoftDeleteById now rid) rows = map_prod Updated id (repo_softDeleteById (re_rp e) (re_mode e) cls now rid rows)"
| "repo_exec e cls (DeleteById rid) rows = map_prod Deleted id (repo_deleteById (re_rp e) (re_mode e) cls rid rows)"

fun repo_run :: "repo_env \<Rightarrow> (context_store \<times> repo_op) list \<Rightarrow> row list \<Rightarrow> (context_store \<times> answer) list \<times> row list" where
  "repo_run e [] rows = ([], rows)"
| "repo_run e ((cls, op) # ops) rows =
    (case repo_exec e cls op rows of (a, rows1) \<Rightarrow>
     (case repo_run e ops rows1 of (as, rows2) \<Rightarrow> ((cls, a) # as, rows2)))"

text \<open>The table is scoped to tenants and the deployment serves several.\<close>

definition isolated :: "repo_env \<Rightarrow> bool" where
  "isolated e \<longleftrightarrow> rp_tenantScoped (re_rp e) \<and> re_mode e = Multi \<and> ''tenantId'' \<in> set (rp_columns (re_rp e))"

text \<open>The tenant of a context; request data cannot enable the system scope.\<close>

definition serves :: "context_store \<Rightarrow> string \<Rightarrow> bool" where
  "serves cls t \<longleftrightarrow> cs_tenantId cls = Some t \<and> t \<noteq> []"

definition request_context :: "context_store \<Rightarrow> bool" where
  "request_context cls \<longleftrightarrow> \<not> cs_systemScope cls"

text \<open>Callers do not write the column \<open>tenantId\<close>: \<open>updateById\<close> and \<open>updateOne\<close> would store it.\<close>

fun keeps_tenant :: "repo_op \<Rightarrow> bool" where
  "keeps_tenant (UpdateById now rid update ex) = (''tenantId'' \<notin> fst ` set update)"
| "keeps_tenant (UpdateOne now flt update) = (''tenantId'' \<notin> fst ` set update)"
| "keeps_tenant op = True"

definition own :: "string \<Rightarrow> row \<Rightarrow> bool" where
  "own t r \<longleftrightarrow> cell_of r ''tenantId'' = Val (JStr t)"

section \<open>Conditions stay inside the tenant\<close>

lemma spread_Nil [simp]: "spread a [] = a"
  by (simp add: spread_def)

lemma spread_one: "spread a [(k, v)] = AList.update k v a"
  by (simp add: spread_def)

lemma map_of_spread: "map_of (spread a b) k = (case map_of (rev b) k of None \<Rightarrow> map_of a k | Some v \<Rightarrow> Some v)"
proof (induction b arbitrary: a)
  case (Cons x b)
  obtain k' v' where x: "x = (k', v')" by (cases x)
  have "spread a (x # b) = spread (AList.update k' v' a) b" by (simp add: spread_def x)
  then show ?case by (simp add: Cons.IH x update_conv' map_add_def split: option.split)
qed simp

lemma cell_of_update: "cell_of (AList.update k v r) c = (if c = k then v else cell_of r c)"
  by (simp add: cell_of_def update_conv')

lemma clause_of_filter:
  "filter_clauses rp flt = Inr cs \<Longrightarrow> (k, v) \<in> set flt \<Longrightarrow> (\<lambda>r. sql_eq (cell_of r k) v) \<in> set cs"
proof (induction flt arbitrary: cs)
  case (Cons x flt)
  obtain k' v' where x: "x = (k', v')" by (cases x)
  obtain cs' where "filter_clauses rp flt = Inr cs'" "cs = (\<lambda>r. sql_eq (cell_of r k') v') # cs'"
    using Cons.prems(1) unfolding x by (auto simp: and_then_ok split: if_splits)
  with Cons.IH Cons.prems(2) x show ?case by auto
qed simp

lemma tenantFilter_serves:
  assumes "isolated e" and "serves cls t"
  shows "tenantFilter (re_rp e) (re_mode e) cls = [(''tenantId'', Val (JStr t))]"
    and "\<not> hasMissingTenantContext (re_rp e) (re_mode e) cls"
  using assms by (simp_all add: isolated_def serves_def tenantFilter_def context_get_def hasMissingTenantContext_def)

lemma conditions_own:
  assumes "isolated e" and "serves cls t"
    and "buildConditions (re_rp e) (spread flt (tenantFilter (re_rp e) (re_mode e) cls)) i d = Inr P" and "P r"
  shows "own t r"
proof -
  have "(''tenantId'', Val (JStr t)) \<in> set (spread flt (tenantFilter (re_rp e) (re_mode e) cls))"
    by (rule map_of_SomeD) (simp add: tenantFilter_serves [OF assms(1,2)] map_of_spread)
  moreover obtain cs where cs: "filter_clauses (re_rp e) (spread flt (tenantFilter (re_rp e) (re_mode e) cls)) = Inr cs"
      "P = (\<lambda>r. \<forall>c\<in>set (cs @ deleted_clauses (re_rp e) i d). c r)"
    using assms(3) by (auto simp: buildConditions_def and_then_ok)
  ultimately have "(\<lambda>r. sql_eq (cell_of r ''tenantId'') (Val (JStr t))) \<in> set (cs @ deleted_clauses (re_rp e) i d)"
    using clause_of_filter by simp
  then have "sql_eq (cell_of r ''tenantId'') (Val (JStr t))" using assms(4) unfolding cs(2) by (rule bspec [rotated])
  then show ?thesis by (simp add: own_def sql_eq_def)
qed

lemma filter_own: "(\<And>r. P r \<Longrightarrow> own t r) \<Longrightarrow> filter P (filter (own t) rows) = filter P rows"
  by (induction rows) auto

lemma filter_conditions:
  assumes "isolated e" and "serves cls t"
    and "buildConditions (re_rp e) (spread flt (tenantFilter (re_rp e) (re_mode e) cls)) i d = Inr P"
  shows "filter P (filter (own t) rows) = filter P rows"
  by (rule filter_own) (rule conditions_own [OF assms])

lemma find_own: "(\<And>r. P r \<Longrightarrow> own t r) \<Longrightarrow> find P (filter (own t) rows) = find P rows"
  by (induction rows) auto

lemma and_then_cong: "r = r' \<Longrightarrow> (\<And>a. r' = Inr a \<Longrightarrow> f a = g a) \<Longrightarrow> and_then r f = and_then r' g"
  by (cases r') simp_all

text \<open>Every read answers from the rows of the tenant.\<close>

fun reads :: "repo_op \<Rightarrow> bool" where
  "reads (FindOne _ _) = True" | "reads (FindById _ _) = True" | "reads (Find _ _) = True" | "reads (Count _) = True"
| "reads (Paginate _ _ _) = True" | "reads (PaginateCursor _ _) = True" | "reads _ = False"

lemma read_own:
  assumes "isolated e" and "serves cls t" and "reads op"
  shows "fst (repo_exec e cls op (filter (own t) rows)) = fst (repo_exec e cls op rows)"
proof -
  note c = conditions_own [OF assms(1,2)] and f = filter_conditions [OF assms(1,2), where rows = rows] and m = tenantFilter_serves(2) [OF assms(1,2)]
  show ?thesis
  proof (cases op)
    case (FindOne flt opts)
    show ?thesis using c m
      by (auto simp: FindOne repo_findOne_def intro!: and_then_cong find_own)
  next
    case (FindById rid opts)
    show ?thesis using c m
      by (auto simp: FindById repo_findById_def intro!: and_then_cong find_own)
  next
    case (Find flt opts)
    show ?thesis using m
      by (simp add: Find repo_find_def Let_def del: filter_filter) (rule and_then_cong [OF refl], drule f, simp only:)
  next
    case (Count flt)
    show ?thesis using m
      by (simp add: Count repo_count_def del: filter_filter) (rule and_then_cong [OF refl], drule f, simp only:)
  next
    case (Paginate flt n opts)
    show ?thesis using m
      by (simp add: Paginate repo_paginate_def Let_def del: filter_filter) (rule and_then_cong [OF refl], drule f, simp only:)
  next
    case (PaginateCursor flt opts)
    have q: "filter (cursor_condition lt rp opts z P) (filter (own t) rows) = filter (cursor_condition lt rp opts z P) rows"
      if "buildConditions (re_rp e) (spread flt (tenantFilter (re_rp e) (re_mode e) cls)) i d = Inr P" for P z lt rp i d
      by (rule filter_own) (use c [OF that] in \<open>simp add: cursor_condition_def\<close>)
    show ?thesis
      unfolding PaginateCursor repo_exec.simps fst_conv paginateCursor_def Let_def
      by (intro arg_cong [where f = CursorPage] if_cong refl and_then_cong) (simp only: q)
  qed (use assms(3) in simp_all)
qed

section \<open>Writes stay inside the tenant\<close>

lemma cell_of_set_columns:
  "c \<notin> fst ` set u \<Longrightarrow> cell_of (set_columns rp u r) c = cell_of r c"
  unfolding set_columns_def
proof (induction u arbitrary: r)
  case (Cons x u)
  then show ?case by (cases x) (auto simp: cell_of_update)
qed simp

lemma own_set_columns: "''tenantId'' \<notin> fst ` set u \<Longrightarrow> own t' (set_columns rp u r) = own t' r"
  by (simp add: own_def cell_of_set_columns)

lemma keys_spread: "fst ` set (spread a b) = fst ` set a \<union> fst ` set b"
  unfolding spread_def
proof (induction b arbitrary: a)
  case (Cons x b)
  then show ?case by (cases x) (auto simp: dom_update)
qed simp

lemma keys_version: "''tenantId'' \<notin> fst ` set (version_payload rp ex)"
  by (auto simp: version_payload_def versionKey_def split: expected.split)

lemma cell_of_stored:
  "c \<in> set (rp_columns rp) \<Longrightarrow>
     cell_of (stored_row rp p) c = (case map_of p c of Some v \<Rightarrow> v | None \<Rightarrow> cell_of (rp_defaults rp) c)"
proof -
  have "map_of (map (\<lambda>c. (c, f c)) cs) c = (if c \<in> set cs then Some (f c) else None)" for f :: "string \<Rightarrow> cell" and cs
    by (induction cs) auto
  then show "c \<in> set (rp_columns rp) \<Longrightarrow> ?thesis" by (simp add: stored_row_def cell_of_def [of "map _ _"])
qed

lemma own_inserted:
  assumes "isolated e" and "serves cls t"
  shows "own t (stored_row (re_rp e) (insert_payload (re_rp e) (re_mode e) cls now random data))"
proof -
  have "map_of (insert_payload (re_rp e) (re_mode e) cls now random data) ''tenantId'' = Some (Val (JStr t))"
    by (simp add: insert_payload_def map_of_spread tenantFilter_serves [OF assms])
  then show ?thesis using assms(1) by (simp add: own_def cell_of_stored isolated_def)
qed

lemma own_other: "own t r \<Longrightarrow> t' \<noteq> t \<Longrightarrow> \<not> own t' r"
  by (simp add: own_def)

text \<open>An update of rows of one tenant that leaves their tenant alone.\<close>

lemma update_rows_own:
  assumes "\<And>r. P r \<Longrightarrow> own t r" and "\<And>t' r. own t' (f r) = own t' r"
  shows "fst (update_rows P f (filter (own t) rows)) = fst (update_rows P f rows)"
    and "snd (update_rows P f (filter (own t) rows)) = filter (own t) (snd (update_rows P f rows))"
    and "t' \<noteq> t \<Longrightarrow> filter (own t') (snd (update_rows P f rows)) = filter (own t') rows"
proof -
  show "fst (update_rows P f (filter (own t) rows)) = fst (update_rows P f rows)"
    by (simp add: update_rows_def filter_own [OF assms(1)] del: filter_filter)
  show "snd (update_rows P f (filter (own t) rows)) = filter (own t) (snd (update_rows P f rows))"
    by (induction rows) (auto simp: update_rows_def assms(2))
  assume "t' \<noteq> t"
  then have "\<not> P r" if "own t' r" for r using assms(1) own_other that by metis
  then show "filter (own t') (snd (update_rows P f rows)) = filter (own t') rows"
    by (induction rows) (auto simp: update_rows_def assms(2))
qed

definition stays_inside :: "repo_env \<Rightarrow> context_store \<Rightarrow> string \<Rightarrow> repo_op \<Rightarrow> bool" where
  "stays_inside e cls t op \<longleftrightarrow> (\<forall>rows.
     fst (repo_exec e cls op (filter (own t) rows)) = fst (repo_exec e cls op rows) \<and>
     snd (repo_exec e cls op (filter (own t) rows)) = filter (own t) (snd (repo_exec e cls op rows)) \<and>
     (\<forall>t'. t' \<noteq> t \<longrightarrow> filter (own t') (snd (repo_exec e cls op rows)) = filter (own t') rows))"

lemma update_inside:
  assumes "\<And>r. P r \<Longrightarrow> own t r" and "''tenantId'' \<notin> fst ` set u"
    and "\<And>rows. repo_exec e cls op rows =
      (g (fst (update_rows P (set_columns rp u) rows)), snd (update_rows P (set_columns rp u) rows))"
  shows "stays_inside e cls t op"
  using update_rows_own [where t = t and P = P and f = "set_columns rp u"] assms(1) own_set_columns [OF assms(2)]
  by (auto simp: stays_inside_def assms(3))

lemma const_inside:
  assumes "\<And>rows. repo_exec e cls op rows = (a, rows)"
  shows "stays_inside e cls t op"
  by (simp add: stays_inside_def assms)

lemma read_keeps: "reads op \<Longrightarrow> snd (repo_exec e cls op rows) = rows"
  by (cases op) simp_all

lemma read_inside:
  assumes "isolated e" and "serves cls t" and "reads op"
  shows "stays_inside e cls t op"
  using read_own [OF assms] read_keeps [OF assms(3)] by (simp add: stays_inside_def)

lemma append_inside:
  assumes "\<And>rows. repo_exec e cls op rows = (a, rows @ rs)" and "\<forall>r\<in>set rs. own t r"
  shows "stays_inside e cls t op"
proof -
  have "filter (own t) rs = rs" using assms(2) by (simp add: filter_id_conv)
  moreover have "filter (own t') rs = []" if "t' \<noteq> t" for t'
    using assms(2) own_other that by (auto simp: filter_empty_conv)
  ultimately show ?thesis by (simp add: stays_inside_def assms(1))
qed

lemma requires_not:
  "isolated e \<Longrightarrow> serves cls t \<Longrightarrow> \<not> requiresTenantForWrite (re_rp e) (re_mode e) cls data"
  by (simp add: requiresTenantForWrite_def tenantFilter_serves)

lemma clause_own:
  assumes "isolated e" and "serves cls t" and "tenant_clause (re_rp e) (re_mode e) cls r"
  shows "own t r"
  using assms(3) conjunct2 [OF conjunct2 [OF assms(1) [unfolded isolated_def]]]
  by (simp add: tenant_clause_def tenantFilter_serves [OF assms(1,2)] sql_eq_def own_def)

lemma create_inside:
  assumes "isolated e" and "serves cls t"
  shows "stays_inside e cls t (Create now random data)"
proof -
  note nr = requires_not [OF assms(1,2)]
  show ?thesis
    by (rule append_inside [where a = "Created (Inr (stored_row (re_rp e) (insert_payload (re_rp e) (re_mode e) cls now random data)))"
          and rs = "[stored_row (re_rp e) (insert_payload (re_rp e) (re_mode e) cls now random data)]"])
       (simp_all add: repo_create_def nr Let_def own_inserted [OF assms(1,2)])
qed

lemma create_many_inside:
  assumes "isolated e" and "serves cls t"
  shows "stays_inside e cls t (CreateMany now randoms items)"
proof -
  note nr = requires_not [OF assms(1,2)]
  let ?rs = "map2 (\<lambda>random data. stored_row (re_rp e) (insert_payload (re_rp e) (re_mode e) cls now random data)) randoms items"
  have nr': "\<not> list_ex (requiresTenantForWrite (re_rp e) (re_mode e) cls) items" using nr by (simp add: list_ex_iff)
  show ?thesis
  proof (cases "items = []")
    case True
    show ?thesis by (rule const_inside) (simp add: repo_createMany_def True)
  next
    case False
    show ?thesis
      by (rule append_inside [where a = "CreatedMany (Inr ?rs)" and rs = ?rs])
         (use False nr' in \<open>auto simp: repo_createMany_def Let_def own_inserted [OF assms(1,2)]\<close>)
  qed
qed

lemma update_by_id_inside:
  assumes "isolated e" and "serves cls t" and "''tenantId'' \<notin> fst ` set update"
  shows "stays_inside e cls t (UpdateById now rid update ex)"
proof -
  note c = conditions_own [OF assms(1,2)] and tf = tenantFilter_serves [OF assms(1,2)]
  let ?flt = "spread [(''id'', Val (JStr rid))] (tenantFilter (re_rp e) (re_mode e) cls)"
  let ?u = "spread (spread update (version_payload (re_rp e) ex)) [(''updatedAt'', Time now)]"
  have u: "''tenantId'' \<notin> fst ` set ?u" using assms(3) keys_version by (simp add: keys_spread)
  show ?thesis
  proof (cases "version_clause (re_rp e) ex")
    case None
    show ?thesis by (rule const_inside) (simp add: repo_updateById_def tf(2) None)
  next
    case (Some V)
    show ?thesis
    proof (cases "buildConditions (re_rp e) ?flt False False")
      case (Inl x)
      show ?thesis by (rule const_inside) (simp add: repo_updateById_def tf(2) Some Inl)
    next
      case (Inr P)
      show ?thesis
        by (rule update_inside [where P = "\<lambda>r. P r \<and> V r" and u = ?u and rp = "re_rp e" and
              g = "\<lambda>returned. Updated (case returned of [] \<Rightarrow> (if ex = AnyVersion then Inr None else Inl CONFLICT)
                 | r # _ \<Rightarrow> Inr (if cell_of r ''deletedAt'' = Null then Some r else None))", OF _ u])
           (use c [OF Inr] in \<open>auto simp: repo_updateById_def tf(2) Some Inr split: prod.split list.split\<close>)
    qed
  qed
qed

lemma update_one_inside:
  assumes "isolated e" and "serves cls t" and "''tenantId'' \<notin> fst ` set update"
  shows "stays_inside e cls t (UpdateOne now flt update)"
proof -
  note c = conditions_own [OF assms(1,2)] and tf = tenantFilter_serves [OF assms(1,2)]
  let ?u = "spread update [(''updatedAt'', Time now)]"
  have u: "''tenantId'' \<notin> fst ` set ?u" using assms(3) by (simp add: keys_spread)
  show ?thesis
  proof (cases "buildConditions (re_rp e) (spread flt (tenantFilter (re_rp e) (re_mode e) cls)) False False")
    case (Inl x)
    show ?thesis by (rule const_inside) (simp add: repo_updateOne_def tf(2) Inl)
  next
    case (Inr P)
    show ?thesis
      by (rule update_inside [where P = P and u = ?u and rp = "re_rp e" and
            g = "\<lambda>returned. Updated (Inr (case returned of [] \<Rightarrow> None | r # _ \<Rightarrow> Some r))", OF _ u])
         (use c [OF Inr] in \<open>auto simp: repo_updateOne_def tf(2) Inr split: prod.split\<close>)
  qed
qed

lemma soft_delete_inside:
  assumes "isolated e" and "serves cls t"
  shows "stays_inside e cls t (SoftDeleteById now rid)"
proof -
  note tf = tenantFilter_serves [OF assms(1,2)] and tc = clause_own [OF assms(1,2)]
  show ?thesis
  proof (cases "''deletedAt'' \<in> set (rp_columns (re_rp e))")
    case False
    show ?thesis by (rule const_inside) (simp add: repo_softDeleteById_def tf(2) False)
  next
    case True
    show ?thesis
      by (rule update_inside [where u = "[(''deletedAt'', Time now), (''updatedAt'', Time now)]" and rp = "re_rp e" and
            P = "\<lambda>r. sql_eq (cell_of r ''id'') (Val (JStr rid)) \<and> tenant_clause (re_rp e) (re_mode e) cls r \<and> cell_of r ''deletedAt'' = Null"
            and g = "\<lambda>returned. Updated (Inr (case returned of [] \<Rightarrow> None | r # _ \<Rightarrow> Some r))"])
         (use tc in \<open>auto simp: repo_softDeleteById_def tf(2) True split: prod.split\<close>)
  qed
qed

lemma delete_inside:
  assumes "isolated e" and "serves cls t"
  shows "stays_inside e cls t (DeleteById rid)"
proof -
  note tf = tenantFilter_serves [OF assms(1,2)] and tc = clause_own [OF assms(1,2)]
  let ?P = "\<lambda>r. sql_eq (cell_of r ''id'') (Val (JStr rid)) \<and> tenant_clause (re_rp e) (re_mode e) cls r"
  have P: "own t r" if "?P r" for r using that tc by simp
  have "filter (own t') (filter (\<lambda>r. \<not> ?P r) rows) = filter (own t') rows" if "t' \<noteq> t" for t' rows
    using P own_other [OF _ that] by (induction rows) auto
  moreover have "filter ?P (filter (own t) rows) = filter ?P rows" for rows by (rule filter_own [OF P])
  moreover have "filter (\<lambda>r. \<not> ?P r) (filter (own t) rows) = filter (own t) (filter (\<lambda>r. \<not> ?P r) rows)" for rows
    by (simp add: conj_commute)
  ultimately show ?thesis
    unfolding stays_inside_def repo_exec.simps repo_deleteById_def Let_def
    by (simp only: tf(2) if_False map_prod_simp fst_conv snd_conv id_apply) simp
qed

lemma write_inside:
  assumes "isolated e" and "serves cls t" and "keeps_tenant op" and "\<not> reads op"
  shows "stays_inside e cls t op"
  using assms(3,4) create_inside [OF assms(1,2)] create_many_inside [OF assms(1,2)] update_by_id_inside [OF assms(1,2)]
    update_one_inside [OF assms(1,2)] soft_delete_inside [OF assms(1,2)] delete_inside [OF assms(1,2)]
  by (cases op) simp_all

section \<open>Every tenant has a table of its own\<close>

definition of_tenant :: "string \<Rightarrow> context_store \<times> 'a \<Rightarrow> bool" where
  "of_tenant t x \<longleftrightarrow> serves (fst x) t"

lemma op_inside:
  assumes "isolated e" and "serves cls t" and "keeps_tenant op"
  shows "stays_inside e cls t op"
  using read_inside [OF assms(1,2)] write_inside [OF assms] by blast

text \<open>A request without a tenant reads nothing and changes nothing.\<close>

lemma tenantless:
  assumes "isolated e" and "request_context cls" and "\<forall>t. \<not> serves cls t"
  shows "repo_exec e cls op rows = (fst (repo_exec e cls op []), rows)"
proof -
  have tf: "tenantFilter (re_rp e) (re_mode e) cls = []"
    using assms(1,3) by (auto simp: tenantFilter_def context_get_def isolated_def serves_def split: option.split)
  then have m: "hasMissingTenantContext (re_rp e) (re_mode e) cls"
    using assms(1,2) by (simp add: hasMissingTenantContext_def isTenantIsolationRequired_def isolated_def isSystemScope_def request_context_def)
  moreover have "requiresTenantForWrite (re_rp e) (re_mode e) cls data" for data
    using m tf by (simp add: requiresTenantForWrite_def hasMissingTenantContext_def)
  ultimately show ?thesis
    by (cases op) (simp_all add: repo_findOne_def repo_findById_def repo_find_def repo_count_def repo_paginate_def
        paginateCursor_def repo_create_def repo_createMany_def repo_updateById_def repo_updateOne_def
        repo_softDeleteById_def repo_deleteById_def list_ex_iff)
qed

lemma other_step:
  assumes "isolated e" and "request_context cls" and "keeps_tenant op" and "\<not> serves cls t"
  shows "filter (own t) (snd (repo_exec e cls op rows)) = filter (own t) rows"
proof (cases "\<exists>t'. serves cls t'")
  case True
  then obtain t' where "serves cls t'" by blast
  with op_inside [OF assms(1) this assms(3)] assms(4) show ?thesis by (auto simp: stays_inside_def)
next
  case False
  then show ?thesis using tenantless [OF assms(1,2)] by (metis snd_conv)
qed

lemma run_projects:
  assumes "isolated e" and "\<forall>(cls, op)\<in>set ops. request_context cls \<and> keeps_tenant op"
  shows "repo_run e (filter (of_tenant t) ops) (filter (own t) rows) =
    (filter (of_tenant t) (fst (repo_run e ops rows)), filter (own t) (snd (repo_run e ops rows)))"
  using assms(2)
proof (induction ops arbitrary: rows)
  case (Cons x ops)
  obtain cls op where x: "x = (cls, op)" by (cases x)
  have ok: "request_context cls" "keeps_tenant op" and rest: "\<forall>(cls, op)\<in>set ops. request_context cls \<and> keeps_tenant op"
    using Cons.prems x by auto
  obtain a rows1 where a: "repo_exec e cls op rows = (a, rows1)" by (cases "repo_exec e cls op rows")
  note IH = Cons.IH [OF rest, of rows1]
  show ?case
  proof (cases "serves cls t")
    case True
    have "repo_exec e cls op (filter (own t) rows) = (a, filter (own t) rows1)"
      using op_inside [OF assms(1) True ok(2)] a unfolding stays_inside_def by (metis fst_conv prod.collapse snd_conv)
    with IH a show ?thesis by (simp add: x of_tenant_def True split: prod.split)
  next
    case False
    have "filter (own t) rows1 = filter (own t) rows"
      using other_step [OF assms(1) ok False, of rows] a by simp
    with IH a show ?thesis by (simp add: x of_tenant_def False split: prod.split)
  qed
qed simp

text \<open>
  C4. Tenants share a table and do not notice each other. However the requests of all tenants are
  interleaved, each gets from the repository exactly the answers, counts, pages and errors included,
  that it would get from a private table holding its own rows, and its rows end up the same. A
  request without a tenant gets what an empty table would give it and changes nothing. This needs
  that callers do not pass \<open>tenantId\<close> to the updates, and holds without any check in the database.
\<close>

theorem tenants_do_not_interfere:
  assumes "isolated e" and "\<forall>(cls, op)\<in>set ops. request_context cls \<and> keeps_tenant op"
  shows "repo_run e (filter (of_tenant t) ops) (filter (own t) rows) =
      (filter (of_tenant t) (fst (repo_run e ops rows)), filter (own t) (snd (repo_run e ops rows))) \<and>
    (\<forall>cls op rows. request_context cls \<longrightarrow> (\<forall>t. \<not> serves cls t) \<longrightarrow>
       repo_exec e cls op rows = (fst (repo_exec e cls op []), rows))"
proof (rule conjI [OF run_projects [OF assms]], intro allI impI)
  fix cls op rows
  assume "request_context cls" "\<forall>t. \<not> serves cls t"
  then show "repo_exec e cls op rows = (fst (repo_exec e cls op []), rows)" by (rule tenantless [OF assms(1)])
qed

definition demo_repo :: repo where
  "demo_repo = \<lparr>rp_columns = [''id'', ''tenantId'', ''title'', ''createdAt'', ''updatedAt'', ''deletedAt''],
     rp_defaults = [], rp_tenantScoped = True\<rparr>"

definition demo_codec :: codec where
  "demo_codec = \<lparr>cc_pack = (\<lambda>j. case js_get j ''id'' of JStr i \<Rightarrow> CHR ''!'' # i | _ \<Rightarrow> ''!''),
     cc_unpack = (\<lambda>s. case s of [] \<Rightarrow> None
       | c # i \<Rightarrow> if c = CHR ''!'' then Some (JObj [(''v'', JStr ''x''), (''id'', JStr i)]) else None),
     cc_iso = (\<lambda>t. []), cc_date = (\<lambda>s. None), cc_string = (\<lambda>c. case c of Val (JStr s) \<Rightarrow> s | _ \<Rightarrow> [])\<rparr>"

fun text_before :: "cell \<Rightarrow> cell \<Rightarrow> bool" where
  "text_before (Val (JStr a)) (Val (JStr b)) = (length a < length b)"
| "text_before _ _ = False"

definition demo_repo_env :: repo_env where
  "demo_repo_env = \<lparr>re_lt = text_before, re_cc = demo_codec, re_rp = demo_repo, re_mode = Multi\<rparr>"

definition in_tenant :: "string option \<Rightarrow> context_store" where
  "in_tenant t = \<lparr>cs_tenantMode = Multi, cs_tenantId = t, cs_membershipId = None, cs_role = None, cs_systemScope = False\<rparr>"

theorem tenants_do_not_interfere_witness:
  "let ops = [(in_tenant (Some ''a''), Create 1 ''1'' [(''title'', Val (JStr ''x''))]),
              (in_tenant (Some ''b''), Create 2 ''22'' [(''title'', Val (JStr ''y''))]),
              (in_tenant None, Count []), (in_tenant (Some ''b''), UpdateById 3 ''1'' [(''title'', Val (JStr ''z''))] AnyVersion),
              (in_tenant (Some ''a''), Count [])]
   in repo_run demo_repo_env (filter (of_tenant ''a'') ops) [] =
        (filter (of_tenant ''a'') (fst (repo_run demo_repo_env ops [])), filter (own ''a'') (snd (repo_run demo_repo_env ops []))) \<and>
      repo_exec demo_repo_env (in_tenant None) (DeleteById ''1'') (snd (repo_run demo_repo_env ops [])) =
        (Deleted (Inr False), snd (repo_run demo_repo_env ops []))"
proof -
  let ?ops = "[(in_tenant (Some ''a''), Create 1 ''1'' [(''title'', Val (JStr ''x''))]),
              (in_tenant (Some ''b''), Create 2 ''22'' [(''title'', Val (JStr ''y''))]),
              (in_tenant None, Count []), (in_tenant (Some ''b''), UpdateById 3 ''1'' [(''title'', Val (JStr ''z''))] AnyVersion),
              (in_tenant (Some ''a''), Count [])]"
  have e: "isolated demo_repo_env" by (simp add: isolated_def demo_repo_env_def demo_repo_def)
  have ops: "\<forall>(cls, op)\<in>set ?ops. request_context cls \<and> keeps_tenant op" by (simp add: request_context_def in_tenant_def)
  note r = tenants_do_not_interfere [OF e ops, of "''a''" "[]"]
  have "repo_exec demo_repo_env (in_tenant None) (DeleteById ''1'') [] = (Deleted (Inr False), [])"
    by (simp add: repo_deleteById_def hasMissingTenantContext_def isTenantIsolationRequired_def demo_repo_env_def demo_repo_def
        tenantFilter_def context_get_def in_tenant_def isSystemScope_def)
  moreover have "repo_exec demo_repo_env (in_tenant None) (DeleteById ''1'') rows =
      (fst (repo_exec demo_repo_env (in_tenant None) (DeleteById ''1'') []), rows)" for rows
    by (rule conjunct2 [OF r, rule_format]) (simp_all add: request_context_def serves_def in_tenant_def)
  ultimately have "repo_exec demo_repo_env (in_tenant None) (DeleteById ''1'') rows = (Deleted (Inr False), rows)" for rows
    by (metis fst_conv)
  then show ?thesis unfolding Let_def using conjunct1 [OF r] by (simp only: filter.simps list.map)
qed

text \<open>The hypothesis on updates is needed: an update that names \<open>tenantId\<close> hands the row to another tenant.\<close>

lemma update_can_move_row:
  "map (\<lambda>r. cell_of r ''tenantId'') (snd (repo_exec demo_repo_env (in_tenant (Some ''a'')) (UpdateById 3 ''1'' [(''tenantId'', Val (JStr ''b''))] AnyVersion)
     [[(''id'', Val (JStr ''1'')), (''tenantId'', Val (JStr ''a''))]])) = [Val (JStr ''b'')]"
  by (simp add: repo_updateById_def hasMissingTenantContext_def isTenantIsolationRequired_def demo_repo_env_def demo_repo_def
      tenantFilter_def context_get_def in_tenant_def version_clause_def version_payload_def buildConditions_def deleted_clauses_def
      spread_def update_rows_def set_columns_def sql_eq_def cell_of_def)

end
