(* ===== verification/CursorGuarantees.thy ===== *)
theory CursorGuarantees
  imports RepositoryGuarantees "HOL-Library.Multiset"
begin

text \<open>
  Keyset pagination, \<open>BaseRepository.paginateCursor\<close>: a client that follows the cursors reads every
  row that stays in place exactly once, although the table changes between its calls, and on a
  table that does not change it gets all rows in order after the expected number of calls.
\<close>

section \<open>Sorted insertion\<close>

lemma mset_insert_row: "mset (insert_row b r xs) = {#r#} + mset xs"
  by (induction xs) auto

lemma mset_order_by: "mset (order_by lt cols rows) = mset rows"
  unfolding order_by_def by (induction rows) (simp_all add: mset_insert_row)

lemma set_insert_row [simp]: "set (insert_row b r xs) = insert r (set xs)"
  using mset_insert_row [of b r xs] by (metis set_mset_add_mset_insert set_mset_mset add_mset_add_single add.commute)

lemma order_by_facts [simp]:
  "set (order_by lt cols rows) = set rows" "length (order_by lt cols rows) = length rows"
  "distinct (order_by lt cols rows) = distinct rows"
  using mset_order_by [of lt cols rows] by (auto dest: mset_eq_setD mset_eq_length mset_eq_imp_distinct_iff)

lemma sorted_insert_row:
  assumes "sorted_wrt b xs" and "\<forall>x\<in>set xs. b x r \<or> b r x"
    and "\<And>x y z. x \<in> insert r (set xs) \<Longrightarrow> y \<in> insert r (set xs) \<Longrightarrow> z \<in> insert r (set xs) \<Longrightarrow> b x y \<Longrightarrow> b y z \<Longrightarrow> b x z"
  shows "sorted_wrt b (insert_row b r xs)"
  using assms
proof (induction xs)
  case (Cons x xs)
  show ?case
  proof (cases "b x r")
    case True
    have "sorted_wrt b (insert_row b r xs)"
    proof (rule Cons.IH)
      show "sorted_wrt b xs" "\<forall>x\<in>set xs. b x r \<or> b r x" using Cons.prems(1,2) by simp_all
      fix u v w
      assume "u \<in> insert r (set xs)" "v \<in> insert r (set xs)" "w \<in> insert r (set xs)" "b u v" "b v w"
      then show "b u w" by (intro Cons.prems(3) [of u v w]) auto
    qed
    then show ?thesis using True Cons.prems(1) by simp
  next
    case False
    then have "b r x" using Cons.prems(2) by simp
    moreover have "b r y" if "y \<in> set xs" for y
      using Cons.prems(1) that Cons.prems(3) [of r x y] \<open>b r x\<close> by simp
    ultimately show ?thesis using False Cons.prems(1) by simp
  qed
qed simp

text \<open>Two strictly sorted lists with the same elements are equal.\<close>

lemma strictly_sorted_unique:
  assumes "sorted_wrt b xs" and "sorted_wrt b ys" and "set xs = set ys"
    and "\<And>x y. x \<in> set xs \<Longrightarrow> y \<in> set xs \<Longrightarrow> b x y \<Longrightarrow> \<not> b y x"
  shows "xs = ys"
  using assms
proof (induction xs arbitrary: ys)
  case (Cons x xs)
  have "ys \<noteq> []" using Cons.prems(3) by auto
  then obtain y ys' where ys: "ys = y # ys'" by (cases ys) auto
  have no: "u \<notin> set us" if "sorted_wrt b (u # us)" "u \<in> set (x # xs)" for u us
    using that(1) Cons.prems(4) [OF that(2) that(2)] by auto
  have xin: "x \<in> set (y # ys')" and yin: "y \<in> set (x # xs)"
    using Cons.prems(3) unfolding ys by (metis list.set_intros(1))+
  have "x = y"
  proof (rule ccontr)
    assume ne: "x \<noteq> y"
    have "b x y" using Cons.prems(1) yin ne by simp
    moreover have "b y x" using Cons.prems(2) xin ne unfolding ys by simp
    ultimately show False using Cons.prems(4) [OF _ yin] by simp
  qed
  moreover have "x \<notin> set xs" by (rule no [OF Cons.prems(1)]) simp
  moreover have "y \<notin> set ys'" using Cons.prems(2) unfolding ys by (rule no) (rule yin)
  ultimately have same: "set xs = set ys'" using Cons.prems(3) unfolding ys by (metis insert_ident list.simps(15))
  have "xs = ys'"
    by (rule Cons.IH [OF _ _ same]) (use Cons.prems(1,2,4) in \<open>simp_all add: ys\<close>)
  with \<open>x = y\<close> show ?case by (simp add: ys)
qed simp

section \<open>The order of the pages\<close>

text \<open>The database compares the values in \<open>C\<close> by a strict total order.\<close>

definition strict_on :: "(cell \<Rightarrow> cell \<Rightarrow> bool) \<Rightarrow> cell set \<Rightarrow> bool" where
  "strict_on lt C \<longleftrightarrow> (\<forall>a\<in>C. \<not> lt a a) \<and> (\<forall>a\<in>C. \<forall>b\<in>C. \<forall>c\<in>C. lt a b \<longrightarrow> lt b c \<longrightarrow> lt a c) \<and>
     (\<forall>a\<in>C. \<forall>b\<in>C. a \<noteq> b \<longrightarrow> lt a b \<or> lt b a)"

text \<open>
  A row a cursor can stand for: its \<open>id\<close> is a text, the column of the cursor is not \<open>NULL\<close>, and what
  the cursor carries survives the way through JSON and base64url: a date is read back, a text is not
  mistaken for one.
\<close>

definition cursor_ok :: "codec \<Rightarrow> string \<Rightarrow> row \<Rightarrow> bool" where
  "cursor_ok cc field r \<longleftrightarrow> (\<exists>i. cell_of r ''id'' = Val (JStr i) \<and> i \<noteq> [] \<and> cc_string cc (Val (JStr i)) = i \<and>
     (if field = ''id'' then plain_cursor i \<and> \<not> date_like i \<and> cc_unpack cc i = None
      else cell_of r field \<noteq> Null \<and> revive_date cc (cell_json cc (cell_of r field)) = cell_of r field \<and>
           cc_pack cc (cursor_json cc field r) \<noteq> [] \<and>
           cc_unpack cc (cc_pack cc (cursor_json cc field r)) = Some (cursor_json cc field r)))"

definition row_ok :: "codec \<Rightarrow> cell set \<Rightarrow> string \<Rightarrow> row \<Rightarrow> bool" where
  "row_ok cc C field r \<longleftrightarrow> cursor_ok cc field r \<and> cell_of r field \<in> C \<and> cell_of r ''id'' \<in> C"

text \<open>\<open>r\<close> comes after \<open>x\<close>.\<close>

definition past :: "(cell \<Rightarrow> cell \<Rightarrow> bool) \<Rightarrow> direction \<Rightarrow> cell \<Rightarrow> cell \<Rightarrow> bool" where
  "past lt d a b = (if d = Desc then lt b a else lt a b)"

definition later :: "(cell \<Rightarrow> cell \<Rightarrow> bool) \<Rightarrow> string \<Rightarrow> direction \<Rightarrow> row \<Rightarrow> row \<Rightarrow> bool" where
  "later lt field d x r \<longleftrightarrow> past lt d (cell_of x field) (cell_of r field) \<or>
     (cell_of x field = cell_of r field \<and> past lt d (cell_of x ''id'') (cell_of r ''id''))"

lemma strict_past:
  assumes "strict_on lt C"
  shows "a \<in> C \<Longrightarrow> \<not> past lt d a a"
    and "a \<in> C \<Longrightarrow> b \<in> C \<Longrightarrow> c \<in> C \<Longrightarrow> past lt d a b \<Longrightarrow> past lt d b c \<Longrightarrow> past lt d a c"
    and "a \<in> C \<Longrightarrow> b \<in> C \<Longrightarrow> a \<noteq> b \<Longrightarrow> past lt d a b \<or> past lt d b a"
proof -
  have lt: "a \<in> C \<Longrightarrow> \<not> lt a a" "a \<in> C \<Longrightarrow> b \<in> C \<Longrightarrow> c \<in> C \<Longrightarrow> lt a b \<Longrightarrow> lt b c \<Longrightarrow> lt a c"
    "a \<in> C \<Longrightarrow> b \<in> C \<Longrightarrow> a \<noteq> b \<Longrightarrow> lt a b \<or> lt b a" for a b c
    using assms unfolding strict_on_def by blast+
  show "a \<in> C \<Longrightarrow> \<not> past lt d a a" using lt(1) by (simp add: past_def)
  show "past lt d a c" if "a \<in> C" "b \<in> C" "c \<in> C" "past lt d a b" "past lt d b c"
    using that lt(2) [of a b c] lt(2) [of c b a] by (simp add: past_def split: if_splits)
  show "past lt d a b \<or> past lt d b a" if "a \<in> C" "b \<in> C" "a \<noteq> b"
    using lt(3) [OF that] by (auto simp: past_def)
qed

lemma later_trans:
  assumes "strict_on lt C" and "row_ok cc C f x" "row_ok cc C f y" "row_ok cc C f z"
    and "later lt f d x y" "later lt f d y z"
  shows "later lt f d x z"
proof -
  have "past lt d (cell_of x c) (cell_of z c)"
    if "past lt d (cell_of x c) (cell_of y c)" "past lt d (cell_of y c) (cell_of z c)" "c = f \<or> c = ''id''" for c
    by (rule strict_past(2) [OF assms(1) _ _ _ that(1,2)]) (use assms(2-4) that(3) in \<open>auto simp: row_ok_def\<close>)
  note t = this [of f] this [of "''id''"]
  from assms(5) show ?thesis
    unfolding later_def
  proof (elim disjE conjE)
    assume "past lt d (cell_of x f) (cell_of y f)"
    with t(1) assms(6) show "past lt d (cell_of x f) (cell_of z f) \<or>
        cell_of x f = cell_of z f \<and> past lt d (cell_of x ''id'') (cell_of z ''id'')"
      unfolding later_def by (elim disjE conjE) simp_all
  next
    assume "cell_of x f = cell_of y f" "past lt d (cell_of x ''id'') (cell_of y ''id'')"
    with t(2) assms(6) show "past lt d (cell_of x f) (cell_of z f) \<or>
        cell_of x f = cell_of z f \<and> past lt d (cell_of x ''id'') (cell_of z ''id'')"
      unfolding later_def by (elim disjE conjE) simp_all
  qed
qed

lemma later_irrefl: "strict_on lt C \<Longrightarrow> row_ok cc C f x \<Longrightarrow> \<not> later lt f d x x"
  using strict_past(1) [of lt C "cell_of x f" d] strict_past(1) [of lt C "cell_of x ''id''" d]
  by (simp add: later_def row_ok_def)

lemma later_asym:
  assumes "strict_on lt C" and "row_ok cc C f x" "row_ok cc C f y" and "later lt f d x y"
  shows "\<not> later lt f d y x"
  using later_trans [OF assms(1,2,3,2,4)] later_irrefl [OF assms(1,2)] by blast

lemma later_total:
  assumes "strict_on lt C" and "row_ok cc C f x" "row_ok cc C f y" and "cell_of x ''id'' \<noteq> cell_of y ''id''"
  shows "later lt f d x y \<or> later lt f d y x"
  using assms(2-4) strict_past(3) [OF assms(1), of "cell_of x f" "cell_of y f" d]
    strict_past(3) [OF assms(1), of "cell_of x ''id''" "cell_of y ''id''" d]
  by (cases "cell_of x f = cell_of y f") (auto simp: later_def row_ok_def)

text \<open>On such rows the order of the query and the condition of the cursor are both \<open>later\<close>.\<close>

lemma row_ok_cells: "row_ok cc C f x \<Longrightarrow> cell_of x f \<noteq> Null \<and> cell_of x ''id'' \<noteq> Null"
  by (auto simp: row_ok_def cursor_ok_def split: if_splits)

lemma query_order:
  assumes "f \<in> set (rp_columns rp)" and "''id'' \<in> set (rp_columns rp)" and "strict_on lt C"
    and "row_ok cc C f x" "row_ok cc C f r"
  shows "row_before lt (cursor_order rp f d) x r = later lt f d x r"
proof -
  have n: "cell_of x f \<noteq> Null" "cell_of x ''id'' \<noteq> Null" "cell_of r f \<noteq> Null" "cell_of r ''id'' \<noteq> Null"
    using row_ok_cells assms(4,5) by auto
  have C: "cell_of x f \<in> C" "cell_of x ''id'' \<in> C" using assms(4) by (auto simp: row_ok_def)
  have irr: "\<not> past lt d (cell_of x f) (cell_of x f)" "\<not> past lt d (cell_of x ''id'') (cell_of x ''id'')"
    using strict_past(1) [OF assms(3)] C by auto
  have d: "(if d = Asc then cell_before lt a b else cell_before lt b a) = past lt d a b" if "a \<noteq> Null" "b \<noteq> Null" for a b
    using that by (cases d) (auto simp: past_def cell_before_def)
  show ?thesis
    unfolding cursor_order_def buildCursorOrder_def later_def Let_def
    using assms(1,2) irr n d by (cases "f = ''id''") auto
qed

lemma cursor_roundtrip:
  assumes "cursor_ok cc f x"
  obtains c where "encodeCursor cc f x = Some c" "c \<noteq> []"
    "decodeCursor cc (Some c) = Some \<lparr>dc_val = cell_of x f,
       dc_id = (if f = ''id'' then None else js_string (JStr (cc_string cc (cell_of x ''id''))))\<rparr>"
proof (cases "f = ''id''")
  case True
  then obtain i where i: "cell_of x ''id'' = Val (JStr i)" "i \<noteq> []" "cc_string cc (Val (JStr i)) = i"
    "plain_cursor i" "\<not> date_like i" "cc_unpack cc i = None"
    using assms by (auto simp: cursor_ok_def)
  show ?thesis
    by (rule that [of i]) (use i True in \<open>simp_all add: encodeCursor_def decodeCursor_def bare_cursor_def revive_date_def\<close>)
next
  case False
  then obtain i where i: "cell_of x ''id'' = Val (JStr i)" "i \<noteq> []" "cc_string cc (Val (JStr i)) = i"
    "revive_date cc (cell_json cc (cell_of x f)) = cell_of x f" "cc_pack cc (cursor_json cc f x) \<noteq> []"
    "cc_unpack cc (cc_pack cc (cursor_json cc f x)) = Some (cursor_json cc f x)"
    using assms by (auto simp: cursor_ok_def)
  have j: "cursor_json cc f x = JObj [(''v'', cell_json cc (cell_of x f)), (''id'', JStr i)]"
    by (simp add: cursor_json_def i)
  show ?thesis
    by (rule that [of "cc_pack cc (cursor_json cc f x)"])
       (use i False in \<open>simp_all add: encodeCursor_def decodeCursor_def, simp_all add: j\<close>)
qed

lemma cursor_clause:
  assumes "f \<in> set (rp_columns rp)" and "''id'' \<in> set (rp_columns rp)" and "strict_on lt C"
    and "row_ok cc C f x" "row_ok cc C f r"
  shows "buildCursorClause lt True \<lparr>dc_val = cell_of x f,
      dc_id = (if f = ''id'' then None else js_string (JStr (cc_string cc (cell_of x ''id''))))\<rparr> f d r = later lt f d x r"
proof -
  have n: "cell_of x f \<noteq> Null" "cell_of x ''id'' \<noteq> Null" "cell_of r f \<noteq> Null" "cell_of r ''id'' \<noteq> Null"
    using row_ok_cells assms(4,5) by auto
  obtain i where i: "cell_of x ''id'' = Val (JStr i)" "i \<noteq> []" "cc_string cc (Val (JStr i)) = i"
    using assms(4) by (auto simp: row_ok_def cursor_ok_def)
  have irr: "\<not> past lt d (cell_of x ''id'') (cell_of x ''id'')"
    using strict_past(1) [OF assms(3)] assms(4) by (auto simp: row_ok_def)
  show ?thesis
    using n i irr by (cases "f = ''id''"; cases d)
      (auto simp: buildCursorClause_def later_def past_def sql_lt_def sql_eq_def)
qed

section \<open>One page\<close>

text \<open>The setting of a walk: the repository, the options without a cursor, the condition of the query.\<close>

record walk =
  wk_lt :: "cell \<Rightarrow> cell \<Rightarrow> bool"
  wk_cc :: codec
  wk_rp :: repo
  wk_mode :: deployment
  wk_cls :: context_store
  wk_filter :: row
  wk_opts :: cursor_options

definition wk_read :: "walk \<Rightarrow> string option \<Rightarrow> row list \<Rightarrow> repo_error + cursor_page" where
  "wk_read w c rows = paginateCursor (wk_lt w) (wk_cc w) (wk_rp w) (wk_mode w) (wk_cls w) (wk_filter w) ((wk_opts w)\<lparr>co_cursor := c\<rparr>) rows"

definition wk_field :: "walk \<Rightarrow> string" where "wk_field w = cursor_field (wk_opts w)"
definition wk_direction :: "walk \<Rightarrow> direction" where "wk_direction w = cursor_direction (wk_opts w)"
definition wk_limit :: "walk \<Rightarrow> nat" where "wk_limit w = nat (cursor_limit (wk_opts w))"

definition wk_condition :: "walk \<Rightarrow> repo_error + (row \<Rightarrow> bool)" where
  "wk_condition w = buildConditions (wk_rp w) (spread (wk_filter w) (tenantFilter (wk_rp w) (wk_mode w) (wk_cls w)))
     (co_includeDeleted (wk_opts w)) (co_onlyDeleted (wk_opts w))"

definition wk_ok :: "walk \<Rightarrow> cell set \<Rightarrow> bool" where
  "wk_ok w C \<longleftrightarrow> \<not> hasMissingTenantContext (wk_rp w) (wk_mode w) (wk_cls w) \<and>
     wk_field w \<in> set (rp_columns (wk_rp w)) \<and> ''id'' \<in> set (rp_columns (wk_rp w)) \<and> strict_on (wk_lt w) C"

text \<open>A table the walk can read: the rows the query selects have distinct ids and fit the cursor.\<close>

definition table_ok :: "walk \<Rightarrow> cell set \<Rightarrow> (row \<Rightarrow> bool) \<Rightarrow> row list \<Rightarrow> bool" where
  "table_ok w C P rows \<longleftrightarrow> (\<forall>r\<in>set (filter P rows). row_ok (wk_cc w) C (wk_field w) r) \<and>
     distinct (map (\<lambda>r. cell_of r ''id'') (filter P rows))"

abbreviation wk_later :: "walk \<Rightarrow> row \<Rightarrow> row \<Rightarrow> bool" where
  "wk_later w \<equiv> later (wk_lt w) (wk_field w) (wk_direction w)"

text \<open>The rows still to come after the row of the last cursor, in order.\<close>

definition pending :: "walk \<Rightarrow> (row \<Rightarrow> bool) \<Rightarrow> row option \<Rightarrow> row list \<Rightarrow> row list" where
  "pending w P x rows = order_by (wk_lt w) (cursor_order (wk_rp w) (wk_field w) (wk_direction w))
     (filter (\<lambda>r. P r \<and> (case x of None \<Rightarrow> True | Some y \<Rightarrow> wk_later w y r)) rows)"

lemma in_pending: "r \<in> set (pending w P x rows) \<longleftrightarrow> r \<in> set rows \<and> P r \<and> (case x of None \<Rightarrow> True | Some y \<Rightarrow> wk_later w y r)"
  by (simp add: pending_def)

lemma distinct_filter_conj: "distinct (map f (filter P xs)) \<Longrightarrow> distinct (map f (filter (\<lambda>x. P x \<and> Q x) xs))"
  by (induction xs) (auto split: if_splits)

lemma pending_distinct:
  assumes "table_ok w C P rows"
  shows "distinct (pending w P x rows)"
proof -
  have "distinct (map (\<lambda>r. r) (filter P rows))" using assms by (auto simp: table_ok_def distinct_map)
  from distinct_filter_conj [OF this] show ?thesis by (simp add: pending_def)
qed

lemma sorted_order_by:
  assumes "\<forall>r\<in>set rs. row_ok cc C f r" and "distinct (map (\<lambda>r. cell_of r ''id'') rs)"
    and "f \<in> set (rp_columns rp)" "''id'' \<in> set (rp_columns rp)" "strict_on lt C"
  shows "sorted_wrt (later lt f d) (order_by lt (cursor_order rp f d) rs)"
  using assms(1,2)
proof (induction rs)
  case (Cons r rs)
  let ?b = "row_before lt (cursor_order rp f d)" and ?L = "order_by lt (cursor_order rp f d) rs"
  have q: "?b x y = later lt f d x y" if "x \<in> insert r (set ?L)" "y \<in> insert r (set ?L)" for x y
    by (rule query_order [OF assms(3-5)]) (use that Cons.prems(1) in auto)
  have "sorted_wrt (later lt f d) ?L" using Cons by simp
  then have "sorted_wrt ?b ?L" by (rule sorted_wrt_mono_rel [rotated]) (simp add: q)
  moreover have "\<forall>x\<in>set ?L. ?b x r \<or> ?b r x"
  proof
    fix x
    assume x: "x \<in> set ?L"
    have "cell_of x ''id'' \<noteq> cell_of r ''id''" using x Cons.prems(2) by (auto simp: rev_image_eqI)
    then have "later lt f d x r \<or> later lt f d r x"
      by (rule later_total [OF assms(5), rotated 2]) (use x Cons.prems(1) in auto)
    then show "?b x r \<or> ?b r x" using x by (simp add: q)
  qed
  moreover have "?b x z" if "x \<in> insert r (set ?L)" "y \<in> insert r (set ?L)" "z \<in> insert r (set ?L)" "?b x y" "?b y z" for x y z
    using that(4,5) unfolding q [OF that(1,2)] q [OF that(2,3)] q [OF that(1,3)]
    by (rule later_trans [OF assms(5), rotated 3]) (use that(1-3) Cons.prems(1) in auto)
  ultimately have "sorted_wrt ?b (insert_row ?b r ?L)" by (rule sorted_insert_row)
  then have "sorted_wrt (later lt f d) (insert_row ?b r ?L)"
    by (rule sorted_wrt_mono_rel [rotated]) (use q in auto)
  then show ?case by (simp add: order_by_def)
qed (simp add: order_by_def)

lemma pending_sorted:
  assumes "wk_ok w C" and "table_ok w C P rows"
  shows "sorted_wrt (wk_later w) (pending w P x rows)"
  unfolding pending_def
proof (rule sorted_order_by)
  let ?rs = "filter (\<lambda>r. P r \<and> (case x of None \<Rightarrow> True | Some y \<Rightarrow> wk_later w y r)) rows"
  show "\<forall>r\<in>set ?rs. row_ok (wk_cc w) C (wk_field w) r" using assms(2) by (simp add: table_ok_def)
  show "distinct (map (\<lambda>r. cell_of r ''id'') ?rs)"
    by (rule distinct_filter_conj) (use assms(2) in \<open>simp add: table_ok_def\<close>)
qed (use assms(1) in \<open>simp_all add: wk_ok_def\<close>)

text \<open>A call with the cursor of a row returns the first rows still to come.\<close>

definition cursor_of :: "walk \<Rightarrow> row option \<Rightarrow> string option" where
  "cursor_of w x = (case x of None \<Rightarrow> None | Some y \<Rightarrow> encodeCursor (wk_cc w) (wk_field w) y)"

lemma opts_fields [simp]:
  "cursor_field (opts\<lparr>co_cursor := c\<rparr>) = cursor_field opts" "cursor_direction (opts\<lparr>co_cursor := c\<rparr>) = cursor_direction opts"
  "cursor_limit (opts\<lparr>co_cursor := c\<rparr>) = cursor_limit opts" "page_of cc (opts\<lparr>co_cursor := c\<rparr>) = page_of cc opts"
proof -
  show f: "cursor_field (opts\<lparr>co_cursor := c\<rparr>) = cursor_field opts" by (simp add: cursor_field_def)
  show "cursor_direction (opts\<lparr>co_cursor := c\<rparr>) = cursor_direction opts" by (simp add: cursor_direction_def)
  show l: "cursor_limit (opts\<lparr>co_cursor := c\<rparr>) = cursor_limit opts" by (simp add: cursor_limit_def)
  show "page_of cc (opts\<lparr>co_cursor := c\<rparr>) = page_of cc opts" by (rule ext) (simp only: page_of_def f l)
qed

lemma opts_kept:
  "co_cursorField (opts\<lparr>co_cursor := c\<rparr>) = co_cursorField opts" "co_cursor (opts\<lparr>co_cursor := c\<rparr>) = c"
  "co_includeDeleted (opts\<lparr>co_cursor := c\<rparr>) = co_includeDeleted opts" "co_onlyDeleted (opts\<lparr>co_cursor := c\<rparr>) = co_onlyDeleted opts"
  by simp_all

lemma read_page:
  assumes "wk_ok w C" and "table_ok w C P rows" and "wk_condition w = Inr P"
    and "\<And>y. x = Some y \<Longrightarrow> row_ok (wk_cc w) C (wk_field w) y"
  shows "wk_read w (cursor_of w x) rows = Inr (page_of (wk_cc w) (wk_opts w) (take (Suc (wk_limit w)) (pending w P x rows)))"
proof -
  let ?dec = "decodeCursor (wk_cc w) (cursor_of w x)"
  have ok: "wk_field w \<in> set (rp_columns (wk_rp w))" "''id'' \<in> set (rp_columns (wk_rp w))" "strict_on (wk_lt w) C"
    using assms(1) by (simp_all add: wk_ok_def)
  have dec: "(cursor_of w x \<in> {None, Some []} \<or> ?dec \<noteq> None) \<and>
      (\<forall>r. row_ok (wk_cc w) C (wk_field w) r \<longrightarrow>
         cursor_condition (wk_lt w) (wk_rp w) ((wk_opts w)\<lparr>co_cursor := cursor_of w x\<rparr>) ?dec P r =
         (P r \<and> (case x of None \<Rightarrow> True | Some y \<Rightarrow> wk_later w y r)))"
  proof (cases x)
    case None
    then show ?thesis by (simp add: cursor_of_def decodeCursor_def cursor_condition_def)
  next
    case (Some y)
    have y: "row_ok (wk_cc w) C (wk_field w) y" by (rule assms(4)) (rule Some)
    then have "cursor_ok (wk_cc w) (wk_field w) y" by (simp add: row_ok_def)
    from cursor_roundtrip [OF this] obtain c where c: "encodeCursor (wk_cc w) (wk_field w) y = Some c"
      "decodeCursor (wk_cc w) (Some c) = Some \<lparr>dc_val = cell_of y (wk_field w),
         dc_id = (if wk_field w = ''id'' then None else js_string (JStr (cc_string (wk_cc w) (cell_of y ''id''))))\<rparr>" by metis
    show ?thesis
      using cursor_clause [OF ok y, of _ "wk_direction w"] ok(2)
      by (simp add: Some cursor_of_def c cursor_condition_def wk_field_def [symmetric] wk_direction_def [symmetric] ok(1))
  qed
  have P: "row_ok (wk_cc w) C (wk_field w) r" if "r \<in> set rows" "P r" for r
    using assms(2) that by (simp add: table_ok_def)
  have "filter (cursor_condition (wk_lt w) (wk_rp w) ((wk_opts w)\<lparr>co_cursor := cursor_of w x\<rparr>) ?dec P) rows =
      filter (\<lambda>r. P r \<and> (case x of None \<Rightarrow> True | Some y \<Rightarrow> wk_later w y r)) rows"
  proof (rule filter_cong [OF refl])
    fix r
    assume "r \<in> set rows"
    then show "cursor_condition (wk_lt w) (wk_rp w) ((wk_opts w)\<lparr>co_cursor := cursor_of w x\<rparr>) ?dec P r =
        (P r \<and> (case x of None \<Rightarrow> True | Some y \<Rightarrow> wk_later w y r))"
      using dec P by (cases "P r") (auto simp: cursor_condition_def)
  qed
  moreover have "nat (cursor_limit (wk_opts w) + 1) = Suc (wk_limit w)"
    by (simp add: wk_limit_def cursor_limit_def MAX_FIND_LIMIT_def)
  moreover have "((co_cursorField (wk_opts w) \<notin> {None, Some []} \<and> wk_field w \<notin> set (rp_columns (wk_rp w))) \<or>
      (cursor_of w x \<notin> {None, Some []} \<and> ?dec = None)) = False"
    using conjunct1 [OF dec] ok(1) by blast
  moreover have "hasMissingTenantContext (wk_rp w) (wk_mode w) (wk_cls w) = False" using assms(1) by (simp add: wk_ok_def)
  moreover have "buildConditions (wk_rp w) (spread (wk_filter w) (tenantFilter (wk_rp w) (wk_mode w) (wk_cls w)))
      (co_includeDeleted (wk_opts w)) (co_onlyDeleted (wk_opts w)) = Inr P"
    using assms(3) by (simp add: wk_condition_def)
  ultimately show ?thesis
    by (simp only: wk_read_def paginateCursor_def Let_def opts_fields opts_kept wk_field_def [symmetric] wk_direction_def [symmetric] if_False and_then.simps pending_def)
qed

section \<open>Following the cursors\<close>

text \<open>The pages a client gets that follows the cursors; each call finds the table as given for it.\<close>

fun cursor_walk :: "walk \<Rightarrow> string option \<Rightarrow> row list list \<Rightarrow> cursor_page list" where
  "cursor_walk w c [] = []"
| "cursor_walk w c (rows # later_tables) =
    (case wk_read w c rows of
       Inl e \<Rightarrow> []
     | Inr p \<Rightarrow> p # (case cp_nextCursor p of None \<Rightarrow> [] | Some c' \<Rightarrow> cursor_walk w (Some c') later_tables))"

definition finished :: "cursor_page list \<Rightarrow> bool" where
  "finished ps \<longleftrightarrow> ps \<noteq> [] \<and> cp_nextCursor (last ps) = None"

definition walked :: "cursor_page list \<Rightarrow> row list" where
  "walked ps = concat (map cp_items ps)"

lemma limit_pos: "0 < wk_limit w"
  by (simp add: wk_limit_def cursor_limit_def MAX_FIND_LIMIT_def)

lemma page_short:
  assumes "length L \<le> wk_limit w"
  shows "cp_items (page_of (wk_cc w) (wk_opts w) (take (Suc (wk_limit w)) L)) = L"
    and "cp_nextCursor (page_of (wk_cc w) (wk_opts w) (take (Suc (wk_limit w)) L)) = None"
proof -
  have c: "cursor_limit (wk_opts w) = int (wk_limit w)" using limit_pos [of w] by (simp add: wk_limit_def)
  show "cp_items (page_of (wk_cc w) (wk_opts w) (take (Suc (wk_limit w)) L)) = L"
    "cp_nextCursor (page_of (wk_cc w) (wk_opts w) (take (Suc (wk_limit w)) L)) = None"
    using assms by (simp_all add: page_of_def Let_def c)
qed

lemma page_full:
  assumes "wk_limit w < length L"
  shows "cp_items (page_of (wk_cc w) (wk_opts w) (take (Suc (wk_limit w)) L)) = take (wk_limit w) L"
    and "cp_nextCursor (page_of (wk_cc w) (wk_opts w) (take (Suc (wk_limit w)) L)) =
      encodeCursor (wk_cc w) (wk_field w) (last (take (wk_limit w) L))"
proof -
  have c: "cursor_limit (wk_opts w) = int (wk_limit w)" using limit_pos [of w] by (simp add: wk_limit_def)
  have n: "take (wk_limit w) L \<noteq> []" using assms limit_pos [of w] by auto
  show "cp_items (page_of (wk_cc w) (wk_opts w) (take (Suc (wk_limit w)) L)) = take (wk_limit w) L"
    "cp_nextCursor (page_of (wk_cc w) (wk_opts w) (take (Suc (wk_limit w)) L)) =
      encodeCursor (wk_cc w) (wk_field w) (last (take (wk_limit w) L))"
    using assms n by (simp_all add: page_of_def Let_def c wk_field_def min_def)
qed

text \<open>A page that is full ends with a row whose cursor can be followed; what comes after it is still pending.\<close>

lemma full_page:
  assumes "wk_ok w C" and "table_ok w C P rows" and "wk_limit w < length (pending w P x rows)"
    and "\<forall>y. x = Some y \<longrightarrow> row_ok (wk_cc w) C (wk_field w) y"
    and "z = last (take (wk_limit w) (pending w P x rows))"
  shows "row_ok (wk_cc w) C (wk_field w) z" and "cursor_of w (Some z) \<noteq> None"
    and "r \<in> set (pending w P x rows) \<Longrightarrow> r \<in> set (take (wk_limit w) (pending w P x rows)) \<longleftrightarrow> \<not> wk_later w z r"
    and "pending w P (Some z) rows = drop (wk_limit w) (pending w P x rows)"
    and "row_ok (wk_cc w) C (wk_field w) r \<Longrightarrow> wk_later w z r \<Longrightarrow> (case x of None \<Rightarrow> True | Some y \<Rightarrow> wk_later w y r)"
proof -
  let ?L = "pending w P x rows" and ?n = "wk_limit w"
  have strict: "strict_on (wk_lt w) C" using assms(1) by (simp add: wk_ok_def)
  have okr: "row_ok (wk_cc w) C (wk_field w) r" if "r \<in> set rows" "P r" for r
    using assms(2) that by (simp add: table_ok_def)
  have ok: "row_ok (wk_cc w) C (wk_field w) r" if "r \<in> set ?L" for r
    using that okr by (simp add: in_pending)
  have ne: "take ?n ?L \<noteq> []" using assms(3) limit_pos [of w] by auto
  have zin: "z \<in> set (take ?n ?L)" unfolding assms(5) by (rule last_in_set) (rule ne)
  have zL: "z \<in> set ?L" by (rule in_set_takeD) (rule zin)
  show zok: "row_ok (wk_cc w) C (wk_field w) z" by (rule ok) (rule zL)
  then have "cursor_ok (wk_cc w) (wk_field w) z" by (simp add: row_ok_def)
  from cursor_roundtrip [OF this] show "cursor_of w (Some z) \<noteq> None" by (auto simp: cursor_of_def)
  have sorted: "sorted_wrt (wk_later w) (take ?n ?L @ drop ?n ?L)"
    using pending_sorted [OF assms(1,2)] by simp
  have after: "wk_later w z r" if "r \<in> set (drop ?n ?L)" for r
    using sorted zin that by (simp only: sorted_wrt_append)
  have upto: "\<not> wk_later w z r" if "r \<in> set (take ?n ?L)" for r
  proof (cases "r = z")
    case True
    then show ?thesis using later_irrefl [OF strict zok] by simp
  next
    case False
    have "take ?n ?L = butlast (take ?n ?L) @ [z]" using ne assms(5) by simp
    moreover from this that False have "r \<in> set (butlast (take ?n ?L))" by (metis in_set_conv_decomp rotate1.simps(2) set_ConsD set_rotate1)
    ultimately have "wk_later w r z" using sorted by (metis (no_types, lifting) list.set_intros(1) sorted_wrt_append)
    then show ?thesis by (rule later_asym [OF strict ok [OF in_set_takeD [OF that]] zok])
  qed
  show part: "r \<in> set (take ?n ?L) \<longleftrightarrow> \<not> wk_later w z r" if "r \<in> set ?L" for r
  proof -
    have "r \<in> set (take ?n ?L) \<or> r \<in> set (drop ?n ?L)" using that by (metis Un_iff append_take_drop_id set_append)
    then show ?thesis using after upto by blast
  qed
  show trans: "case x of None \<Rightarrow> True | Some y \<Rightarrow> wk_later w y r"
    if "row_ok (wk_cc w) C (wk_field w) r" "wk_later w z r" for r
  proof (cases x)
    case (Some y)
    have "wk_later w y z" using zL by (simp add: in_pending Some)
    then have "wk_later w y r" by (rule later_trans [OF strict assms(4) [rule_format, OF Some] zok that(1) _ that(2)])
    then show ?thesis by (simp add: Some)
  qed simp
  show "pending w P (Some z) rows = drop ?n ?L"
  proof (rule strictly_sorted_unique)
    show "sorted_wrt (wk_later w) (pending w P (Some z) rows)" by (rule pending_sorted [OF assms(1,2)])
    show "sorted_wrt (wk_later w) (drop ?n ?L)" using sorted by (simp only: sorted_wrt_append)
    show "set (pending w P (Some z) rows) = set (drop ?n ?L)"
    proof (intro set_eqI iffI)
      fix r
      assume r: "r \<in> set (pending w P (Some z) rows)"
      then have "row_ok (wk_cc w) C (wk_field w) r" "wk_later w z r" using okr by (simp_all add: in_pending)
      from trans [OF this] r have "r \<in> set ?L" by (simp add: in_pending)
      then show "r \<in> set (drop ?n ?L)"
        using part \<open>wk_later w z r\<close> by (metis Un_iff append_take_drop_id set_append)
    next
      fix r
      assume r: "r \<in> set (drop ?n ?L)"
      then show "r \<in> set (pending w P (Some z) rows)"
        using after in_set_dropD [OF r] by (simp add: in_pending)
    qed
    fix u v
    assume "u \<in> set (pending w P (Some z) rows)" "v \<in> set (pending w P (Some z) rows)" and uv: "wk_later w u v"
    then have "row_ok (wk_cc w) C (wk_field w) u" "row_ok (wk_cc w) C (wk_field w) v" using okr by (simp_all add: in_pending)
    then show "\<not> wk_later w v u" by (rule later_asym [OF strict]) (rule uv)
  qed
qed

lemma count_list_distinct: "distinct xs \<Longrightarrow> count_list xs x = (if x \<in> set xs then 1 else 0)"
  by (induction xs) auto

text \<open>A row that is in place for every call is returned once if it comes after the cursor, else never.\<close>

lemma walk_once:
  assumes w: "wk_ok w C" and P: "wk_condition w = Inr P"
    and "\<forall>rows\<in>set tables. table_ok w C P rows \<and> r \<in> set rows" and r: "P r" "row_ok (wk_cc w) C (wk_field w) r"
    and "\<And>y. x = Some y \<Longrightarrow> row_ok (wk_cc w) C (wk_field w) y"
    and "finished (cursor_walk w (cursor_of w x) tables)"
  shows "count_list (walked (cursor_walk w (cursor_of w x) tables)) r =
    (if case x of None \<Rightarrow> True | Some y \<Rightarrow> wk_later w y r then 1 else 0)"
  using assms(3,6,7)
proof (induction tables arbitrary: x)
  case Nil
  then show ?case by (simp add: finished_def)
next
  case (Cons rows tables)
  let ?L = "pending w P x rows" and ?n = "wk_limit w"
  have t: "table_ok w C P rows" "r \<in> set rows" using Cons.prems(1) by simp_all
  let ?p = "page_of (wk_cc w) (wk_opts w) (take (Suc ?n) ?L)"
  have read: "wk_read w (cursor_of w x) rows = Inr ?p"
    by (rule read_page [OF w t(1) P]) (rule Cons.prems(2))
  have d: "distinct ?L" by (rule pending_distinct [OF t(1)])
  have inL: "r \<in> set ?L \<longleftrightarrow> (case x of None \<Rightarrow> True | Some y \<Rightarrow> wk_later w y r)"
    using t(2) r(1) by (simp add: in_pending)
  show ?case
  proof (cases "length ?L \<le> ?n")
    case True
    then have "walked (cursor_walk w (cursor_of w x) (rows # tables)) = ?L"
      using page_short [OF True] by (simp add: read walked_def)
    then show ?thesis using d inL by (simp add: count_list_distinct)
  next
    case False
    then have long: "?n < length ?L" by simp
    define z where "z = last (take ?n ?L)"
    have "\<forall>y. x = Some y \<longrightarrow> row_ok (wk_cc w) C (wk_field w) y" using Cons.prems(2) by simp
    note fp = full_page [OF w t(1) long this z_def]
    note pf = page_full [OF long]
    have nxt: "cp_nextCursor ?p = cursor_of w (Some z)" using pf(2) by (simp add: cursor_of_def z_def)
    obtain c where c: "cursor_of w (Some z) = Some c" using fp(2) by auto
    have walk: "cursor_walk w (cursor_of w x) (rows # tables) = ?p # cursor_walk w (cursor_of w (Some z)) tables"
      by (simp add: read nxt c)
    have fin: "finished (cursor_walk w (cursor_of w (Some z)) tables)"
      using Cons.prems(3) unfolding walk by (auto simp: finished_def nxt c split: if_splits)
    have IH: "count_list (walked (cursor_walk w (cursor_of w (Some z)) tables)) r = (if wk_later w z r then 1 else 0)"
      using Cons.IH [OF _ _ fin] Cons.prems(1) fp(1) by simp
    have "walked (cursor_walk w (cursor_of w x) (rows # tables)) = take ?n ?L @ walked (cursor_walk w (cursor_of w (Some z)) tables)"
      unfolding walk by (simp add: walked_def pf(1))
    moreover have "count_list (take ?n ?L) r = (if r \<in> set (take ?n ?L) then 1 else 0)"
      using d by (simp add: count_list_distinct)
    moreover have "r \<in> set (take ?n ?L) \<longleftrightarrow> r \<in> set ?L \<and> \<not> wk_later w z r"
      using fp(3) [of r] in_set_takeD [of r ?n ?L] by blast
    moreover have "wk_later w z r \<Longrightarrow> r \<in> set ?L" using fp(5) [OF r(2)] inL by simp
    ultimately show ?thesis using IH inL by auto
  qed
qed

text \<open>On a table that does not change the pages are the pending rows in order.\<close>

lemma walk_unchanged:
  assumes w: "wk_ok w C" and P: "wk_condition w = Inr P" and t: "table_ok w C P rows"
    and "\<And>y. x = Some y \<Longrightarrow> row_ok (wk_cc w) C (wk_field w) y"
    and "length (pending w P x rows) \<le> k * wk_limit w" and "0 < k"
  shows "finished (cursor_walk w (cursor_of w x) (replicate k rows)) \<and>
    walked (cursor_walk w (cursor_of w x) (replicate k rows)) = pending w P x rows"
  using assms(4-6)
proof (induction k arbitrary: x)
  case (Suc k)
  let ?L = "pending w P x rows" and ?n = "wk_limit w"
  let ?p = "page_of (wk_cc w) (wk_opts w) (take (Suc ?n) ?L)"
  have read: "wk_read w (cursor_of w x) rows = Inr ?p"
    by (rule read_page [OF w t P]) (rule Suc.prems(1))
  show ?case
  proof (cases "length ?L \<le> ?n")
    case True
    then show ?thesis using page_short [OF True] by (simp add: read walked_def finished_def)
  next
    case False
    then have long: "?n < length ?L" by simp
    define z where "z = last (take ?n ?L)"
    have "\<forall>y. x = Some y \<longrightarrow> row_ok (wk_cc w) C (wk_field w) y" using Suc.prems(1) by simp
    note fp = full_page [OF w t long this z_def]
    note pf = page_full [OF long]
    obtain c where c: "cursor_of w (Some z) = Some c" using fp(2) by auto
    have nxt: "cp_nextCursor ?p = Some c" using pf(2) c by (simp add: cursor_of_def z_def)
    have "0 < k" using long Suc.prems(2) by (cases k) simp_all
    moreover have "length (pending w P (Some z) rows) \<le> k * ?n" using Suc.prems(2) by (simp add: fp(4))
    ultimately have IH: "finished (cursor_walk w (Some c) (replicate k rows))"
        "walked (cursor_walk w (Some c) (replicate k rows)) = drop ?n ?L"
      using Suc.IH [of "Some z"] fp(1) by (simp_all add: c fp(4))
    then show ?thesis by (simp add: read nxt walked_def finished_def pf(1))
  qed
qed simp

text \<open>
  C25. Following the cursors loses nothing and repeats nothing. A client calls \<open>paginateCursor\<close> again
  and again with the cursor of the page before, until a page carries none; meanwhile rows are
  inserted, updated and deleted. Every row that was in the table, unchanged, at each of its calls is
  in exactly one of the pages, once, in either direction and for every column that is never \<open>NULL\<close>.
\<close>

theorem cursor_walk_stable:
  assumes "wk_ok w C" and "wk_condition w = Inr P" and "\<forall>rows\<in>set tables. table_ok w C P rows"
    and "finished (cursor_walk w None tables)" and "P r" and "\<forall>rows\<in>set tables. r \<in> set rows"
  shows "count_list (walked (cursor_walk w None tables)) r = 1"
proof -
  have "tables \<noteq> []" using assms(4) by (auto simp: finished_def)
  then obtain rows where "rows \<in> set tables" by (cases tables) auto
  then have "row_ok (wk_cc w) C (wk_field w) r" using assms(3,5,6) by (simp add: table_ok_def)
  from walk_once [OF assms(1,2) _ assms(5) this, of tables None] assms(3,4,6) show ?thesis by (simp add: cursor_of_def)
qed

text \<open>
  Paging ends, in order. On a table that does not change, a walk with pages of \<open>n\<close> rows over at
  most \<open>k * n\<close> selected rows is finished after at most \<open>k\<close> calls, and its pages joined are all the
  selected rows, each once, strictly in the order asked for.
\<close>

theorem cursor_walk_complete:
  assumes "wk_ok w C" and "wk_condition w = Inr P" and "table_ok w C P rows"
    and "length (filter P rows) \<le> k * wk_limit w" and "0 < k"
  shows "finished (cursor_walk w None (replicate k rows)) \<and>
    length (cursor_walk w None (replicate k rows)) \<le> k \<and>
    mset (walked (cursor_walk w None (replicate k rows))) = mset (filter P rows) \<and>
    sorted_wrt (wk_later w) (walked (cursor_walk w None (replicate k rows)))"
proof -
  have all: "length (pending w P None rows) = length (filter P rows)" "mset (pending w P None rows) = mset (filter P rows)"
    by (simp_all add: pending_def mset_order_by)
  have "length (cursor_walk w c tables) \<le> length tables" for c tables
    by (induction w c tables rule: cursor_walk.induct) (auto split: sum.split option.split)
  from this [of None "replicate k rows"] walk_unchanged [OF assms(1,2,3), of None k] assms(4,5) all
    pending_sorted [OF assms(1,3), of None]
  show ?thesis by (simp add: cursor_of_def)
qed

definition demo_note :: "string \<Rightarrow> row" where
  "demo_note i = [(''id'', Val (JStr i)), (''tenantId'', Val (JStr ''a''))]"

definition demo_walk :: walk where
  "demo_walk = \<lparr>wk_lt = text_before, wk_cc = demo_codec, wk_rp = demo_repo, wk_mode = Multi, wk_cls = in_tenant (Some ''a''),
     wk_filter = [], wk_opts = \<lparr>co_cursor = None, co_limit = Some 1, co_cursorField = None, co_direction = Some Asc,
       co_includeDeleted = False, co_onlyDeleted = False\<rparr>\<rparr>"

definition demo_selected :: "row \<Rightarrow> bool" where
  "demo_selected r \<longleftrightarrow> sql_eq (cell_of r ''tenantId'') (Val (JStr ''a'')) \<and> cell_of r ''deletedAt'' = Null"

lemma demo_condition: "wk_condition demo_walk = Inr demo_selected"
  by (simp add: wk_condition_def demo_walk_def demo_repo_def in_tenant_def tenantFilter_def context_get_def buildConditions_def
      spread_def deleted_clauses_def) (rule ext, auto simp: demo_selected_def)

definition demo_ids :: "cell set" where "demo_ids = {Val (JStr ''1''), Val (JStr ''22''), Val (JStr ''333'')}"

lemma demo_wk_ok: "wk_ok demo_walk demo_ids"
  by (simp add: wk_ok_def demo_walk_def hasMissingTenantContext_def isTenantIsolationRequired_def tenantFilter_def context_get_def
      demo_repo_def in_tenant_def wk_field_def cursor_field_def strict_on_def demo_ids_def)

lemma demo_row_ok: "i \<in> {''1'', ''22'', ''333''} \<Longrightarrow> row_ok demo_codec demo_ids ''id'' (demo_note i) \<and> demo_selected (demo_note i)"
  by (auto simp: row_ok_def cursor_ok_def demo_note_def cell_of_def demo_codec_def plain_cursor_def plain_char_def date_like_def
      digit_def demo_ids_def demo_selected_def sql_eq_def)

lemma demo_wk: "wk_field demo_walk = ''id''" "wk_cc demo_walk = demo_codec" "wk_limit demo_walk = 1"
  by (simp_all add: wk_field_def demo_walk_def cursor_field_def wk_limit_def cursor_limit_def orElse_def MAX_FIND_LIMIT_def)

lemma demo_table:
  "distinct is \<Longrightarrow> set is \<subseteq> {''1'', ''22'', ''333''} \<Longrightarrow> table_ok demo_walk demo_ids demo_selected (map demo_note is)"
proof -
  assume d: "distinct is" and s: "set is \<subseteq> {''1'', ''22'', ''333''}"
  have "filter demo_selected (map demo_note is) = map demo_note is"
    using s demo_row_ok by (intro filter_True) auto
  moreover have "distinct (map (\<lambda>r. cell_of r ''id'') (map demo_note is))"
    using d by (simp add: distinct_map inj_on_def demo_note_def cell_of_def)
  moreover have "\<forall>r\<in>set (map demo_note is). row_ok demo_codec demo_ids ''id'' r" using s demo_row_ok by auto
  ultimately show ?thesis unfolding table_ok_def demo_wk by (simp only: simp_thms)
qed

theorem cursor_walk_complete_witness:
  "finished (cursor_walk demo_walk None (replicate 3 (map demo_note [''22'', ''1'', ''333'']))) \<and>
   mset (walked (cursor_walk demo_walk None (replicate 3 (map demo_note [''22'', ''1'', ''333''])))) =
     mset (map demo_note [''22'', ''1'', ''333''])"
proof -
  let ?rows = "map demo_note [''22'', ''1'', ''333'']"
  have "table_ok demo_walk demo_ids demo_selected ?rows" by (rule demo_table) simp_all
  moreover have "filter demo_selected ?rows = ?rows" using demo_row_ok by (intro filter_True) auto
  ultimately show ?thesis
    using cursor_walk_complete [OF demo_wk_ok demo_condition, of ?rows 3] by (simp only: demo_wk list.size list.map)
qed

text \<open>Three calls; between them a row is inserted and the row of the second page is deleted.\<close>

definition demo_tables :: "row list list" where
  "demo_tables = [map demo_note [''1'', ''333''], map demo_note [''333'', ''22''], map demo_note [''333'']]"

theorem cursor_walk_stable_witness:
  "count_list (walked (cursor_walk demo_walk None demo_tables)) (demo_note ''333'') = 1"
proof (rule cursor_walk_stable [OF demo_wk_ok demo_condition])
  show "\<forall>rows\<in>set demo_tables. table_ok demo_walk demo_ids demo_selected rows"
    unfolding demo_tables_def by (auto simp del: list.map intro!: demo_table)
  show "finished (cursor_walk demo_walk None demo_tables)"
    by (simp add: finished_def demo_tables_def wk_read_def paginateCursor_def demo_walk_def demo_repo_def in_tenant_def
        hasMissingTenantContext_def isTenantIsolationRequired_def tenantFilter_def context_get_def buildConditions_def
        spread_def deleted_clauses_def decodeCursor_def cursor_field_def cursor_direction_def cursor_limit_def orElse_def
        MAX_FIND_LIMIT_def cursor_order_def buildCursorOrder_def order_by_def cell_before_def demo_note_def cell_of_def
        cursor_condition_def sql_eq_def page_of_def encodeCursor_def demo_codec_def bare_cursor_def plain_cursor_def
        plain_char_def revive_date_def date_like_def digit_def buildCursorClause_def sql_lt_def)
  show "demo_selected (demo_note ''333'')" using demo_row_ok by simp
  show "\<forall>rows\<in>set demo_tables. demo_note ''333'' \<in> set rows" by (simp add: demo_tables_def)
qed

text \<open>
  The column has to be one without \<open>NULL\<close>: a cursor that carries \<open>NULL\<close> selects no row, so that a walk
  whose page ends with such a row stops there, whatever is left.
\<close>

lemma null_cursor_selects_nothing: "dc_val c = Null \<Longrightarrow> \<not> buildCursorClause lt hasId c field d r"
  by (cases "dc_id c") (auto simp: buildCursorClause_def sql_lt_def sql_eq_def Let_def)

end
