(* ===== verification/SseConnection.thy ===== *)
theory SseConnection
  imports Prelude
begin

text \<open>
  Model of \<open>apps/api/src/infrastructure/realtime/transports/sse-connection.ts\<close>: one
  server-sent-events connection with a bounded backlog.

  Node's \<open>ServerResponse\<close> is the environment. What it answers to a write (accepted,
  accepted with back pressure, or an exception) is a function \<open>w\<close> of what was written
  before and of the frame, and its \<open>writableLength\<close> is an input \<open>wl\<close> of every call that
  reads it. \<open>JSON.stringify\<close> of the payload is an input too: \<open>None\<close> stands for its
  exception. Strings are lists of bytes, so \<open>length\<close> is \<open>byteLength\<close>.
\<close>

definition MAX_EVENT_BYTES :: nat where "MAX_EVENT_BYTES = 12 * 1024"
definition MAX_PENDING_BYTES :: nat where "MAX_PENDING_BYTES = 16 * 1024"
definition MAX_PENDING_EVENTS :: nat where "MAX_PENDING_EVENTS = 64"

datatype close_reason =
    client_closed
  | server_closed
  | event_too_large
  | backlog_bytes
  | backlog_events
  | drain_timeout
  | write_failed

datatype write_answer = Accepted | Backpressure | Throws

text \<open>
  The fields of the class, and what it does to its environment: the frames written to the
  response (\<open>sse_out\<close>), whether the response was ended, and the calls of \<open>onClosed\<close>. The
  \<open>drain\<close> listener and the drain timer are set and cleared together: \<open>sse_wait\<close>.
\<close>

record sse_conn =
  sse_queue :: "string list"
  sse_pending :: int
  sse_blocked :: bool
  sse_closed :: bool
  sse_wait :: bool
  sse_out :: "string list"
  sse_ended :: bool
  sse_onClosed :: "(close_reason \<times> int) list"

definition sse_new :: sse_conn where
  "sse_new = \<lparr>sse_queue = [], sse_pending = 0, sse_blocked = False, sse_closed = False,
     sse_wait = False, sse_out = [], sse_ended = False, sse_onClosed = []\<rparr>"

definition sse_queuedBytes :: "nat \<Rightarrow> sse_conn \<Rightarrow> int" where
  "sse_queuedBytes wl c = sse_pending c + int wl"

definition sse_clearDrainWait :: "sse_conn \<Rightarrow> sse_conn" where
  "sse_clearDrainWait c = c\<lparr>sse_wait := False\<rparr>"

definition sse_close :: "nat \<Rightarrow> close_reason \<Rightarrow> sse_conn \<Rightarrow> sse_conn" where
  "sse_close wl reason c =
    (if sse_closed c then c
     else
       let queuedBytes = sse_queuedBytes wl c;
           c1 = sse_clearDrainWait (c\<lparr>sse_closed := True\<rparr>);
           c2 = c1\<lparr>sse_queue := [], sse_pending := 0\<rparr>;
           c3 = c2\<lparr>sse_ended := True\<rparr>
       in c3\<lparr>sse_onClosed := sse_onClosed c3 @ [(reason, queuedBytes)]\<rparr>)"

definition sse_waitForDrain :: "sse_conn \<Rightarrow> sse_conn" where
  "sse_waitForDrain c =
     (if sse_blocked c \<or> sse_closed c then c else c\<lparr>sse_blocked := True, sse_wait := True\<rparr>)"

type_synonym writer = "string list \<Rightarrow> string \<Rightarrow> write_answer"

definition sse_write :: "writer \<Rightarrow> nat \<Rightarrow> string \<Rightarrow> sse_conn \<Rightarrow> bool \<times> sse_conn" where
  "sse_write w wl frame c =
     (case w (sse_out c) frame of
        Throws \<Rightarrow> (False, sse_close wl write_failed c)
      | Accepted \<Rightarrow> (True, c\<lparr>sse_out := sse_out c @ [frame]\<rparr>)
      | Backpressure \<Rightarrow> (True, sse_waitForDrain (c\<lparr>sse_out := sse_out c @ [frame]\<rparr>)))"

definition sse_frame :: "string \<Rightarrow> string \<Rightarrow> string" where
  "sse_frame event json = ''event: '' @ event @ [CHR 0x0A] @ ''data: '' @ json @ [CHR 0x0A, CHR 0x0A]"

definition sse_send ::
  "writer \<Rightarrow> nat \<Rightarrow> string \<Rightarrow> string option \<Rightarrow> sse_conn \<Rightarrow> bool \<times> sse_conn" where
  "sse_send w wl event json c =
    (if sse_closed c then (False, c)
     else (case json of
       None \<Rightarrow> (False, sse_close wl write_failed c)
     | Some data \<Rightarrow>
       let frame = sse_frame event data in
       if length frame > MAX_EVENT_BYTES then (False, sse_close wl event_too_large c)
       else if length (sse_queue c) \<ge> MAX_PENDING_EVENTS then (False, sse_close wl backlog_events c)
       else if sse_queuedBytes wl c + int (length frame) > int MAX_PENDING_BYTES
       then (False, sse_close wl backlog_bytes c)
       else if sse_blocked c then
         (True, c\<lparr>sse_queue := sse_queue c @ [frame],
                 sse_pending := sse_pending c + int (length frame)\<rparr>)
       else sse_write w wl frame c))"

text \<open>
  The loop of \<open>handleDrain\<close>. The source's fields are read anew in every turn; the queue
  shrinks by one per turn, and a failing write empties it.
\<close>

function sse_drain_loop :: "writer \<Rightarrow> nat \<Rightarrow> sse_conn \<Rightarrow> sse_conn" where
  "sse_drain_loop w wl c =
     (if sse_blocked c then c
      else (case sse_queue c of
        [] \<Rightarrow> c
      | frame # rest \<Rightarrow>
          let c1 = c\<lparr>sse_queue := rest, sse_pending := sse_pending c - int (length frame)\<rparr>;
              r = sse_write w wl frame c1
          in if \<not> fst r then snd r else sse_drain_loop w wl (snd r)))"
  by pat_completeness auto

lemma sse_write_queue:
  "sse_queue (snd (sse_write w wl f c)) = [] \<or> sse_queue (snd (sse_write w wl f c)) = sse_queue c"
  by (auto simp: sse_write_def sse_close_def sse_waitForDrain_def Let_def sse_clearDrainWait_def
      split: write_answer.splits)

lemma sse_write_queue_le:
  "length (sse_queue (snd (sse_write w wl f c))) \<le> length (sse_queue c)"
  using sse_write_queue [of w wl f c] by auto

termination sse_drain_loop
  by (relation "measure (\<lambda>(w, wl, c). length (sse_queue c))")
     (auto intro!: le_imp_less_Suc sse_write_queue_le [THEN order_trans])

declare sse_drain_loop.simps [simp del]

definition sse_handleDrain :: "writer \<Rightarrow> nat \<Rightarrow> sse_conn \<Rightarrow> sse_conn" where
  "sse_handleDrain w wl c =
    (if sse_closed c then c
     else sse_drain_loop w wl (sse_clearDrainWait (c\<lparr>sse_blocked := False\<rparr>)))"

section \<open>The connection as a state machine\<close>

text \<open>
  The events a connection sees: the calls of the registry, and the events of the response
  and the timer, which reach it only while their listener or timer is set.
\<close>

datatype sse_event =
    Send nat string "string option"
  | CloseCall nat close_reason
  | Drain nat
  | ClientClose nat
  | ResponseError nat
  | DrainDeadline nat

fun sse_step :: "writer \<Rightarrow> sse_event \<Rightarrow> sse_conn \<Rightarrow> sse_conn" where
  "sse_step w (Send wl ev json) c = snd (sse_send w wl ev json c)"
| "sse_step w (CloseCall wl reason) c = sse_close wl reason c"
| "sse_step w (Drain wl) c = (if sse_wait c then sse_handleDrain w wl c else c)"
| "sse_step w (ClientClose wl) c = sse_close wl client_closed c"
| "sse_step w (ResponseError wl) c = sse_close wl write_failed c"
| "sse_step w (DrainDeadline wl) c = (if sse_wait c then sse_close wl drain_timeout c else c)"

fun sse_run :: "writer \<Rightarrow> sse_event list \<Rightarrow> sse_conn \<Rightarrow> sse_conn" where
  "sse_run w [] c = c"
| "sse_run w (e # es) c = sse_run w es (sse_step w e c)"

text \<open>The frames that \<open>send\<close> took over (it returned true), in order.\<close>

fun sse_taken :: "writer \<Rightarrow> sse_event list \<Rightarrow> sse_conn \<Rightarrow> string list" where
  "sse_taken w [] c = []"
| "sse_taken w (e # es) c =
     (case e of
        Send wl ev (Some json) \<Rightarrow>
          (if fst (sse_send w wl ev (Some json) c) then [sse_frame ev json] else [])
      | _ \<Rightarrow> []) @ sse_taken w es (sse_step w e c)"

section \<open>Invariant\<close>

definition sse_bytes :: "string list \<Rightarrow> int" where
  "sse_bytes q = int (sum_list (map length q))"

definition sse_inv :: "sse_conn \<Rightarrow> bool" where
  "sse_inv c \<longleftrightarrow>
     sse_pending c = sse_bytes (sse_queue c) \<and>
     sse_pending c \<le> int MAX_PENDING_BYTES \<and>
     length (sse_queue c) \<le> MAX_PENDING_EVENTS \<and>
     (\<not> sse_closed c \<longrightarrow> sse_blocked c = sse_wait c) \<and>
     (\<not> sse_closed c \<and> \<not> sse_blocked c \<longrightarrow> sse_queue c = []) \<and>
     (sse_closed c \<longrightarrow> sse_queue c = [] \<and> \<not> sse_wait c) \<and>
     sse_ended c = sse_closed c \<and>
     length (sse_onClosed c) = (if sse_closed c then 1 else 0)"

lemma sse_bytes_simps [simp]:
  "sse_bytes [] = 0" "sse_bytes (f # q) = int (length f) + sse_bytes q"
  "sse_bytes (p @ q) = sse_bytes p + sse_bytes q"
  by (simp_all add: sse_bytes_def)

lemma sse_bytes_nonneg [simp]: "0 \<le> sse_bytes q"
  by (simp add: sse_bytes_def)

lemma sse_inv_new [simp]: "sse_inv sse_new"
  by (simp add: sse_inv_def sse_new_def MAX_PENDING_BYTES_def)

lemma sse_inv_close [simp]: "sse_inv c \<Longrightarrow> sse_inv (sse_close wl r c)"
  by (auto simp: sse_inv_def sse_close_def Let_def sse_clearDrainWait_def MAX_PENDING_BYTES_def)

text \<open>During the drain loop the queue may be non-empty while the connection is not blocked.\<close>

definition sse_loop_inv :: "sse_conn \<Rightarrow> bool" where
  "sse_loop_inv c \<longleftrightarrow>
     sse_pending c = sse_bytes (sse_queue c) \<and>
     sse_pending c \<le> int MAX_PENDING_BYTES \<and>
     length (sse_queue c) \<le> MAX_PENDING_EVENTS \<and>
     (\<not> sse_closed c \<longrightarrow> sse_blocked c = sse_wait c) \<and>
     (sse_closed c \<longrightarrow> sse_queue c = [] \<and> \<not> sse_wait c) \<and>
     sse_ended c = sse_closed c \<and>
     length (sse_onClosed c) = (if sse_closed c then 1 else 0)"

lemma sse_inv_iff:
  "sse_inv c \<longleftrightarrow> sse_loop_inv c \<and> (\<not> sse_closed c \<and> \<not> sse_blocked c \<longrightarrow> sse_queue c = [])"
  by (auto simp: sse_inv_def sse_loop_inv_def)

lemma sse_loop_inv_close: "sse_loop_inv c \<Longrightarrow> sse_loop_inv (sse_close wl r c)"
  by (auto simp: sse_loop_inv_def sse_close_def Let_def sse_clearDrainWait_def MAX_PENDING_BYTES_def)

lemma sse_close_closed [simp]: "sse_closed (sse_close wl r c)"
  by (simp add: sse_close_def Let_def sse_clearDrainWait_def)

lemma sse_loop_inv_write:
  assumes "sse_loop_inv c" and "\<not> sse_closed c"
  shows "sse_loop_inv (snd (sse_write w wl f c))"
    and "fst (sse_write w wl f c) \<longleftrightarrow> \<not> sse_closed (snd (sse_write w wl f c))"
  using assms sse_loop_inv_close [OF assms(1), of wl write_failed]
  by (auto simp: sse_write_def sse_loop_inv_def sse_waitForDrain_def split: write_answer.splits)

lemma sse_drain_loop_inv:
  assumes "sse_loop_inv c" and "\<not> sse_closed c"
  shows "sse_inv (sse_drain_loop w wl c)"
  using assms
proof (induction w wl c rule: sse_drain_loop.induct)
  case (1 w wl c)
  show ?case
  proof (cases "sse_blocked c \<or> sse_queue c = []")
    case True
    with 1 show ?thesis by (subst sse_drain_loop.simps) (auto simp: sse_inv_iff split: list.splits)
  next
    case False
    then obtain f q where q: "sse_queue c = f # q" and nb: "\<not> sse_blocked c"
      by (cases "sse_queue c") auto
    let ?c1 = "c\<lparr>sse_queue := q, sse_pending := sse_pending c - int (length f)\<rparr>"
    let ?r = "sse_write w wl f ?c1"
    have inv1: "sse_loop_inv ?c1" "\<not> sse_closed ?c1"
      using "1.prems" q by (auto simp: sse_loop_inv_def)
    note after = sse_loop_inv_write [OF inv1, of w wl f]
    show ?thesis
    proof (cases "fst ?r")
      case True
      with after "1.IH" [OF nb q refl refl] have "sse_inv (sse_drain_loop w wl (snd ?r))"
        by simp
      with True q nb show ?thesis by (subst sse_drain_loop.simps) (simp add: Let_def)
    next
      case False
      with after q nb show ?thesis
        by (subst sse_drain_loop.simps) (simp add: Let_def sse_inv_iff)
    qed
  qed
qed

lemma sse_inv_handleDrain: "sse_inv c \<Longrightarrow> sse_inv (sse_handleDrain w wl c)"
  by (auto simp: sse_handleDrain_def intro!: sse_drain_loop_inv)
     (auto simp: sse_inv_def sse_loop_inv_def sse_clearDrainWait_def)

lemma sse_inv_send:
  assumes "sse_inv c"
  shows "sse_inv (snd (sse_send w wl ev json c))"
proof (cases "sse_closed c")
  case True
  with assms show ?thesis by (simp add: sse_send_def)
next
  case open_: False
  have wr: "sse_inv (snd (sse_write w wl f c))" if "\<not> sse_blocked c" for f
  proof -
    have li: "sse_loop_inv c" and q: "sse_queue c = []"
      using assms open_ that by (auto simp: sse_inv_iff)
    from sse_loop_inv_write(1) [OF li open_, of w wl f] sse_write_queue [of w wl f c] q
    show ?thesis by (auto simp: sse_inv_iff)
  qed
  have push: "sse_inv (c\<lparr>sse_queue := sse_queue c @ [f], sse_pending := sse_pending c + int (length f)\<rparr>)"
    if "sse_blocked c" "length (sse_queue c) < MAX_PENDING_EVENTS"
      "sse_pending c + int wl + int (length f) \<le> int MAX_PENDING_BYTES" for f
    using assms that open_ by (auto simp: sse_inv_def)
  show ?thesis
  proof (cases json)
    case None
    with assms show ?thesis by (simp add: sse_send_def)
  next
    case (Some d)
    with assms wr push show ?thesis by (simp add: sse_send_def Let_def sse_queuedBytes_def)
  qed
qed

lemma sse_inv_step: "sse_inv c \<Longrightarrow> sse_inv (sse_step w e c)"
  by (cases e) (auto simp: sse_inv_send sse_inv_handleDrain)

lemma sse_inv_run: "sse_inv c \<Longrightarrow> sse_inv (sse_run w es c)"
  by (induction es arbitrary: c) (auto simp: sse_inv_step)

section \<open>Order of delivery\<close>

text \<open>What the client has or will get: the written frames, then the queued ones.\<close>

definition sse_stream :: "sse_conn \<Rightarrow> string list" where
  "sse_stream c = sse_out c @ sse_queue c"

lemma sse_close_out [simp]: "sse_out (sse_close wl r c) = sse_out c"
  by (simp add: sse_close_def Let_def sse_clearDrainWait_def)

lemma sse_write_stream:
  assumes "\<not> sse_closed c"
  shows "sse_closed (snd (sse_write w wl f c)) \<and> sse_out (snd (sse_write w wl f c)) = sse_out c \<or>
         \<not> sse_closed (snd (sse_write w wl f c)) \<and> sse_queue (snd (sse_write w wl f c)) = sse_queue c \<and>
         sse_out (snd (sse_write w wl f c)) = sse_out c @ [f]"
  using assms by (auto simp: sse_write_def sse_waitForDrain_def split: write_answer.splits)

lemma sse_drain_loop_stream:
  assumes "\<not> sse_closed c"
  shows "if sse_closed (sse_drain_loop w wl c)
         then \<exists>rest. sse_stream c = sse_out (sse_drain_loop w wl c) @ rest
         else sse_stream (sse_drain_loop w wl c) = sse_stream c"
  using assms
proof (induction w wl c rule: sse_drain_loop.induct)
  case (1 w wl c)
  show ?case
  proof (cases "sse_blocked c \<or> sse_queue c = []")
    case True
    with 1 show ?thesis by (subst (1 2 3) sse_drain_loop.simps) (auto split: list.splits)
  next
    case False
    then obtain f q where q: "sse_queue c = f # q" and nb: "\<not> sse_blocked c"
      by (cases "sse_queue c") auto
    let ?c1 = "c\<lparr>sse_queue := q, sse_pending := sse_pending c - int (length f)\<rparr>"
    let ?r = "sse_write w wl f ?c1"
    have o: "\<not> sse_closed ?c1" using "1.prems" by simp
    have unf: "sse_drain_loop w wl c = (if \<not> fst ?r then snd ?r else sse_drain_loop w wl (snd ?r))"
      using q nb by (subst sse_drain_loop.simps) (simp add: Let_def)
    have okr: "fst ?r \<longleftrightarrow> \<not> sse_closed (snd ?r)"
      using o by (auto simp: sse_write_def sse_waitForDrain_def split: write_answer.splits)
    show ?thesis
    proof (cases "fst ?r")
      case True
      with okr sse_write_stream [OF o, of w wl f]
      have s: "sse_stream (snd ?r) = sse_stream c" by (auto simp: sse_stream_def q)
      obtain d where d: "sse_drain_loop w wl (snd ?r) = d" by blast
      have "\<not> sse_closed (snd ?r)" using True okr by blast
      note ih = "1.IH" [OF nb q refl refl, unfolded s d]
      have "if sse_closed d then \<exists>rest. sse_stream c = sse_out d @ rest
            else sse_stream d = sse_stream c"
        using ih True okr by blast
      moreover have "sse_drain_loop w wl c = d" using unf True d by argo
      ultimately show ?thesis by blast
    next
      case False
      with okr sse_write_stream [OF o, of w wl f] unf show ?thesis
        by (auto simp: sse_stream_def q)
    qed
  qed
qed

lemma sse_step_stream:
  assumes "sse_inv c" and "\<not> sse_closed c"
  shows "if sse_closed (sse_step w e c)
         then \<exists>rest. sse_stream c @ sse_taken w [e] c = sse_out (sse_step w e c) @ rest
         else sse_stream (sse_step w e c) = sse_stream c @ sse_taken w [e] c"
proof (cases e)
  case (Send wl ev json)
  show ?thesis
  proof (cases json)
    case None
    with Send assms show ?thesis by (auto simp: sse_send_def sse_stream_def)
  next
    case (Some d)
    have okr: "fst (sse_write w wl f c) \<longleftrightarrow> \<not> sse_closed (snd (sse_write w wl f c))" for f
      using assms(2) by (auto simp: sse_write_def sse_waitForDrain_def split: write_answer.splits)
    show ?thesis
      using Send Some assms sse_write_stream [OF assms(2), of w wl "sse_frame ev d"]
        okr [of "sse_frame ev d"]
      by (auto simp: sse_send_def Let_def sse_stream_def sse_inv_def)
  qed
next
  case (Drain wl)
  then show ?thesis
    using assms sse_drain_loop_stream [of "sse_clearDrainWait (c\<lparr>sse_blocked := False\<rparr>)" w wl]
    by (auto simp: sse_handleDrain_def sse_stream_def sse_clearDrainWait_def split: if_splits)
qed (use assms in \<open>auto simp: sse_stream_def\<close>)

lemma sse_closed_stable:
  "sse_closed c \<Longrightarrow> sse_step w e c = c \<or> (\<exists>wl. e = Drain wl \<or> e = DrainDeadline wl)"
  by (cases e) (auto simp: sse_send_def sse_close_def)

lemma sse_closed_step: "sse_inv c \<Longrightarrow> sse_closed c \<Longrightarrow> sse_step w e c = c"
  by (cases e) (auto simp: sse_send_def sse_close_def sse_inv_def)

lemma sse_closed_run:
  "sse_inv c \<Longrightarrow> sse_closed c \<Longrightarrow> sse_run w es c = c \<and> sse_taken w es c = []"
  by (induction es) (auto simp: sse_closed_step sse_send_def split: sse_event.splits option.splits)

lemma sse_run_stream:
  assumes "sse_inv c" and "\<not> sse_closed c"
  shows "if sse_closed (sse_run w es c)
         then \<exists>rest. sse_stream c @ sse_taken w es c = sse_out (sse_run w es c) @ rest
         else sse_stream (sse_run w es c) = sse_stream c @ sse_taken w es c"
  using assms
proof (induction es arbitrary: c)
  case Nil
  then show ?case by simp
next
  case (Cons e es)
  note step = sse_step_stream [OF Cons.prems, of w e]
  have inv: "sse_inv (sse_step w e c)" using Cons.prems by (simp add: sse_inv_step)
  have taken: "sse_taken w (e # es) c = sse_taken w [e] c @ sse_taken w es (sse_step w e c)"
    by simp
  show ?case
  proof (cases "sse_closed (sse_step w e c)")
    case True
    with step sse_closed_run [OF inv True, of w es] show ?thesis by (simp add: taken)
  next
    case False
    with step have "sse_stream (sse_step w e c) = sse_stream c @ sse_taken w [e] c" by simp
    with Cons.IH [OF inv False] show ?thesis unfolding taken by (simp split: if_splits)
  qed
qed


section \<open>Properties\<close>

text \<open>C32. A server-sent-events connection is bounded and never stuck: after any sequence of
  calls and response events the queued bytes are exactly counted and at most
  \<open>MAX_PENDING_BYTES\<close>, at most \<open>MAX_PENDING_EVENTS\<close> frames wait, an open connection with
  waiting frames has its drain listener and its drain deadline armed, and \<open>onClosed\<close> was
  called exactly once if the connection is closed and never if it is open.\<close>

theorem sse_backlog_bounded:
  "let c = sse_run w es sse_new in
     sse_pending c = sse_bytes (sse_queue c) \<and> sse_pending c \<le> int MAX_PENDING_BYTES \<and>
     length (sse_queue c) \<le> MAX_PENDING_EVENTS \<and>
     (sse_closed c \<or> sse_queue c = [] \<or> sse_wait c) \<and>
     length (sse_onClosed c) = (if sse_closed c then 1 else 0) \<and> sse_ended c = sse_closed c"
  using sse_inv_run [OF sse_inv_new, of w es] by (auto simp: sse_inv_def Let_def)

text \<open>Delivery is in order and without gaps: what was written to the response is always a
  prefix of the frames for which \<open>send\<close> returned true, and as long as the connection is open
  the written frames followed by the queued ones are exactly those frames.\<close>

theorem sse_delivers_in_order:
  "let c = sse_run w es sse_new; taken = sse_taken w es sse_new in
     (\<exists>rest. taken = sse_out c @ rest) \<and> (sse_closed c \<or> sse_out c @ sse_queue c = taken)"
proof -
  have "\<not> sse_closed sse_new" and s: "sse_stream sse_new = []"
    by (simp_all add: sse_new_def sse_stream_def)
  then show ?thesis
    using sse_run_stream [OF sse_inv_new, of w es]
    by (cases "sse_closed (sse_run w es sse_new)") (simp_all add: Let_def sse_stream_def, metis)
qed

end
