(* ===== verification/CounterTable.thy ===== *)
theory CounterTable
  imports Prelude
begin

text \<open>
  Two components keep a table of active counts per key and drop a key when its count reaches
  zero: the bulkhead (\<open>apps/api/src/common/utils/bulkhead.ts\<close>) and the connection registry's
  count per tenant. The locale states the contract they share; the bulkhead is modelled here,
  and the registry interprets the locale on its own operations.
\<close>

definition count_of :: "('k, nat) jmap \<Rightarrow> 'k \<Rightarrow> nat" where
  "count_of m k = (case jm_get m k of None \<Rightarrow> 0 | Some n \<Rightarrow> n)"

definition counts_ok :: "('k, nat) jmap \<Rightarrow> bool" where
  "counts_ok m \<longleftrightarrow> jm_ok m \<and> list_all (\<lambda>(k, n). 0 < n) m"

definition counts_total :: "('k, nat) jmap \<Rightarrow> nat" where
  "counts_total m = sum_list (map snd m)"

lemma counts_ok_Nil [simp]: "counts_ok []"
  by (simp add: counts_ok_def)

lemma count_of_Nil [simp]: "count_of [] k = 0"
  by (simp add: count_of_def)

lemma counts_ok_get: "counts_ok m \<Longrightarrow> jm_get m k = Some n \<Longrightarrow> 0 < n"
  by (auto simp: counts_ok_def list_all_iff dest!: jm_get_in_set)

lemma counts_ok_has: "counts_ok m \<Longrightarrow> jm_has m k \<longleftrightarrow> 0 < count_of m k"
  by (auto simp: jm_has_def count_of_def dest: counts_ok_get)

lemma counts_ok_set: "counts_ok m \<Longrightarrow> 0 < n \<Longrightarrow> counts_ok (jm_set k n m)"
proof -
  assume m: "counts_ok m" and n: "0 < n"
  have "v > 0" if "(k', v) \<in> set (jm_set k n m)" for k' v
  proof -
    have "jm_ok (jm_set k n m)" using m by (simp add: counts_ok_def)
    with that have "jm_get (jm_set k n m) k' = Some v" by (simp add: jm_get_iff_in_set)
    then show ?thesis using m n by (auto simp: jmap_laws dest: counts_ok_get split: if_splits)
  qed
  then show ?thesis using m by (auto simp: counts_ok_def list_all_iff)
qed

lemma counts_ok_delete: "counts_ok m \<Longrightarrow> counts_ok (jm_delete k m)"
  by (auto simp: counts_ok_def list_all_iff jm_delete_def AList.delete_eq)

section \<open>The contract\<close>

locale active_counts =
  fixes inc :: "'k \<Rightarrow> ('k, nat) jmap \<Rightarrow> ('k, nat) jmap"
    and dec :: "'k \<Rightarrow> ('k, nat) jmap \<Rightarrow> ('k, nat) jmap"
  assumes inc_ok: "counts_ok m \<Longrightarrow> counts_ok (inc k m)"
    and dec_ok: "counts_ok m \<Longrightarrow> counts_ok (dec k m)"
    and inc_count: "count_of (inc k m) k' = (if k' = k then Suc (count_of m k) else count_of m k')"
    and dec_count: "counts_ok m \<Longrightarrow>
          count_of (dec k m) k' = (if k' = k then count_of m k - 1 else count_of m k')"
begin

lemma dec_inc: "counts_ok m \<Longrightarrow> count_of (dec k (inc k m)) k' = count_of m k'"
  by (simp add: dec_count inc_ok inc_count)

lemma idle_key_absent: "counts_ok m \<Longrightarrow> count_of m k = 1 \<Longrightarrow> \<not> jm_has (dec k m) k"
  by (simp add: counts_ok_has dec_ok dec_count)

lemma busy_key_present: "counts_ok m \<Longrightarrow> jm_has (inc k m) k"
  by (simp add: counts_ok_has inc_ok inc_count)

text \<open>A table that counts a list's elements keeps doing so when an element comes or goes.\<close>

lemma counts_list_inc:
  assumes "\<forall>k. count_of m k = length (filter (\<lambda>x. f x = k) xs)"
  shows "\<forall>k. count_of (inc (f a) m) k = length (filter (\<lambda>x. f x = k) (xs @ [a]))"
  using assms by (auto simp: inc_count)

end

section \<open>The bulkhead\<close>

text \<open>
  The bulkhead wraps an asynchronous action: \<open>execute\<close> first admits the call or returns the
  fallback error, and its \<open>finally\<close> block frees the slot whatever the action does. The two
  halves are separate steps here, so that calls can interleave.
\<close>

record bulkhead =
  bh_counts :: "(string, nat) jmap"
  bh_maxConcurrent :: nat
  bh_maxKeys :: nat

definition bh_new :: "nat \<Rightarrow> nat option \<Rightarrow> bulkhead" where
  "bh_new maxConcurrent maxKeys =
     \<lparr>bh_counts = [], bh_maxConcurrent = maxConcurrent,
      bh_maxKeys = (case maxKeys of None \<Rightarrow> 1000 | Some n \<Rightarrow> n)\<rparr>"

definition bh_inc :: "string \<Rightarrow> (string, nat) jmap \<Rightarrow> (string, nat) jmap" where
  "bh_inc key m = jm_set key (count_of m key + 1) m"

definition bh_dec :: "string \<Rightarrow> (string, nat) jmap \<Rightarrow> (string, nat) jmap" where
  "bh_dec key m =
    (let remaining = int (case jm_get m key of None \<Rightarrow> 1 | Some n \<Rightarrow> n) - 1 in
     if remaining \<le> 0 then jm_delete key m else jm_set key (nat remaining) m)"

definition bh_enter :: "string \<Rightarrow> bulkhead \<Rightarrow> bulkhead option" where
  "bh_enter key b =
    (let active = count_of (bh_counts b) key in
     if active \<ge> bh_maxConcurrent b then None
     else if \<not> jm_has (bh_counts b) key \<and> jm_size (bh_counts b) \<ge> bh_maxKeys b then None
     else Some (b\<lparr>bh_counts := bh_inc key (bh_counts b)\<rparr>))"

definition bh_leave :: "string \<Rightarrow> bulkhead \<Rightarrow> bulkhead" where
  "bh_leave key b = b\<lparr>bh_counts := bh_dec key (bh_counts b)\<rparr>"

definition bh_getActiveCount :: "string option \<Rightarrow> bulkhead \<Rightarrow> nat" where
  "bh_getActiveCount key b =
     (case key of Some k \<Rightarrow> count_of (bh_counts b) k | None \<Rightarrow> counts_total (bh_counts b))"

interpretation bulkhead_counts: active_counts bh_inc bh_dec
proof (unfold_locales, goal_cases)
  case (1 m k)
  then show ?case by (simp add: bh_inc_def counts_ok_set)
next
  case (2 m k)
  then show ?case by (auto simp: bh_dec_def Let_def counts_ok_set counts_ok_delete)
next
  case (3 k m k')
  then show ?case by (simp add: bh_inc_def count_of_def jmap_laws)
next
  case (4 m k k')
  then show ?case by (auto simp: bh_dec_def Let_def count_of_def jmap_laws split: option.splits)
qed

text \<open>
  A bulkhead in use: calls enter and leave in any order, and the history of a run is the list
  of the keys of the calls in flight. A rejected call never runs its action, so it does not
  leave either.
\<close>

inductive bh_reach :: "bulkhead \<Rightarrow> bulkhead \<Rightarrow> string list \<Rightarrow> bool" for b0 where
  start: "bh_reach b0 b0 []"
| enter: "bh_reach b0 b flight \<Longrightarrow> bh_enter key b = Some b' \<Longrightarrow> bh_reach b0 b' (key # flight)"
| reject: "bh_reach b0 b flight \<Longrightarrow> bh_enter key b = None \<Longrightarrow> bh_reach b0 b flight"
| leave: "bh_reach b0 b flight \<Longrightarrow> key \<in> set flight \<Longrightarrow>
            bh_reach b0 (bh_leave key b) (remove1 key flight)"

definition bh_inv :: "nat \<Rightarrow> nat \<Rightarrow> bulkhead \<Rightarrow> string list \<Rightarrow> bool" where
  "bh_inv mc mk b flight \<longleftrightarrow>
     bh_maxConcurrent b = mc \<and> bh_maxKeys b = mk \<and> counts_ok (bh_counts b) \<and>
     (\<forall>k. count_of (bh_counts b) k = count_list flight k) \<and>
     (\<forall>k. count_list flight k \<le> mc) \<and> jm_size (bh_counts b) \<le> mk"

lemma bh_inv_enter:
  "bh_inv mc mk b flight \<Longrightarrow> bh_enter key b = Some b' \<Longrightarrow> bh_inv mc mk b' (key # flight)"
  by (auto simp: bh_inv_def bh_enter_def Let_def bulkhead_counts.inc_ok bulkhead_counts.inc_count
      split: if_splits)
     (auto simp: bh_inc_def jm_size_set)

lemma count_list_remove1: "count_list (remove1 x xs) k = count_list xs k - (if k = x then 1 else 0)"
  by (induction xs) auto

lemma bh_dec_size: "jm_has m key \<Longrightarrow> jm_size (bh_dec key m) \<le> jm_size m"
  by (auto simp: bh_dec_def Let_def jm_size_set jm_size_delete_le)

lemma bh_inv_leave:
  assumes "bh_inv mc mk b flight" and "key \<in> set flight"
  shows "bh_inv mc mk (bh_leave key b) (remove1 key flight)"
proof -
  have "0 < count_of (bh_counts b) key"
    using assms by (metis bh_inv_def count_list_0_iff gr0I)
  then have "jm_has (bh_counts b) key"
    using assms by (simp add: bh_inv_def counts_ok_has)
  from bh_dec_size [OF this] show ?thesis
    using assms by (auto simp: bh_inv_def bh_leave_def bulkhead_counts.dec_ok bulkhead_counts.dec_count
        count_list_remove1 intro: order_trans diff_le_self)
qed

lemma bh_reach_inv:
  "bh_reach b0 b flight \<Longrightarrow> b0 = bh_new mc mk \<Longrightarrow>
     bh_inv mc (case mk of None \<Rightarrow> 1000 | Some n \<Rightarrow> n) b flight"
proof (induction rule: bh_reach.induct)
  case start
  then show ?case by (simp add: bh_inv_def bh_new_def jm_size_def)
next
  case enter
  then show ?case by (blast intro: bh_inv_enter)
next
  case reject
  then show ?case by blast
next
  case leave
  then show ?case by (blast intro: bh_inv_leave)
qed

section \<open>Properties\<close>

text \<open>C28. The bulkhead's counts are exact under every interleaving: in every state reachable
  from a new bulkhead by entering, rejected and leaving calls, the count of a key is the number
  of its calls in flight, never above \<open>maxConcurrent\<close>; at most \<open>maxKeys\<close> keys are tracked; and a
  key without a call in flight occupies no entry.\<close>

theorem bulkhead_bounds:
  assumes "bh_reach (bh_new mc mk) b flight"
  shows "bh_getActiveCount (Some k) b = count_list flight k \<and> count_list flight k \<le> mc \<and>
         jm_size (bh_counts b) \<le> (case mk of None \<Rightarrow> 1000 | Some n \<Rightarrow> n) \<and>
         (jm_has (bh_counts b) k \<longleftrightarrow> k \<in> set flight)"
  using bh_reach_inv [OF assms refl]
  by (auto simp: bh_inv_def bh_getActiveCount_def counts_ok_has count_list_0_iff neq0_conv [symmetric]
      simp del: neq0_conv)

theorem bulkhead_bounds_witness:
  "bh_getActiveCount (Some ''db'') (bh_leave ''db''
     \<lparr>bh_counts = [(''db'', 2)], bh_maxConcurrent = 2, bh_maxKeys = 1000\<rparr>) = 1"
proof -
  have s: "bh_reach (bh_new 2 None) (bh_new 2 None) []" by (rule bh_reach.start)
  have "bh_reach (bh_new 2 None)
          \<lparr>bh_counts = [(''db'', 1)], bh_maxConcurrent = 2, bh_maxKeys = 1000\<rparr> [''db'']"
    by (rule bh_reach.enter [OF s])
       (simp add: bh_new_def bh_enter_def count_of_def jm_get_def jm_has_def jm_size_def bh_inc_def jm_set_def)
  then have "bh_reach (bh_new 2 None)
          \<lparr>bh_counts = [(''db'', 2)], bh_maxConcurrent = 2, bh_maxKeys = 1000\<rparr> [''db'', ''db'']"
    by (rule bh_reach.enter)
       (simp add: bh_enter_def count_of_def jm_get_def jm_has_def jm_size_def bh_inc_def jm_set_def)
  then have "bh_reach (bh_new 2 None) (bh_leave ''db''
          \<lparr>bh_counts = [(''db'', 2)], bh_maxConcurrent = 2, bh_maxKeys = 1000\<rparr>) (remove1 ''db'' [''db'', ''db''])"
    by (rule bh_reach.leave) simp
  from bulkhead_bounds [OF this, of "''db''"] show ?thesis by simp
qed

end
