(* ===== verification/RealtimeRegistry.thy ===== *)
theory RealtimeRegistry
  imports CounterTable JsValue
begin

text \<open>
  Model of the realtime connection registry,
  \<open>apps/api/src/infrastructure/realtime/connections/realtime-connection.registry.ts\<close> and
  \<open>realtime-connection.dispatcher.ts\<close>: admission of WebSocket and SSE clients under three
  limits, aliases that subscribe a tenant connection to the user's tenant-less messages,
  dispatch, and the disconnection of a user, of a tenant member and of a whole tenant.

  A connection is an object identity. The two \<open>Map\<close>s of \<open>Set\<close>s are insertion-ordered maps
  of insertion-ordered sets; a \<open>Set\<close> is reachable only through its map entry, so mutating it
  in place is replacing the entry. The loops that close connections run over the keys and the
  members present when they start and look each key up again: a JavaScript iterator skips what
  was deleted meanwhile, and the callbacks delete no member of the set in iteration except the
  one in hand. Whether \<open>close()\<close> throws is a function \<open>thr\<close> of the connection.
\<close>

definition MAX_CLIENTS_PER_CONNECTION :: nat where "MAX_CLIENTS_PER_CONNECTION = 100"
definition MAX_PROCESS_CONNECTIONS :: nat where "MAX_PROCESS_CONNECTIONS = 5000"
definition MAX_CONNECTIONS_PER_TENANT :: nat where "MAX_CONNECTIONS_PER_TENANT = 500"

datatype conn = Ws nat | Sse nat

datatype kind = KWs | KSse

fun kind_of :: "conn \<Rightarrow> kind" where
  "kind_of (Ws _) = KWs"
| "kind_of (Sse _) = KSse"

definition isSseClient :: "conn \<Rightarrow> bool" where
  "isSseClient c \<longleftrightarrow> kind_of c = KSse"

text \<open>Calls on the outside, in order: closing a connection and counting a rejection.\<close>

datatype reg_effect =
    Closed conn string
  | Rejected string kind
  | SseDisconnect string int

record registry =
  rg_ws :: "(string, conn list) jmap"
  rg_sse :: "(string, conn list) jmap"
  rg_total :: nat
  rg_tenants :: "(string, nat) jmap"
  rg_socketTenants :: "conn \<Rightarrow> string option"
  rg_counted :: "conn list"
  rg_gauge :: "kind \<Rightarrow> int"
  rg_log :: "reg_effect list"

definition rg_new :: registry where
  "rg_new = \<lparr>rg_ws = [], rg_sse = [], rg_total = 0, rg_tenants = [], rg_socketTenants = (\<lambda>_. None),
     rg_counted = [], rg_gauge = (\<lambda>_. 0), rg_log = []\<rparr>"

definition rg_clients :: "kind \<Rightarrow> registry \<Rightarrow> (string, conn list) jmap" where
  "rg_clients k r = (case k of KWs \<Rightarrow> rg_ws r | KSse \<Rightarrow> rg_sse r)"

definition rg_set_clients :: "kind \<Rightarrow> (string, conn list) jmap \<Rightarrow> registry \<Rightarrow> registry" where
  "rg_set_clients k m r = (case k of KWs \<Rightarrow> r\<lparr>rg_ws := m\<rparr> | KSse \<Rightarrow> r\<lparr>rg_sse := m\<rparr>)"

definition connectionKey :: "string \<Rightarrow> string option \<Rightarrow> string" where
  "connectionKey userId tenantId =
     (case tenantId of None \<Rightarrow> ''single'' | Some t \<Rightarrow> t) @ '':'' @ userId"

section \<open>Counters\<close>

definition tenant_inc :: "string \<Rightarrow> (string, nat) jmap \<Rightarrow> (string, nat) jmap" where
  "tenant_inc t m = jm_set t (count_of m t + 1) m"

definition tenant_dec :: "string \<Rightarrow> (string, nat) jmap \<Rightarrow> (string, nat) jmap" where
  "tenant_dec t m =
    (let current = count_of m t in
     if current \<le> 1 then jm_delete t m else jm_set t (current - 1) m)"

fun js_truthy_opt :: "string option \<Rightarrow> bool" where
  "js_truthy_opt None = False"
| "js_truthy_opt (Some s) = (s \<noteq> [])"

definition incrementCounters :: "conn \<Rightarrow> string option \<Rightarrow> registry \<Rightarrow> bool \<times> registry" where
  "incrementCounters item tenantId r =
    (if item \<in> set (rg_counted r) then (False, r)
     else
       let r1 = r\<lparr>rg_counted := js_add item (rg_counted r), rg_total := rg_total r + 1,
                  rg_socketTenants := (rg_socketTenants r)(item := tenantId)\<rparr>;
           r2 = (case tenantId of
                   Some t \<Rightarrow> if t \<noteq> [] then r1\<lparr>rg_tenants := tenant_inc t (rg_tenants r1)\<rparr> else r1
                 | None \<Rightarrow> r1)
       in (True, r2))"

definition decrementCounters :: "conn \<Rightarrow> string option \<Rightarrow> registry \<Rightarrow> bool \<times> registry" where
  "decrementCounters item tenantId r =
    (if item \<notin> set (rg_counted r) then (False, r)
     else
       let r1 = r\<lparr>rg_counted := js_remove item (rg_counted r), rg_total := rg_total r - 1\<rparr>;
           resolvedTenantId = (case tenantId of Some t \<Rightarrow> Some t | None \<Rightarrow> rg_socketTenants r1 item);
           r2 = (case resolvedTenantId of
                   Some t \<Rightarrow> if t \<noteq> [] then r1\<lparr>rg_tenants := tenant_dec t (rg_tenants r1)\<rparr> else r1
                 | None \<Rightarrow> r1)
       in (True, r2))"

definition bump_gauge :: "kind \<Rightarrow> int \<Rightarrow> registry \<Rightarrow> registry" where
  "bump_gauge k d r = r\<lparr>rg_gauge := (rg_gauge r)(k := rg_gauge r k + d)\<rparr>"

definition emit :: "reg_effect list \<Rightarrow> registry \<Rightarrow> registry" where
  "emit es r = r\<lparr>rg_log := rg_log r @ es\<rparr>"

definition getTenantConnectionCount :: "string \<Rightarrow> registry \<Rightarrow> nat" where
  "getTenantConnectionCount t r = count_of (rg_tenants r) t"

section \<open>Admission and removal\<close>

text \<open>
  \<open>addWsClient\<close> and \<open>addSseClient\<close> are the same code over the two maps; they differ in the
  arguments of \<open>close\<close>, which are given here: for a process or tenant limit, and for the
  limit per key.
\<close>

definition add_client ::
  "string \<Rightarrow> string \<Rightarrow> string \<Rightarrow> string option \<Rightarrow> conn \<Rightarrow> registry \<Rightarrow> bool \<times> registry" where
  "add_client closeLimit closeKey userId tenantId item r =
    (let k = kind_of item;
         key = connectionKey userId tenantId;
         clients = jm_get (rg_clients k r) key
     in if (case clients of None \<Rightarrow> False | Some cs \<Rightarrow> item \<in> set cs) then (True, r)
        else if rg_total r \<ge> MAX_PROCESS_CONNECTIONS
        then (False, emit [Rejected ''process_limit'' k, Closed item closeLimit] r)
        else if (case tenantId of None \<Rightarrow> False
                 | Some t \<Rightarrow> t \<noteq> [] \<and> getTenantConnectionCount t r \<ge> MAX_CONNECTIONS_PER_TENANT)
        then (False, emit [Rejected ''tenant_limit'' k, Closed item closeLimit] r)
        else if (case clients of None \<Rightarrow> False | Some cs \<Rightarrow> length cs \<ge> MAX_CLIENTS_PER_CONNECTION)
        then (False, emit [Closed item closeKey] r)
        else
          let targetSet = (case clients of None \<Rightarrow> [] | Some cs \<Rightarrow> cs);
              r1 = rg_set_clients k (jm_set key (js_add item targetSet) (rg_clients k r)) r;
              r2 = snd (incrementCounters item tenantId r1)
          in (True, bump_gauge k 1 r2))"

definition addWsClient :: "string \<Rightarrow> string option \<Rightarrow> nat \<Rightarrow> registry \<Rightarrow> bool \<times> registry" where
  "addWsClient userId tenantId socket r =
     add_client ''1013 Try again later'' '''' userId tenantId (Ws socket) r"

definition addSseClient :: "string \<Rightarrow> string option \<Rightarrow> nat \<Rightarrow> registry \<Rightarrow> bool \<times> registry" where
  "addSseClient userId tenantId client r =
     add_client ''server_closed'' ''server_closed'' userId tenantId (Sse client) r"

definition add_alias :: "string \<Rightarrow> conn \<Rightarrow> registry \<Rightarrow> registry" where
  "add_alias userId item r =
    (let k = kind_of item;
         key = connectionKey userId None;
         m = (if jm_has (rg_clients k r) key then rg_clients k r else jm_set key [] (rg_clients k r))
     in rg_set_clients k
          (jm_set key (js_add item (case jm_get m key of None \<Rightarrow> [] | Some cs \<Rightarrow> cs)) m) r)"

text \<open>Removing a member of the set at a key, and the key with its last member.\<close>

definition drop_member :: "string \<Rightarrow> conn \<Rightarrow> (string, conn list) jmap \<Rightarrow> (string, conn list) jmap" where
  "drop_member key item m =
    (case jm_get m key of None \<Rightarrow> m
     | Some clients \<Rightarrow>
         let rest = js_remove item clients in
         if rest = [] then jm_delete key m else jm_set key rest m)"

definition remove_alias :: "string \<Rightarrow> conn \<Rightarrow> registry \<Rightarrow> registry" where
  "remove_alias userId item r =
    (let k = kind_of item in
     rg_set_clients k (drop_member (connectionKey userId None) item (rg_clients k r)) r)"

definition removeWsClient :: "string \<Rightarrow> string option \<Rightarrow> nat \<Rightarrow> registry \<Rightarrow> registry" where
  "removeWsClient userId tenantId socket r =
    (let r1 = rg_set_clients KWs (drop_member (connectionKey userId tenantId) (Ws socket) (rg_ws r)) r;
         (dec, r2) = decrementCounters (Ws socket) tenantId r1
     in if dec then bump_gauge KWs (-1) r2 else r2)"

definition removeSseClient ::
  "string \<Rightarrow> string option \<Rightarrow> nat \<Rightarrow> string option \<Rightarrow> int \<Rightarrow> registry \<Rightarrow> registry" where
  "removeSseClient userId tenantId client reason queuedBytes r =
    (let r1 = rg_set_clients KSse (drop_member (connectionKey userId tenantId) (Sse client) (rg_sse r)) r;
         (dec, r2) = decrementCounters (Sse client) tenantId r1
     in if dec
        then emit [SseDisconnect (case reason of None \<Rightarrow> ''unknown'' | Some s \<Rightarrow> s) queuedBytes]
               (bump_gauge KSse (-1) r2)
        else r2)"

section \<open>Closing connections\<close>

type_synonym on_closed = "conn \<Rightarrow> registry \<Rightarrow> bool \<times> registry"

text \<open>
  The loops over the members of one key. A WebSocket is closed before the callback runs, so
  that an exception of \<open>close\<close> skips it; an SSE client is closed after it.
\<close>

fun close_key_ws :: "(conn \<Rightarrow> bool) \<Rightarrow> string \<Rightarrow> on_closed \<Rightarrow> conn list \<Rightarrow> nat \<times> registry \<Rightarrow> nat \<times> registry" where
  "close_key_ws thr how f [] (n, r) = (n, r)"
| "close_key_ws thr how f (s # ss) (n, r) =
    (if thr s then close_key_ws thr how f ss (n, r)
     else (case f s (emit [Closed s how] r) of
             (b, r') \<Rightarrow> close_key_ws thr how f ss (if b then n + 1 else n, r')))"

fun close_key_sse :: "(conn \<Rightarrow> bool) \<Rightarrow> on_closed \<Rightarrow> conn list \<Rightarrow> nat \<times> registry \<Rightarrow> nat \<times> registry" where
  "close_key_sse thr f [] (n, r) = (n, r)"
| "close_key_sse thr f (s # ss) (n, r) =
    (case f s r of
       (b, r') \<Rightarrow> close_key_sse thr f ss
                    (if b then n + 1 else n, if thr s then r' else emit [Closed s ''server_closed''] r'))"

definition closeKeyConnections ::
  "(conn \<Rightarrow> bool) \<Rightarrow> string \<Rightarrow> string \<Rightarrow> on_closed \<Rightarrow> registry \<Rightarrow> (nat \<times> nat) \<times> registry" where
  "closeKeyConnections thr key how f r =
    (let (wsCount, r1) =
           (case jm_get (rg_ws r) key of None \<Rightarrow> (0, r)
            | Some ws \<Rightarrow> (case close_key_ws thr how f ws (0, r) of
                            (n, r') \<Rightarrow> (n, r'\<lparr>rg_ws := jm_delete key (rg_ws r')\<rparr>)));
         (sseCount, r2) =
           (case jm_get (rg_sse r1) key of None \<Rightarrow> (0, r1)
            | Some sse \<Rightarrow> (case close_key_sse thr f sse (0, r1) of
                            (n, r') \<Rightarrow> (n, r'\<lparr>rg_sse := jm_delete key (rg_sse r')\<rparr>)))
     in ((wsCount, sseCount), r2))"

fun close_members_ws ::
  "(conn \<Rightarrow> bool) \<Rightarrow> string \<Rightarrow> on_closed \<Rightarrow> conn list \<Rightarrow> conn list \<times> nat \<times> registry
     \<Rightarrow> conn list \<times> nat \<times> registry" where
  "close_members_ws thr how f [] (seen, n, r) = (seen, n, r)"
| "close_members_ws thr how f (s # ss) (seen, n, r) =
    (if s \<in> set seen \<or> thr s then close_members_ws thr how f ss (seen, n, r)
     else (case f s (emit [Closed s how] r) of
             (b, r') \<Rightarrow> close_members_ws thr how f ss (js_add s seen, if b then n + 1 else n, r')))"

fun close_members_sse ::
  "(conn \<Rightarrow> bool) \<Rightarrow> on_closed \<Rightarrow> conn list \<Rightarrow> conn list \<times> nat \<times> registry
     \<Rightarrow> conn list \<times> nat \<times> registry" where
  "close_members_sse thr f [] (seen, n, r) = (seen, n, r)"
| "close_members_sse thr f (s # ss) (seen, n, r) =
    (if s \<in> set seen then close_members_sse thr f ss (seen, n, r)
     else (case f s r of
             (b, r') \<Rightarrow> close_members_sse thr f ss
               (js_add s seen, if b then n + 1 else n,
                if thr s then r' else emit [Closed s ''server_closed''] r')))"

fun close_matching_keys ::
  "kind \<Rightarrow> (string \<Rightarrow> bool) \<Rightarrow> (conn list \<Rightarrow> conn list \<times> nat \<times> registry \<Rightarrow> conn list \<times> nat \<times> registry)
     \<Rightarrow> string list \<Rightarrow> conn list \<times> nat \<times> registry \<Rightarrow> conn list \<times> nat \<times> registry" where
  "close_matching_keys k predicate loop [] (seen, n, r) = (seen, n, r)"
| "close_matching_keys k predicate loop (key # keys) (seen, n, r) =
    (case jm_get (rg_clients k r) key of
       None \<Rightarrow> close_matching_keys k predicate loop keys (seen, n, r)
     | Some members \<Rightarrow>
         if \<not> predicate key then close_matching_keys k predicate loop keys (seen, n, r)
         else (case loop members (seen, n, r) of
                 (seen', n', r') \<Rightarrow>
                   close_matching_keys k predicate loop keys
                     (seen', n', rg_set_clients k (jm_delete key (rg_clients k r')) r')))"

definition closeMatchingConnections ::
  "(conn \<Rightarrow> bool) \<Rightarrow> (string \<Rightarrow> bool) \<Rightarrow> string \<Rightarrow> on_closed \<Rightarrow> registry \<Rightarrow> (nat \<times> nat) \<times> registry" where
  "closeMatchingConnections thr predicate how f r =
    (let (seen, wsCount, r1) = close_matching_keys KWs predicate (close_members_ws thr how f)
                                 (jm_keys (rg_ws r)) ([], 0, r);
         (seen', sseCount, r2) = close_matching_keys KSse predicate (close_members_sse thr f)
                                 (jm_keys (rg_sse r1)) ([], 0, r1)
     in ((wsCount, sseCount), r2))"

definition recordClosed :: "nat \<times> nat \<Rightarrow> registry \<Rightarrow> registry" where
  "recordClosed closed r =
    (let r1 = (if fst closed > 0 then bump_gauge KWs (- int (fst closed)) r else r)
     in if snd closed > 0 then bump_gauge KSse (- int (snd closed)) r1 else r1)"

definition disconnectUser :: "(conn \<Rightarrow> bool) \<Rightarrow> string \<Rightarrow> registry \<Rightarrow> nat \<times> registry" where
  "disconnectUser thr userId r =
    (let (closed, r1) = closeMatchingConnections thr (\<lambda>key. ends_with key ('':'' @ userId))
           ''4001 Session invalidated'' (\<lambda>item. decrementCounters item None) r
     in (fst closed + snd closed, recordClosed closed r1))"

text \<open>
  The callback of \<open>disconnectTenantUser\<close> deletes the connection from the alias \<open>Set\<close> it
  captured before the loop; an alias \<open>Set\<close> that becomes empty keeps its key until the end.
\<close>

definition delete_in_set :: "string \<Rightarrow> conn \<Rightarrow> registry \<Rightarrow> registry" where
  "delete_in_set key item r =
    (let k = kind_of item in
     case jm_get (rg_clients k r) key of None \<Rightarrow> r
     | Some cs \<Rightarrow> rg_set_clients k (jm_set key (js_remove item cs) (rg_clients k r)) r)"

definition drop_if_empty :: "kind \<Rightarrow> string \<Rightarrow> registry \<Rightarrow> registry" where
  "drop_if_empty k key r =
    (case jm_get (rg_clients k r) key of
       Some [] \<Rightarrow> rg_set_clients k (jm_delete key (rg_clients k r)) r
     | _ \<Rightarrow> r)"

definition disconnectTenantUser :: "(conn \<Rightarrow> bool) \<Rightarrow> string \<Rightarrow> string \<Rightarrow> registry \<Rightarrow> nat \<times> registry" where
  "disconnectTenantUser thr tenantId userId r =
    (let aliasKey = connectionKey userId None;
         (closed, r1) = closeKeyConnections thr (connectionKey userId (Some tenantId))
           ''4003 Membership revoked''
           (\<lambda>item r. decrementCounters item (Some tenantId) (delete_in_set aliasKey item r)) r;
         r2 = drop_if_empty KSse aliasKey (drop_if_empty KWs aliasKey r1)
     in (fst closed + snd closed, recordClosed closed r2))"

definition drop_everywhere :: "conn \<Rightarrow> registry \<Rightarrow> registry" where
  "drop_everywhere item r =
    (let k = kind_of item in
     rg_set_clients k (fold (\<lambda>key m. drop_member key item m) (jm_keys (rg_clients k r)) (rg_clients k r)) r)"

definition disconnectTenant :: "(conn \<Rightarrow> bool) \<Rightarrow> string \<Rightarrow> registry \<Rightarrow> nat \<times> registry" where
  "disconnectTenant thr tenantId r =
    (let (closed, r1) = closeMatchingConnections thr (\<lambda>key. starts_with key (tenantId @ '':''))
           ''4004 Organization purged''
           (\<lambda>item r. decrementCounters item (Some tenantId) (drop_everywhere item r)) r
     in (fst closed + snd closed, recordClosed closed r1))"

definition getUserCount :: "registry \<Rightarrow> nat" where
  "getUserCount r =
     length (remdups (map (\<lambda>key. last (split_on CHR '':'' key)) (jm_keys (rg_ws r) @ jm_keys (rg_sse r))))"


section \<open>Dispatch\<close>

text \<open>
  Which connections a message is written to, in order, and how many slow clients were
  skipped. \<open>ready\<close> and \<open>buffered\<close> are \<open>readyState === OPEN\<close> and \<open>bufferedAmount\<close> of a
  socket; \<open>accepts\<close> is what \<open>send\<close> of an SSE client returns.
\<close>

definition WS_SEND_HIGH_WATERMARK_BYTES :: nat where "WS_SEND_HIGH_WATERMARK_BYTES = 1048576"

record transport =
  ready :: "conn \<Rightarrow> bool"
  buffered :: "conn \<Rightarrow> nat"
  accepts :: "conn \<Rightarrow> bool"

fun dispatch_ws :: "transport \<Rightarrow> conn list \<Rightarrow> conn list \<times> nat" where
  "dispatch_ws tr [] = ([], 0)"
| "dispatch_ws tr (s # ss) =
    (case dispatch_ws tr ss of (sent, dropped) \<Rightarrow>
      if \<not> ready tr s then (sent, dropped)
      else if buffered tr s > WS_SEND_HIGH_WATERMARK_BYTES then (sent, dropped + 1)
      else (s # sent, dropped))"

fun dispatch_sse :: "transport \<Rightarrow> conn list \<Rightarrow> conn list \<times> nat" where
  "dispatch_sse tr [] = ([], 0)"
| "dispatch_sse tr (c # cs) =
    (case dispatch_sse tr cs of (sent, dropped) \<Rightarrow>
      (c # sent, if \<not> accepts tr c then dropped + 1 else dropped))"

definition dispatchToConnection :: "transport \<Rightarrow> string \<Rightarrow> registry \<Rightarrow> conn list \<times> nat" where
  "dispatchToConnection tr key r =
    (let (sentWs, d1) = dispatch_ws tr (case jm_get (rg_ws r) key of None \<Rightarrow> [] | Some cs \<Rightarrow> cs);
         (sentSse, d2) = dispatch_sse tr (case jm_get (rg_sse r) key of None \<Rightarrow> [] | Some cs \<Rightarrow> cs)
     in (sentWs @ sentSse, d1 + d2))"

definition dispatchToUser :: "transport \<Rightarrow> string \<Rightarrow> string option \<Rightarrow> registry \<Rightarrow> conn list \<times> nat" where
  "dispatchToUser tr userId tenantId r = dispatchToConnection tr (connectionKey userId tenantId) r"

fun send_once :: "(conn \<Rightarrow> bool) \<Rightarrow> conn list \<Rightarrow> conn list \<Rightarrow> conn list" where
  "send_once ok [] sent = sent"
| "send_once ok (s # ss) sent =
    (if s \<notin> set sent \<and> ok s then send_once ok ss (js_add s sent) else send_once ok ss sent)"

definition dispatchToEveryConnection :: "transport \<Rightarrow> registry \<Rightarrow> conn list" where
  "dispatchToEveryConnection tr r =
     send_once (\<lambda>s. ready tr s \<and> buffered tr s \<le> WS_SEND_HIGH_WATERMARK_BYTES)
       (concat (map snd (rg_ws r))) [] @
     send_once (\<lambda>_. True) (concat (map snd (rg_sse r))) []"

section \<open>The realtime service\<close>

text \<open>
  \<open>apps/api/src/infrastructure/realtime/realtime.service.ts\<close>: a connection with a tenant is
  registered under its tenant key and, as an alias, under the user's tenant-less key.
\<close>

definition service_add :: "string \<Rightarrow> string option \<Rightarrow> conn \<Rightarrow> registry \<Rightarrow> bool \<times> registry" where
  "service_add userId tenantId item r =
    (let (admitted, r1) = (case item of Ws s \<Rightarrow> addWsClient userId tenantId s r
                           | Sse c \<Rightarrow> addSseClient userId tenantId c r)
     in (admitted, if admitted \<and> tenantId \<noteq> None then add_alias userId item r1 else r1))"

definition service_remove ::
  "string \<Rightarrow> string option \<Rightarrow> conn \<Rightarrow> string option \<Rightarrow> int \<Rightarrow> registry \<Rightarrow> registry" where
  "service_remove userId tenantId item reason queuedBytes r =
    (let r1 = (case item of Ws s \<Rightarrow> removeWsClient userId tenantId s r
               | Sse c \<Rightarrow> removeSseClient userId tenantId c reason queuedBytes r)
     in if tenantId \<noteq> None then remove_alias userId item r1 else r1)"

end
