(* ===== verification/RegistryInvariants.thy ===== *)
theory RegistryInvariants
  imports RealtimeRegistry
begin

text \<open>
  Invariants of the connection registry and the contract between the dispatcher's loops and
  the callbacks the registry passes to them (\<open>onClosed\<close>). Every connection belongs to one
  user and at most one tenant, fixed when it authenticates: \<open>owner\<close>. The invariant ties the
  maps, the set of counted connections, the totals, the counts per tenant and the gauges
  together: each is a function of the set of counted connections and their owners.
\<close>

interpretation tenant_counts: active_counts tenant_inc tenant_dec
proof (unfold_locales, goal_cases)
  case (1 m k)
  then show ?case by (simp add: tenant_inc_def counts_ok_set)
next
  case (2 m k)
  then show ?case by (auto simp: tenant_dec_def Let_def counts_ok_set counts_ok_delete)
next
  case (3 k m k')
  then show ?case by (simp add: tenant_inc_def count_of_def jmap_laws)
next
  case (4 m k k')
  then show ?case by (auto simp: tenant_dec_def Let_def count_of_def jmap_laws)
qed

type_synonym ownership = "conn \<Rightarrow> string \<times> string option"

definition entry :: "kind \<Rightarrow> string \<Rightarrow> registry \<Rightarrow> conn list" where
  "entry k key r = (case jm_get (rg_clients k r) key of None \<Rightarrow> [] | Some cs \<Rightarrow> cs)"

definition keys_of :: "ownership \<Rightarrow> conn \<Rightarrow> string set" where
  "keys_of owner c =
     {connectionKey (fst (owner c)) (snd (owner c)), connectionKey (fst (owner c)) None}"

text \<open>The counters, apart from the gauges, which lag behind while connections are closed.\<close>

definition counters_ok :: "ownership \<Rightarrow> registry \<Rightarrow> bool" where
  "counters_ok owner r \<longleftrightarrow>
     distinct (rg_counted r) \<and> rg_total r = length (rg_counted r) \<and>
     (\<forall>c\<in>set (rg_counted r). rg_socketTenants r c = snd (owner c)) \<and>
     counts_ok (rg_tenants r) \<and>
     (\<forall>t. count_of (rg_tenants r) t =
        (if t = [] then 0 else length (filter (\<lambda>c. snd (owner c) = Some t) (rg_counted r))))"

text \<open>The maps are well formed; \<open>X\<close> is a set of keys at which an empty set is tolerated.\<close>

definition maps_ok :: "string set \<Rightarrow> registry \<Rightarrow> bool" where
  "maps_ok X r \<longleftrightarrow>
     (\<forall>k. jm_ok (rg_clients k r)) \<and>
     (\<forall>k key. distinct (entry k key r)) \<and>
     (\<forall>k key. \<forall>c\<in>set (entry k key r). kind_of c = k) \<and>
     (\<forall>k key. key \<notin> X \<longrightarrow> jm_get (rg_clients k r) key \<noteq> Some [])"

definition placed :: "ownership \<Rightarrow> registry \<Rightarrow> bool" where
  "placed owner r \<longleftrightarrow>
     (\<forall>k key. set (entry k key r) = {c \<in> set (rg_counted r). kind_of c = k \<and> key \<in> keys_of owner c})"

definition gauges_ok :: "registry \<Rightarrow> bool" where
  "gauges_ok r \<longleftrightarrow> (\<forall>k. rg_gauge r k = int (length (filter (\<lambda>c. kind_of c = k) (rg_counted r))))"

definition limits_ok :: "registry \<Rightarrow> bool" where
  "limits_ok r \<longleftrightarrow>
     rg_total r \<le> MAX_PROCESS_CONNECTIONS \<and>
     (\<forall>t. count_of (rg_tenants r) t \<le> MAX_CONNECTIONS_PER_TENANT)"

definition reg_inv :: "ownership \<Rightarrow> registry \<Rightarrow> bool" where
  "reg_inv owner r \<longleftrightarrow>
     counters_ok owner r \<and> maps_ok {} r \<and> placed owner r \<and> gauges_ok r \<and> limits_ok r"

lemma reg_inv_new: "reg_inv owner rg_new"
  by (auto simp: reg_inv_def counters_ok_def maps_ok_def placed_def gauges_ok_def limits_ok_def
      rg_new_def rg_clients_def entry_def split: kind.splits)

section \<open>Frame lemmas\<close>

lemma rg_clients_set [simp]:
  "rg_clients k (rg_set_clients k' m r) = (if k = k' then m else rg_clients k r)"
  by (cases k; cases k') (auto simp: rg_clients_def rg_set_clients_def)

lemma rg_set_clients_frame [simp]:
  "rg_counted (rg_set_clients k m r) = rg_counted r"
  "rg_total (rg_set_clients k m r) = rg_total r"
  "rg_tenants (rg_set_clients k m r) = rg_tenants r"
  "rg_socketTenants (rg_set_clients k m r) = rg_socketTenants r"
  "rg_gauge (rg_set_clients k m r) = rg_gauge r"
  by (cases k; simp add: rg_set_clients_def)+

lemma emit_frame [simp]:
  "rg_counted (emit es r) = rg_counted r" "rg_total (emit es r) = rg_total r"
  "rg_tenants (emit es r) = rg_tenants r" "rg_socketTenants (emit es r) = rg_socketTenants r"
  "rg_gauge (emit es r) = rg_gauge r" "rg_clients k (emit es r) = rg_clients k r"
  "entry k key (emit es r) = entry k key r"
  by (simp_all add: emit_def rg_clients_def entry_def split: kind.split)

lemma bump_gauge_frame [simp]:
  "rg_counted (bump_gauge k d r) = rg_counted r" "rg_total (bump_gauge k d r) = rg_total r"
  "rg_tenants (bump_gauge k d r) = rg_tenants r"
  "rg_socketTenants (bump_gauge k d r) = rg_socketTenants r"
  "rg_clients k' (bump_gauge k d r) = rg_clients k' r"
  "entry k' key (bump_gauge k d r) = entry k' key r"
  "rg_gauge (bump_gauge k d r) k' = rg_gauge r k' + (if k' = k then d else 0)"
  by (simp_all add: bump_gauge_def rg_clients_def entry_def split: kind.split)

lemma decrement_frame [simp]:
  "rg_clients k (snd (decrementCounters c t r)) = rg_clients k r"
  "entry k key (snd (decrementCounters c t r)) = entry k key r"
  "rg_gauge (snd (decrementCounters c t r)) = rg_gauge r"
  "rg_counted (snd (decrementCounters c t r)) = js_remove c (rg_counted r)"
  "fst (decrementCounters c t r) \<longleftrightarrow> c \<in> set (rg_counted r)"
  by (auto simp: decrementCounters_def rg_clients_def entry_def Let_def
      split: kind.split option.split)

lemma increment_frame [simp]:
  "rg_clients k (snd (incrementCounters c t r)) = rg_clients k r"
  "entry k key (snd (incrementCounters c t r)) = entry k key r"
  "rg_gauge (snd (incrementCounters c t r)) = rg_gauge r"
  "rg_counted (snd (incrementCounters c t r)) = js_add c (rg_counted r)"
  by (auto simp: incrementCounters_def rg_clients_def entry_def Let_def js_add_def
      split: kind.split option.split)

lemma counters_ok_cong:
  "rg_counted r' = rg_counted r \<Longrightarrow> rg_total r' = rg_total r \<Longrightarrow> rg_tenants r' = rg_tenants r \<Longrightarrow>
   rg_socketTenants r' = rg_socketTenants r \<Longrightarrow> counters_ok owner r' = counters_ok owner r"
  by (simp add: counters_ok_def)

lemma counters_ok_frame [simp]:
  "counters_ok owner (rg_set_clients k m r) = counters_ok owner r"
  "counters_ok owner (emit es r) = counters_ok owner r"
  "counters_ok owner (bump_gauge k d r) = counters_ok owner r"
  by (simp_all add: counters_ok_def)

lemma maps_ok_cong:
  "(\<And>k. rg_clients k r' = rg_clients k r) \<Longrightarrow> maps_ok X r' = maps_ok X r"
  by (simp add: maps_ok_def entry_def)

lemma maps_ok_frame [simp]:
  "maps_ok X (emit es r) = maps_ok X r"
  "maps_ok X (bump_gauge k d r) = maps_ok X r"
  "maps_ok X (snd (decrementCounters c t r)) = maps_ok X r"
  "maps_ok X (snd (incrementCounters c t r)) = maps_ok X r"
  by (auto intro!: maps_ok_cong)

section \<open>Counters under increment and decrement\<close>

lemma js_remove_filter_length:
  "distinct xs \<Longrightarrow> length (filter P (js_remove c xs)) =
     length (filter P xs) - (if c \<in> set xs \<and> P c then 1 else 0)"
proof (induction xs)
  case Nil
  then show ?case by (simp add: js_remove_def)
next
  case (Cons x xs)
  show ?case
  proof (cases "x = c")
    case True
    with Cons.prems have "js_remove c (x # xs) = xs"
      using js_remove_notin [of c xs] by (simp add: js_remove_def)
    with True show ?thesis by simp
  next
    case False
    then have "js_remove c (x # xs) = x # js_remove c xs" by (simp add: js_remove_def)
    moreover have "c \<in> set xs \<and> P c \<Longrightarrow> 0 < length (filter P xs)"
      by (auto simp: filter_empty_conv)
    ultimately show ?thesis using Cons False by (auto simp: Suc_diff_Suc)
  qed
qed

lemma js_remove_length:
  "distinct xs \<Longrightarrow> length (js_remove c xs) = length xs - (if c \<in> set xs then 1 else 0)"
  using js_remove_filter_length [of xs "\<lambda>_. True" c] by simp

lemma decrement_ok:
  assumes "counters_ok owner r" and "t = None \<or> t = snd (owner c)"
  shows "counters_ok owner (snd (decrementCounters c t r))"
proof (cases "c \<in> set (rg_counted r)")
  case False
  with assms show ?thesis by (simp add: decrementCounters_def)
next
  case True
  let ?r = "snd (decrementCounters c t r)"
  obtain o' where o': "snd (owner c) = o'" by blast
  have res: "(case t of Some t \<Rightarrow> Some t | None \<Rightarrow> rg_socketTenants r c) = o'"
    using assms True o' by (auto simp: counters_ok_def split: option.splits)
  have tot: "rg_total ?r = rg_total r - 1" and soc: "rg_socketTenants ?r = rg_socketTenants r"
    and ten: "rg_tenants ?r = (case o' of
        Some t \<Rightarrow> if t \<noteq> [] then tenant_dec t (rg_tenants r) else rg_tenants r | None \<Rightarrow> rg_tenants r)"
    using True res by (auto simp: decrementCounters_def Let_def split: option.splits)
  have "counts_ok (rg_tenants ?r)"
    using assms(1) by (auto simp: ten counters_ok_def tenant_counts.dec_ok split: option.splits)
  then show ?thesis
    using assms(1) True tot soc ten o'
    by (cases o') (auto simp: counters_ok_def js_remove_length js_remove_filter_length
        tenant_counts.dec_count)
qed

lemma increment_ok:
  assumes "counters_ok owner r" and "c \<notin> set (rg_counted r)" and "snd (owner c) = t"
  shows "counters_ok owner (snd (incrementCounters c t r))"
proof -
  let ?r = "snd (incrementCounters c t r)"
  have tot: "rg_total ?r = rg_total r + 1"
    and soc: "rg_socketTenants ?r = (rg_socketTenants r)(c := t)"
    and ten: "rg_tenants ?r = (case t of
        Some t \<Rightarrow> if t \<noteq> [] then tenant_inc t (rg_tenants r) else rg_tenants r | None \<Rightarrow> rg_tenants r)"
    using assms(2) by (auto simp: incrementCounters_def Let_def split: option.splits)
  have "counts_ok (rg_tenants ?r)"
    using assms(1) by (auto simp: ten counters_ok_def tenant_counts.inc_ok split: option.splits)
  then show ?thesis
    using assms tot soc ten
    by (cases t) (auto simp: counters_ok_def js_add_def tenant_counts.inc_count)
qed


section \<open>Entries of the maps\<close>

lemma entry_set:
  "entry k' key' (rg_set_clients k (jm_set key v (rg_clients k r)) r) =
     (if k' = k \<and> key' = key then v else entry k' key' r)"
  by (simp add: entry_def jmap_laws)

lemma entry_delete:
  "entry k' key' (rg_set_clients k (jm_delete key (rg_clients k r)) r) =
     (if k' = k \<and> key' = key then [] else entry k' key' r)"
  by (simp add: entry_def jmap_laws)

lemma get_drop:
  "jm_get (drop_member key item m) key' =
    (if key' = key then (case jm_get m key of None \<Rightarrow> None
       | Some cs \<Rightarrow> if js_remove item cs = [] then None else Some (js_remove item cs))
     else jm_get m key')"
  by (simp add: drop_member_def jmap_laws Let_def split: option.split)

lemma entry_drop:
  "entry k' key' (rg_set_clients k (drop_member key item (rg_clients k r)) r) =
     (if k' = k \<and> key' = key then js_remove item (entry k key r) else entry k' key' r)"
  by (auto simp: entry_def get_drop js_remove_def split: option.split)

lemma jm_ok_drop: "jm_ok m \<Longrightarrow> jm_ok (drop_member key item m)"
  by (simp add: drop_member_def Let_def split: option.split)

lemma entry_in: "jm_get (rg_clients k r) key = Some cs \<Longrightarrow> entry k key r = cs"
  by (simp add: entry_def)

lemma maps_ok_set:
  assumes "maps_ok X r" and "distinct v" and "\<forall>c\<in>set v. kind_of c = k" and "v \<noteq> [] \<or> key \<in> X"
  shows "maps_ok X (rg_set_clients k (jm_set key v (rg_clients k r)) r)"
  using assms by (auto simp: maps_ok_def entry_set jmap_laws)

lemma maps_ok_delete:
  "maps_ok X r \<Longrightarrow> maps_ok X (rg_set_clients k (jm_delete key (rg_clients k r)) r)"
  by (auto simp: maps_ok_def entry_delete jmap_laws)

lemma maps_ok_drop:
  "maps_ok X r \<Longrightarrow> maps_ok X (rg_set_clients k (drop_member key item (rg_clients k r)) r)"
  by (auto simp: maps_ok_def entry_drop get_drop jm_ok_drop split: option.splits)

section \<open>Admission and removal keep the invariant\<close>

definition insert_at :: "string \<Rightarrow> conn \<Rightarrow> registry \<Rightarrow> registry" where
  "insert_at key c r =
     rg_set_clients (kind_of c)
       (jm_set key (js_add c (entry (kind_of c) key r)) (rg_clients (kind_of c) r)) r"

lemma maps_ok_distinct: "maps_ok X r \<Longrightarrow> distinct (entry k key r)"
  by (simp add: maps_ok_def)

lemma maps_ok_kind: "maps_ok X r \<Longrightarrow> c \<in> set (entry k key r) \<Longrightarrow> kind_of c = k"
  by (simp add: maps_ok_def)

lemma insert_at_maps: "maps_ok X r \<Longrightarrow> maps_ok X (insert_at key c r)"
  unfolding insert_at_def
  by (rule maps_ok_set) (auto simp: maps_ok_distinct js_add_def dest: maps_ok_kind)

lemma insert_at_entry:
  "set (entry k key' (insert_at key c r)) =
     (if k = kind_of c \<and> key' = key then insert c (set (entry k key' r)) else set (entry k key' r))"
  by (simp add: insert_at_def entry_set)

lemma insert_at_frame [simp]:
  "rg_counted (insert_at key c r) = rg_counted r" "rg_total (insert_at key c r) = rg_total r"
  "rg_tenants (insert_at key c r) = rg_tenants r" "rg_gauge (insert_at key c r) = rg_gauge r"
  "counters_ok owner (insert_at key c r) = counters_ok owner r"
  by (simp_all add: insert_at_def)

lemma jm_set_set: "jm_set k v (jm_set k u m) = jm_set k v m"
  by (simp add: jm_set_def)

lemma add_alias_insert: "add_alias userId c r = insert_at (connectionKey userId None) c r"
proof (cases "jm_has (rg_clients (kind_of c) r) (connectionKey userId None)")
  case True
  then show ?thesis by (simp add: add_alias_def insert_at_def Let_def entry_def)
next
  case False
  then have "jm_get (rg_clients (kind_of c) r) (connectionKey userId None) = None"
    by (simp add: jm_has_def)
  with False show ?thesis
    by (simp add: add_alias_def insert_at_def Let_def entry_def jmap_laws jm_set_set)
qed

text \<open>The three outcomes of an admission.\<close>

lemma add_client_cases:
  obtains
    (present) "c \<in> set (entry (kind_of c) (connectionKey u t) r)" "add_client l1 l2 u t c r = (True, r)"
  | (refused) es where "add_client l1 l2 u t c r = (False, emit es r)"
  | (admitted) "c \<notin> set (entry (kind_of c) (connectionKey u t) r)"
      "rg_total r < MAX_PROCESS_CONNECTIONS"
      "\<forall>t'. t = Some t' \<and> t' \<noteq> [] \<longrightarrow> count_of (rg_tenants r) t' < MAX_CONNECTIONS_PER_TENANT"
      "length (entry (kind_of c) (connectionKey u t) r) < MAX_CLIENTS_PER_CONNECTION"
      "add_client l1 l2 u t c r =
         (True, bump_gauge (kind_of c) 1 (snd (incrementCounters c t (insert_at (connectionKey u t) c r))))"
proof -
  let ?k = "kind_of c" and ?key = "connectionKey u t"
  let ?full = "rg_total r \<ge> MAX_PROCESS_CONNECTIONS"
  let ?tfull = "case t of None \<Rightarrow> False
       | Some t \<Rightarrow> t \<noteq> [] \<and> getTenantConnectionCount t r \<ge> MAX_CONNECTIONS_PER_TENANT"
  have mem: "(case jm_get (rg_clients ?k r) ?key of None \<Rightarrow> False | Some cs \<Rightarrow> c \<in> set cs)
      \<longleftrightarrow> c \<in> set (entry ?k ?key r)"
    by (simp add: entry_def split: option.split)
  have len: "(case jm_get (rg_clients ?k r) ?key of None \<Rightarrow> False | Some cs \<Rightarrow> length cs \<ge> MAX_CLIENTS_PER_CONNECTION)
      \<longleftrightarrow> length (entry ?k ?key r) \<ge> MAX_CLIENTS_PER_CONNECTION"
    by (simp add: entry_def MAX_CLIENTS_PER_CONNECTION_def split: option.split)
  have tgt: "(case jm_get (rg_clients ?k r) ?key of None \<Rightarrow> [] | Some cs \<Rightarrow> cs) = entry ?k ?key r"
    by (simp add: entry_def)
  note unfolded = add_client_def [of l1 l2 u t c r, unfolded Let_def mem len tgt]
  consider "c \<in> set (entry ?k ?key r)"
    | "c \<notin> set (entry ?k ?key r)" "?full \<or> ?tfull \<or> length (entry ?k ?key r) \<ge> MAX_CLIENTS_PER_CONNECTION"
    | "c \<notin> set (entry ?k ?key r)" "\<not> ?full" "\<not> ?tfull" "length (entry ?k ?key r) < MAX_CLIENTS_PER_CONNECTION"
    by force
  then show thesis
  proof cases
    case 1
    then show thesis by (intro present) (simp_all add: unfolded)
  next
    case 2
    have "\<exists>es. add_client l1 l2 u t c r = (False, emit es r)"
      unfolding unfolded using 2 by auto
    then show thesis using refused by blast
  next
    case 3
    then show thesis
      by (intro admitted) (auto simp: unfolded getTenantConnectionCount_def insert_at_def split: option.splits)
  qed
qed


lemma service_add_eq:
  "\<exists>l1 l2. service_add u t c r =
     (let a = add_client l1 l2 u t c r in
      (fst a, if fst a \<and> t \<noteq> None then insert_at (connectionKey u None) c (snd a) else snd a))"
  by (cases c) (auto simp: service_add_def addWsClient_def addSseClient_def Let_def add_alias_insert
      case_prod_unfold)

lemma limits_ok_frame [simp]:
  "limits_ok (emit es r) = limits_ok r" "limits_ok (bump_gauge k d r) = limits_ok r"
  "limits_ok (rg_set_clients k m r) = limits_ok r"
  by (simp_all add: limits_ok_def)

lemma decrement_limits:
  assumes "counters_ok owner r" and "limits_ok r"
  shows "limits_ok (snd (decrementCounters c t r))"
proof -
  have "count_of (tenant_dec t' (rg_tenants r)) s \<le> MAX_CONNECTIONS_PER_TENANT" for t' s
  proof -
    have "counts_ok (rg_tenants r)" using assms(1) by (simp add: counters_ok_def)
    then have "count_of (tenant_dec t' (rg_tenants r)) s \<le> count_of (rg_tenants r) s"
      by (simp add: tenant_counts.dec_count)
    with assms(2) show ?thesis by (auto simp: limits_ok_def intro: order_trans)
  qed
  then show ?thesis
    using assms(2) by (auto simp: decrementCounters_def Let_def limits_ok_def split: option.split)
qed

lemma placed_counted:
  "placed owner r \<Longrightarrow> c \<in> set (entry k key r) \<Longrightarrow> c \<in> set (rg_counted r)"
  by (auto simp: placed_def)

lemma placed_entry:
  "placed owner r \<Longrightarrow> c \<in> set (rg_counted r) \<Longrightarrow> key \<in> keys_of owner c \<Longrightarrow>
     c \<in> set (entry (kind_of c) key r)"
  by (auto simp: placed_def)

lemma admitted_inv:
  assumes inv: "reg_inv owner r" and own: "owner c = (u, t)"
    and fresh: "c \<notin> set (rg_counted r)"
    and total: "rg_total r < MAX_PROCESS_CONNECTIONS"
    and tenant: "\<forall>t'. t = Some t' \<and> t' \<noteq> [] \<longrightarrow> count_of (rg_tenants r) t' < MAX_CONNECTIONS_PER_TENANT"
    and r': "r' = bump_gauge (kind_of c) 1 (snd (incrementCounters c t (insert_at (connectionKey u t) c r)))"
  shows "reg_inv owner (insert_at (connectionKey u None) c r')"
proof -
  let ?q = "insert_at (connectionKey u None) c r'"
  let ?r1 = "insert_at (connectionKey u t) c r"
  have counted: "rg_counted r' = rg_counted r @ [c]"
    using fresh by (simp add: r' js_add_def)
  have "counters_ok owner ?q"
    using inv own fresh by (simp add: r' reg_inv_def increment_ok)
  moreover have "maps_ok {} ?q"
    using inv by (simp add: r' reg_inv_def insert_at_maps)
  moreover have "placed owner ?q"
  proof -
    have e: "set (entry k key ?q) = set (entry k key r) \<union> (if k = kind_of c \<and> key \<in> keys_of owner c then {c} else {})"
      for k key by (auto simp: r' insert_at_entry keys_of_def own)
    then show ?thesis
      using inv by (auto simp: placed_def counted reg_inv_def)
  qed
  moreover have "gauges_ok ?q"
    using inv by (auto simp: gauges_ok_def counted reg_inv_def) (auto simp: r')
  moreover have "limits_ok ?q"
  proof -
    have tot: "rg_total ?q = rg_total r + 1" and
      ten: "rg_tenants ?q = (case t of
        Some t \<Rightarrow> if t \<noteq> [] then tenant_inc t (rg_tenants r) else rg_tenants r | None \<Rightarrow> rg_tenants r)"
      using fresh by (auto simp: r' incrementCounters_def Let_def split: option.splits)
    then show ?thesis
      using inv total tenant
      by (cases t) (auto simp: limits_ok_def reg_inv_def tenant_counts.inc_count Suc_le_eq)
  qed
  ultimately show ?thesis by (simp add: reg_inv_def)
qed

lemma insert_again:
  assumes "c \<in> set (entry (kind_of c) key r)" and "maps_ok {} r"
  shows "reg_inv owner (insert_at key c r) = reg_inv owner r"
proof -
  have "set (entry k key' (insert_at key c r)) = set (entry k key' r)" for k key'
    using assms(1) by (auto simp: insert_at_entry)
  then show ?thesis
    using assms(2) by (simp add: reg_inv_def placed_def gauges_ok_def limits_ok_def insert_at_maps)
qed

lemma reg_inv_emit [simp]: "reg_inv owner (emit es r) = reg_inv owner r"
  by (simp add: reg_inv_def placed_def gauges_ok_def limits_ok_def)

lemma service_add_inv:
  assumes inv: "reg_inv owner r" and own: "owner c = (u, t)"
  shows "reg_inv owner (snd (service_add u t c r))"
proof -
  obtain l1 l2 where sa: "service_add u t c r =
     (let a = add_client l1 l2 u t c r in
      (fst a, if fst a \<and> t \<noteq> None then insert_at (connectionKey u None) c (snd a) else snd a))"
    using service_add_eq by blast
  have pl: "placed owner r" and mp: "maps_ok {} r" using inv by (auto simp: reg_inv_def)
  show ?thesis
  proof (cases rule: add_client_cases [of c u t r l1 l2])
    case present
    then have "c \<in> set (entry (kind_of c) (connectionKey u None) r)"
      using pl by (auto simp: placed_def keys_of_def own)
    with present inv mp show ?thesis by (simp add: sa Let_def insert_again)
  next
    case refused
    with inv show ?thesis by (simp add: sa Let_def)
  next
    case admitted
    let ?r' = "bump_gauge (kind_of c) 1 (snd (incrementCounters c t (insert_at (connectionKey u t) c r)))"
    have "c \<notin> set (rg_counted r)"
      using admitted(1) pl by (auto simp: placed_def keys_of_def own)
    from admitted_inv [OF inv own this admitted(2,3) refl]
    have q: "reg_inv owner (insert_at (connectionKey u None) c ?r')" .
    show ?thesis
    proof (cases t)
      case None
      have "c \<in> set (entry (kind_of c) (connectionKey u None) ?r')"
        by (simp add: insert_at_entry None)
      moreover have "maps_ok {} ?r'" using mp by (simp add: insert_at_maps)
      ultimately show ?thesis
        unfolding sa using q admitted(5) None insert_again [of c "connectionKey u None" ?r' owner]
        by (simp add: Let_def)
    next
      case (Some t')
      show ?thesis unfolding sa using q admitted(5) Some by (simp add: Let_def)
    qed
  qed
qed

section \<open>Removal\<close>

definition drop_at :: "string \<Rightarrow> conn \<Rightarrow> registry \<Rightarrow> registry" where
  "drop_at key c r = rg_set_clients (kind_of c) (drop_member key c (rg_clients (kind_of c) r)) r"

lemma drop_at_frame [simp]:
  "rg_counted (drop_at key c r) = rg_counted r" "rg_total (drop_at key c r) = rg_total r"
  "rg_tenants (drop_at key c r) = rg_tenants r" "rg_gauge (drop_at key c r) = rg_gauge r"
  "counters_ok owner (drop_at key c r) = counters_ok owner r"
  by (simp_all add: drop_at_def)

lemma drop_at_limits [simp]: "limits_ok (drop_at key c r) = limits_ok r"
  by (simp add: drop_at_def)

lemma drop_at_maps: "maps_ok X r \<Longrightarrow> maps_ok X (drop_at key c r)"
  by (simp add: drop_at_def maps_ok_drop)

lemma drop_at_entry:
  "set (entry k key' (drop_at key c r)) =
     (if k = kind_of c \<and> key' = key then set (entry k key' r) - {c} else set (entry k key' r))"
  by (simp add: drop_at_def entry_drop)

lemma remove_client_eq:
  "\<exists>es. (case c of Ws s \<Rightarrow> removeWsClient u t s r | Sse s \<Rightarrow> removeSseClient u t s reason q r) =
     (let r2 = snd (decrementCounters c t (drop_at (connectionKey u t) c r)) in
      if c \<in> set (rg_counted r) then emit es (bump_gauge (kind_of c) (-1) r2) else r2)"
proof (cases c)
  case (Ws s)
  have "emit [] x = x" for x by (simp add: emit_def)
  with Ws show ?thesis
    by (intro exI [of _ "[]"])
       (simp add: removeWsClient_def drop_at_def rg_clients_def Let_def case_prod_unfold)
next
  case (Sse s)
  then show ?thesis
    by (auto simp: removeSseClient_def drop_at_def rg_clients_def Let_def case_prod_unfold)
qed

lemma service_remove_inv:
  assumes inv: "reg_inv owner r" and own: "owner c = (u, t)"
  shows "reg_inv owner (service_remove u t c reason q r)"
proof -
  let ?r2 = "snd (decrementCounters c t (drop_at (connectionKey u t) c r))"
  obtain es where rm: "(case c of Ws s \<Rightarrow> removeWsClient u t s r | Sse s \<Rightarrow> removeSseClient u t s reason q r) =
      (if c \<in> set (rg_counted r) then emit es (bump_gauge (kind_of c) (-1) ?r2) else ?r2)" (is "_ = ?r3")
    using remove_client_eq [where c = c and u = u and t = t and r = r and reason = reason and q = q]
    by (auto simp: Let_def)
  let ?q = "if t \<noteq> None then drop_at (connectionKey u None) c ?r3 else ?r3"
  have sr: "service_remove u t c reason q r = ?q"
    by (simp add: service_remove_def rm Let_def remove_alias_def drop_at_def)
  have counted: "rg_counted ?q = js_remove c (rg_counted r)" by simp
  have "counters_ok owner ?q"
    using inv own by (simp add: reg_inv_def decrement_ok)
  moreover have "maps_ok {} ?q"
    using inv by (simp add: reg_inv_def drop_at_maps)
  moreover have "placed owner ?q"
  proof -
    have e: "set (entry k key ?q) = set (entry k key r) - (if k = kind_of c \<and> key \<in> keys_of owner c then {c} else {})"
      for k key by (cases t) (auto simp: drop_at_entry keys_of_def own)
    then show ?thesis
      using inv unfolding placed_def counted e by (auto simp: reg_inv_def placed_def)
  qed
  moreover have "gauges_ok ?q"
  proof -
    have d: "distinct (rg_counted r)" using inv by (simp add: reg_inv_def counters_ok_def)
    have pos: "c \<in> set (rg_counted r) \<Longrightarrow> 0 < length (filter (\<lambda>d. kind_of d = kind_of c) (rg_counted r))"
      by (auto simp: filter_empty_conv)
    from inv show ?thesis
      unfolding gauges_ok_def counted js_remove_filter_length [OF d]
      using pos by (auto simp: reg_inv_def gauges_ok_def of_nat_diff Suc_le_eq)
  qed
  moreover have "limits_ok ?q"
    using inv by (simp add: reg_inv_def decrement_limits [of owner])
  ultimately show ?thesis by (simp add: sr reg_inv_def)
qed

end
