(* ===== verification/RegistryClosing.thy ===== *)
theory RegistryClosing
  imports RegistryInvariants
begin

text \<open>
  The dispatcher's closing loops against the contract of their callback. The dispatcher knows
  nothing of counters: it calls \<open>onClosed\<close> for each connection and counts the calls that did
  not return \<open>false\<close>. The registry passes three different callbacks. The locale states what
  the loops rely on, derives which connections get closed, how many are counted and what is
  left in the maps, and is interpreted for each callback.
\<close>

text \<open>
  From \<open>r\<close> to \<open>r'\<close> the connections \<open>C\<close> were closed, the keys \<open>K\<close> were deleted, and at the
  keys \<open>D\<close> the callback removed the closed connections.
\<close>

definition closed_all ::
  "string set \<Rightarrow> conn set \<Rightarrow> (kind \<times> string) set \<Rightarrow> registry \<Rightarrow> registry \<Rightarrow> bool" where
  "closed_all D C K r r' \<longleftrightarrow>
     rg_counted r' = filter (\<lambda>c. c \<notin> C) (rg_counted r) \<and> rg_gauge r' = rg_gauge r \<and>
     (\<forall>k key. set (entry k key r') =
        (if (k, key) \<in> K then {} else set (entry k key r) - (if key \<in> D then C else {})))"

definition hits :: "conn set \<Rightarrow> registry \<Rightarrow> nat" where
  "hits C r = length (filter (\<lambda>c. c \<in> C) (rg_counted r))"

lemma closed_all_refl: "closed_all D {} {} r r"
  by (simp add: closed_all_def)

lemma closed_all_trans:
  "closed_all D C K r r1 \<Longrightarrow> closed_all D C' K' r1 r2 \<Longrightarrow> closed_all D (C \<union> C') (K \<union> K') r r2"
  by (auto simp: closed_all_def intro: filter_cong)

lemma closed_all_emit: "closed_all D {} {} r (emit es r)"
  by (simp add: closed_all_def)

lemma closed_all_delete:
  "closed_all D {} {(k, key)} r (rg_set_clients k (jm_delete key (rg_clients k r)) r)"
  by (auto simp: closed_all_def entry_delete)

lemma closed_all_absent:
  "jm_get (rg_clients k r) key = None \<Longrightarrow> closed_all D {} {(k, key)} r r"
  by (auto simp: closed_all_def entry_def)

lemma closed_all_keys_cong:
  assumes "K \<subseteq> K'" and "\<And>k key. (k, key) \<in> K' \<Longrightarrow> (k, key) \<notin> K \<Longrightarrow> entry k key r = []"
  shows "closed_all D C K' r r' \<longleftrightarrow> closed_all D C K r r'"
proof -
  have "(if (k, key) \<in> K' then {} else set (entry k key r) - (if key \<in> D then C else {})) =
        (if (k, key) \<in> K then {} else set (entry k key r) - (if key \<in> D then C else {}))" for k key
    using assms by auto
  then show ?thesis by (simp only: closed_all_def)
qed

lemma hits_Un:
  "closed_all D C K r r1 \<Longrightarrow> hits (C \<union> C') r = hits C r + hits C' r1"
proof -
  assume a: "closed_all D C K r r1"
  have "length (filter (\<lambda>c. c \<in> C \<union> C') xs) =
        length (filter (\<lambda>c. c \<in> C) xs) + length (filter (\<lambda>c. c \<in> C') (filter (\<lambda>c. c \<notin> C) xs))" for xs
    by (induction xs) auto
  then show ?thesis using a by (simp add: hits_def closed_all_def)
qed

lemma hits_single: "distinct (rg_counted r) \<Longrightarrow> hits {c} r = (if c \<in> set (rg_counted r) then 1 else 0)"
proof -
  have "distinct xs \<Longrightarrow> length (filter (\<lambda>d. d = c) xs) = (if c \<in> set xs then 1 else 0)" for xs
    by (induction xs) auto
  then show "distinct (rg_counted r) \<Longrightarrow> ?thesis" by (simp add: hits_def)
qed

lemma hits_empty [simp]: "hits {} r = 0"
  by (simp add: hits_def)

lemma hits_disjoint:
  assumes "closed_all D C K r r1" and "C \<inter> C' = {}"
  shows "hits C' r1 = hits C' r"
proof -
  have "length (filter (\<lambda>c. c \<in> C') (filter (\<lambda>c. c \<notin> C) xs)) = length (filter (\<lambda>c. c \<in> C') xs)" for xs
    using assms(2) by (induction xs) auto
  then show ?thesis using assms(1) by (simp add: hits_def closed_all_def)
qed

text \<open>Without duplicates the loop over one key is the loop over the members of a key.\<close>

lemma close_key_ws_eq:
  "distinct ss \<Longrightarrow> set ss \<inter> set seen = {} \<Longrightarrow>
     snd (close_members_ws thr how f ss (seen, n, r)) = close_key_ws thr how f ss (n, r)"
  by (induction ss arbitrary: seen n r) (auto simp: case_prod_unfold)

lemma close_key_sse_eq:
  "distinct ss \<Longrightarrow> set ss \<inter> set seen = {} \<Longrightarrow>
     snd (close_members_sse thr f ss (seen, n, r)) = close_key_sse thr f ss (n, r)"
  by (induction ss arbitrary: seen n r) (auto simp: case_prod_unfold)

locale close_callback =
  fixes f :: on_closed
    and W :: "registry \<Rightarrow> bool"
    and Q :: "conn \<Rightarrow> bool"
    and D :: "string set"
  assumes hit: "fst (f c r) \<longleftrightarrow> c \<in> set (rg_counted r)"
    and uncounts: "rg_counted (snd (f c r)) = js_remove c (rg_counted r)"
    and same_gauge: "rg_gauge (snd (f c r)) = rg_gauge r"
    and keeps: "W r \<Longrightarrow> Q c \<Longrightarrow> W (snd (f c r))"
    and keeps_emit: "W r \<Longrightarrow> W (emit es r)"
    and keeps_delete: "W r \<Longrightarrow> W (rg_set_clients k (jm_delete key (rg_clients k r)) r)"
    and drops: "W r \<Longrightarrow>
      set (entry k key (snd (f c r))) = set (entry k key r) - (if key \<in> D then {c} else {})"
    and counted_distinct: "W r \<Longrightarrow> distinct (rg_counted r)"
    and entry_distinct: "W r \<Longrightarrow> distinct (entry k key r)"
    and homogeneous: "W r \<Longrightarrow> c \<in> set (entry k key r) \<Longrightarrow> kind_of c = k"
begin

lemma call: "W r \<Longrightarrow> closed_all D {c} {} r (snd (f c r))"
  by (auto simp: closed_all_def uncounts same_gauge drops js_remove_def)

lemma call_emit: "W r \<Longrightarrow> closed_all D {c} {} r (snd (f c (emit es r)))"
  using closed_all_trans [OF closed_all_emit call [OF keeps_emit]] by fastforce

lemma emit_call: "W r \<Longrightarrow> closed_all D {c} {} r (emit es (snd (f c r)))"
  using closed_all_trans [OF call closed_all_emit] by fastforce

text \<open>What a loop over the members of one key achieves; \<open>seen\<close> are those already closed.\<close>

definition loop_ok ::
  "(conn list \<Rightarrow> conn list \<times> nat \<times> registry \<Rightarrow> conn list \<times> nat \<times> registry) \<Rightarrow> bool" where
  "loop_ok loop \<longleftrightarrow>
     (\<forall>ss seen n r seen' n' r'. W r \<longrightarrow> (\<forall>s\<in>set ss. Q s) \<longrightarrow> loop ss (seen, n, r) = (seen', n', r') \<longrightarrow>
        W r' \<and> closed_all D (set ss - set seen) {} r r' \<and> n' = n + hits (set ss - set seen) r \<and>
        set seen' = set seen \<union> set ss)"

lemma members_step:
  assumes "W r" and "Q s" and "s \<notin> set seen" and "closed_all D {s} {} r r1"
    and "closed_all D (set ss - insert s (set seen)) {} r1 r'"
    and "n' = (if s \<in> set (rg_counted r) then n + 1 else n) + hits (set ss - insert s (set seen)) r1"
  shows "closed_all D (set (s # ss) - set seen) {} r r'" and "n' = n + hits (set (s # ss) - set seen) r"
proof -
  have e: "set (s # ss) - set seen = {s} \<union> (set ss - insert s (set seen))"
    using assms(3) by auto
  show "closed_all D (set (s # ss) - set seen) {} r r'"
    using closed_all_trans [OF assms(4,5)] by (simp only: e Un_empty_left)
  show "n' = n + hits (set (s # ss) - set seen) r"
    unfolding e hits_Un [OF assms(4)]
    using assms(6) hits_single [OF counted_distinct [OF assms(1)], of s] by simp
qed

lemma members_ws: "loop_ok (close_members_ws (\<lambda>_. False) how f)"
  unfolding loop_ok_def
proof (intro allI impI)
  fix ss seen n r seen' n' r'
  assume "W r" "\<forall>s\<in>set ss. Q s" "close_members_ws (\<lambda>_. False) how f ss (seen, n, r) = (seen', n', r')"
  then show "W r' \<and> closed_all D (set ss - set seen) {} r r' \<and> n' = n + hits (set ss - set seen) r \<and>
        set seen' = set seen \<union> set ss"
  proof (induction ss arbitrary: seen n r)
    case Nil
    then show ?case by (simp add: closed_all_refl)
  next
    case (Cons s ss)
    show ?case
    proof (cases "s \<in> set seen")
      case True
      then have "set (s # ss) - set seen = set ss - set seen" by auto
      with Cons True show ?thesis by (simp add: insert_absorb)
    next
      case False
      let ?r1 = "snd (f s (emit [Closed s how] r))"
      have st: "closed_all D {s} {} r ?r1" and W1: "W ?r1"
        using Cons.prems by (simp_all add: call_emit keeps keeps_emit)
      have rest: "close_members_ws (\<lambda>_. False) how f ss
          (js_add s seen, if s \<in> set (rg_counted r) then n + 1 else n, ?r1) = (seen', n', r')"
        using Cons.prems False hit [of s "emit [Closed s how] r"] by (simp add: case_prod_unfold)
      have "W r' \<and> closed_all D (set ss - insert s (set seen)) {} ?r1 r' \<and>
          n' = (if s \<in> set (rg_counted r) then n + 1 else n) + hits (set ss - insert s (set seen)) ?r1 \<and>
          set seen' = insert s (set seen) \<union> set ss"
        using Cons.IH [OF W1 _ rest] Cons.prems by simp
      then show ?thesis
        using members_step [OF Cons.prems(1) _ False st, of ss r' n' n] Cons.prems(2) by simp
    qed
  qed
qed

lemma members_sse: "loop_ok (close_members_sse (\<lambda>_. False) f)"
  unfolding loop_ok_def
proof (intro allI impI)
  fix ss seen n r seen' n' r'
  assume "W r" "\<forall>s\<in>set ss. Q s" "close_members_sse (\<lambda>_. False) f ss (seen, n, r) = (seen', n', r')"
  then show "W r' \<and> closed_all D (set ss - set seen) {} r r' \<and> n' = n + hits (set ss - set seen) r \<and>
        set seen' = set seen \<union> set ss"
  proof (induction ss arbitrary: seen n r)
    case Nil
    then show ?case by (simp add: closed_all_refl)
  next
    case (Cons s ss)
    show ?case
    proof (cases "s \<in> set seen")
      case True
      then have "set (s # ss) - set seen = set ss - set seen" by auto
      with Cons True show ?thesis by (simp add: insert_absorb)
    next
      case False
      let ?r1 = "emit [Closed s ''server_closed''] (snd (f s r))"
      have st: "closed_all D {s} {} r ?r1" and W1: "W ?r1"
        using Cons.prems by (simp_all add: emit_call keeps keeps_emit)
      have rest: "close_members_sse (\<lambda>_. False) f ss
          (js_add s seen, if s \<in> set (rg_counted r) then n + 1 else n, ?r1) = (seen', n', r')"
        using Cons.prems False hit [of s r] by (simp add: case_prod_unfold)
      have "W r' \<and> closed_all D (set ss - insert s (set seen)) {} ?r1 r' \<and>
          n' = (if s \<in> set (rg_counted r) then n + 1 else n) + hits (set ss - insert s (set seen)) ?r1 \<and>
          set seen' = insert s (set seen) \<union> set ss"
        using Cons.IH [OF W1 _ rest] Cons.prems by simp
      then show ?thesis
        using members_step [OF Cons.prems(1) _ False st, of ss r' n' n] Cons.prems(2) by simp
    qed
  qed
qed

definition members_at :: "kind \<Rightarrow> string set \<Rightarrow> registry \<Rightarrow> conn set" where
  "members_at k keys r = (\<Union>key\<in>keys. set (entry k key r))"

lemma matching_keys:
  assumes "loop_ok loop" and "W r" and "\<forall>s\<in>members_at k {key. pred key} r. Q s"
    and "close_matching_keys k pred loop keys (seen, n, r) = (seen', n', r')"
  defines "C \<equiv> members_at k {key \<in> set keys. pred key} r - set seen"
  shows "W r' \<and> closed_all D C {(k', key). k' = k \<and> key \<in> set keys \<and> pred key} r r' \<and>
         n' = n + hits C r"
  using assms(2-4) unfolding C_def
proof (induction keys arbitrary: seen n r)
  case Nil
  then show ?case by (simp add: closed_all_refl members_at_def)
next
  case (Cons key keys)
  show ?case
  proof (cases "pred key \<and> jm_get (rg_clients k r) key \<noteq> None")
    case False
    then have skip: "close_matching_keys k pred loop keys (seen, n, r) = (seen', n', r')"
      using Cons.prems(3) by (auto split: option.splits)
    have none: "pred key \<Longrightarrow> entry k key r = []" using False by (simp add: entry_def)
    have m: "members_at k {key' \<in> set (key # keys). pred key'} r = members_at k {key' \<in> set keys. pred key'} r"
      using none by (auto simp: members_at_def)
    have "closed_all D C {(k', key'). k' = k \<and> key' \<in> set (key # keys) \<and> pred key'} r r' \<longleftrightarrow>
          closed_all D C {(k', key'). k' = k \<and> key' \<in> set keys \<and> pred key'} r r'" for C
      using none by (intro closed_all_keys_cong) auto
    with Cons.IH [OF Cons.prems(1,2) skip] show ?thesis unfolding m by simp
  next
    case True
    then obtain ms where ms: "jm_get (rg_clients k r) key = Some ms" and p: "pred key" by auto
    from ms have ent: "entry k key r = ms" by (rule entry_in)
    obtain seen1 n1 r0 where l: "loop ms (seen, n, r) = (seen1, n1, r0)" by (metis prod_cases3)
    let ?r1 = "rg_set_clients k (jm_delete key (rg_clients k r0)) r0"
    have Qms: "\<forall>s\<in>set ms. Q s"
      using Cons.prems(2) p ent by (auto simp: members_at_def)
    with assms(1) Cons.prems(1) l have lo: "W r0" "closed_all D (set ms - set seen) {} r r0"
      "n1 = n + hits (set ms - set seen) r" "set seen1 = set seen \<union> set ms"
      unfolding loop_ok_def by blast+
    have c1: "closed_all D (set ms - set seen) {(k, key)} r ?r1"
      using closed_all_trans [OF lo(2) closed_all_delete, of k key] by simp
    have W1: "W ?r1" using lo(1) by (rule keeps_delete)
    have sub: "set (entry k key' ?r1) \<subseteq> set (entry k key' r)" for key'
      using c1 by (auto simp: closed_all_def split: if_splits)
    then have Q1: "\<forall>s\<in>members_at k {key. pred key} ?r1. Q s"
      using Cons.prems(2) by (fastforce simp: members_at_def)
    have rest: "close_matching_keys k pred loop keys (seen1, n1, ?r1) = (seen', n', r')"
      using Cons.prems(3) by (simp add: ms p l)
    let ?C1 = "set ms - set seen"
    let ?C2 = "members_at k {key \<in> set keys. pred key} ?r1 - set seen1"
    note ih = Cons.IH [OF W1 Q1 rest]
    have un: "?C1 \<union> ?C2 = members_at k {key' \<in> set (key # keys). pred key'} r - set seen"
    proof -
      have "set (entry k key' ?r1) = (if key' = key then {} else set (entry k key' r) - (if key' \<in> D then ?C1 else {}))"
        for key' using c1 by (simp add: closed_all_def)
      then show ?thesis
        using ent p by (auto simp: members_at_def lo(4) split: if_splits)
    qed
    have K: "{(k, key)} \<union> {(k', key'). k' = k \<and> key' \<in> set keys \<and> pred key'} =
        {(k', key'). k' = k \<and> key' \<in> set (key # keys) \<and> pred key'}"
      using p by auto
    have "n' = n + hits (?C1 \<union> ?C2) r"
      using ih lo(3) hits_Un [OF c1, of ?C2] by simp
    moreover have "closed_all D (?C1 \<union> ?C2)
        ({(k, key)} \<union> {(k', key'). k' = k \<and> key' \<in> set keys \<and> pred key'}) r r'"
      using ih closed_all_trans [OF c1] by blast
    ultimately show ?thesis using ih unfolding un K by blast
  qed
qed

lemma members_at_present:
  "members_at k {key \<in> set (jm_keys (rg_clients k r)). pred key} r = members_at k {key. pred key} r"
proof -
  have "entry k key r = []" if "key \<notin> set (jm_keys (rg_clients k r))" for key
    using that by (simp add: entry_def flip: jm_get_None_iff)
  then show ?thesis by (fastforce simp: members_at_def)
qed

lemma members_at_kind: "W r \<Longrightarrow> c \<in> members_at k keys r \<Longrightarrow> kind_of c = k"
  by (auto simp: members_at_def dest: homogeneous)

lemma keys_pass:
  assumes "loop_ok loop" and W: "W r" and "\<forall>s\<in>members_at k {key. pred key} r. Q s"
    and "close_matching_keys k pred loop (jm_keys (rg_clients k r)) ([], n, r) = (seen', n', r')"
  shows "W r' \<and> closed_all D (members_at k {key. pred key} r) {(k', key). k' = k \<and> pred key} r r' \<and>
         n' = n + hits (members_at k {key. pred key} r) r"
proof -
  have e: "entry k key r = []" if "key \<notin> set (jm_keys (rg_clients k r))" for key
    using that by (simp add: entry_def flip: jm_get_None_iff)
  have "closed_all D C {(k', key). k' = k \<and> pred key} r r' \<longleftrightarrow>
      closed_all D C {(k', key). k' = k \<and> key \<in> set (jm_keys (rg_clients k r)) \<and> pred key} r r'" for C
    using e by (intro closed_all_keys_cong) auto
  with matching_keys [OF assms] show ?thesis
    by (simp add: members_at_present)
qed

lemma matching_closed:
  assumes W: "W r" and Qs: "\<And>k. \<forall>s\<in>members_at k {key. pred key} r. Q s"
    and res: "closeMatchingConnections (\<lambda>_. False) pred how f r = ((a, b), r')"
  shows "W r' \<and> closed_all D (members_at KWs {key. pred key} r \<union> members_at KSse {key. pred key} r)
             {(k, key). pred key} r r' \<and>
         a = hits (members_at KWs {key. pred key} r) r \<and> b = hits (members_at KSse {key. pred key} r) r"
proof -
  let ?w = "members_at KWs {key. pred key} r" and ?s = "members_at KSse {key. pred key} r"
  obtain seen n r1 where p1: "close_matching_keys KWs pred (close_members_ws (\<lambda>_. False) how f)
      (jm_keys (rg_clients KWs r)) ([], 0, r) = (seen, n, r1)" by (metis prod_cases3)
  obtain seen2 n2 r2 where p2: "close_matching_keys KSse pred (close_members_sse (\<lambda>_. False) f)
      (jm_keys (rg_clients KSse r1)) ([], 0, r1) = (seen2, n2, r2)" by (metis prod_cases3)
  have out: "a = n" "b = n2" "r' = r2"
    using res p1 p2 by (simp_all add: closeMatchingConnections_def rg_clients_def Let_def)
  have one: "W r1" "closed_all D ?w {(k', key). k' = KWs \<and> pred key} r r1" "n = hits ?w r"
    using keys_pass [OF members_ws W Qs p1] by auto
  have disj: "?w \<inter> ?s = {}"
    using members_at_kind [OF W] by (metis disjoint_iff kind.distinct(1))
  have same: "members_at KSse {key. pred key} r1 = ?s"
  proof -
    have "set (entry KSse key r1) = set (entry KSse key r) - (if key \<in> D then ?w else {})" for key
      using one(2) by (simp add: closed_all_def)
    moreover have "set (entry KSse key r) \<inter> ?w = {}" for key
      using members_at_kind [OF W] homogeneous [OF W] by (metis disjoint_iff kind.distinct(1))
    ultimately have "set (entry KSse key r1) = set (entry KSse key r)" for key
      by (simp add: Diff_triv)
    then show ?thesis by (simp add: members_at_def)
  qed
  have two: "W r2" "closed_all D ?s {(k', key). k' = KSse \<and> pred key} r1 r2" "n2 = hits ?s r1"
    using keys_pass [OF members_sse one(1) _ p2] Qs [of KSse] unfolding same by auto
  have K: "{(k', key). k' = KWs \<and> pred key} \<union> {(k', key). k' = KSse \<and> pred key} = {(k, key). pred key}"
    using kind.exhaust by auto
  show ?thesis
    using two closed_all_trans [OF one(2) two(2)] one(3) hits_disjoint [OF one(2) disj]
    by (simp only: out K)
qed

lemma loop_once:
  assumes "loop_ok loop" and "W r" and "\<forall>s\<in>set ss. Q s" and "loop ss ([], n, r) = (seen', n', r')"
  shows "W r' \<and> closed_all D (set ss) {} r r' \<and> n' = n + hits (set ss) r"
proof -
  have "set ss - set [] = set ss" by simp
  with assms show ?thesis unfolding loop_ok_def by metis
qed

lemma key_closed:
  assumes W: "W r" and Qs: "\<And>k. \<forall>s\<in>set (entry k key r). Q s"
    and res: "closeKeyConnections (\<lambda>_. False) key how f r = ((a, b), r')"
  shows "W r' \<and> closed_all D (set (entry KWs key r) \<union> set (entry KSse key r)) {(k, key'). key' = key} r r' \<and>
         a = hits (set (entry KWs key r)) r \<and> b = hits (set (entry KSse key r)) r"
proof -
  let ?w = "entry KWs key r" and ?s = "entry KSse key r"
  have disj: "set ?w \<inter> set ?s = {}"
    using homogeneous [OF W] by (metis disjoint_iff kind.distinct(1))
  obtain seen n r0 where l: "close_members_ws (\<lambda>_. False) how f ?w ([], 0, r) = (seen, n, r0)"
    by (metis prod_cases3)
  let ?r1 = "rg_set_clients KWs (jm_delete key (rg_clients KWs r0)) r0"
  have lo: "W r0" "closed_all D (set ?w) {} r r0" "n = hits (set ?w) r"
    using loop_once [OF members_ws W Qs [of KWs] l] by simp_all
  have one: "W ?r1" "closed_all D (set ?w) {(KWs, key)} r ?r1"
    using keeps_delete [OF lo(1)] closed_all_trans [OF lo(2) closed_all_delete] by simp_all
  have kw: "close_key_ws (\<lambda>_. False) how f ?w (0, r) = (n, r0)"
    using close_key_ws_eq [where ss = ?w and seen = "[]" and thr = "\<lambda>_. False" and how = how and f = f
        and n = 0 and r = r] entry_distinct [OF W] l by simp
  have first: "(case jm_get (rg_ws r) key of None \<Rightarrow> (0, r)
      | Some ws \<Rightarrow> (case close_key_ws (\<lambda>_. False) how f ws (0, r) of
                      (n, r') \<Rightarrow> (n, r'\<lparr>rg_ws := jm_delete key (rg_ws r')\<rparr>))) = (n, r1)"
    if "r1 = (if jm_get (rg_ws r) key = None then r else ?r1)" for r1
    using kw that lo(3) by (auto simp: entry_def rg_clients_def rg_set_clients_def split: option.splits)
  obtain r1 where r1: "r1 = (if jm_get (rg_ws r) key = None then r else ?r1)" by blast
  have one': "W r1" "closed_all D (set ?w) {(KWs, key)} r r1"
    using one W closed_all_keys_cong [of "{}" "{(KWs, key)}" r D "{}" r] closed_all_refl [of D r]
    by (auto simp: r1 entry_def rg_clients_def)
  have same: "set (entry KSse key r1) = set ?s"
    using one'(2) disj by (auto simp: closed_all_def)
  obtain seen2 n2 r2 where l2: "close_members_sse (\<lambda>_. False) f (entry KSse key r1) ([], 0, r1) = (seen2, n2, r2)"
    by (metis prod_cases3)
  let ?r3 = "rg_set_clients KSse (jm_delete key (rg_clients KSse r2)) r2"
  have lo2: "W r2" "closed_all D (set ?s) {} r1 r2" "n2 = hits (set ?s) r1"
    using loop_once [OF members_sse one'(1) _ l2] Qs [of KSse] by (simp_all add: same)
  have ks: "close_key_sse (\<lambda>_. False) f (entry KSse key r1) (0, r1) = (n2, r2)"
    using close_key_sse_eq [where ss = "entry KSse key r1" and seen = "[]" and thr = "\<lambda>_. False" and f = f
        and n = 0 and r = r1] entry_distinct [OF one'(1)] l2 by simp
  obtain r3 where r3: "r3 = (if jm_get (rg_sse r1) key = None then r1 else ?r3)" by blast
  have second: "(case jm_get (rg_sse r1) key of None \<Rightarrow> (0, r1)
      | Some sse \<Rightarrow> (case close_key_sse (\<lambda>_. False) f sse (0, r1) of
                      (n, r') \<Rightarrow> (n, r'\<lparr>rg_sse := jm_delete key (rg_sse r')\<rparr>))) = (n2, r3)"
    using ks r3 lo2(3) same
    by (auto simp: entry_def rg_clients_def rg_set_clients_def split: option.splits)
  have two: "W r3 \<and> closed_all D (set ?s) {(KSse, key)} r1 r3"
  proof (cases "jm_get (rg_sse r1) key")
    case None
    then have "jm_get (rg_clients KSse r1) key = None" by (simp add: rg_clients_def)
    then have "set ?s = {}" and "closed_all D {} {(KSse, key)} r1 r1"
      using same by (simp_all add: closed_all_absent entry_def)
    with None one'(1) show ?thesis by (simp add: r3)
  next
    case (Some cs)
    then have "r3 = ?r3" by (simp add: r3)
    then show ?thesis
      using keeps_delete [OF lo2(1)] closed_all_trans [OF lo2(2) closed_all_delete, of KSse key] by simp
  qed
  have out: "a = n" "b = n2" "r' = r3"
    using res first [OF r1] second by (simp_all add: closeKeyConnections_def Let_def)
  have K: "{(KWs, key)} \<union> {(KSse, key)} = {(k, key'). key' = key}"
    using kind.exhaust by auto
  show ?thesis
    using two closed_all_trans [OF one'(2) conjunct2 [OF two]] lo(3) lo2(3) hits_disjoint [OF one'(2) disj]
    by (simp only: out K)
qed

end

section \<open>The three callbacks\<close>

definition closing_ok :: "ownership \<Rightarrow> string set \<Rightarrow> registry \<Rightarrow> bool" where
  "closing_ok owner X r \<longleftrightarrow> counters_ok owner r \<and> maps_ok X r \<and> limits_ok r"

lemma closing_ok_simps [simp]:
  "closing_ok owner X r \<Longrightarrow> closing_ok owner X (emit es r)"
  "closing_ok owner X r \<Longrightarrow> closing_ok owner X (rg_set_clients k (jm_delete key (rg_clients k r)) r)"
  "closing_ok owner X r \<Longrightarrow> distinct (rg_counted r)"
  "closing_ok owner X r \<Longrightarrow> distinct (entry k key r)"
  by (auto simp: closing_ok_def maps_ok_delete counters_ok_def maps_ok_distinct)

lemma closing_ok_kind: "closing_ok owner X r \<Longrightarrow> c \<in> set (entry k key r) \<Longrightarrow> kind_of c = k"
  by (auto simp: closing_ok_def dest: maps_ok_kind)

lemma closing_ok_decrement:
  "closing_ok owner X r \<Longrightarrow> t = None \<or> t = snd (owner c) \<Longrightarrow>
     closing_ok owner X (snd (decrementCounters c t r))"
  by (auto simp: closing_ok_def decrement_ok decrement_limits)

lemma js_remove_absent_kind:
  "closing_ok owner X r \<Longrightarrow> k \<noteq> kind_of c \<Longrightarrow> set (entry k key r) - {c} = set (entry k key r)"
  using closing_ok_kind by fastforce

interpretation user_close: close_callback
  "\<lambda>item. decrementCounters item None" "closing_ok owner {}" "\<lambda>_. True" "{}"
  for owner
  by unfold_locales (auto simp: closing_ok_decrement dest: closing_ok_kind)

lemma delete_in_set_entry:
  assumes "closing_ok owner X r"
  shows "set (entry k key' (delete_in_set key c r)) =
     set (entry k key' r) - (if key' = key then {c} else {})"
proof (cases "jm_get (rg_clients (kind_of c) r) key")
  case None
  then have "entry (kind_of c) key r = []" by (simp add: entry_def)
  then have "set (entry k key r) - {c} = set (entry k key r)"
    using js_remove_absent_kind [OF assms, of k c key] by (cases "k = kind_of c") auto
  with None show ?thesis by (simp add: delete_in_set_def)
next
  case (Some cs)
  then show ?thesis
    using js_remove_absent_kind [OF assms, of k c key]
    by (auto simp: delete_in_set_def Let_def entry_set entry_in [OF Some])
qed

lemma delete_in_set_frame [simp]:
  "rg_counted (delete_in_set key c r) = rg_counted r" "rg_gauge (delete_in_set key c r) = rg_gauge r"
  "counters_ok owner (delete_in_set key c r) = counters_ok owner r"
  "limits_ok (delete_in_set key c r) = limits_ok r"
  by (auto simp: delete_in_set_def Let_def split: option.split)

lemma delete_in_set_closing:
  assumes "closing_ok owner {key} r"
  shows "closing_ok owner {key} (delete_in_set key c r)"
proof (cases "jm_get (rg_clients (kind_of c) r) key")
  case None
  with assms show ?thesis by (simp add: delete_in_set_def)
next
  case (Some cs)
  have m: "maps_ok {key} r" using assms by (simp add: closing_ok_def)
  have "maps_ok {key} (rg_set_clients (kind_of c) (jm_set key (js_remove c cs) (rg_clients (kind_of c) r)) r)"
    by (rule maps_ok_set [OF m])
       (use maps_ok_distinct [OF m, of "kind_of c" key] maps_ok_kind [OF m, of _ "kind_of c" key]
         entry_in [OF Some] in auto)
  with assms Some show ?thesis
    by (auto simp: closing_ok_def delete_in_set_def Let_def)
qed

interpretation member_close: close_callback
  "\<lambda>item r. decrementCounters item (Some tenantId) (delete_in_set key item r)"
  "closing_ok owner {key}" "\<lambda>c. snd (owner c) = Some tenantId" "{key}"
  for owner tenantId key
proof (unfold_locales, goal_cases)
  case (4 r c)
  then show ?case by (auto intro!: closing_ok_decrement delete_in_set_closing)
next
  case (7 r k key' c)
  then show ?case by (auto simp: delete_in_set_entry)
qed (auto dest: closing_ok_kind)

lemma fold_drop_get:
  "jm_get (fold (\<lambda>key m. drop_member key c m) keys m) key =
     (if key \<in> set keys then (case jm_get m key of None \<Rightarrow> None
        | Some cs \<Rightarrow> if js_remove c cs = [] then None else Some (js_remove c cs))
      else jm_get m key)"
proof (induction keys arbitrary: m)
  case Nil
  then show ?case by simp
next
  case (Cons k ks)
  have "js_remove c (js_remove c cs) = js_remove c cs" for cs :: "conn list"
    by (simp add: js_remove_def)
  with Cons show ?case by (auto simp: get_drop split: option.split)
qed

lemma fold_drop_ok: "jm_ok m \<Longrightarrow> jm_ok (fold (\<lambda>key m. drop_member key c m) keys m)"
  by (induction keys arbitrary: m) (auto simp: jm_ok_drop)

lemma drop_everywhere_get:
  "jm_get (rg_clients k (drop_everywhere c r)) key =
     (if k = kind_of c then (case jm_get (rg_clients k r) key of None \<Rightarrow> None
        | Some cs \<Rightarrow> if js_remove c cs = [] then None else Some (js_remove c cs))
      else jm_get (rg_clients k r) key)"
  by (auto simp: drop_everywhere_def Let_def fold_drop_get simp flip: jm_get_None_iff split: option.split)

lemma drop_everywhere_entry:
  assumes "closing_ok owner X r"
  shows "entry k key (drop_everywhere c r) = js_remove c (entry k key r)"
proof (cases "k = kind_of c")
  case True
  then show ?thesis
    by (auto simp: entry_def drop_everywhere_get js_remove_def split: option.split)
next
  case False
  then have "c \<notin> set (entry k key r)" using assms closing_ok_kind by fastforce
  with False show ?thesis by (simp add: entry_def drop_everywhere_get)
qed

lemma drop_everywhere_frame [simp]:
  "rg_counted (drop_everywhere c r) = rg_counted r" "rg_gauge (drop_everywhere c r) = rg_gauge r"
  "counters_ok owner (drop_everywhere c r) = counters_ok owner r"
  "limits_ok (drop_everywhere c r) = limits_ok r"
  by (auto simp: drop_everywhere_def Let_def)

lemma drop_everywhere_closing:
  assumes "closing_ok owner X r"
  shows "closing_ok owner X (drop_everywhere c r)"
proof -
  have m: "maps_ok X r" using assms by (simp add: closing_ok_def)
  have "jm_ok (rg_clients k (drop_everywhere c r))" for k
    using m by (simp add: drop_everywhere_def Let_def maps_ok_def fold_drop_ok)
  moreover have "distinct (entry k key (drop_everywhere c r))" for k key
    by (simp add: drop_everywhere_entry [OF assms] maps_ok_distinct [OF m])
  moreover have "d \<in> set (entry k key (drop_everywhere c r)) \<Longrightarrow> kind_of d = k" for d k key
    by (auto simp: drop_everywhere_entry [OF assms] dest: maps_ok_kind [OF m])
  moreover have "key \<notin> X \<Longrightarrow> jm_get (rg_clients k (drop_everywhere c r)) key \<noteq> Some []" for k key
    using m by (auto simp: drop_everywhere_get maps_ok_def split: option.split)
  ultimately show ?thesis using assms by (simp add: closing_ok_def maps_ok_def)
qed

interpretation tenant_close: close_callback
  "\<lambda>item r. decrementCounters item (Some tenantId) (drop_everywhere item r)"
  "closing_ok owner {}" "\<lambda>c. snd (owner c) = Some tenantId" "UNIV"
  for owner tenantId
proof (unfold_locales, goal_cases)
  case (4 r c)
  then show ?case by (auto intro!: closing_ok_decrement drop_everywhere_closing)
next
  case (7 r k key' c)
  then show ?case by (simp add: drop_everywhere_entry)
qed (auto dest: closing_ok_kind)

end
