(* ===== verification/RealtimeGuarantees.thy ===== *)
theory RealtimeGuarantees
  imports RegistryClosing
begin

text \<open>
  What the realtime registry guarantees: over every sequence of connects, disconnects and
  revocations its books stay exact and within the limits, a revocation closes exactly the
  connections it names, and a message reaches exactly the connections of its addressee. User
  and tenant ids are UUIDs in the deployed system; what the keys rely on is stated as
  \<open>valid_id\<close>: no colon, and no tenant called \<open>single\<close>.
\<close>

definition valid_id :: "string \<Rightarrow> bool" where
  "valid_id s \<longleftrightarrow> CHR '':'' \<notin> set s"

definition valid_tenant :: "string option \<Rightarrow> bool" where
  "valid_tenant t \<longleftrightarrow> (case t of None \<Rightarrow> True | Some s \<Rightarrow> valid_id s \<and> s \<noteq> ''single'')"

definition owner_ok :: "ownership \<Rightarrow> bool" where
  "owner_ok owner \<longleftrightarrow> (\<forall>c. valid_id (fst (owner c)) \<and> valid_tenant (snd (owner c)))"

section \<open>Keys\<close>

lemma colon_split:
  "CHR '':'' \<notin> set u \<Longrightarrow> CHR '':'' \<notin> set u' \<Longrightarrow> a @ CHR '':'' # u = b @ CHR '':'' # u' \<longleftrightarrow> a = b \<and> u = u'"
  by (auto simp: append_eq_append_conv2 Cons_eq_append_conv append_eq_Cons_conv)

lemma colon_split_left:
  "CHR '':'' \<notin> set a \<Longrightarrow> CHR '':'' \<notin> set b \<Longrightarrow> a @ CHR '':'' # u = b @ CHR '':'' # u' \<longleftrightarrow> a = b \<and> u = u'"
  by (auto simp: append_eq_append_conv2 Cons_eq_append_conv append_eq_Cons_conv)

lemma connectionKey_inj:
  assumes "valid_id u" "valid_id u'" "valid_tenant t" "valid_tenant t'"
  shows "connectionKey u t = connectionKey u' t' \<longleftrightarrow> u = u' \<and> t = t'"
  using assms colon_split [of u u']
  by (auto simp: connectionKey_def valid_id_def valid_tenant_def split: option.splits)

lemma connectionKey_ends:
  assumes "valid_id u" "valid_id u'"
  shows "ends_with (connectionKey u t) (CHR '':'' # u') \<longleftrightarrow> u = u'"
proof
  assume "ends_with (connectionKey u t) (CHR '':'' # u')"
  then obtain p where "connectionKey u t = p @ CHR '':'' # u'" by (auto simp: ends_with_iff)
  with assms colon_split [of u u'] show "u = u'"
    by (auto simp: connectionKey_def valid_id_def)
qed (auto simp: connectionKey_def ends_with_iff)

lemma connectionKey_starts:
  assumes "valid_tenant t" "valid_tenant (Some t')"
  shows "starts_with (connectionKey u t) (t' @ '':'') \<longleftrightarrow> t = Some t'"
proof
  assume "starts_with (connectionKey u t) (t' @ '':'')"
  then obtain p where "connectionKey u t = t' @ CHR '':'' # p" by (auto simp: starts_with_iff)
  with assms show "t = Some t'"
    using colon_split_left [of "''single''" t' u p] colon_split_left [of "the t" t' u p]
    by (auto simp: connectionKey_def valid_tenant_def valid_id_def split: option.splits)
qed (auto simp: connectionKey_def starts_with_iff)

lemma owner_keys:
  assumes "owner_ok owner" and "valid_id u" and "valid_tenant t"
  shows "connectionKey u t \<in> keys_of owner c \<longleftrightarrow>
         (if t = None then fst (owner c) = u else owner c = (u, t))"
proof -
  obtain a b where o: "owner c = (a, b)" by fastforce
  have va: "valid_id a" "valid_tenant b"
    using assms(1) o unfolding owner_ok_def by (metis fst_conv, metis snd_conv)
  have n: "valid_tenant None" by (simp add: valid_tenant_def)
  have "connectionKey u t = connectionKey a b \<longleftrightarrow> u = a \<and> t = b"
    using connectionKey_inj [OF assms(2) va(1) assms(3) va(2)] .
  moreover have "connectionKey u t = connectionKey a None \<longleftrightarrow> u = a \<and> t = None"
    using connectionKey_inj [OF assms(2) va(1) assms(3) n] .
  ultimately show ?thesis by (auto simp: keys_of_def o)
qed

section \<open>Closing restores the invariant\<close>

text \<open>
  The one argument behind the three revocations: if the loops closed the counted connections
  with \<open>P\<close>, the deleted keys \<open>K\<close> belong to such connections only and no such connection is
  left at another key, then the books are exact again once the gauges are corrected.
\<close>

definition owned :: "ownership \<Rightarrow> (string \<times> string option \<Rightarrow> bool) \<Rightarrow> registry \<Rightarrow> conn set" where
  "owned owner P r = {c \<in> set (rg_counted r). P (owner c)}"

definition owned_of_kind ::
  "ownership \<Rightarrow> (string \<times> string option \<Rightarrow> bool) \<Rightarrow> kind \<Rightarrow> registry \<Rightarrow> conn set" where
  "owned_of_kind owner P k r = {c \<in> owned owner P r. kind_of c = k}"

lemma owned_kinds: "owned_of_kind owner P KWs r \<union> owned_of_kind owner P KSse r = owned owner P r"
  using kind.exhaust by (auto simp: owned_of_kind_def)

lemma hits_owned:
  "hits (owned_of_kind owner P k r) r =
     length (filter (\<lambda>c. kind_of c = k) (rg_counted r)) -
     length (filter (\<lambda>c. kind_of c = k) (filter (\<lambda>c. c \<notin> owned owner P r) (rg_counted r)))"
proof -
  let ?xs = "rg_counted r"
  have "length (filter (\<lambda>c. c \<in> owned_of_kind owner P k r) ys) +
        length (filter (\<lambda>c. kind_of c = k) (filter (\<lambda>c. c \<notin> owned owner P r) ys)) =
        length (filter (\<lambda>c. kind_of c = k) ys)" if "set ys \<subseteq> set ?xs" for ys
    using that by (induction ys) (auto simp: owned_of_kind_def)
  from this [of ?xs] show ?thesis by (simp add: hits_def)
qed

lemma recordClosed_frame [simp]:
  "rg_counted (recordClosed ab r) = rg_counted r"
  "entry k key (recordClosed ab r) = entry k key r"
  "counters_ok owner (recordClosed ab r) = counters_ok owner r"
  "limits_ok (recordClosed ab r) = limits_ok r"
  "maps_ok X (recordClosed ab r) = maps_ok X r"
  by (simp_all add: recordClosed_def Let_def)

lemma recordClosed_gauge:
  "rg_gauge (recordClosed (a, b) r) k = rg_gauge r k - (case k of KWs \<Rightarrow> int a | KSse \<Rightarrow> int b)"
  by (cases k) (auto simp: recordClosed_def Let_def)

lemma closing_restores:
  assumes inv: "reg_inv owner r"
    and ok: "closing_ok owner {} r'"
    and closed: "closed_all D (owned owner P r) K r r'"
    and deleted: "\<And>k key c. (k, key) \<in> K \<Longrightarrow> key \<in> keys_of owner c \<Longrightarrow> P (owner c)"
    and elsewhere: "\<And>k key c. (k, key) \<notin> K \<Longrightarrow> key \<notin> D \<Longrightarrow> key \<in> keys_of owner c \<Longrightarrow> \<not> P (owner c)"
    and a: "a = hits (owned_of_kind owner P KWs r) r" and b: "b = hits (owned_of_kind owner P KSse r) r"
  shows "reg_inv owner (recordClosed (a, b) r')"
proof -
  have pl: "placed owner r" and ga: "gauges_ok r" using inv by (auto simp: reg_inv_def)
  have cnt: "rg_counted r' = filter (\<lambda>c. c \<notin> owned owner P r) (rg_counted r)"
    and gauge: "rg_gauge r' = rg_gauge r" using closed by (auto simp: closed_all_def)
  have "set (entry k key r') = {c \<in> set (rg_counted r'). kind_of c = k \<and> key \<in> keys_of owner c}" for k key
  proof -
    have "set (entry k key r) = {c \<in> set (rg_counted r). kind_of c = k \<and> key \<in> keys_of owner c}"
      using pl by (simp add: placed_def)
    moreover have "set (entry k key r') =
        (if (k, key) \<in> K then {} else set (entry k key r) - (if key \<in> D then owned owner P r else {}))"
      using closed by (simp add: closed_all_def)
    ultimately show ?thesis
      using deleted [of k key] elsewhere [of k key] by (auto simp: cnt owned_def)
  qed
  moreover have "gauges_ok (recordClosed (a, b) r')"
    unfolding gauges_ok_def
  proof
    fix k
    have le: "length (filter (\<lambda>c. kind_of c = k) (filter Q xs)) \<le> length (filter (\<lambda>c. kind_of c = k) xs)"
      for Q and xs :: "conn list" by (induction xs) auto
    have "rg_gauge r k = int (length (filter (\<lambda>c. kind_of c = k) (rg_counted r)))"
      using ga by (simp add: gauges_ok_def)
    moreover have "(case k of KWs \<Rightarrow> int a | KSse \<Rightarrow> int b) = int (hits (owned_of_kind owner P k r) r)"
      by (cases k) (simp_all add: a b)
    ultimately show "rg_gauge (recordClosed (a, b) r') k =
        int (length (filter (\<lambda>c. kind_of c = k) (rg_counted (recordClosed (a, b) r'))))"
      using le [of _ "rg_counted r"] by (simp add: recordClosed_gauge gauge hits_owned cnt of_nat_diff)
  qed
  ultimately show ?thesis
    using ok by (simp add: reg_inv_def closing_ok_def placed_def)
qed

lemma hits_total:
  "hits (owned_of_kind owner P KWs r) r + hits (owned_of_kind owner P KSse r) r =
     length (filter (\<lambda>c. P (owner c)) (rg_counted r))"
proof -
  have "length (filter (\<lambda>c. c \<in> owned_of_kind owner P KWs r) ys) +
        length (filter (\<lambda>c. c \<in> owned_of_kind owner P KSse r) ys) =
        length (filter (\<lambda>c. P (owner c)) ys)" if "set ys \<subseteq> set (rg_counted r)" for ys
    using that kind.exhaust by (induction ys) (auto simp: owned_of_kind_def owned_def)
  from this [of "rg_counted r"] show ?thesis by (simp add: hits_def)
qed

lemma owned_filter:
  "filter (\<lambda>c. c \<notin> owned owner P r) (rg_counted r) = filter (\<lambda>c. \<not> P (owner c)) (rg_counted r)"
  by (rule filter_cong) (auto simp: owned_def)

lemma reg_inv_closing: "reg_inv owner r \<Longrightarrow> closing_ok owner {} r"
  by (simp add: reg_inv_def closing_ok_def)

lemma placed_members:
  assumes "placed owner r" and "\<And>c. (\<exists>key\<in>keys_of owner c. pred key) \<longleftrightarrow> P (owner c)"
  shows "(\<Union>key\<in>{key. pred key}. set (entry k key r)) = owned_of_kind owner P k r"
  using assms by (auto simp: placed_def owned_of_kind_def owned_def simp flip: assms(2))

lemma nested_pair:
  obtains a b c where "x = ((a, b), c)"
  by (metis surj_pair)

section \<open>The three revocations\<close>

text \<open>What a revocation of the connections with \<open>P\<close> returns and leaves.\<close>

definition revokes ::
  "ownership \<Rightarrow> (string \<times> string option \<Rightarrow> bool) \<Rightarrow> registry \<Rightarrow> nat \<times> registry \<Rightarrow> bool" where
  "revokes owner P r res \<longleftrightarrow>
     reg_inv owner (snd res) \<and>
     rg_counted (snd res) = filter (\<lambda>c. \<not> P (owner c)) (rg_counted r) \<and>
     fst res = length (filter (\<lambda>c. P (owner c)) (rg_counted r))"

lemma revokesI:
  assumes "closed_all D (owned owner P r) K r r'" and "reg_inv owner (recordClosed (a, b) r')"
    and "a = hits (owned_of_kind owner P KWs r) r" and "b = hits (owned_of_kind owner P KSse r) r"
  shows "revokes owner P r (a + b, recordClosed (a, b) r')"
  using assms by (simp add: revokes_def closed_all_def owned_filter hits_total)

lemma disconnectUser_revokes:
  assumes inv: "reg_inv owner r" and own: "owner_ok owner" and u: "valid_id u"
  shows "revokes owner (\<lambda>o'. fst o' = u) r (disconnectUser (\<lambda>_. False) u r)"
proof -
  let ?pred = "\<lambda>key. ends_with key (CHR '':'' # u)" and ?P = "\<lambda>o'::string \<times> string option. fst o' = u"
  obtain a b r' where res: "closeMatchingConnections (\<lambda>_. False) ?pred ''4001 Session invalidated''
      (\<lambda>item. decrementCounters item None) r = ((a, b), r')" by (rule nested_pair)
  have key: "key \<in> keys_of owner c \<Longrightarrow> ?pred key \<longleftrightarrow> fst (owner c) = u" for key c
    using own u connectionKey_ends by (auto simp: keys_of_def owner_ok_def)
  have "(\<exists>key\<in>keys_of owner c. ?pred key) \<longleftrightarrow> ?P (owner c)" for c
    using key [of _ c] by (auto simp: keys_of_def)
  then have mem: "(\<Union>key\<in>{key. ?pred key}. set (entry k key r)) = owned_of_kind owner ?P k r" for k
    using inv by (intro placed_members) (auto simp: reg_inv_def)
  have main: "closing_ok owner {} r' \<and>
      closed_all {} (owned owner ?P r) {(k, key). ?pred key} r r' \<and>
      a = hits (owned_of_kind owner ?P KWs r) r \<and> b = hits (owned_of_kind owner ?P KSse r) r"
    using user_close.matching_closed [OF reg_inv_closing [OF inv] _ res]
    by (simp add: user_close.members_at_def mem owned_kinds)
  have "reg_inv owner (recordClosed (a, b) r')"
    by (rule closing_restores [OF inv, of r' "{}" ?P "{(k, key). ?pred key}"]) (use main key in auto)
  then have "revokes owner ?P r (a + b, recordClosed (a, b) r')"
    using main by (intro revokesI) auto
  then show ?thesis using res by (simp add: disconnectUser_def)
qed

lemma disconnectTenant_revokes:
  assumes inv: "reg_inv owner r" and own: "owner_ok owner" and t: "valid_tenant (Some t)"
  shows "revokes owner (\<lambda>o'. snd o' = Some t) r (disconnectTenant (\<lambda>_. False) t r)"
proof -
  let ?pred = "\<lambda>key. starts_with key (t @ '':'')" and ?P = "\<lambda>o'::string \<times> string option. snd o' = Some t"
  obtain a b r' where res: "closeMatchingConnections (\<lambda>_. False) ?pred ''4004 Organization purged''
      (\<lambda>item r. decrementCounters item (Some t) (drop_everywhere item r)) r = ((a, b), r')"
    by (rule nested_pair)
  have none: "valid_tenant None" by (simp add: valid_tenant_def)
  have key: "?pred (connectionKey (fst (owner c)) (snd (owner c))) \<longleftrightarrow> ?P (owner c)"
    "\<not> ?pred (connectionKey (fst (owner c)) None)" for c
    using own connectionKey_starts [OF _ t] none by (auto simp: owner_ok_def)
  have "(\<exists>key\<in>keys_of owner c. ?pred key) \<longleftrightarrow> ?P (owner c)" for c
    using key [of c] by (auto simp: keys_of_def)
  then have mem: "(\<Union>key\<in>{key. ?pred key}. set (entry k key r)) = owned_of_kind owner ?P k r" for k
    using inv by (intro placed_members) (auto simp: reg_inv_def)
  have Qs: "\<forall>s\<in>(\<Union>key\<in>{key. ?pred key}. set (entry k key r)). snd (owner s) = Some t" for k
    unfolding mem by (simp add: owned_of_kind_def owned_def)
  have main: "closing_ok owner {} r' \<and>
      closed_all UNIV (owned owner ?P r) {(k, key). ?pred key} r r' \<and>
      a = hits (owned_of_kind owner ?P KWs r) r \<and> b = hits (owned_of_kind owner ?P KSse r) r"
    using tenant_close.matching_closed [OF reg_inv_closing [OF inv] _ res] Qs
    by (simp add: tenant_close.members_at_def mem owned_kinds)
  have "reg_inv owner (recordClosed (a, b) r')"
    by (rule closing_restores [OF inv, of r' UNIV ?P "{(k, key). ?pred key}"])
       (use main key in \<open>auto simp: keys_of_def\<close>)
  then have "revokes owner ?P r (a + b, recordClosed (a, b) r')"
    using main by (intro revokesI) auto
  then show ?thesis using res by (simp add: disconnectTenant_def)
qed

lemma drop_if_empty_frame [simp]:
  "entry k key (drop_if_empty k' key' r) = entry k key r"
  "rg_counted (drop_if_empty k' key' r) = rg_counted r" "rg_gauge (drop_if_empty k' key' r) = rg_gauge r"
  "counters_ok owner (drop_if_empty k' key' r) = counters_ok owner r"
  "limits_ok (drop_if_empty k' key' r) = limits_ok r"
  by (auto simp: drop_if_empty_def entry_def jmap_laws split: option.split list.split)

lemma drop_if_empty_get:
  "jm_get (rg_clients k (drop_if_empty k' key' r)) key =
     (if k = k' \<and> key = key' \<and> jm_get (rg_clients k r) key = Some [] then None
      else jm_get (rg_clients k r) key)"
  by (auto simp: drop_if_empty_def jmap_laws split: option.split list.split)

lemma drop_if_empty_ok: "jm_ok (rg_clients k r) \<Longrightarrow> jm_ok (rg_clients k (drop_if_empty k' key' r))"
  by (auto simp: drop_if_empty_def split: option.split list.split)

lemma drop_if_empty_closing:
  assumes "closing_ok owner {key} r"
  shows "closing_ok owner {} (drop_if_empty KSse key (drop_if_empty KWs key r))"
proof -
  let ?r = "drop_if_empty KSse key (drop_if_empty KWs key r)"
  have m: "maps_ok {key} r" using assms by (simp add: closing_ok_def)
  have "jm_get (rg_clients k ?r) key' \<noteq> Some []" for k key'
    using m by (cases k) (auto simp: drop_if_empty_get maps_ok_def)
  moreover have "jm_ok (rg_clients k ?r)" for k
    using m by (simp add: drop_if_empty_ok maps_ok_def)
  ultimately have "maps_ok {} ?r"
    using m by (simp add: maps_ok_def)
  with assms show ?thesis by (simp add: closing_ok_def)
qed

lemma maps_ok_mono: "maps_ok {} r \<Longrightarrow> maps_ok X r"
  by (simp add: maps_ok_def)

lemma disconnectTenantUser_revokes:
  assumes inv: "reg_inv owner r" and own: "owner_ok owner"
    and u: "valid_id u" and t: "valid_tenant (Some t)"
  shows "revokes owner (\<lambda>o'. o' = (u, Some t)) r (disconnectTenantUser (\<lambda>_. False) t u r)"
proof -
  let ?key = "connectionKey u (Some t)" and ?aka = "connectionKey u None"
  let ?P = "\<lambda>o'. o' = (u, Some t)"
  have none: "valid_tenant None" by (simp add: valid_tenant_def)
  have pl: "placed owner r" using inv by (simp add: reg_inv_def)
  obtain a b r1 where res: "closeKeyConnections (\<lambda>_. False) ?key ''4003 Membership revoked''
      (\<lambda>item r. decrementCounters item (Some t) (delete_in_set ?aka item r)) r = ((a, b), r1)"
    by (rule nested_pair)
  let ?r' = "drop_if_empty KSse ?aka (drop_if_empty KWs ?aka r1)"
  have key: "?key \<in> keys_of owner c \<longleftrightarrow> ?P (owner c)" and both: "?P (owner c) \<Longrightarrow> keys_of owner c = {?key, ?aka}"
    for c using owner_keys [OF own u t] by (auto simp: keys_of_def)
  have mem: "set (entry k ?key r) = owned_of_kind owner ?P k r" for k
    using pl by (auto simp: placed_def owned_of_kind_def owned_def key)
  have "closing_ok owner {?aka} r"
    using inv by (simp add: reg_inv_def closing_ok_def maps_ok_mono)
  then have c: "closing_ok owner {?aka} r1 \<and>
      closed_all {?aka} (owned owner ?P r) {(k, key'). key' = ?key} r r1 \<and>
      a = hits (owned_of_kind owner ?P KWs r) r \<and> b = hits (owned_of_kind owner ?P KSse r) r"
    using member_close.key_closed [OF _ _ res]
    by (simp add: mem owned_kinds) (simp add: owned_of_kind_def owned_def)
  then have main: "closing_ok owner {} ?r'"
    "closed_all {?aka} (owned owner ?P r) {(k, key'). key' = ?key} r ?r'"
    by (auto simp: drop_if_empty_closing closed_all_def)
  have "reg_inv owner (recordClosed (a, b) ?r')"
    by (rule closing_restores [OF inv main(1) main(2)]) (use c key both in auto)
  then have "revokes owner ?P r (a + b, recordClosed (a, b) ?r')"
    using main c by (intro revokesI) auto
  then show ?thesis using res by (simp add: disconnectTenantUser_def Let_def)
qed

section \<open>Sequences of operations\<close>

datatype rt_op =
    Connect conn
  | Disconnect conn "string option" int
  | RevokeUser string
  | RevokeMember string string
  | RevokeTenant string

fun rt_step :: "ownership \<Rightarrow> rt_op \<Rightarrow> registry \<Rightarrow> registry" where
  "rt_step owner (Connect c) r = snd (service_add (fst (owner c)) (snd (owner c)) c r)"
| "rt_step owner (Disconnect c reason q) r = service_remove (fst (owner c)) (snd (owner c)) c reason q r"
| "rt_step owner (RevokeUser u) r = snd (disconnectUser (\<lambda>_. False) u r)"
| "rt_step owner (RevokeMember t u) r = snd (disconnectTenantUser (\<lambda>_. False) t u r)"
| "rt_step owner (RevokeTenant t) r = snd (disconnectTenant (\<lambda>_. False) t r)"

fun op_ok :: "rt_op \<Rightarrow> bool" where
  "op_ok (RevokeUser u) = valid_id u"
| "op_ok (RevokeMember t u) = (valid_id u \<and> valid_tenant (Some t))"
| "op_ok (RevokeTenant t) = valid_tenant (Some t)"
| "op_ok _ = True"

definition rt_run :: "ownership \<Rightarrow> rt_op list \<Rightarrow> registry" where
  "rt_run owner ops = fold (rt_step owner) ops rg_new"

lemma rt_step_inv:
  assumes "reg_inv owner r" and "owner_ok owner" and "op_ok op"
  shows "reg_inv owner (rt_step owner op r)"
proof (cases op)
  case (Connect c)
  then show ?thesis using service_add_inv [OF assms(1), of c "fst (owner c)" "snd (owner c)"] by simp
next
  case (Disconnect c reason q)
  then show ?thesis
    using service_remove_inv [OF assms(1), of c "fst (owner c)" "snd (owner c)" reason q] by simp
next
  case (RevokeUser u)
  then show ?thesis using disconnectUser_revokes [OF assms(1,2)] assms(3) by (simp add: revokes_def)
next
  case (RevokeMember t u)
  then show ?thesis using disconnectTenantUser_revokes [OF assms(1,2)] assms(3) by (simp add: revokes_def)
next
  case (RevokeTenant t)
  then show ?thesis using disconnectTenant_revokes [OF assms(1,2)] assms(3) by (simp add: revokes_def)
qed

lemma rt_run_inv:
  assumes "owner_ok owner" and "list_all op_ok ops"
  shows "reg_inv owner (rt_run owner ops)"
proof -
  have "reg_inv owner r \<Longrightarrow> list_all op_ok ops \<Longrightarrow> reg_inv owner (fold (rt_step owner) ops r)" for r
    by (induction ops arbitrary: r) (auto intro: rt_step_inv [OF _ assms(1)])
  then show ?thesis using assms(2) reg_inv_new by (simp add: rt_run_def)
qed

section \<open>Dispatch\<close>

definition writable :: "transport \<Rightarrow> conn \<Rightarrow> bool" where
  "writable tr c \<longleftrightarrow> isSseClient c \<or> (ready tr c \<and> buffered tr c \<le> WS_SEND_HIGH_WATERMARK_BYTES)"

lemma dispatch_ws_filter:
  "fst (dispatch_ws tr ss) = filter (\<lambda>s. ready tr s \<and> buffered tr s \<le> WS_SEND_HIGH_WATERMARK_BYTES) ss"
  by (induction ss) (auto split: prod.splits)

lemma dispatch_sse_all: "fst (dispatch_sse tr cs) = cs"
  by (induction cs) (auto split: prod.splits)

lemma dispatchToConnection_entries:
  "fst (dispatchToConnection tr key r) =
     filter (\<lambda>s. ready tr s \<and> buffered tr s \<le> WS_SEND_HIGH_WATERMARK_BYTES) (entry KWs key r) @ entry KSse key r"
  using dispatch_ws_filter [of tr "entry KWs key r"] dispatch_sse_all [of tr "entry KSse key r"]
  by (auto simp: dispatchToConnection_def entry_def rg_clients_def split: prod.split)

lemma send_once_set: "set (send_once ok ss sent) = set sent \<union> {s \<in> set ss. ok s}"
  by (induction ss arbitrary: sent) auto

lemma send_once_distinct: "distinct sent \<Longrightarrow> distinct (send_once ok ss sent)"
  by (induction ss arbitrary: sent) (auto simp: js_add_def)

lemma all_entries: "jm_ok (rg_clients k r) \<Longrightarrow>
   set (concat (map snd (rg_clients k r))) = (\<Union>key. set (entry k key r))"
proof -
  assume ok: "jm_ok (rg_clients k r)"
  have "c \<in> set (concat (map snd (rg_clients k r))) \<longleftrightarrow>
      (\<exists>key cs. (key, cs) \<in> set (rg_clients k r) \<and> c \<in> set cs)" for c by force
  also have "\<dots> c \<longleftrightarrow> (\<exists>key. c \<in> set (entry k key r))" for c
    by (auto simp: entry_def eq_commute [of "Some _"] split: option.splits simp flip: jm_get_iff_in_set [OF ok])
  finally show ?thesis by blast
qed

lemma dispatch_entries:
  assumes "placed owner r"
  shows "c \<in> set (fst (dispatchToConnection tr key r)) \<longleftrightarrow>
     c \<in> set (rg_counted r) \<and> key \<in> keys_of owner c \<and> writable tr c"
  using assms kind.exhaust [of "kind_of c"]
  by (auto simp: dispatchToConnection_entries placed_def writable_def isSseClient_def)

lemma dispatch_distinct: "maps_ok X r \<Longrightarrow> distinct (fst (dispatchToConnection tr key r))"
proof -
  assume m: "maps_ok X r"
  then have "c \<in> set (entry KWs key r) \<Longrightarrow> c \<notin> set (entry KSse key r)" for c
    by (metis kind.distinct(1) maps_ok_kind)
  then show ?thesis
    using maps_ok_distinct [OF m] by (auto simp: dispatchToConnection_entries)
qed

lemma everyone_reached:
  assumes "reg_inv owner r"
  shows "distinct (dispatchToEveryConnection tr r)"
    and "set (dispatchToEveryConnection tr r) = {c \<in> set (rg_counted r). writable tr c}"
proof -
  have m: "maps_ok {} r" and pl: "placed owner r" using assms by (auto simp: reg_inv_def)
  have "set (concat (map snd (rg_clients k r))) = {c \<in> set (rg_counted r). kind_of c = k}" for k
    using m pl by (subst all_entries) (auto simp: maps_ok_def placed_def keys_of_def)
  from this [of KWs] this [of KSse]
  have ws: "set (concat (map snd (rg_ws r))) = {c \<in> set (rg_counted r). kind_of c = KWs}"
    and sse: "set (concat (map snd (rg_sse r))) = {c \<in> set (rg_counted r). kind_of c = KSse}"
    by (simp_all add: rg_clients_def)
  show "distinct (dispatchToEveryConnection tr r)"
    unfolding dispatchToEveryConnection_def distinct_append send_once_set ws sse
    by (auto simp: send_once_distinct)
  show "set (dispatchToEveryConnection tr r) = {c \<in> set (rg_counted r). writable tr c}"
    unfolding dispatchToEveryConnection_def set_append send_once_set ws sse
    using kind.exhaust by (auto simp: writable_def isSseClient_def)
qed

section \<open>Guarantees\<close>

text \<open>
  C15. After every sequence of connects, disconnects and revocations the registry's books are
  exact: the process total is the number of counted connections and at most 5000, a tenant's
  count is the number of its connections and at most 500, the two gauges are the numbers of
  WebSockets and SSE streams, and each map holds a connection under its tenant key and its
  tenant-less key and nowhere else.
\<close>

theorem realtime_books_exact:
  assumes "owner_ok owner" and "list_all op_ok ops"
  shows "let r = rt_run owner ops in
    rg_total r = length (rg_counted r) \<and> rg_total r \<le> 5000 \<and>
    (\<forall>t. t = [] \<or> (getTenantConnectionCount t r = length (filter (\<lambda>c. snd (owner c) = Some t) (rg_counted r)) \<and>
                   getTenantConnectionCount t r \<le> 500)) \<and>
    (\<forall>k. rg_gauge r k = int (length (filter (\<lambda>c. kind_of c = k) (rg_counted r)))) \<and>
    (\<forall>k key c. c \<in> set (entry k key r) \<longleftrightarrow>
       c \<in> set (rg_counted r) \<and> kind_of c = k \<and> key \<in> keys_of owner c)"
proof -
  have inv: "reg_inv owner (rt_run owner ops)" using rt_run_inv [OF assms] .
  have "t = [] \<or> count_of (rg_tenants (rt_run owner ops)) t =
      length (filter (\<lambda>c. snd (owner c) = Some t) (rg_counted (rt_run owner ops)))" for t
    using inv by (simp add: reg_inv_def counters_ok_def)
  moreover have "count_of (rg_tenants (rt_run owner ops)) t \<le> 500" for t
    using inv by (simp add: reg_inv_def limits_ok_def MAX_CONNECTIONS_PER_TENANT_def)
  ultimately show ?thesis
    using inv unfolding Let_def getTenantConnectionCount_def
    by (simp add: reg_inv_def counters_ok_def limits_ok_def gauges_ok_def placed_def
        MAX_PROCESS_CONNECTIONS_def)
qed

theorem realtime_books_exact_witness:
  "rg_total (rt_run (\<lambda>c. (''u'', Some ''t'')) [Connect (Ws 5), Connect (Sse 7), Disconnect (Ws 5) None 0]) \<le> 5000 \<and>
   rg_counted (rt_run (\<lambda>c. (''u'', Some ''t'')) [Connect (Ws 5), Connect (Sse 7), Disconnect (Ws 5) None 0]) = [Sse 7]"
proof
  show "rg_counted (rt_run (\<lambda>c. (''u'', Some ''t''))
      [Connect (Ws 5), Connect (Sse 7), Disconnect (Ws 5) None 0]) = [Sse 7]"
    by code_simp
  show "rg_total (rt_run (\<lambda>c. (''u'', Some ''t''))
      [Connect (Ws 5), Connect (Sse 7), Disconnect (Ws 5) None 0]) \<le> 5000"
    using realtime_books_exact [of "\<lambda>c. (''u'', Some ''t'')" "[Connect (Ws 5), Connect (Sse 7), Disconnect (Ws 5) None 0]"]
    by (simp add: Let_def owner_ok_def valid_id_def valid_tenant_def)
qed


definition example_owner :: ownership where
  "example_owner c = (case c of Ws n \<Rightarrow> (''u'', Some ''t'') | Sse n \<Rightarrow> (''v'', Some ''t''))"

lemma example_owner_ok: "owner_ok example_owner"
  by (simp add: owner_ok_def example_owner_def valid_id_def valid_tenant_def split: conn.split)

lemma example_counted: "rg_counted (rt_run example_owner [Connect (Ws 5), Connect (Sse 7)]) = [Ws 5, Sse 7]"
  by code_simp


text \<open>
  C31. In every reachable state a message for a user in a tenant is written to exactly the
  writable connections that this user opened in this tenant, each once; a message for a user
  without a tenant to the user's connections in all tenants; and a broadcast to each writable
  connection once, although a tenant connection is registered under two keys.
\<close>

theorem dispatch_exact:
  assumes "owner_ok owner" and "list_all op_ok ops" and "valid_id u" and "valid_tenant t"
  shows "let r = rt_run owner ops; sent = fst (dispatchToUser tr u t r) in
    distinct sent \<and>
    set sent = {c \<in> set (rg_counted r). writable tr c \<and>
                  (if t = None then fst (owner c) = u else owner c = (u, t))} \<and>
    distinct (dispatchToEveryConnection tr r) \<and>
    set (dispatchToEveryConnection tr r) = {c \<in> set (rg_counted r). writable tr c}"
proof -
  have inv: "reg_inv owner (rt_run owner ops)" using rt_run_inv [OF assms(1,2)] .
  then have "maps_ok {} (rt_run owner ops)" and pl: "placed owner (rt_run owner ops)"
    by (auto simp: reg_inv_def)
  moreover have "set (fst (dispatchToUser tr u t (rt_run owner ops))) =
      {c \<in> set (rg_counted (rt_run owner ops)). writable tr c \<and>
         (if t = None then fst (owner c) = u else owner c = (u, t))}"
    unfolding set_eq_iff dispatchToUser_def dispatch_entries [OF pl] owner_keys [OF assms(1,3,4)] by blast
  ultimately show ?thesis
    using everyone_reached [OF inv] by (simp only: Let_def dispatchToUser_def dispatch_distinct simp_thms)
qed

definition example_transport :: transport where
  "example_transport = \<lparr>ready = \<lambda>_. True, buffered = \<lambda>_. 0, accepts = \<lambda>_. True\<rparr>"

theorem dispatch_exact_witness:
  "set (fst (dispatchToUser example_transport ''u'' (Some ''t'')
     (rt_run example_owner [Connect (Ws 5), Connect (Sse 7)]))) = {Ws 5}"
  using dispatch_exact [OF example_owner_ok, of "[Connect (Ws 5), Connect (Sse 7)]" "''u''" "Some ''t''"
      example_transport]
  by (auto simp: Let_def valid_id_def valid_tenant_def example_counted writable_def example_transport_def
      example_owner_def isSseClient_def)

end
