(* ===== verification/RedisStore.thy ===== *)
theory RedisStore
  imports JsValue
begin

text \<open>
  Redis as the code sees it. The server is not part of the repository: its commands are a
  record of functions over an abstract server state, an argument of every definition that
  talks to it, and what the code relies on is the documented meaning of \<open>GET\<close>, \<open>SET\<close>,
  \<open>SET NX\<close>, \<open>DEL\<close> and \<open>PEXPIRE\<close>, stated by \<open>redis_ok\<close>. One command is atomic. A reply may get lost, with
  or without the command having run: \<open>link\<close>.

  A stored string is represented by the JSON value it parses to. The code stores what
  \<open>JSON.stringify\<close> printed, and of two such strings one compares exactly when the other
  does, since the order of an object's properties is part of the value.
\<close>

datatype stored = Json js | NotJson string

record 's redis =
  r_get :: "'s \<Rightarrow> string \<Rightarrow> stored option"
  r_set :: "'s \<Rightarrow> string \<Rightarrow> stored \<Rightarrow> nat \<Rightarrow> 's"
  r_setnx :: "'s \<Rightarrow> string \<Rightarrow> stored \<Rightarrow> nat \<Rightarrow> bool \<times> 's"
  r_del :: "'s \<Rightarrow> string \<Rightarrow> nat \<times> 's"
  r_pexpire :: "'s \<Rightarrow> string \<Rightarrow> nat \<Rightarrow> nat \<times> 's"

definition redis_ok :: "'s redis \<Rightarrow> bool" where
  "redis_ok R \<longleftrightarrow>
     (\<forall>s k v ttl k'. r_get R (r_set R s k v ttl) k' = (if k' = k then Some v else r_get R s k')) \<and>
     (\<forall>s k v ttl. fst (r_setnx R s k v ttl) = (r_get R s k = None)) \<and>
     (\<forall>s k v ttl k'. r_get R (snd (r_setnx R s k v ttl)) k' =
        (if k' = k \<and> r_get R s k = None then Some v else r_get R s k')) \<and>
     (\<forall>s k. fst (r_del R s k) = (if r_get R s k = None then 0 else 1)) \<and>
     (\<forall>s k k'. r_get R (snd (r_del R s k)) k' = (if k' = k then None else r_get R s k')) \<and>
     (\<forall>s k ttl. fst (r_pexpire R s k ttl) = (if r_get R s k = None then 0 else 1)) \<and>
     (\<forall>s k ttl k'. r_get R (snd (r_pexpire R s k ttl)) k' = r_get R s k')"

lemma redis_set: "redis_ok R \<Longrightarrow> r_get R (r_set R s k v ttl) k' = (if k' = k then Some v else r_get R s k')"
  by (simp add: redis_ok_def)

lemma redis_setnx:
  "redis_ok R \<Longrightarrow> fst (r_setnx R s k v ttl) = (r_get R s k = None)"
  "redis_ok R \<Longrightarrow> r_get R (snd (r_setnx R s k v ttl)) k' =
        (if k' = k \<and> r_get R s k = None then Some v else r_get R s k')"
  by (simp_all add: redis_ok_def)

lemma redis_del:
  "redis_ok R \<Longrightarrow> fst (r_del R s k) = (if r_get R s k = None then 0 else 1)"
  "redis_ok R \<Longrightarrow> r_get R (snd (r_del R s k)) k' = (if k' = k then None else r_get R s k')"
  by (simp_all add: redis_ok_def)

lemma redis_pexpire:
  "redis_ok R \<Longrightarrow> fst (r_pexpire R s k ttl) = (if r_get R s k = None then 0 else 1)"
  "redis_ok R \<Longrightarrow> r_get R (snd (r_pexpire R s k ttl)) k' = r_get R s k'"
  by (simp_all add: redis_ok_def)

lemma setnx_result:
  "redis_ok R \<Longrightarrow> r_setnx R s k v ttl = (b, s') \<Longrightarrow>
     (b \<longleftrightarrow> r_get R s k = None) \<and>
     (\<forall>k'. r_get R s' k' = (if k' = k \<and> r_get R s k = None then Some v else r_get R s k'))"
  using redis_setnx [of R s k v ttl] by auto

lemma del_result:
  "redis_ok R \<Longrightarrow> r_del R s k = (n, s') \<Longrightarrow>
     n = (if r_get R s k = None then 0 else 1) \<and>
     (\<forall>k'. r_get R s' k' = (if k' = k then None else r_get R s k'))"
  using redis_del [of R s k] by auto

lemmas redis_laws = redis_set redis_setnx redis_del redis_pexpire

text \<open>One round trip: the reply arrives, the command never ran, or only its reply was lost.\<close>

datatype link = Up | Down | ReplyLost

definition call :: "link \<Rightarrow> ('s \<Rightarrow> 'r \<times> 's) \<Rightarrow> 's \<Rightarrow> 'r option \<times> 's" where
  "call l f s =
    (case l of
       Up \<Rightarrow> (case f s of (r, s') \<Rightarrow> (Some r, s'))
     | Down \<Rightarrow> (None, s)
     | ReplyLost \<Rightarrow> (None, snd (f s)))"

lemma call_state: "snd (call l f s) = s \<or> snd (call l f s) = snd (f s)"
  by (cases l) (auto simp: call_def split: prod.split)

lemma call_reply: "fst (call l f s) = Some r \<Longrightarrow> l = Up \<and> fst (f s) = r \<and> snd (call l f s) = snd (f s)"
  by (cases l) (auto simp: call_def split: prod.splits)

text \<open>A server that keeps its keys in a map and forgets the expiry times, for examples.\<close>

definition map_redis :: "(string, stored) jmap redis" where
  "map_redis = \<lparr>r_get = jm_get, r_set = (\<lambda>s k v ttl. jm_set k v s),
     r_setnx = (\<lambda>s k v ttl. if jm_has s k then (False, s) else (True, jm_set k v s)),
     r_del = (\<lambda>s k. (if jm_has s k then 1 else 0, jm_delete k s)),
     r_pexpire = (\<lambda>s k ttl. (if jm_has s k then 1 else 0, s))\<rparr>"

lemma map_redis_ok: "redis_ok map_redis"
  by (auto simp: redis_ok_def map_redis_def jmap_laws jm_has_def)

end
