(* ===== verification/Idempotency.thy ===== *)
theory Idempotency
  imports RedisStore
begin

text \<open>
  The idempotency layer of the API: \<open>common/utils/idempotency.utils.ts\<close> (fingerprints and the
  three Lua scripts), \<open>idempotency-record.utils.ts\<close> (parsing and matching stored records),
  \<open>idempotency.store.ts\<close> (claiming a key, storing a response, releasing the key) and
  \<open>common/interceptors/idempotency.interceptor.ts\<close>. SHA-256 and the random claim id are
  arguments. The asynchronous code is cut at its awaits: each step issues one Redis command.
\<close>

section \<open>Fingerprints\<close>

text \<open>The properties of an object in the order of \<open>Object.keys(value).sort()\<close>.\<close>

fun str_le :: "string \<Rightarrow> string \<Rightarrow> bool" where
  "str_le [] t = True"
| "str_le (c # s) [] = False"
| "str_le (c # s) (d # t) = ((of_char c :: nat) < of_char d \<or> (c = d \<and> str_le s t))"

fun insert_field :: "string \<times> js \<Rightarrow> (string \<times> js) list \<Rightarrow> (string \<times> js) list" where
  "insert_field f [] = [f]"
| "insert_field f (g # gs) = (if str_le (fst f) (fst g) then f # g # gs else g # insert_field f gs)"

fun sort_fields :: "(string \<times> js) list \<Rightarrow> (string \<times> js) list" where
  "sort_fields [] = []"
| "sort_fields (f # fs) = insert_field f (sort_fields fs)"

fun js_normalize :: "js \<Rightarrow> js" where
  "js_normalize (JArr vs) = JArr (map js_normalize vs)"
| "js_normalize (JObj fs) = JObj (sort_fields (map (\<lambda>(k, v). (k, js_normalize v)) fs))"
| "js_normalize v = nullish v JNull"

record fingerprint =
  claimId :: string
  digest :: string
  fp_method :: string
  fp_route :: string
  fp_path :: string
  queryHash :: string
  bodyHash :: string

record http_request =
  hr_method :: "string option"
  hr_route :: "string option"
  hr_url :: "string option"
  hr_query :: js
  hr_body :: js

fun to_upper_char :: "char \<Rightarrow> char" where
  "to_upper_char c =
     (let n = of_char c :: nat in if 97 \<le> n \<and> n \<le> 122 then char_of (n - 32) else c)"

text \<open>\<open>print\<close> is \<open>JSON.stringify\<close> on values whose properties are sorted; \<open>sha\<close> is SHA-256.\<close>

definition requestFingerprint ::
  "(js \<Rightarrow> string) \<Rightarrow> (string \<Rightarrow> string) \<Rightarrow> string \<Rightarrow> http_request \<Rightarrow> fingerprint" where
  "requestFingerprint print sha uuid request =
    (let method = map to_upper_char (case hr_method request of None \<Rightarrow> ''GET'' | Some m \<Rightarrow> m);
         urlPath = map_option (\<lambda>u. hd (split_on CHR ''?'' u)) (hr_url request);
         route = (case hr_route request of Some r \<Rightarrow> r
                  | None \<Rightarrow> (case urlPath of Some p \<Rightarrow> p | None \<Rightarrow> ''/''));
         path = (case urlPath of Some p \<Rightarrow> p | None \<Rightarrow> route);
         qh = sha (print (js_normalize (nullish (hr_query request) (JObj []))));
         bh = sha (print (js_normalize (hr_body request)))
     in \<lparr>claimId = uuid,
         digest = sha (method @ ''\<newline>'' @ route @ ''\<newline>'' @ path @ ''\<newline>'' @ qh @ ''\<newline>'' @ bh),
         fp_method = method, fp_route = route, fp_path = path, queryHash = qh, bodyHash = bh\<rparr>)"

section \<open>Records\<close>

definition processing_record :: "fingerprint \<Rightarrow> int \<Rightarrow> stored" where
  "processing_record fp now = Json (JObj
     [(''state'', JStr ''processing''), (''claimId'', JStr (claimId fp)),
      (''fingerprint'', JStr (digest fp)), (''method'', JStr (fp_method fp)),
      (''route'', JStr (fp_route fp)), (''path'', JStr (fp_path fp)),
      (''queryHash'', JStr (queryHash fp)), (''bodyHash'', JStr (bodyHash fp)),
      (''startedAt'', JNum now)])"

text \<open>The completed record; \<open>replayable\<close> is absent unless it is \<open>false\<close>.\<close>

definition completed_record :: "fingerprint \<Rightarrow> js \<Rightarrow> int \<Rightarrow> int \<Rightarrow> bool \<Rightarrow> stored" where
  "completed_record fp body bodyBytes now replayable = Json (JObj
     ([(''state'', JStr ''completed''), (''fingerprint'', JStr (digest fp)),
       (''method'', JStr (fp_method fp)), (''route'', JStr (fp_route fp)),
       (''path'', JStr (fp_path fp)), (''queryHash'', JStr (queryHash fp)),
       (''bodyHash'', JStr (bodyHash fp)), (''body'', body), (''bodyBytes'', JNum bodyBytes),
       (''completedAt'', JNum now)] @ (if replayable then [] else [(''replayable'', JBool False)])))"

definition MAX_SAFE_INTEGER :: int where "MAX_SAFE_INTEGER = 2 ^ 53 - 1"

fun isTimestamp :: "js \<Rightarrow> bool" where
  "isTimestamp (JNum n) = (n \<le> MAX_SAFE_INTEGER \<and> n > 0)"
| "isTimestamp _ = False"

fun isBodySize :: "js \<Rightarrow> bool" where
  "isBodySize (JNum n) = (n \<le> MAX_SAFE_INTEGER \<and> n \<ge> 0)"
| "isBodySize _ = False"

fun nonempty_string :: "js \<Rightarrow> bool" where
  "nonempty_string (JStr s) = (s \<noteq> [])"
| "nonempty_string _ = False"

definition hasFingerprint :: "js \<Rightarrow> bool" where
  "hasFingerprint v \<longleftrightarrow>
     list_all (\<lambda>k. nonempty_string (js_get v k))
       [''fingerprint'', ''method'', ''route'', ''path'', ''queryHash'', ''bodyHash'']"

fun isRecord :: "js \<Rightarrow> bool" where
  "isRecord (JObj _) = True"
| "isRecord _ = False"

text \<open>\<open>None\<close> stands for the exception.\<close>

definition parseIdempotencyRecord :: "stored \<Rightarrow> js option" where
  "parseIdempotencyRecord raw =
    (case raw of NotJson _ \<Rightarrow> None
     | Json parsed \<Rightarrow>
         let state = js_get parsed ''state'' in
         if \<not> isRecord parsed \<or> (state \<noteq> JStr ''processing'' \<and> state \<noteq> JStr ''completed'') then None
         else if \<not> hasFingerprint parsed then None
         else if state = JStr ''processing'' \<and> isTimestamp (js_get parsed ''startedAt'') \<and>
                 nonempty_string (js_get parsed ''claimId'') then Some parsed
         else if state = JStr ''completed'' \<and> isTimestamp (js_get parsed ''completedAt'') \<and>
                 isBodySize (js_get parsed ''bodyBytes'') \<and> js_has parsed ''body'' then Some parsed
         else None)"

definition recordMatches :: "js \<Rightarrow> fingerprint \<Rightarrow> bool" where
  "recordMatches record fp \<longleftrightarrow>
     js_get record ''fingerprint'' = JStr (digest fp) \<and>
     js_get record ''method'' = JStr (fp_method fp) \<and>
     js_get record ''route'' = JStr (fp_route fp) \<and>
     js_get record ''path'' = JStr (fp_path fp) \<and>
     js_get record ''queryHash'' = JStr (queryHash fp) \<and>
     js_get record ''bodyHash'' = JStr (bodyHash fp)"

section \<open>Scripts\<close>

text \<open>
  The Lua scripts run atomically. \<open>cjson.decode\<close> fails on malformed text, and so does reading a
  field of a number, a boolean or \<open>null\<close>; the script then stops before it changes anything,
  which is \<open>None\<close>.
\<close>

fun lua_fields :: "stored \<Rightarrow> js option" where
  "lua_fields (Json (JObj fs)) = Some (JObj fs)"
| "lua_fields (Json (JArr vs)) = Some (JArr vs)"
| "lua_fields (Json (JStr s)) = Some (JStr s)"
| "lua_fields _ = None"

definition holds_claim :: "js \<Rightarrow> string \<Rightarrow> bool" where
  "holds_claim record cid \<longleftrightarrow>
     js_get record ''state'' = JStr ''processing'' \<and> js_get record ''claimId'' = JStr cid"

definition FINALIZE_IDEMPOTENCY_SCRIPT ::
  "'s redis \<Rightarrow> string \<Rightarrow> string \<Rightarrow> stored \<Rightarrow> nat \<Rightarrow> 's \<Rightarrow> nat option \<times> 's" where
  "FINALIZE_IDEMPOTENCY_SCRIPT R key cid record ttl s =
    (case r_get R s key of None \<Rightarrow> (Some 0, s)
     | Some current \<Rightarrow>
         (case lua_fields current of None \<Rightarrow> (None, s)
          | Some v \<Rightarrow> if \<not> holds_claim v cid then (Some 0, s) else (Some 1, r_set R s key record ttl)))"

definition RELEASE_IDEMPOTENCY_SCRIPT ::
  "'s redis \<Rightarrow> string \<Rightarrow> string \<Rightarrow> 's \<Rightarrow> nat option \<times> 's" where
  "RELEASE_IDEMPOTENCY_SCRIPT R key cid s =
    (case r_get R s key of None \<Rightarrow> (Some 0, s)
     | Some current \<Rightarrow>
         (case lua_fields current of None \<Rightarrow> (None, s)
          | Some v \<Rightarrow> if \<not> holds_claim v cid then (Some 0, s)
                      else (case r_del R s key of (n, s') \<Rightarrow> (Some n, s'))))"

definition RECOVER_IDEMPOTENCY_SCRIPT ::
  "'s redis \<Rightarrow> string \<Rightarrow> stored \<Rightarrow> stored \<Rightarrow> nat \<Rightarrow> 's \<Rightarrow> nat option \<times> 's" where
  "RECOVER_IDEMPOTENCY_SCRIPT R key expected record ttl s =
    (if r_get R s key \<noteq> Some expected then (Some 0, s) else (Some 1, r_set R s key record ttl))"

section \<open>The store\<close>

record idem_config =
  processing_ttl :: nat
  stale_after_s :: int
  response_ttl :: nat
  max_response_bytes :: nat

datatype idem_error =
    KEY_REUSED
  | RECORD_INVALID
  | RESPONSE_UNAVAILABLE
  | REQUEST_IN_PROGRESS int

text \<open>
  A request in \<open>claimOrRead\<close>, between two awaits: about to claim (with the number of earlier
  attempts), about to read, or about to take over the stale claim it has read. It leaves with
  the right to run the handler, with a body to replay, with an error, or because Redis failed.
\<close>

datatype claim_state =
    Claiming nat
  | Reading nat int
  | Recovering nat int stored
  | Claimed
  | Replays js
  | Refused idem_error
  | StoreFailed

definition retryClaim :: "nat \<Rightarrow> claim_state" where
  "retryClaim attempt = (if attempt \<ge> 2 then Refused RECORD_INVALID else Claiming (attempt + 1))"

definition idempotencyInProgress :: "idem_config \<Rightarrow> int \<Rightarrow> idem_error" where
  "idempotencyInProgress cfg age = REQUEST_IN_PROGRESS (max 0 (stale_after_s cfg - age div 1000) * 1000)"

text \<open>What \<open>claimOrRead\<close> makes of the record it read.\<close>

definition judge :: "idem_config \<Rightarrow> fingerprint \<Rightarrow> nat \<Rightarrow> int \<Rightarrow> stored \<Rightarrow> claim_state" where
  "judge cfg fp attempt now raw =
    (case parseIdempotencyRecord raw of
       None \<Rightarrow> Refused RECORD_INVALID
     | Some record \<Rightarrow>
         if \<not> recordMatches record fp then Refused KEY_REUSED
         else if js_get record ''state'' = JStr ''completed'' then
           (if js_get record ''replayable'' = JBool False then Refused RESPONSE_UNAVAILABLE
            else Replays (js_get record ''body''))
         else
           (case js_get record ''startedAt'' of
              JNum startedAt \<Rightarrow>
                (let age = now - startedAt in
                 if age < stale_after_s cfg * 1000 then Refused (idempotencyInProgress cfg age)
                 else Recovering attempt now raw)
            | _ \<Rightarrow> Refused RECORD_INVALID))"

definition claimOrRead_step ::
  "'s redis \<Rightarrow> idem_config \<Rightarrow> string \<Rightarrow> fingerprint \<Rightarrow> int \<Rightarrow> link \<Rightarrow> claim_state \<Rightarrow> 's \<Rightarrow> claim_state \<times> 's" where
  "claimOrRead_step R cfg key fp clock l st s =
    (case st of
       Claiming attempt \<Rightarrow>
         (case call l (\<lambda>s. r_setnx R s key (processing_record fp clock) (processing_ttl cfg)) s of
            (None, s') \<Rightarrow> (StoreFailed, s')
          | (Some True, s') \<Rightarrow> (Claimed, s')
          | (Some False, s') \<Rightarrow> (Reading attempt clock, s'))
     | Reading attempt now \<Rightarrow>
         (case call l (\<lambda>s. (r_get R s key, s)) s of
            (None, s') \<Rightarrow> (StoreFailed, s')
          | (Some None, s') \<Rightarrow> (retryClaim attempt, s')
          | (Some (Some raw), s') \<Rightarrow>
              (if raw = NotJson [] then retryClaim attempt else judge cfg fp attempt now raw, s'))
     | Recovering attempt now raw \<Rightarrow>
         (case call l (RECOVER_IDEMPOTENCY_SCRIPT R key raw (processing_record fp now) (processing_ttl cfg)) s of
            (Some (Some r), s') \<Rightarrow> (if r = 1 then Claimed else retryClaim attempt, s')
          | (_, s') \<Rightarrow> (StoreFailed, s'))
     | _ \<Rightarrow> (st, s))"

text \<open>
  What \<open>JSON.stringify\<close> does to a response: it throws, it has no text for the value, or it
  prints a text, which denotes a value and has a length in bytes.
\<close>

datatype printed = Throws | NoText | Text js nat

definition store_release :: "'s redis \<Rightarrow> string \<Rightarrow> fingerprint \<Rightarrow> link \<Rightarrow> 's \<Rightarrow> 's" where
  "store_release R key fp l s = snd (call l (RELEASE_IDEMPOTENCY_SCRIPT R key (claimId fp)) s)"

text \<open>\<open>None\<close> when the call to Redis failed.\<close>

definition cacheUnavailableResponse ::
  "'s redis \<Rightarrow> idem_config \<Rightarrow> string \<Rightarrow> fingerprint \<Rightarrow> int \<Rightarrow> link \<Rightarrow> 's \<Rightarrow> nat option \<times> 's" where
  "cacheUnavailableResponse R cfg key fp now l s =
    (case call l (FINALIZE_IDEMPOTENCY_SCRIPT R key (claimId fp)
                    (completed_record fp JNull 0 now False) (response_ttl cfg)) s of
       (Some (Some n), s') \<Rightarrow> (Some n, s')
     | (_, s') \<Rightarrow> (None, s'))"

definition cacheResponse ::
  "'s redis \<Rightarrow> idem_config \<Rightarrow> string \<Rightarrow> fingerprint \<Rightarrow> int \<Rightarrow> (js \<Rightarrow> printed) \<Rightarrow> js
     \<Rightarrow> link \<Rightarrow> link \<Rightarrow> 's \<Rightarrow> bool \<times> 's" where
  "cacheResponse R cfg key fp now stringify body l l' s =
    (let body' = (if body = JUndef then JNull else body) in
     case stringify body' of
       Text v bytes \<Rightarrow>
         if bytes > max_response_bytes cfg then (True, store_release R key fp l s)
         else
           (case call l (FINALIZE_IDEMPOTENCY_SCRIPT R key (claimId fp)
                           (completed_record fp v (int bytes) now True) (response_ttl cfg)) s of
              (Some (Some n), s') \<Rightarrow> (True, s')
            | (_, s') \<Rightarrow> (True, store_release R key fp l' s'))
     | _ \<Rightarrow> (case cacheUnavailableResponse R cfg key fp now l s of (r, s') \<Rightarrow> (r \<noteq> None, s')))"

section \<open>The interceptor\<close>

definition MAX_IDEMPOTENCY_KEY_LENGTH :: nat where "MAX_IDEMPOTENCY_KEY_LENGTH = 128"

definition CACHE_KEY_PREFIX :: string where "CACHE_KEY_PREFIX = ''idempotency:v2''"

definition key_char :: "char \<Rightarrow> bool" where
  "key_char c \<longleftrightarrow>
     (let n = of_char c :: nat in
      (65 \<le> n \<and> n \<le> 90) \<or> (97 \<le> n \<and> n \<le> 122) \<or> (48 \<le> n \<and> n \<le> 57)) \<or> c \<in> set ''._:-''"

definition VALID_IDEMPOTENCY_KEY :: "string \<Rightarrow> bool" where
  "VALID_IDEMPOTENCY_KEY s \<longleftrightarrow> s \<noteq> [] \<and> list_all key_char s"

datatype idem_gate =
    PassThrough
  | BadRequest
  | ServiceUnavailable
  | UseKey string

text \<open>
  The part of \<open>intercept\<close> before the store is asked. A header is absent, one string or (sent
  twice) a list, which is no string.
\<close>

definition assertValidKey :: "js \<Rightarrow> bool" where
  "assertValidKey key \<longleftrightarrow>
     (case key of JStr k \<Rightarrow> k \<noteq> [] \<and> length k \<le> MAX_IDEMPOTENCY_KEY_LENGTH \<and> VALID_IDEMPOTENCY_KEY k
      | _ \<Rightarrow> False)"

definition cache_key :: "string \<Rightarrow> string \<Rightarrow> string \<Rightarrow> string" where
  "cache_key scope actor key = CACHE_KEY_PREFIX @ '':'' @ scope @ '':'' @ actor @ '':'' @ key"

definition or_else :: "string option \<Rightarrow> string \<Rightarrow> string" where
  "or_else o' d = (case o' of Some s \<Rightarrow> if s \<noteq> [] then s else d | None \<Rightarrow> d)"

definition intercept_gate ::
  "bool \<Rightarrow> js \<Rightarrow> bool \<Rightarrow> bool \<Rightarrow> string option \<Rightarrow> string option \<Rightarrow> string option \<Rightarrow> idem_gate" where
  "intercept_gate isIdempotent header available production tenantId userId ip =
    (if \<not> isIdempotent then PassThrough
     else if \<not> assertValidKey header then BadRequest
     else if \<not> available then (if production then ServiceUnavailable else PassThrough)
     else case header of
            JStr key \<Rightarrow> UseKey (cache_key (or_else tenantId ''single'') (or_else userId (or_else ip ''anonymous'')) key)
          | _ \<Rightarrow> BadRequest)"

text \<open>
  The rest of \<open>intercept\<close> for one request: the steps of the claim, then the handler, whose
  end is one more step: its response is stored and sent, or its error releases the key.
\<close>

datatype idem_state =
    InClaim claim_state
  | Answered js
  | HandlerFailed

definition finish_handler ::
  "'s redis \<Rightarrow> idem_config \<Rightarrow> string \<Rightarrow> fingerprint \<Rightarrow> int \<Rightarrow> (js \<Rightarrow> printed) \<Rightarrow> js option
     \<Rightarrow> link \<Rightarrow> link \<Rightarrow> 's \<Rightarrow> idem_state \<times> 's" where
  "finish_handler R cfg key fp now stringify result l l' s =
    (case result of
       None \<Rightarrow> (HandlerFailed, store_release R key fp l s)
     | Some body \<Rightarrow>
         (case cacheResponse R cfg key fp now stringify body l l' s of
            (True, s') \<Rightarrow> (Answered body, s')
          | (False, s') \<Rightarrow> (HandlerFailed, store_release R key fp l' s')))"

end
