(* ===== verification/IdempotencyGuarantees.thy ===== *)
theory IdempotencyGuarantees
  imports Idempotency
begin

text \<open>
  Concurrent requests against one Redis. A request is a number with its key and fingerprint; an
  event advances one request by one command, ends a handler, lets time pass or lets Redis drop
  a key. The invariant describes every stored record by the request that wrote it. From it:
  a handler runs at most once per lease of its key, a completed record is never overwritten,
  and a replayed response is one that a handler of an identical request produced.
\<close>

section \<open>Records as the code reads them\<close>

lemma processing_record_get:
  "parseIdempotencyRecord (processing_record fp now) = Some v \<Longrightarrow>
     js_get v ''state'' = JStr ''processing'' \<and> js_get v ''startedAt'' = JNum now \<and>
     js_get v ''claimId'' = JStr (claimId fp)"
  by (auto simp: parseIdempotencyRecord_def processing_record_def Let_def split: if_splits)

lemma completed_record_get:
  "parseIdempotencyRecord (completed_record fp b n now rep) = Some v \<Longrightarrow>
     js_get v ''state'' = JStr ''completed'' \<and> js_get v ''body'' = b \<and>
     (js_get v ''replayable'' = JBool False \<longleftrightarrow> \<not> rep)"
  by (auto simp: parseIdempotencyRecord_def completed_record_def Let_def split: if_splits)

lemma lua_processing:
  "\<exists>v. lua_fields (processing_record fp now) = Some v \<and> (holds_claim v cid \<longleftrightarrow> cid = claimId fp)"
  by (auto simp: processing_record_def holds_claim_def)

lemma lua_completed:
  "\<exists>v. lua_fields (completed_record fp b n now rep) = Some v \<and> \<not> holds_claim v cid"
  by (auto simp: completed_record_def holds_claim_def)

text \<open>Two requests are the same request to the store.\<close>

definition same_request :: "fingerprint \<Rightarrow> fingerprint \<Rightarrow> bool" where
  "same_request a b \<longleftrightarrow> digest a = digest b \<and> fp_method a = fp_method b \<and> fp_route a = fp_route b \<and>
     fp_path a = fp_path b \<and> queryHash a = queryHash b \<and> bodyHash a = bodyHash b"

lemma parse_fields: "parseIdempotencyRecord (Json v) = Some w \<Longrightarrow> w = v"
  by (auto simp: parseIdempotencyRecord_def Let_def split: if_splits)

lemma record_matches:
  "parseIdempotencyRecord (processing_record fp now) = Some v \<Longrightarrow> recordMatches v fp' \<longleftrightarrow> same_request fp fp'"
  "parseIdempotencyRecord (completed_record fp b n now rep) = Some v \<Longrightarrow> recordMatches v fp' \<longleftrightarrow> same_request fp fp'"
  unfolding processing_record_def completed_record_def
  by (drule parse_fields; auto simp: recordMatches_def same_request_def)+

section \<open>What one command does to the store\<close>

definition held :: "'s redis \<Rightarrow> 's \<Rightarrow> string \<Rightarrow> string \<Rightarrow> bool" where
  "held R s key cid \<longleftrightarrow>
     (\<exists>raw v. r_get R s key = Some raw \<and> lua_fields raw = Some v \<and> holds_claim v cid)"

lemma claim_effect:
  assumes "redis_ok R" and "claimOrRead_step R cfg key fp clock l st s = (st', s')"
  shows "k' \<noteq> key \<Longrightarrow> r_get R s' k' = r_get R s k'"
    and "r_get R s' key = r_get R s key \<or>
         (\<exists>n. st = Claiming n \<and> r_get R s key = None \<and> r_get R s' key = Some (processing_record fp clock)) \<or>
         (\<exists>n now raw. st = Recovering n now raw \<and> r_get R s key = Some raw \<and>
            r_get R s' key = Some (processing_record fp now))"
    and "st' = Claimed \<Longrightarrow> st \<noteq> Claimed \<Longrightarrow>
         (\<exists>n. st = Claiming n \<and> r_get R s key = None \<and> r_get R s' key = Some (processing_record fp clock)) \<or>
         (\<exists>n now raw. st = Recovering n now raw \<and> r_get R s key = Some raw \<and>
            r_get R s' key = Some (processing_record fp now))"
proof -
  note unfold = claimOrRead_step_def call_def RECOVER_IDEMPOTENCY_SCRIPT_def retryClaim_def
    redis_set [OF assms(1)] judge_def Let_def
  note R = setnx_result [OF assms(1)]
  show "k' \<noteq> key \<Longrightarrow> r_get R s' k' = r_get R s k'"
    using assms(2) by (auto simp: unfold redis_setnx [OF assms(1)] dest!: R
        split: claim_state.splits link.splits prod.splits option.splits bool.splits if_splits)
  show "r_get R s' key = r_get R s key \<or>
         (\<exists>n. st = Claiming n \<and> r_get R s key = None \<and> r_get R s' key = Some (processing_record fp clock)) \<or>
         (\<exists>n now raw. st = Recovering n now raw \<and> r_get R s key = Some raw \<and>
            r_get R s' key = Some (processing_record fp now))"
    using assms(2) by (auto simp: unfold redis_setnx [OF assms(1)] dest!: R
        split: claim_state.splits link.splits prod.splits option.splits bool.splits if_splits)
  show "st' = Claimed \<Longrightarrow> st \<noteq> Claimed \<Longrightarrow>
         (\<exists>n. st = Claiming n \<and> r_get R s key = None \<and> r_get R s' key = Some (processing_record fp clock)) \<or>
         (\<exists>n now raw. st = Recovering n now raw \<and> r_get R s key = Some raw \<and>
            r_get R s' key = Some (processing_record fp now))"
    using assms(2) by (auto simp: unfold dest!: R
        split: claim_state.splits link.splits prod.splits option.splits bool.splits if_splits js.splits)
qed

lemma release_effect:
  assumes "redis_ok R"
  shows "k' \<noteq> key \<Longrightarrow> r_get R (store_release R key fp l s) k' = r_get R s k'"
    and "r_get R (store_release R key fp l s) key = r_get R s key \<or>
         held R s key (claimId fp) \<and> r_get R (store_release R key fp l s) key = None"
proof -
  note unfold = store_release_def call_def RELEASE_IDEMPOTENCY_SCRIPT_def held_def
  note R = del_result [OF assms]
  show "k' \<noteq> key \<Longrightarrow> r_get R (store_release R key fp l s) k' = r_get R s k'"
    by (auto simp: unfold dest!: R split: link.splits prod.splits option.splits)
  show "r_get R (store_release R key fp l s) key = r_get R s key \<or>
         held R s key (claimId fp) \<and> r_get R (store_release R key fp l s) key = None"
    by (auto simp: unfold dest!: R split: link.splits prod.splits option.splits)
qed

lemma finalize_effect:
  assumes "redis_ok R" and "call l (FINALIZE_IDEMPOTENCY_SCRIPT R key cid record ttl) s = (r, s')"
  shows "k' \<noteq> key \<Longrightarrow> r_get R s' k' = r_get R s k'"
    and "r_get R s' key = r_get R s key \<or> held R s key cid \<and> r_get R s' key = Some record"
  using assms(2)
  by (auto simp: call_def FINALIZE_IDEMPOTENCY_SCRIPT_def held_def redis_set [OF assms(1)]
      split: link.splits prod.splits option.splits if_splits)

definition printed_body :: "(js \<Rightarrow> printed) \<Rightarrow> js \<Rightarrow> js option" where
  "printed_body stringify body =
     (case stringify (if body = JUndef then JNull else body) of Text v n \<Rightarrow> Some v | _ \<Rightarrow> None)"

text \<open>What the end of a handler may leave at its key, and only while it holds the claim.\<close>

definition settled ::
  "'s redis \<Rightarrow> string \<Rightarrow> fingerprint \<Rightarrow> int \<Rightarrow> (js \<Rightarrow> printed) \<Rightarrow> js option \<Rightarrow> 's \<Rightarrow> 's \<Rightarrow> bool" where
  "settled R key fp now stringify result s s' \<longleftrightarrow>
     (\<forall>k'. k' \<noteq> key \<longrightarrow> r_get R s' k' = r_get R s k') \<and>
     (r_get R s' key = r_get R s key \<or>
      held R s key (claimId fp) \<and>
      (r_get R s' key = None \<or>
       (\<exists>v n rep. r_get R s' key = Some (completed_record fp v n now rep) \<and>
          (rep \<longrightarrow> (\<exists>body. result = Some body \<and> printed_body stringify body = Some v)))))"

lemma settled_release:
  assumes "redis_ok R" and "settled R key fp now stringify result s s1"
  shows "settled R key fp now stringify result s (store_release R key fp l s1)"
proof -
  have "held R s1 key (claimId fp) \<Longrightarrow> held R s key (claimId fp)"
    using assms(2) lua_completed [of fp _ _ now _ "claimId fp"]
    by (fastforce simp: settled_def held_def)
  moreover have "settled R key fp now stringify result s s2"
    if "\<And>k'. r_get R s2 k' = r_get R s1 k'" for s2
    using assms(2) unfolding settled_def that .
  moreover have "settled R key fp now stringify result s s2"
    if "held R s key (claimId fp)" "r_get R s2 key = None" "\<And>k'. k' \<noteq> key \<Longrightarrow> r_get R s2 k' = r_get R s1 k'" for s2
    using assms(2) that by (simp add: settled_def)
  ultimately show ?thesis
    using release_effect [OF assms(1), where key = key and fp = fp and l = l and s = s1] by metis
qed

lemma settled_refl: "settled R key fp now stringify result s s"
  by (simp add: settled_def)

lemma settled_unavailable:
  "redis_ok R \<Longrightarrow> cacheUnavailableResponse R cfg key fp now l s = (r, s') \<Longrightarrow>
     settled R key fp now stringify result s s'"
  using finalize_effect [of R l key "claimId fp" "completed_record fp JNull 0 now False" "response_ttl cfg" s]
  by (fastforce simp: cacheUnavailableResponse_def settled_def split: prod.splits option.splits)

lemma settled_finalize:
  "redis_ok R \<Longrightarrow>
   call l (FINALIZE_IDEMPOTENCY_SCRIPT R key (claimId fp) (completed_record fp v n now True) ttl) s = (r, s') \<Longrightarrow>
   printed_body stringify body = Some v \<Longrightarrow> settled R key fp now stringify (Some body) s s'"
  using finalize_effect [of R l key "claimId fp" "completed_record fp v n now True" ttl s r s']
  by (auto simp: settled_def)

lemma settled_cache:
  assumes "redis_ok R" and "cacheResponse R cfg key fp now stringify body l l' s = (ok, s')"
  shows "settled R key fp now stringify (Some body) s s'"
proof -
  obtain body' where b: "body' = (if body = JUndef then JNull else body)" by blast
  show ?thesis
  proof (cases "stringify body'")
    case (Text v n)
    then have pb: "printed_body stringify body = Some v" by (simp add: printed_body_def b)
    obtain r s1 where c: "call l (FINALIZE_IDEMPOTENCY_SCRIPT R key (claimId fp)
        (completed_record fp v (int n) now True) (response_ttl cfg)) s = (r, s1)" by fastforce
    have f: "settled R key fp now stringify (Some body) s s1"
      by (rule settled_finalize [OF assms(1) c pb])
    have "s' = store_release R key fp l s \<or> s' = s1 \<or> s' = store_release R key fp l' s1"
      using assms(2) Text c b by (auto simp: cacheResponse_def Let_def split: option.splits if_splits)
    then show ?thesis
      using f settled_release [OF assms(1)] settled_refl by metis
  qed (use assms b in \<open>auto simp: cacheResponse_def Let_def split: prod.splits intro: settled_unavailable\<close>)
qed

lemma finish_effect:
  assumes "redis_ok R" and "finish_handler R cfg key fp now stringify result l l' s = (st', s')"
  shows "settled R key fp now stringify result s s'"
proof (cases result)
  case None
  then show ?thesis
    using assms settled_release [OF assms(1) settled_refl] by (auto simp: finish_handler_def)
next
  case (Some body)
  obtain ok s1 where c: "cacheResponse R cfg key fp now stringify body l l' s = (ok, s1)" by fastforce
  then have "settled R key fp now stringify result s s1"
    using settled_cache [OF assms(1) c] Some by simp
  moreover have "s' = s1 \<or> s' = store_release R key fp l' s1"
    using assms(2) Some c by (cases ok) (auto simp: finish_handler_def)
  ultimately show ?thesis using settled_release [OF assms(1)] by metis
qed

section \<open>Concurrent requests\<close>

text \<open>
  \<open>starts\<close> counts the handlers started per key and \<open>frees\<close> the leases that ended: the key
  vanished (released, or dropped by Redis) or a stale claim was taken over. \<open>produced\<close> holds
  the bodies that handlers returned, as they print. These three are bookkeeping.
\<close>

record 's idem_sys =
  sys_store :: 's
  sys_clock :: int
  sys_req :: "nat \<Rightarrow> idem_state"
  starts :: "string \<Rightarrow> nat"
  frees :: "string \<Rightarrow> nat"
  produced :: "(nat \<times> js) set"

datatype idem_event =
    Step nat link
  | Finish nat "js option" link link
  | Tick nat
  | Expire string

record 's idem_world =
  server :: "'s redis"
  config :: idem_config
  json_text :: "js \<Rightarrow> printed"
  key_of :: "nat \<Rightarrow> string"
  print_of :: "nat \<Rightarrow> fingerprint"

definition vanished :: "'s redis \<Rightarrow> string \<Rightarrow> 's \<Rightarrow> 's \<Rightarrow> nat" where
  "vanished R k s s' = (if r_get R s k \<noteq> None \<and> r_get R s' k = None then 1 else 0)"

definition takeover :: "claim_state \<Rightarrow> 's redis \<Rightarrow> string \<Rightarrow> 's \<Rightarrow> link \<Rightarrow> nat" where
  "takeover st R k s l =
     (case st of Recovering n now raw \<Rightarrow> if r_get R s k = Some raw \<and> l \<noteq> Down then 1 else 0 | _ \<Rightarrow> 0)"

fun idem_step :: "'s idem_world \<Rightarrow> idem_event \<Rightarrow> 's idem_sys \<Rightarrow> 's idem_sys" where
  "idem_step w (Step i l) y =
    (case sys_req y i of
       InClaim st \<Rightarrow>
         (case claimOrRead_step (server w) (config w) (key_of w i) (print_of w i) (sys_clock y) l st (sys_store y) of
            (st', s') \<Rightarrow>
              y\<lparr>sys_store := s',
                sys_req := (sys_req y)(i := InClaim st'),
                starts := (starts y)(key_of w i := starts y (key_of w i) +
                             (if st' = Claimed \<and> st \<noteq> Claimed then 1 else 0)),
                frees := (frees y)(key_of w i := frees y (key_of w i) +
                             takeover st (server w) (key_of w i) (sys_store y) l)\<rparr>)
     | _ \<Rightarrow> y)"
| "idem_step w (Finish i result l l') y =
    (if sys_req y i = InClaim Claimed then
       (case finish_handler (server w) (config w) (key_of w i) (print_of w i) (sys_clock y)
               (json_text w) result l l' (sys_store y) of
          (st', s') \<Rightarrow>
            y\<lparr>sys_store := s', sys_req := (sys_req y)(i := st'),
              frees := (frees y)(key_of w i := frees y (key_of w i) +
                           vanished (server w) (key_of w i) (sys_store y) s'),
              produced := produced y \<union>
                (case Option.bind result (printed_body (json_text w)) of None \<Rightarrow> {} | Some v \<Rightarrow> {(i, v)})\<rparr>)
     else y)"
| "idem_step w (Tick n) y = y\<lparr>sys_clock := sys_clock y + int n\<rparr>"
| "idem_step w (Expire k) y =
    y\<lparr>sys_store := snd (r_del (server w) (sys_store y) k),
      frees := (frees y)(k := frees y k + vanished (server w) k (sys_store y) (snd (r_del (server w) (sys_store y) k)))\<rparr>"

definition idem_start :: "'s \<Rightarrow> int \<Rightarrow> 's idem_sys" where
  "idem_start s clock = \<lparr>sys_store = s, sys_clock = clock, sys_req = (\<lambda>_. InClaim (Claiming 0)),
     starts = (\<lambda>_. 0), frees = (\<lambda>_. 0), produced = {}\<rparr>"

definition idem_run :: "'s idem_world \<Rightarrow> idem_event list \<Rightarrow> 's idem_sys \<Rightarrow> 's idem_sys" where
  "idem_run w es y = fold (idem_step w) es y"

text \<open>A record at a key, explained by the request that wrote it.\<close>

definition explained :: "'s idem_world \<Rightarrow> (nat \<times> js) set \<Rightarrow> string \<Rightarrow> stored \<Rightarrow> bool" where
  "explained w out k v \<longleftrightarrow>
     (\<exists>i now. key_of w i = k \<and> v = processing_record (print_of w i) now) \<or>
     (\<exists>i b n now rep. key_of w i = k \<and> v = completed_record (print_of w i) b n now rep \<and> (rep \<longrightarrow> (i, b) \<in> out))"

definition replay_ok :: "'s idem_world \<Rightarrow> (nat \<times> js) set \<Rightarrow> nat \<Rightarrow> js \<Rightarrow> bool" where
  "replay_ok w out i b \<longleftrightarrow>
     (\<exists>j. key_of w j = key_of w i \<and> same_request (print_of w j) (print_of w i) \<and> (j, b) \<in> out)"

definition is_processing :: "stored \<Rightarrow> bool" where
  "is_processing raw \<longleftrightarrow> (\<exists>v. raw = Json v \<and> js_get v ''state'' = JStr ''processing'')"

fun state_ok :: "'s idem_world \<Rightarrow> (nat \<times> js) set \<Rightarrow> nat \<Rightarrow> claim_state \<Rightarrow> bool" where
  "state_ok w out i (Recovering n now raw) = is_processing raw"
| "state_ok w out i (Replays b) = replay_ok w out i b"
| "state_ok w out i _ = True"

definition idem_inv :: "'s idem_world \<Rightarrow> 's idem_sys \<Rightarrow> bool" where
  "idem_inv w y \<longleftrightarrow>
     (\<forall>k v. r_get (server w) (sys_store y) k = Some v \<longrightarrow> explained w (produced y) k v) \<and>
     (\<forall>k. starts y k + (if r_get (server w) (sys_store y) k = None then 1 else 0) \<le> 1 + frees y k) \<and>
     (\<forall>i st. sys_req y i = InClaim st \<longrightarrow> state_ok w (produced y) i st)"

lemma explained_mono: "explained w out k v \<Longrightarrow> out \<subseteq> out' \<Longrightarrow> explained w out' k v"
  by (fastforce simp: explained_def)

lemma state_ok_mono: "state_ok w out i st \<Longrightarrow> out \<subseteq> out' \<Longrightarrow> state_ok w out' i st"
  by (cases st) (auto simp: replay_ok_def)

lemma judge_ok:
  assumes "explained w out (key_of w i) raw"
  shows "state_ok w out i (judge cfg (print_of w i) n now raw)"
proof (cases "parseIdempotencyRecord raw")
  case None
  then show ?thesis by (simp add: judge_def)
next
  case (Some v)
  from assms show ?thesis
    unfolding explained_def
  proof (elim disjE exE conjE)
    fix j t assume r: "raw = processing_record (print_of w j) t"
    then have "is_processing raw" by (simp add: processing_record_def is_processing_def)
    with Some show ?thesis
      using processing_record_get [of "print_of w j" t v] r by (simp add: judge_def Let_def)
  next
    fix j b m t rep
    assume "key_of w j = key_of w i" "raw = completed_record (print_of w j) b m t rep" "rep \<longrightarrow> (j, b) \<in> out"
    with Some show ?thesis
      using completed_record_get [of "print_of w j" b m t rep v] record_matches(2) [of "print_of w j" b m t rep v]
      by (auto simp: judge_def Let_def replay_ok_def)
  qed
qed

lemma claim_state_ok:
  assumes "claimOrRead_step R cfg key fp clock l st s = (st', s')" and "state_ok w out i st"
    and "\<And>n now raw. r_get R s key = Some raw \<Longrightarrow> state_ok w out i (judge cfg fp n now raw)"
  shows "state_ok w out i st'"
  using assms
  by (auto simp: claimOrRead_step_def call_def retryClaim_def
      split: claim_state.splits link.splits prod.splits option.splits bool.splits if_splits)

lemma processing_explained: "key_of w i = k \<Longrightarrow> explained w out k (processing_record (print_of w i) now)"
  by (auto simp: explained_def)

lemma completed_explained:
  "key_of w i = k \<Longrightarrow> (rep \<Longrightarrow> (i, b) \<in> out) \<Longrightarrow>
     explained w out k (completed_record (print_of w i) b n now rep)"
  unfolding explained_def by metis

lemma step_inv:
  assumes R: "redis_ok (server w)" and inv: "idem_inv w y" and req: "sys_req y i = InClaim st"
  shows "idem_inv w (idem_step w (Step i l) y)"
proof -
  let ?k = "key_of w i" and ?g = "r_get (server w)"
  obtain st' s' where c: "claimOrRead_step (server w) (config w) ?k (print_of w i) (sys_clock y) l st (sys_store y) = (st', s')"
    by fastforce
  note eff = claim_effect [OF R c]
  have ex: "\<And>k v. ?g (sys_store y) k = Some v \<Longrightarrow> explained w (produced y) k v"
    and cnt: "\<And>k. starts y k + (if ?g (sys_store y) k = None then 1 else 0) \<le> 1 + frees y k"
    and sok: "\<And>i st. sys_req y i = InClaim st \<Longrightarrow> state_ok w (produced y) i st"
    using inv by (auto simp: idem_inv_def)
  have "explained w (produced y) k v" if "?g s' k = Some v" for k v
    using that ex [of k v] eff(1) [of k] eff(2) processing_explained [of w i]
    by (cases "k = ?k") auto
  moreover have "state_ok w (produced y) i st'"
    using claim_state_ok [OF c sok [OF req]] judge_ok ex by blast
  moreover have "starts y ?k + (if st' = Claimed \<and> st \<noteq> Claimed then 1 else 0) + (if ?g s' ?k = None then 1 else 0)
      \<le> 1 + (frees y ?k + takeover st (server w) ?k (sys_store y) l)"
  proof (cases "st' = Claimed \<and> st \<noteq> Claimed")
    case True
    then show ?thesis
      using eff(3) cnt [of ?k] c
      by (auto simp: takeover_def claimOrRead_step_def call_def split: link.splits)
  next
    case False
    then show ?thesis
      using eff(2) cnt [of ?k] by (auto split: if_splits)
  qed
  moreover have "starts y k + (if ?g s' k = None then 1 else 0) \<le> 1 + frees y k" if "k \<noteq> ?k" for k
    using cnt [of k] eff(1) [OF that] by simp
  ultimately show ?thesis
    using c req sok by (auto simp: idem_inv_def)
qed

lemma finish_inv:
  assumes R: "redis_ok (server w)" and inv: "idem_inv w y" and req: "sys_req y i = InClaim Claimed"
  shows "idem_inv w (idem_step w (Finish i result l l') y)"
proof -
  let ?k = "key_of w i" and ?g = "r_get (server w)"
  let ?out = "produced y \<union> (case Option.bind result (printed_body (json_text w)) of None \<Rightarrow> {} | Some v \<Rightarrow> {(i, v)})"
  obtain st' s' where c: "finish_handler (server w) (config w) ?k (print_of w i) (sys_clock y) (json_text w)
      result l l' (sys_store y) = (st', s')" by fastforce
  note eff = finish_effect [OF R c, unfolded settled_def]
  have ex: "\<And>k v. ?g (sys_store y) k = Some v \<Longrightarrow> explained w ?out k v"
    and cnt: "\<And>k. starts y k + (if ?g (sys_store y) k = None then 1 else 0) \<le> 1 + frees y k"
    and sok: "\<And>i st. sys_req y i = InClaim st \<Longrightarrow> state_ok w ?out i st"
    using inv explained_mono [OF _ Un_upper1] state_ok_mono [OF _ Un_upper1]
    unfolding idem_inv_def by blast+
  have "explained w ?out k v" if "?g s' k = Some v" for k v
    using that ex [of k v] eff by (cases "k = ?k") (auto intro!: completed_explained)
  moreover have "st' \<noteq> InClaim st" for st
    using c by (auto simp: finish_handler_def split: option.splits prod.splits bool.splits)
  moreover have "starts y ?k + (if ?g s' ?k = None then 1 else 0)
      \<le> 1 + (frees y ?k + vanished (server w) ?k (sys_store y) s')"
    using cnt [of ?k] by (auto simp: vanished_def split: if_splits)
  moreover have "starts y k + (if ?g s' k = None then 1 else 0) \<le> 1 + frees y k" if "k \<noteq> ?k" for k
    using cnt [of k] eff that by simp
  ultimately show ?thesis
    using c req sok by (auto simp: idem_inv_def)
qed

lemma expire_inv:
  assumes R: "redis_ok (server w)" and inv: "idem_inv w y"
  shows "idem_inv w (idem_step w (Expire k) y)"
proof -
  have "starts y k + (if r_get (server w) (sys_store y) k = None then 1 else 0) \<le> 1 + frees y k"
    using inv by (simp add: idem_inv_def)
  then have "starts y k + 1 \<le> 1 + (frees y k + vanished (server w) k (sys_store y)
      (snd (r_del (server w) (sys_store y) k)))"
    by (cases "r_get (server w) (sys_store y) k") (auto simp: vanished_def redis_del(2) [OF R])
  then show ?thesis
    using inv by (simp add: idem_inv_def redis_del(2) [OF R])
qed

lemma idem_step_inv: "redis_ok (server w) \<Longrightarrow> idem_inv w y \<Longrightarrow> idem_inv w (idem_step w e y)"
proof (induction w e y rule: idem_step.induct)
  case (1 w i l y)
  then show ?case by (cases "sys_req y i") (auto simp del: idem_step.simps intro: step_inv, simp_all)
next
  case (2 w i result l l' y)
  then show ?case
    by (cases "sys_req y i = InClaim Claimed") (simp_all del: idem_step.simps add: finish_inv, simp)
next
  case (3 w n y)
  then show ?case by (simp add: idem_inv_def)
next
  case (4 w k y)
  then show ?case using expire_inv by blast
qed

lemma idem_run_inv:
  assumes "redis_ok (server w)" and "\<And>k. r_get (server w) s k = None"
  shows "idem_inv w (idem_run w es (idem_start s t))"
proof -
  have "idem_inv w (idem_start s t)" using assms(2) by (simp add: idem_inv_def idem_start_def)
  moreover have "idem_inv w y \<Longrightarrow> idem_inv w (idem_run w es y)" for y
    unfolding idem_run_def by (induction es arbitrary: y) (auto intro: idem_step_inv [OF assms(1)])
  ultimately show ?thesis by blast
qed

section \<open>Why leases end\<close>

lemma step_frees:
  "frees (idem_step w (Step i l) y) k \<noteq> frees y k \<Longrightarrow>
     k = key_of w i \<and> (\<exists>n now raw. sys_req y i = InClaim (Recovering n now raw))"
  by (auto simp: takeover_def split: idem_state.splits prod.splits claim_state.splits if_splits)

text \<open>The claim in hand at a key with a given state was read when it was already stale.\<close>

definition stale_claim :: "idem_config \<Rightarrow> int \<Rightarrow> stored \<Rightarrow> bool" where
  "stale_claim cfg now raw \<longleftrightarrow>
     (\<exists>v t. raw = Json v \<and> js_get v ''state'' = JStr ''processing'' \<and> js_get v ''startedAt'' = JNum t \<and>
            now - t \<ge> stale_after_s cfg * 1000)"

lemma judge_recovering:
  "judge cfg fp n now raw = Recovering m now' raw' \<Longrightarrow> now' = now \<and> raw' = raw \<and> stale_claim cfg now raw"
proof -
  assume j: "judge cfg fp n now raw = Recovering m now' raw'"
  then obtain v where p: "parseIdempotencyRecord raw = Some v" by (auto simp: judge_def split: option.splits)
  then obtain u where r: "raw = Json u" by (cases raw) (auto simp: parseIdempotencyRecord_def)
  with p have u: "u = v" using parse_fields by blast
  have "js_get v ''state'' = JStr ''processing'' \<or> js_get v ''state'' = JStr ''completed''"
    using p r u by (auto simp: parseIdempotencyRecord_def Let_def split: if_splits)
  with j p r u show ?thesis
    by (auto simp: judge_def stale_claim_def Let_def split: if_splits js.splits)
qed

definition recovery_ok :: "'s idem_world \<Rightarrow> 's idem_sys \<Rightarrow> bool" where
  "recovery_ok w y \<longleftrightarrow>
     (\<forall>i n now raw. sys_req y i = InClaim (Recovering n now raw) \<longrightarrow> stale_claim (config w) now raw)"

lemma recovery_step: "recovery_ok w y \<Longrightarrow> recovery_ok w (idem_step w e y)"
proof (induction w e y rule: idem_step.induct)
  case (1 w i l y)
  show ?case
  proof (cases "sys_req y i")
    case (InClaim st)
    have "stale_claim (config w) now raw"
      if "claimOrRead_step (server w) (config w) (key_of w i) (print_of w i) (sys_clock y) l st (sys_store y) =
          (Recovering n now raw, s')" for n now raw s'
      using that by (auto simp: claimOrRead_step_def call_def retryClaim_def
          split: claim_state.splits link.splits prod.splits option.splits bool.splits if_splits
          dest: judge_recovering)
    with 1 InClaim show ?thesis by (auto simp: recovery_ok_def split: prod.split)
  qed (use 1 in auto)
next
  case (2 w i result l l' y)
  then show ?case
    by (auto simp: recovery_ok_def finish_handler_def split: prod.splits option.splits bool.splits)
qed (auto simp: recovery_ok_def)

lemma recovery_run: "recovery_ok w (idem_run w es (idem_start s t))"
proof -
  have "recovery_ok w y \<Longrightarrow> recovery_ok w (idem_run w es y)" for y
    unfolding idem_run_def by (induction es arbitrary: y) (auto intro: recovery_step)
  moreover have "recovery_ok w (idem_start s t)" by (simp add: recovery_ok_def idem_start_def)
  ultimately show ?thesis by blast
qed

lemma finish_keeps_lease:
  assumes R: "redis_ok R"
    and pr: "stringify (if body = JUndef then JNull else body) = Text v n" "n \<le> max_response_bytes cfg"
    and c: "finish_handler R cfg key fp now stringify (Some body) Up l' s = (st', s')"
    and some: "r_get R s key \<noteq> None"
  shows "r_get R s' key \<noteq> None"
proof
  assume none: "r_get R s' key = None"
  then have "held R s key (claimId fp)"
    using finish_effect [OF R c] some by (auto simp: settled_def)
  then obtain raw u where "r_get R s key = Some raw" "lua_fields raw = Some u" "holds_claim u (claimId fp)"
    by (auto simp: held_def)
  with c pr have "s' = r_set R s key (completed_record fp v (int n) now True) (response_ttl cfg)"
    by (auto simp: finish_handler_def cacheResponse_def call_def FINALIZE_IDEMPOTENCY_SCRIPT_def Let_def)
  with none show False by (simp add: redis_set [OF R])
qed

section \<open>Guarantees\<close>

definition no_stored :: "'s redis \<Rightarrow> 's \<Rightarrow> bool" where
  "no_stored R s \<longleftrightarrow> (\<forall>k. r_get R s k = None)"


definition demo_print :: "nat \<Rightarrow> fingerprint" where
  "demo_print i = \<lparr>claimId = (if i = 0 then ''a'' else ''b''), digest = ''d'', fp_method = ''POST'',
     fp_route = ''/notes'', fp_path = ''/notes'', queryHash = ''q'', bodyHash = ''h''\<rparr>"

definition demo_world :: "(string, stored) jmap idem_world" where
  "demo_world = \<lparr>server = map_redis,
     config = \<lparr>processing_ttl = 60, stale_after_s = 30, response_ttl = 86400, max_response_bytes = 1000\<rparr>,
     json_text = (\<lambda>v. Text v 2), key_of = (\<lambda>_. ''k''), print_of = demo_print\<rparr>"

lemma demo_world_ok: "redis_ok (server demo_world)" "no_stored (server demo_world) []"
  by (simp_all add: demo_world_def map_redis_ok no_stored_def) (simp add: map_redis_def)

definition demo_events :: "idem_event list" where
  "demo_events = [Step 0 Up, Step 1 Up, Finish 0 (Some (JStr ''ok'')) Up Up, Step 1 Up]"

lemmas demo_eval = idem_run_def idem_start_def demo_world_def demo_print_def claimOrRead_step_def call_def
   map_redis_def jm_has_def takeover_def finish_handler_def cacheResponse_def FINALIZE_IDEMPOTENCY_SCRIPT_def
   jm_get_def jm_set_def jm_delete_def processing_record_def completed_record_def holds_claim_def judge_def
   parseIdempotencyRecord_def hasFingerprint_def recordMatches_def MAX_SAFE_INTEGER_def vanished_def




text \<open>
  C17. Replay integrity: a response replayed to a request is one that a handler returned for
  the same key and for a request with the same method, route, path, query, body and digest,
  whatever other requests, failures and takeovers happened in between.
\<close>

theorem replay_integrity:
  assumes "redis_ok (server w)" and "no_stored (server w) s"
    and "sys_req (idem_run w es (idem_start s t)) i = InClaim (Replays b)"
  shows "\<exists>j. key_of w j = key_of w i \<and> same_request (print_of w j) (print_of w i) \<and>
             (j, b) \<in> produced (idem_run w es (idem_start s t))"
proof -
  have "idem_inv w (idem_run w es (idem_start s t))"
    using idem_run_inv [OF assms(1)] assms(2) by (simp add: no_stored_def)
  then show ?thesis
    using assms(3) unfolding idem_inv_def replay_ok_def [symmetric] by (metis state_ok.simps(2))
qed

theorem replay_integrity_witness:
  "\<exists>j. key_of demo_world j = ''k'' \<and>
       (j, JStr ''ok'') \<in> produced (idem_run demo_world demo_events (idem_start [] 1000))"
proof -
  have "sys_req (idem_run demo_world demo_events (idem_start [] 1000)) 1 = InClaim (Replays (JStr ''ok''))"
    by (simp add: demo_eval demo_events_def)
  from replay_integrity [OF demo_world_ok this] show ?thesis by (auto simp: demo_world_def)
qed

text \<open>
  A stored response is final: no event but its expiry changes it, neither a late handler
  whose claim was taken over, nor a release, nor a takeover in progress.
\<close>

theorem stored_response_final:
  assumes "redis_ok (server w)" and "no_stored (server w) s" and "e \<noteq> Expire k"
    and "r_get (server w) (sys_store (idem_run w es (idem_start s t))) k = Some (completed_record fp b n now rep)"
  shows "r_get (server w) (sys_store (idem_step w e (idem_run w es (idem_start s t)))) k =
           Some (completed_record fp b n now rep)"
proof -
  let ?y = "idem_run w es (idem_start s t)"
  have inv: "idem_inv w ?y" using idem_run_inv [OF assms(1)] assms(2) by (simp add: no_stored_def)
  show ?thesis
  proof (cases e)
    case (Step i l)
    show ?thesis
    proof (cases "sys_req ?y i")
      case (InClaim st)
      obtain st' s' where c: "claimOrRead_step (server w) (config w) (key_of w i) (print_of w i) (sys_clock ?y)
          l st (sys_store ?y) = (st', s')" by fastforce
      have "\<not> is_processing (completed_record fp b n now rep)"
        by (auto simp: completed_record_def is_processing_def)
      then have "st = Recovering m now' raw \<Longrightarrow> raw \<noteq> completed_record fp b n now rep" for m now' raw
        using inv InClaim unfolding idem_inv_def by (metis state_ok.simps(1))
      then show ?thesis
        using claim_effect(1,2) [OF assms(1) c] c InClaim Step assms(4) by (cases "k = key_of w i") auto
    qed (use Step assms(4) in simp_all)
  next
    case (Finish i result l l')
    obtain st' s' where c: "finish_handler (server w) (config w) (key_of w i) (print_of w i) (sys_clock ?y)
        (json_text w) result l l' (sys_store ?y) = (st', s')" by fastforce
    have "\<not> held (server w) (sys_store ?y) k cid" for cid
      using lua_completed [of fp b n now rep cid] assms(4) by (auto simp: held_def)
    then show ?thesis
      using finish_effect [OF assms(1) c] c Finish assms(4) by (cases "k = key_of w i") (auto simp: settled_def)
  qed (use assms in \<open>auto simp: redis_del\<close>)
qed

theorem stored_response_final_witness:
  "r_get map_redis (sys_store (idem_step demo_world (Step 1 Up)
     (idem_run demo_world [Step 0 Up, Finish 0 (Some (JStr ''ok'')) Up Up] (idem_start [] 1000)))) ''k'' =
   Some (completed_record (demo_print 0) (JStr ''ok'') 2 1000 True)"
proof -
  have "r_get (server demo_world) (sys_store
     (idem_run demo_world [Step 0 Up, Finish 0 (Some (JStr ''ok'')) Up Up] (idem_start [] 1000))) ''k'' =
     Some (completed_record (demo_print 0) (JStr ''ok'') 2 1000 True)"
    by (simp add: demo_eval)
  from stored_response_final [OF demo_world_ok _ this, of "Step 1 Up"]
  show ?thesis by (simp add: demo_world_def)
qed

section \<open>One request on its own\<close>

text \<open>All commands of one claim, with nobody in between and a working connection.\<close>

fun claimOrRead :: "'s redis \<Rightarrow> idem_config \<Rightarrow> string \<Rightarrow> fingerprint \<Rightarrow> int \<Rightarrow> nat \<Rightarrow> claim_state \<times> 's \<Rightarrow> claim_state \<times> 's" where
  "claimOrRead R cfg key fp clock 0 x = x"
| "claimOrRead R cfg key fp clock (Suc n) (st, s) =
     claimOrRead R cfg key fp clock n (claimOrRead_step R cfg key fp clock Up st s)"

fun settled_claim :: "claim_state \<Rightarrow> bool" where
  "settled_claim (Claiming _) = False"
| "settled_claim (Reading _ _) = False"
| "settled_claim (Recovering _ _ _) = False"
| "settled_claim _ = True"

lemma claimOrRead_settled: "settled_claim st \<Longrightarrow> claimOrRead R cfg key fp clock n (st, s) = (st, s)"
  by (induction n) (cases st; simp add: claimOrRead_step_def)+

text \<open>Commands still to come, at most.\<close>

fun claim_rank :: "claim_state \<Rightarrow> nat" where
  "claim_rank (Claiming n) = 3 * (3 - n)"
| "claim_rank (Reading n _) = 3 * (3 - n) - 1"
| "claim_rank (Recovering n _ _) = 3 * (3 - n) - 2"
| "claim_rank _ = 0"

fun attempt_ok :: "claim_state \<Rightarrow> bool" where
  "attempt_ok (Claiming n) = (n \<le> 2)"
| "attempt_ok (Reading n _) = (n \<le> 2)"
| "attempt_ok (Recovering n _ _) = (n \<le> 2)"
| "attempt_ok _ = True"

lemma judge_rank: "n \<le> 2 \<Longrightarrow> attempt_ok (judge cfg fp n now raw) \<and> claim_rank (judge cfg fp n now raw) < 3 * (3 - n) - 1"
  by (auto simp: judge_def Let_def split: option.splits js.splits)

lemma claim_rank_step:
  assumes "attempt_ok st" and "claimOrRead_step R cfg key fp clock l st s = (st', s')"
  shows "attempt_ok st' \<and> (\<not> settled_claim st \<longrightarrow> claim_rank st' < claim_rank st) \<and> (settled_claim st \<longrightarrow> st' = st)"
proof (cases st)
  case (Claiming n)
  with assms show ?thesis
    by (auto simp: claimOrRead_step_def split: prod.splits option.splits bool.splits)
next
  case (Reading n now)
  with assms judge_rank [of n cfg fp now] show ?thesis
    by (auto simp: claimOrRead_step_def retryClaim_def split: prod.splits option.splits if_splits)
next
  case (Recovering n now raw)
  with assms show ?thesis
    by (auto simp: claimOrRead_step_def retryClaim_def split: prod.splits option.splits if_splits)
qed (use assms in \<open>auto simp: claimOrRead_step_def\<close>)

fun claim_trace ::
  "'s redis \<Rightarrow> idem_config \<Rightarrow> string \<Rightarrow> fingerprint \<Rightarrow> (int \<times> link \<times> 's) list \<Rightarrow> claim_state \<Rightarrow> claim_state" where
  "claim_trace R cfg key fp [] st = st"
| "claim_trace R cfg key fp ((clock, l, s) # xs) st =
     claim_trace R cfg key fp xs (fst (claimOrRead_step R cfg key fp clock l st s))"

lemma claim_trace_settles:
  "attempt_ok st \<Longrightarrow> claim_rank st \<le> length xs \<Longrightarrow> settled_claim (claim_trace R cfg key fp xs st)"
proof (induction xs arbitrary: st)
  case Nil
  then show ?case by (cases st) auto
next
  case (Cons x xs)
  obtain clock l s where x: "x = (clock, l, s)" by (cases x)
  obtain st' s' where st': "claimOrRead_step R cfg key fp clock l st s = (st', s')" by fastforce
  have "attempt_ok st'" and "claim_rank st' \<le> length xs"
    using claim_rank_step [OF Cons.prems(1) st'] Cons.prems(2) by (cases "settled_claim st"; cases st; auto)+
  with Cons.IH show ?case by (simp add: x st')
qed

text \<open>
  C36. \<open>claimOrRead\<close> returns: whatever the store holds at each of its commands, however the
  clock moves and whichever replies are lost, nine commands settle every claim.
\<close>

theorem claim_terminates:
  assumes "9 \<le> length xs"
  shows "settled_claim (claim_trace R cfg key fp xs (Claiming 0))"
  by (rule claim_trace_settles) (use assms in simp_all)

theorem claim_terminates_witness:
  "settled_claim (claim_trace map_redis (config demo_world) ''k'' (demo_print 0)
     (replicate 9 (0, Up, [(''k'', NotJson [])])) (Claiming 0))"
  by (rule claim_terminates) simp

definition fingerprint_ok :: "fingerprint \<Rightarrow> bool" where
  "fingerprint_ok fp \<longleftrightarrow> claimId fp \<noteq> [] \<and> digest fp \<noteq> [] \<and> fp_method fp \<noteq> [] \<and> fp_route fp \<noteq> [] \<and>
     fp_path fp \<noteq> [] \<and> queryHash fp \<noteq> [] \<and> bodyHash fp \<noteq> []"

definition time_ok :: "int \<Rightarrow> bool" where
  "time_ok t \<longleftrightarrow> 0 < t \<and> t \<le> MAX_SAFE_INTEGER"

lemma parse_processing:
  "fingerprint_ok fp \<Longrightarrow> time_ok t \<Longrightarrow> \<exists>v. parseIdempotencyRecord (processing_record fp t) = Some v"
  by (simp add: parseIdempotencyRecord_def processing_record_def fingerprint_ok_def time_ok_def
      hasFingerprint_def Let_def)

lemma parse_completed:
  "fingerprint_ok fp \<Longrightarrow> time_ok t \<Longrightarrow> time_ok (n + 1) \<Longrightarrow>
     \<exists>v. parseIdempotencyRecord (completed_record fp b n t rep) = Some v"
  by (simp add: parseIdempotencyRecord_def completed_record_def fingerprint_ok_def time_ok_def
      hasFingerprint_def Let_def)

lemma judge_processing:
  assumes "fingerprint_ok fp'" and "time_ok t"
  shows "judge cfg fp n now (processing_record fp' t) =
    (if \<not> same_request fp' fp then Refused KEY_REUSED
     else if now - t < stale_after_s cfg * 1000 then Refused (idempotencyInProgress cfg (now - t))
     else Recovering n now (processing_record fp' t))"
proof -
  obtain v where v: "parseIdempotencyRecord (processing_record fp' t) = Some v"
    using parse_processing [OF assms] by blast
  show ?thesis
    using processing_record_get [OF v] by (auto simp: judge_def Let_def v record_matches(1) [OF v])
qed

lemma judge_completed:
  assumes "fingerprint_ok fp'" and "time_ok t" and "time_ok (m + 1)"
  shows "judge cfg fp n now (completed_record fp' b m t rep) =
    (if \<not> same_request fp' fp then Refused KEY_REUSED
     else if rep then Replays b else Refused RESPONSE_UNAVAILABLE)"
proof -
  obtain v where v: "parseIdempotencyRecord (completed_record fp' b m t rep) = Some v"
    using parse_completed [OF assms] by blast
  show ?thesis
    using completed_record_get [OF v] by (auto simp: judge_def v record_matches(2) [OF v])
qed

lemma claim_present:
  assumes "redis_ok R" and "r_get R s key = Some raw" and "raw \<noteq> NotJson []"
  shows "\<exists>s'. (\<forall>k. r_get R s' k = r_get R s k) \<and>
     claimOrRead R cfg key fp clock (Suc (Suc n)) (Claiming 0, s) =
     claimOrRead R cfg key fp clock n (judge cfg fp 0 clock raw, s')"
proof -
  obtain b s' where x: "r_setnx R s key (processing_record fp clock) (processing_ttl cfg) = (b, s')" by fastforce
  with assms have b: "\<not> b" and same: "\<forall>k. r_get R s' k = r_get R s k" by (auto dest!: setnx_result)
  have "claimOrRead_step R cfg key fp clock Up (Claiming 0) s = (Reading 0 clock, s')"
    using x b by (simp add: claimOrRead_step_def call_def)
  moreover have "claimOrRead_step R cfg key fp clock Up (Reading 0 clock) s' = (judge cfg fp 0 clock raw, s')"
    using assms same by (simp add: claimOrRead_step_def call_def)
  ultimately show ?thesis
    using same by (intro exI [of _ s']) (simp only: claimOrRead.simps simp_thms)
qed

text \<open>
  What a request on its own gets, for every record a request can have left at its key:
  the right to run if there is none; the stored response if an identical request completed;
  a refusal with the remaining wait if one is running; the right to run, by takeover, if that
  one is stale; a conflict if the key was used for a different request or if the response
  could not be stored.
\<close>

theorem claim_verdicts:
  assumes R: "redis_ok R" and "fingerprint_ok fp'" and "time_ok t" and "time_ok (m + 1)"
  shows "(r_get R s key = None \<longrightarrow> fst (claimOrRead R cfg key fp clock 9 (Claiming 0, s)) = Claimed) \<and>
    (r_get R s key = Some (processing_record fp' t) \<longrightarrow>
       fst (claimOrRead R cfg key fp clock 9 (Claiming 0, s)) =
       (if \<not> same_request fp' fp then Refused KEY_REUSED
        else if clock - t < stale_after_s cfg * 1000
        then Refused (REQUEST_IN_PROGRESS (max 0 (stale_after_s cfg - (clock - t) div 1000) * 1000))
        else Claimed)) \<and>
    (r_get R s key = Some (completed_record fp' b m t rep) \<longrightarrow>
       fst (claimOrRead R cfg key fp clock 9 (Claiming 0, s)) =
       (if \<not> same_request fp' fp then Refused KEY_REUSED
        else if rep then Replays b else Refused RESPONSE_UNAVAILABLE))"
proof (intro conjI impI)
  assume n: "r_get R s key = None"
  obtain b s' where x: "r_setnx R s key (processing_record fp clock) (processing_ttl cfg) = (b, s')" by fastforce
  with R n have "claimOrRead_step R cfg key fp clock Up (Claiming 0) s = (Claimed, s')"
    by (auto simp: claimOrRead_step_def call_def dest!: setnx_result)
  then have "claimOrRead R cfg key fp clock (Suc 8) (Claiming 0, s) = (Claimed, s')"
    by (simp only: claimOrRead.simps claimOrRead_settled settled_claim.simps)
  then show "fst (claimOrRead R cfg key fp clock 9 (Claiming 0, s)) = Claimed" by simp
next
  assume p: "r_get R s key = Some (processing_record fp' t)"
  obtain s' where s': "\<forall>k. r_get R s' k = r_get R s k" and
    run: "claimOrRead R cfg key fp clock (Suc (Suc 7)) (Claiming 0, s) =
      claimOrRead R cfg key fp clock (Suc 6) (judge cfg fp 0 clock (processing_record fp' t), s')"
    using claim_present [OF R p, of cfg fp clock 7] by (auto simp: processing_record_def)
  show "fst (claimOrRead R cfg key fp clock 9 (Claiming 0, s)) =
      (if \<not> same_request fp' fp then Refused KEY_REUSED
        else if clock - t < stale_after_s cfg * 1000
        then Refused (REQUEST_IN_PROGRESS (max 0 (stale_after_s cfg - (clock - t) div 1000) * 1000))
        else Claimed)"
  proof (cases "same_request fp' fp \<and> \<not> clock - t < stale_after_s cfg * 1000")
    case True
    have "claimOrRead_step R cfg key fp clock Up (Recovering 0 clock (processing_record fp' t)) s' =
        (Claimed, r_set R s' key (processing_record fp clock) (processing_ttl cfg))"
      using p s' by (simp add: claimOrRead_step_def call_def RECOVER_IDEMPOTENCY_SCRIPT_def)
    then have "claimOrRead R cfg key fp clock (Suc 6) (Recovering 0 clock (processing_record fp' t), s') =
        (Claimed, r_set R s' key (processing_record fp clock) (processing_ttl cfg))"
      by (simp only: claimOrRead.simps claimOrRead_settled settled_claim.simps)
    with True run show ?thesis
      using judge_processing [OF assms(2,3), of cfg fp 0 clock] by simp
  next
    case False
    with run show ?thesis
      using judge_processing [OF assms(2,3), of cfg fp 0 clock]
      by (simp add: claimOrRead_settled idempotencyInProgress_def)
  qed
next
  assume p: "r_get R s key = Some (completed_record fp' b m t rep)"
  obtain s' where
    run: "claimOrRead R cfg key fp clock (Suc (Suc 7)) (Claiming 0, s) =
      claimOrRead R cfg key fp clock 7 (judge cfg fp 0 clock (completed_record fp' b m t rep), s')"
    using claim_present [OF R p, of cfg fp clock 7] by (auto simp: completed_record_def)
  then show "fst (claimOrRead R cfg key fp clock 9 (Claiming 0, s)) =
       (if \<not> same_request fp' fp then Refused KEY_REUSED
        else if rep then Replays b else Refused RESPONSE_UNAVAILABLE)"
    using judge_completed [OF assms(2,3,4), of cfg fp 0 clock b rep] by (simp add: claimOrRead_settled)
qed

theorem claim_verdicts_witness:
  "fst (claimOrRead map_redis (config demo_world) ''k'' (demo_print 1) 2000 9
     (Claiming 0, [(''k'', completed_record (demo_print 0) (JStr ''ok'') 4 1000 True)])) = Replays (JStr ''ok'')"
proof -
  have "fingerprint_ok (demo_print 0)" by (simp add: fingerprint_ok_def demo_print_def)
  moreover have "time_ok 1000" "time_ok (4 + 1)" by (simp_all add: time_ok_def MAX_SAFE_INTEGER_def)
  moreover have "same_request (demo_print 0) (demo_print 1)" by (simp add: same_request_def demo_print_def)
  moreover have "r_get map_redis [(''k'', v)] ''k'' = Some v" for v by (simp add: map_redis_def jm_get_def)
  ultimately show ?thesis
    using claim_verdicts [OF map_redis_ok, of "demo_print 0" 1000 4
        "[(''k'', completed_record (demo_print 0) (JStr ''ok'') 4 1000 True)]" "''k''"
        "config demo_world" "demo_print 1" 2000 "JStr ''ok''" True] by simp
qed

end
