(* ===== verification/Fingerprints.thy ===== *)
theory Fingerprints
  imports Idempotency
begin

text \<open>
  What identifies a request: the fingerprint does not depend on the order in which a client
  writes the properties of its JSON, and the Redis key keeps tenants, actors and client keys
  apart as long as tenant and actor contain no colon.
\<close>

section \<open>The order on property names\<close>

lemma str_le_refl: "str_le s s"
  by (induction s) auto

lemma str_le_trans: "str_le s t \<Longrightarrow> str_le t u \<Longrightarrow> str_le s u"
proof (induction s t arbitrary: u rule: str_le.induct)
  case (3 c s d t)
  then show ?case by (cases u) auto
qed (auto elim: str_le.elims)

lemma of_char_nat_eq: "(of_char c :: nat) = of_char d \<longleftrightarrow> c = d"
  by (rule of_char_eq_iff)

lemma str_le_antisym: "str_le s t \<Longrightarrow> str_le t s \<Longrightarrow> s = t"
  by (induction s t rule: str_le.induct) (auto elim: str_le.elims)

lemma str_le_total: "str_le s t \<or> str_le t s"
proof (induction s t rule: str_le.induct)
  case (3 c s d t)
  then show ?case
    using of_char_nat_eq [of c d] by (cases "(of_char c :: nat)" "(of_char d :: nat)" rule: linorder_cases) auto
qed auto

lemma insert_field_commute:
  "fst f \<noteq> fst g \<Longrightarrow> insert_field f (insert_field g fs) = insert_field g (insert_field f fs)"
proof (induction fs)
  case Nil
  then show ?case using str_le_total str_le_antisym by fastforce
next
  case (Cons h hs)
  then show ?case
    using str_le_total [of "fst f" "fst g"] str_le_antisym [of "fst f" "fst g"]
      str_le_trans [of "fst f" "fst g" "fst h"] str_le_trans [of "fst g" "fst f" "fst h"]
    by auto
qed

lemma sort_fields_swap:
  "fst f \<noteq> fst g \<Longrightarrow> sort_fields (xs @ f # g # ys) = sort_fields (xs @ g # f # ys)"
  by (induction xs) (auto simp: insert_field_commute)

section \<open>Equal up to the order of properties\<close>

inductive reordered :: "js \<Rightarrow> js \<Rightarrow> bool" where
  same: "reordered v v"
| swap: "k \<noteq> k' \<Longrightarrow> reordered (JObj (xs @ (k, v) # (k', v') # ys)) (JObj (xs @ (k', v') # (k, v) # ys))"
| element: "reordered v v' \<Longrightarrow> reordered (JArr (xs @ v # ys)) (JArr (xs @ v' # ys))"
| field: "reordered v v' \<Longrightarrow> reordered (JObj (xs @ (k, v) # ys)) (JObj (xs @ (k, v') # ys))"
| trans: "reordered u v \<Longrightarrow> reordered v w \<Longrightarrow> reordered u w"

lemma normalize_reordered: "reordered v w \<Longrightarrow> js_normalize v = js_normalize w"
  by (induction rule: reordered.induct) (simp_all add: sort_fields_swap)

lemma reordered_nullish: "reordered v w \<Longrightarrow> nullish v d = v \<and> nullish w d = w \<or> v = w"
proof (induction rule: reordered.induct)
  case (trans u v w)
  then show ?case by (cases u; cases v; cases w) auto
qed auto

text \<open>
  The fingerprint identifies the request, not its spelling: two requests that differ only in
  the order of object properties, at any depth of the query or the body, have the same
  fingerprint apart from the claim id, so the second is answered from the first.
\<close>

theorem fingerprint_ignores_key_order:
  assumes "reordered (hr_query r) q" and "reordered (hr_body r) b"
  shows "requestFingerprint print sha uuid (r\<lparr>hr_query := q, hr_body := b\<rparr>) =
         requestFingerprint print sha uuid r"
proof -
  have "js_normalize (nullish q (JObj [])) = js_normalize (nullish (hr_query r) (JObj []))"
    using reordered_nullish [OF assms(1), of "JObj []"] normalize_reordered [OF assms(1)] by auto
  then show ?thesis
    using normalize_reordered [OF assms(2)] by (simp add: requestFingerprint_def)
qed

definition post_note :: http_request where
  "post_note = \<lparr>hr_method = Some ''post'', hr_route = Some ''/notes'', hr_url = Some ''/notes?x=1'',
     hr_query = JObj [(''x'', JStr ''1'')],
     hr_body = JObj [(''title'', JStr ''t''), (''body'', JObj [(''b'', JNum 1), (''a'', JNum 2)])]\<rparr>"

theorem fingerprint_ignores_key_order_witness:
  "requestFingerprint (\<lambda>v. ''printed'') (rotate 1) ''uuid'' (post_note\<lparr>hr_query := JObj [(''x'', JStr ''1'')],
       hr_body := JObj [(''title'', JStr ''t''), (''body'', JObj [(''a'', JNum 2), (''b'', JNum 1)])]\<rparr>) =
   requestFingerprint (\<lambda>v. ''printed'') (rotate 1) ''uuid'' post_note"
proof (rule fingerprint_ignores_key_order)
  have "reordered (JObj ([] @ (''b'', JNum 1) # (''a'', JNum 2) # [])) (JObj ([] @ (''a'', JNum 2) # (''b'', JNum 1) # []))"
    by (rule swap) simp
  then have "reordered (JObj [(''b'', JNum 1), (''a'', JNum 2)]) (JObj [(''a'', JNum 2), (''b'', JNum 1)])" by simp
  from field [OF this, of "[(''title'', JStr ''t'')]" "''body''" "[]"]
  show "reordered (hr_body post_note)
      (JObj [(''title'', JStr ''t''), (''body'', JObj [(''a'', JNum 2), (''b'', JNum 1)])])"
    by (simp add: post_note_def)
qed (simp add: post_note_def reordered.same)

section \<open>Redis keys\<close>

lemma colon_free_split:
  "CHR '':'' \<notin> set a \<Longrightarrow> CHR '':'' \<notin> set b \<Longrightarrow> a @ CHR '':'' # u = b @ CHR '':'' # u' \<longleftrightarrow> a = b \<and> u = u'"
  by (auto simp: append_eq_append_conv2 Cons_eq_append_conv append_eq_Cons_conv)

text \<open>
  Idempotency keys are private to a tenant and an actor: with a valid header, the request
  uses a Redis key from which tenant, actor and client key can be read back, provided tenant
  and actor contain no colon, so two callers never share a record. (An anonymous caller's
  actor is its IP address; for IPv6 the premise fails.)
\<close>

theorem idempotency_scope:
  assumes "intercept_gate True (JStr key) True production (Some t) (Some u) ip = UseKey k"
    and "intercept_gate True (JStr key') True production' (Some t') (Some u') ip' = UseKey k'"
    and "t \<noteq> []" "u \<noteq> []" "t' \<noteq> []" "u' \<noteq> []"
    and "CHR '':'' \<notin> set t \<union> set u \<union> set t' \<union> set u'"
  shows "k = k' \<longleftrightarrow> t = t' \<and> u = u' \<and> key = key'"
  using assms colon_free_split [of t t'] colon_free_split [of u u']
  by (auto simp: intercept_gate_def cache_key_def or_else_def split: if_splits)

theorem idempotency_scope_witness:
  "cache_key ''t1'' ''u1'' ''a'' \<noteq> cache_key ''t1'' ''u2'' ''a''"
  using idempotency_scope [of "''a''" True "''t1''" "''u1''" None "cache_key ''t1'' ''u1'' ''a''"
      "''a''" True "''t1''" "''u2''" None "cache_key ''t1'' ''u2'' ''a''"]
  by (simp add: intercept_gate_def or_else_def assertValidKey_def MAX_IDEMPOTENCY_KEY_LENGTH_def
      VALID_IDEMPOTENCY_KEY_def key_char_def)

text \<open>Two anonymous IPv6 callers whose keys name the same record.\<close>

lemma anonymous_ipv6_collision:
  "intercept_gate True (JStr ''2:k'') True True None None (Some ''fe80::1'') =
   intercept_gate True (JStr ''k'') True True None None (Some ''fe80::1:2'')"
  by (simp add: intercept_gate_def or_else_def assertValidKey_def MAX_IDEMPOTENCY_KEY_LENGTH_def
      VALID_IDEMPOTENCY_KEY_def key_char_def cache_key_def)

end
