(* ===== verification/RedisLock.thy ===== *)
theory RedisLock
  imports RedisStore
begin

text \<open>
  The distributed lock, \<open>apps/api/src/infrastructure/redis/redis-lock.service.ts\<close>: \<open>acquire\<close>
  with its release and renewal scripts, and \<open>withLock\<close> as a machine per caller whose steps are
  the points where the code awaits: taking the lock, a heartbeat, the end of the callback.
  Tokens are random UUIDs; that they differ is the premise of the guarantees.
\<close>

definition lock_key :: "string \<Rightarrow> string" where
  "lock_key key = ''lock:'' @ key"

definition RELEASE_LUA_SCRIPT :: "'s redis \<Rightarrow> string \<Rightarrow> string \<Rightarrow> 's \<Rightarrow> nat \<times> 's" where
  "RELEASE_LUA_SCRIPT R key token s =
    (if r_get R s key = Some (NotJson token) then r_del R s key else (0, s))"

definition RENEW_LUA_SCRIPT :: "'s redis \<Rightarrow> string \<Rightarrow> string \<Rightarrow> nat \<Rightarrow> 's \<Rightarrow> nat \<times> 's" where
  "RENEW_LUA_SCRIPT R key token ttl s =
    (if r_get R s key = Some (NotJson token) then r_pexpire R s key ttl else (0, s))"

text \<open>
  Without a client nothing is acquired. An error of the call is a lock not acquired, although
  the command may have run and its reply got lost.
\<close>

definition acquire :: "'s redis \<Rightarrow> bool \<Rightarrow> string \<Rightarrow> string \<Rightarrow> nat \<Rightarrow> link \<Rightarrow> 's \<Rightarrow> bool \<times> 's" where
  "acquire R client key token ttlMs l s =
    (if \<not> client then (False, s)
     else (case call l (\<lambda>s. r_setnx R s (lock_key key) (NotJson token) ttlMs) s of
             (Some True, s') \<Rightarrow> (True, s')
           | (_, s') \<Rightarrow> (False, s')))"

definition lock_release :: "'s redis \<Rightarrow> bool \<Rightarrow> string \<Rightarrow> string \<Rightarrow> link \<Rightarrow> 's \<Rightarrow> 's" where
  "lock_release R client key token l s =
    (if \<not> client then s else snd (call l (RELEASE_LUA_SCRIPT R (lock_key key) token) s))"

definition lock_renew :: "'s redis \<Rightarrow> bool \<Rightarrow> string \<Rightarrow> string \<Rightarrow> nat \<Rightarrow> link \<Rightarrow> 's \<Rightarrow> bool \<times> 's" where
  "lock_renew R client key token ttlMs l s =
    (if \<not> client then (False, s)
     else (case call l (RENEW_LUA_SCRIPT R (lock_key key) token ttlMs) s of
             (Some n, s') \<Rightarrow> (n = 1, s')
           | (None, s') \<Rightarrow> (False, s')))"

definition heartbeat_interval :: "nat \<Rightarrow> nat" where
  "heartbeat_interval ttlMs = max 1000 (ttlMs div 3)"

text \<open>
  One call of \<open>withLock\<close>: before \<open>acquire\<close>, not executed, running the callback, aborted while
  the callback may still run, and returned. A heartbeat that is pending or comes after the
  abort does nothing, so that one event covers a renewal.
\<close>

datatype lock_phase =
    Waiting
  | NotExecuted
  | Running
  | Aborted
  | Returned

datatype lock_event =
    Acquire nat bool link
  | Heartbeat nat bool link
  | Return nat bool link
  | Lapse string

record 's lock_world =
  lw_redis :: "'s redis"
  lw_key :: "nat \<Rightarrow> string"
  lw_token :: "nat \<Rightarrow> string"
  lw_ttl :: nat

record 's lock_sys =
  ls_store :: 's
  ls_phase :: "nat \<Rightarrow> lock_phase"
  ls_lapses :: "string \<Rightarrow> nat"

fun lock_step :: "'s lock_world \<Rightarrow> lock_event \<Rightarrow> 's lock_sys \<Rightarrow> 's lock_sys" where
  "lock_step w (Acquire i client l) y =
    (if ls_phase y i \<noteq> Waiting then y
     else (case acquire (lw_redis w) client (lw_key w i) (lw_token w i) (lw_ttl w) l (ls_store y) of
             (acquired, s') \<Rightarrow>
               y\<lparr>ls_store := s', ls_phase := (ls_phase y)(i := if acquired then Running else NotExecuted)\<rparr>))"
| "lock_step w (Heartbeat i client l) y =
    (if ls_phase y i \<noteq> Running then y
     else (case lock_renew (lw_redis w) client (lw_key w i) (lw_token w i) (lw_ttl w) l (ls_store y) of
             (renewed, s') \<Rightarrow>
               y\<lparr>ls_store := s', ls_phase := (ls_phase y)(i := if renewed then Running else Aborted)\<rparr>))"
| "lock_step w (Return i client l) y =
    (if ls_phase y i \<noteq> Running \<and> ls_phase y i \<noteq> Aborted then y
     else y\<lparr>ls_store := lock_release (lw_redis w) client (lw_key w i) (lw_token w i) l (ls_store y),
            ls_phase := (ls_phase y)(i := Returned)\<rparr>)"
| "lock_step w (Lapse key) y =
    y\<lparr>ls_store := snd (r_del (lw_redis w) (ls_store y) (lock_key key)),
      ls_lapses := (ls_lapses y)(key := ls_lapses y key + 1)\<rparr>"

definition lock_start :: "'s \<Rightarrow> 's lock_sys" where
  "lock_start s = \<lparr>ls_store = s, ls_phase = (\<lambda>_. Waiting), ls_lapses = (\<lambda>_. 0)\<rparr>"

definition lock_run :: "'s lock_world \<Rightarrow> lock_event list \<Rightarrow> 's lock_sys \<Rightarrow> 's lock_sys" where
  "lock_run w es y = fold (lock_step w) es y"

section \<open>Ownership\<close>

definition owns :: "'s lock_world \<Rightarrow> 's lock_sys \<Rightarrow> nat \<Rightarrow> bool" where
  "owns w y i \<longleftrightarrow> r_get (lw_redis w) (ls_store y) (lock_key (lw_key w i)) = Some (NotJson (lw_token w i))"

text \<open>
  The callers of a key that run, counting an aborted one until it returns, are at most one more
  than the lapses; and while nothing lapsed, a running caller owns the key.
\<close>

definition lock_inv :: "'s lock_world \<Rightarrow> 's lock_sys \<Rightarrow> bool" where
  "lock_inv w y \<longleftrightarrow>
     (\<forall>i. ls_lapses y (lw_key w i) = 0 \<and> ls_phase y i \<in> {Running, Aborted} \<longrightarrow> owns w y i)"

lemma lock_key_inj [simp]: "lock_key a = lock_key b \<longleftrightarrow> a = b"
  by (simp add: lock_key_def)

lemma acquire_effect:
  assumes "redis_ok R" and "acquire R client key token ttl l s = (b, s')"
  shows "k' \<noteq> lock_key key \<Longrightarrow> r_get R s' k' = r_get R s k'"
    and "r_get R s (lock_key key) \<noteq> None \<Longrightarrow> \<not> b \<and> r_get R s' (lock_key key) = r_get R s (lock_key key)"
    and "b \<Longrightarrow> r_get R s' (lock_key key) = Some (NotJson token)"
  using assms(2)
  by (auto simp: acquire_def call_def redis_setnx [OF assms(1)] dest!: setnx_result [OF assms(1)]
      split: if_splits link.splits prod.splits option.splits bool.splits)

lemma renew_effect:
  assumes "redis_ok R" and "lock_renew R client key token ttl l s = (b, s')"
  shows "r_get R s' k' = r_get R s k'"
    and "b \<Longrightarrow> r_get R s (lock_key key) = Some (NotJson token)"
proof -
  have p: "r_get R (snd (r_pexpire R s k t)) k' = r_get R s k'" for k t k'
    using redis_pexpire(2) [OF assms(1)] .
  then have p': "r_pexpire R s k t = (n, s1) \<Longrightarrow> r_get R s1 k' = r_get R s k'" for k t n s1 k'
    by (metis snd_conv)
  show "r_get R s' k' = r_get R s k'"
    using assms(2) by (auto simp: lock_renew_def call_def RENEW_LUA_SCRIPT_def p p'
        split: if_splits link.splits prod.splits option.splits)
  show "b \<Longrightarrow> r_get R s (lock_key key) = Some (NotJson token)"
    using assms(2) by (auto simp: lock_renew_def call_def RENEW_LUA_SCRIPT_def
        split: if_splits link.splits prod.splits option.splits)
qed

lemma lock_release_effect:
  assumes "redis_ok R"
  shows "k' \<noteq> lock_key key \<or> r_get R s (lock_key key) \<noteq> Some (NotJson token) \<Longrightarrow>
    r_get R (lock_release R client key token l s) k' = r_get R s k'"
  using redis_del(2) [OF assms]
  by (auto simp: lock_release_def call_def RELEASE_LUA_SCRIPT_def dest!: del_result [OF assms]
      split: link.splits prod.splits)

lemma lock_step_inv:
  assumes R: "redis_ok (lw_redis w)" and tok: "inj (lw_token w)" and inv: "lock_inv w y"
  shows "lock_inv w (lock_step w e y)"
proof (cases e)
  case (Acquire i client l)
  obtain b s' where a: "acquire (lw_redis w) client (lw_key w i) (lw_token w i) (lw_ttl w) l (ls_store y) = (b, s')"
    by fastforce
  note eff = acquire_effect [OF R a]
  have "r_get (lw_redis w) s' (lock_key (lw_key w j)) = Some (NotJson (lw_token w j))"
    if "j \<noteq> i" "ls_lapses y (lw_key w j) = 0" "ls_phase y j \<in> {Running, Aborted}" for j
  proof -
    have "owns w y j" using inv that unfolding lock_inv_def by blast
    then show ?thesis using eff(1,2) unfolding owns_def by (cases "lw_key w j = lw_key w i") auto
  qed
  with Acquire a eff(3) inv show ?thesis
    by (auto simp: lock_inv_def owns_def)
next
  case (Heartbeat i client l)
  obtain b s' where a: "lock_renew (lw_redis w) client (lw_key w i) (lw_token w i) (lw_ttl w) l (ls_store y) = (b, s')"
    by fastforce
  with Heartbeat inv renew_effect(1) [OF R a] show ?thesis
    by (auto simp: lock_inv_def owns_def)
next
  case (Return i client l)
  let ?s = "lock_release (lw_redis w) client (lw_key w i) (lw_token w i) l (ls_store y)"
  have "r_get (lw_redis w) ?s (lock_key (lw_key w j)) = Some (NotJson (lw_token w j))"
    if "j \<noteq> i" "ls_lapses y (lw_key w j) = 0" "ls_phase y j \<in> {Running, Aborted}" for j
  proof -
    have o': "owns w y j" using inv that unfolding lock_inv_def by blast
    moreover have "lw_token w j \<noteq> lw_token w i" using that(1) tok by (simp add: inj_eq)
    ultimately show ?thesis
      using lock_release_effect [OF R, of "lock_key (lw_key w j)" "lw_key w i" "ls_store y" "lw_token w i" client l]
      by (cases "lw_key w j = lw_key w i") (auto simp: owns_def)
  qed
  with Return inv show ?thesis by (auto simp: lock_inv_def owns_def)
next
  case (Lapse key)
  with inv show ?thesis by (auto simp: lock_inv_def owns_def redis_del(2) [OF R])
qed

lemma lock_run_inv:
  assumes "redis_ok (lw_redis w)" and "inj (lw_token w)"
  shows "lock_inv w (lock_run w es (lock_start s))"
proof -
  have "lock_inv w y \<Longrightarrow> lock_inv w (lock_run w es y)" for y
    unfolding lock_run_def by (induction es arbitrary: y) (auto intro: lock_step_inv [OF assms])
  moreover have "lock_inv w (lock_start s)" by (simp add: lock_inv_def lock_start_def)
  ultimately show ?thesis by blast
qed

section \<open>Guarantees\<close>


definition demo_locks :: "(string, stored) jmap lock_world" where
  "demo_locks = \<lparr>lw_redis = map_redis, lw_key = (\<lambda>_. ''job''), lw_token = (\<lambda>i. replicate i CHR ''x''), lw_ttl = 60000\<rparr>"

lemma demo_locks_ok: "redis_ok (lw_redis demo_locks)" "inj (lw_token demo_locks)"
  by (auto simp: demo_locks_def map_redis_ok inj_def dest: arg_cong [where f = length])

lemmas lock_eval = lock_run_def lock_start_def demo_locks_def acquire_def call_def lock_key_def map_redis_def
  jm_has_def jm_get_def jm_set_def jm_delete_def lock_renew_def lock_release_def RENEW_LUA_SCRIPT_def
  RELEASE_LUA_SCRIPT_def owns_def


text \<open>
  A caller that lost the lock can do no harm to its successor and finds out: while \<open>j\<close>
  owns a lock, no acquisition, heartbeat or return of another caller changes that; a running
  caller that does not own its lock is aborted by its next heartbeat, whether or not Redis
  answers; and an owner's return over a working connection frees the lock.
\<close>

theorem lock_ownership:
  assumes "redis_ok (lw_redis w)" and "inj (lw_token w)"
  shows "(owns w y j \<and> e \<noteq> Lapse (lw_key w j) \<and> (\<forall>c l. e \<noteq> Return j c l) \<longrightarrow> owns w (lock_step w e y) j) \<and>
    (ls_phase y i = Running \<and> \<not> owns w y i \<longrightarrow> ls_phase (lock_step w (Heartbeat i client l) y) i = Aborted) \<and>
    (ls_phase y i = Running \<and> owns w y i \<longrightarrow>
       r_get (lw_redis w) (ls_store (lock_step w (Return i True Up) y)) (lock_key (lw_key w i)) = None)"
proof (intro conjI impI; (elim conjE)?)
  assume o': "owns w y j" and e: "e \<noteq> Lapse (lw_key w j)" "\<forall>c l. e \<noteq> Return j c l"
  show "owns w (lock_step w e y) j"
  proof (cases e)
    case (Acquire i client l)
    obtain b s' where a: "acquire (lw_redis w) client (lw_key w i) (lw_token w i) (lw_ttl w) l (ls_store y) = (b, s')"
      by fastforce
    with Acquire o' acquire_effect(1,2) [OF assms(1) a] show ?thesis
      by (cases "lw_key w j = lw_key w i") (auto simp: owns_def)
  next
    case (Heartbeat i client l)
    obtain b s' where a: "lock_renew (lw_redis w) client (lw_key w i) (lw_token w i) (lw_ttl w) l (ls_store y) = (b, s')"
      by fastforce
    with Heartbeat o' renew_effect(1) [OF assms(1) a] show ?thesis by (auto simp: owns_def)
  next
    case (Return i client l)
    with e have "lw_token w j \<noteq> lw_token w i" using assms(2) by (auto simp: inj_eq)
    with Return o' show ?thesis
      using lock_release_effect [OF assms(1), of "lock_key (lw_key w j)" "lw_key w i" "ls_store y" "lw_token w i" client l]
      by (cases "lw_key w j = lw_key w i") (auto simp: owns_def)
  next
    case (Lapse key)
    with e o' show ?thesis by (simp add: owns_def redis_del(2) [OF assms(1)])
  qed
next
  assume "ls_phase y i = Running" "\<not> owns w y i"
  then show "ls_phase (lock_step w (Heartbeat i client l) y) i = Aborted"
    using renew_effect(2) [OF assms(1)] by (auto simp: owns_def split: prod.split)
next
  assume "ls_phase y i = Running" "owns w y i"
  then show "r_get (lw_redis w) (ls_store (lock_step w (Return i True Up) y)) (lock_key (lw_key w i)) = None"
    using redis_del(2) [OF assms(1)]
    by (auto simp: owns_def lock_release_def call_def RELEASE_LUA_SCRIPT_def dest!: del_result [OF assms(1)]
        split: prod.split)
qed

theorem lock_ownership_witness:
  "ls_phase (lock_step demo_locks (Heartbeat 1 True Up)
     (lock_run demo_locks [Acquire 1 True Up, Lapse ''job'', Acquire 2 True Up] (lock_start []))) 1 = Aborted"
proof -
  let ?y = "lock_run demo_locks [Acquire 1 True Up, Lapse ''job'', Acquire 2 True Up] (lock_start [])"
  have "ls_phase ?y 1 = Running" "\<not> owns demo_locks ?y 1" by (simp_all add: lock_eval numeral_2_eq_2)
  then show ?thesis using lock_ownership [OF demo_locks_ok, of ?y] by simp
qed

end
