(* ===== verification/AccountLockout.thy ===== *)
theory AccountLockout
  imports Prelude
begin

text \<open>
  Brute-force protection,
  \<open>apps/api/src/infrastructure/security/lockout/account-lockout.service.ts\<close>: failed logins are
  counted per e-mail in Redis or, without Redis, in a bounded in-memory map. Times are
  milliseconds. The counter commands of Redis are an argument.
\<close>

definition LOCKOUT_PREFIX :: string where "LOCKOUT_PREFIX = ''lockout:''"
definition MAX_MEMORY_LOCKOUT_ENTRIES :: nat where "MAX_MEMORY_LOCKOUT_ENTRIES = 5000"

record lockout_config =
  LOCKOUT_MAX_ATTEMPTS :: nat
  LOCKOUT_DURATION_MINUTES :: nat

definition ttlSeconds :: "lockout_config \<Rightarrow> nat" where
  "ttlSeconds cfg = LOCKOUT_DURATION_MINUTES cfg * 60"

section \<open>The in-memory fallback\<close>

record attempt =
  at_count :: nat
  at_expiresAt :: int

type_synonym memory = "(string, attempt) jmap"

definition isLockedOut_memory :: "lockout_config \<Rightarrow> int \<Rightarrow> string \<Rightarrow> memory \<Rightarrow> bool \<times> memory" where
  "isLockedOut_memory cfg now email m =
    (case jm_get m email of
       None \<Rightarrow> (False, m)
     | Some entry \<Rightarrow>
         if now > at_expiresAt entry then (False, jm_delete email m)
         else (at_count entry \<ge> LOCKOUT_MAX_ATTEMPTS cfg, m))"

text \<open>
  The loop deletes the entry in hand, which a \<open>Map\<close> iterator tolerates: what remains are the
  entries that have not expired.
\<close>

definition sweepExpired :: "int \<Rightarrow> memory \<Rightarrow> nat \<times> memory" where
  "sweepExpired now m =
     (length (filter (\<lambda>(key, entry). now > at_expiresAt entry) m),
      filter (\<lambda>(key, entry). \<not> now > at_expiresAt entry) m)"

text \<open>The oldest key is deleted only if it is truthy: not the empty string.\<close>

definition evict_oldest :: "memory \<Rightarrow> memory" where
  "evict_oldest m =
    (case jm_keys m of [] \<Rightarrow> m | oldestKey # _ \<Rightarrow> if oldestKey \<noteq> [] then jm_delete oldestKey m else m)"

definition make_room :: "int \<Rightarrow> memory \<Rightarrow> memory" where
  "make_room now m =
    (if jm_size m \<ge> MAX_MEMORY_LOCKOUT_ENTRIES then
       (let m1 = snd (sweepExpired now m) in
        if jm_size m1 \<ge> MAX_MEMORY_LOCKOUT_ENTRIES then evict_oldest m1 else m1)
     else m)"

definition recordFailedAttempt_memory :: "lockout_config \<Rightarrow> int \<Rightarrow> string \<Rightarrow> memory \<Rightarrow> memory" where
  "recordFailedAttempt_memory cfg now email m =
    (let fresh = \<lparr>at_count = 1, at_expiresAt = now + int (ttlSeconds cfg) * 1000\<rparr> in
     case jm_get m email of
       None \<Rightarrow> jm_set email fresh (make_room now m)
     | Some existing \<Rightarrow>
         if now > at_expiresAt existing then jm_set email fresh m
         else jm_set email (existing\<lparr>at_count := at_count existing + 1\<rparr>) m)"

definition resetAttempts_memory :: "string \<Rightarrow> memory \<Rightarrow> memory" where
  "resetAttempts_memory email m = jm_delete email m"

section \<open>Redis\<close>

text \<open>
  The counter commands at a server time, with their documented meaning over a view that gives
  the number and the deadline of a key: a key whose deadline has passed is gone, \<open>INCR\<close>
  creates a key without a deadline and keeps an existing one, \<open>TTL\<close> answers -2 for no key and
  -1 for no deadline and rounds to seconds.
\<close>

record 's counters =
  c_get :: "int \<Rightarrow> 's \<Rightarrow> string \<Rightarrow> nat option"
  c_incr :: "int \<Rightarrow> 's \<Rightarrow> string \<Rightarrow> nat \<times> 's"
  c_ttl :: "int \<Rightarrow> 's \<Rightarrow> string \<Rightarrow> int"
  c_expire :: "int \<Rightarrow> 's \<Rightarrow> string \<Rightarrow> nat \<Rightarrow> 's"
  c_del :: "int \<Rightarrow> 's \<Rightarrow> string \<Rightarrow> 's"
  c_view :: "'s \<Rightarrow> string \<Rightarrow> (nat \<times> int option) option"

definition alive :: "int \<Rightarrow> (nat \<times> int option) option \<Rightarrow> (nat \<times> int option) option" where
  "alive now v =
    (case v of Some (n, Some d) \<Rightarrow> if now < d then v else None | _ \<Rightarrow> v)"

definition counters_laws :: "'s counters \<Rightarrow> bool" where
  "counters_laws C \<longleftrightarrow>
     (\<forall>t s k. c_get C t s k = map_option fst (alive t (c_view C s k))) \<and>
     (\<forall>t s k. fst (c_incr C t s k) = (case alive t (c_view C s k) of None \<Rightarrow> 1 | Some (n, d) \<Rightarrow> n + 1)) \<and>
     (\<forall>t s k k'. c_view C (snd (c_incr C t s k)) k' =
        (if k' = k then (case alive t (c_view C s k) of None \<Rightarrow> Some (1, None) | Some (n, d) \<Rightarrow> Some (n + 1, d))
         else c_view C s k')) \<and>
     (\<forall>t s k. c_ttl C t s k =
        (case alive t (c_view C s k) of None \<Rightarrow> -2 | Some (n, None) \<Rightarrow> -1 | Some (n, Some d) \<Rightarrow> (d - t + 500) div 1000)) \<and>
     (\<forall>t s k sec k'. c_view C (c_expire C t s k sec) k' =
        (if k' = k then map_option (\<lambda>(n, d). (n, Some (t + int sec * 1000))) (alive t (c_view C s k))
         else c_view C s k')) \<and>
     (\<forall>t s k k'. c_view C (c_del C t s k) k' = (if k' = k then None else c_view C s k'))"

definition RECORD_FAILED_ATTEMPT_LUA :: "'s counters \<Rightarrow> int \<Rightarrow> string \<Rightarrow> nat \<Rightarrow> 's \<Rightarrow> nat \<times> 's" where
  "RECORD_FAILED_ATTEMPT_LUA C t key ttl s =
    (case c_incr C t s key of
       (current, s1) \<Rightarrow>
         if current = 1 then (current, c_expire C t s1 key ttl)
         else if c_ttl C t s1 key = -1 then (current, c_expire C t s1 key ttl)
         else (current, s1))"

definition isLockedOut_redis :: "lockout_config \<Rightarrow> 's counters \<Rightarrow> int \<Rightarrow> string \<Rightarrow> 's \<Rightarrow> bool \<times> 's" where
  "isLockedOut_redis cfg C t email s =
    (let key = LOCKOUT_PREFIX @ email in
     case c_get C t s key of
       None \<Rightarrow> (False, s)
     | Some attempts \<Rightarrow>
         if attempts \<ge> LOCKOUT_MAX_ATTEMPTS cfg
         then (if c_ttl C t s key > 0 then (True, s) else (False, c_del C t s key))
         else (False, s))"

definition recordFailedAttempt_redis :: "lockout_config \<Rightarrow> 's counters \<Rightarrow> int \<Rightarrow> string \<Rightarrow> 's \<Rightarrow> 's" where
  "recordFailedAttempt_redis cfg C t email s =
     snd (RECORD_FAILED_ATTEMPT_LUA C t (LOCKOUT_PREFIX @ email) (ttlSeconds cfg) s)"

definition resetAttempts_redis :: "'s counters \<Rightarrow> int \<Rightarrow> string \<Rightarrow> 's \<Rightarrow> 's" where
  "resetAttempts_redis C t email s = c_del C t s (LOCKOUT_PREFIX @ email)"

section \<open>Sequences on the fallback\<close>

datatype lockout_event =
    Fail string int
  | Query string int
  | Reset string int
  | Sweep int

fun event_time :: "lockout_event \<Rightarrow> int" where
  "event_time (Fail e t) = t"
| "event_time (Query e t) = t"
| "event_time (Reset e t) = t"
| "event_time (Sweep t) = t"

fun event_emails :: "lockout_event \<Rightarrow> string set" where
  "event_emails (Fail e t) = {e}"
| "event_emails _ = {}"

fun memory_step :: "lockout_config \<Rightarrow> lockout_event \<Rightarrow> memory \<Rightarrow> memory" where
  "memory_step cfg (Fail e t) m = recordFailedAttempt_memory cfg t e m"
| "memory_step cfg (Query e t) m = snd (isLockedOut_memory cfg t e m)"
| "memory_step cfg (Reset e t) m = resetAttempts_memory e m"
| "memory_step cfg (Sweep t) m = snd (sweepExpired t m)"

definition memory_run :: "lockout_config \<Rightarrow> lockout_event list \<Rightarrow> memory" where
  "memory_run cfg es = fold (memory_step cfg) es []"

text \<open>The specification: a fixed window per e-mail that its first failure opens.\<close>

fun window_step :: "lockout_config \<Rightarrow> lockout_event \<Rightarrow> (string \<Rightarrow> attempt option) \<Rightarrow> string \<Rightarrow> attempt option" where
  "window_step cfg (Fail e t) f =
     f(e := Some (case f e of
         Some a \<Rightarrow> if t \<le> at_expiresAt a then a\<lparr>at_count := at_count a + 1\<rparr>
                   else \<lparr>at_count = 1, at_expiresAt = t + int (ttlSeconds cfg) * 1000\<rparr>
       | None \<Rightarrow> \<lparr>at_count = 1, at_expiresAt = t + int (ttlSeconds cfg) * 1000\<rparr>))"
| "window_step cfg (Reset e t) f = f(e := None)"
| "window_step cfg _ f = f"

definition window_run :: "lockout_config \<Rightarrow> lockout_event list \<Rightarrow> string \<Rightarrow> attempt option" where
  "window_run cfg es = fold (window_step cfg) es (\<lambda>_. None)"

definition locked :: "lockout_config \<Rightarrow> int \<Rightarrow> attempt option \<Rightarrow> bool" where
  "locked cfg now a \<longleftrightarrow>
     (case a of None \<Rightarrow> False | Some a \<Rightarrow> now \<le> at_expiresAt a \<and> at_count a \<ge> LOCKOUT_MAX_ATTEMPTS cfg)"

section \<open>The fallback keeps the windows\<close>

definition tracks :: "int \<Rightarrow> (string \<Rightarrow> attempt option) \<Rightarrow> memory \<Rightarrow> bool" where
  "tracks now f m \<longleftrightarrow> jm_ok m \<and>
     (\<forall>e. jm_get m e = f e \<or> (jm_get m e = None \<and> (\<exists>a. f e = Some a \<and> at_expiresAt a < now)))"

lemma tracks_later: "tracks now f m \<Longrightarrow> now \<le> t \<Longrightarrow> tracks t f m"
  by (fastforce simp: tracks_def)

lemma sweep_get:
  "jm_ok m \<Longrightarrow> jm_get (snd (sweepExpired t m)) e =
     (case jm_get m e of None \<Rightarrow> None | Some a \<Rightarrow> if t > at_expiresAt a then None else Some a)"
  by (auto simp: sweepExpired_def jm_get_filter split: option.split)

lemma jm_size_card: "jm_ok m \<Longrightarrow> jm_size m = card (set (jm_keys m))"
  by (metis distinct_card jm_keys_def jm_ok_def jm_size_def length_map)

lemma no_eviction:
  assumes "jm_ok m" and "set (jm_keys m) \<subseteq> E" and "finite E" and "card E \<le> MAX_MEMORY_LOCKOUT_ENTRIES"
    and "e \<in> E" and "jm_get m e = None"
  shows "make_room t m = m"
proof -
  have "set (jm_keys m) \<subset> E" using assms(2,5,6) by (auto simp: jm_get_None_iff)
  then have "jm_size m < card E" using assms(1,3) by (simp add: jm_size_card psubset_card_mono)
  with assms(4) show ?thesis by (simp add: make_room_def)
qed

lemma tracks_step:
  assumes "tracks (event_time e) f m" and "set (jm_keys m) \<subseteq> E" and "finite E"
    and "card E \<le> MAX_MEMORY_LOCKOUT_ENTRIES" and "event_emails e \<subseteq> E"
  shows "tracks (event_time e) (window_step cfg e f) (memory_step cfg e m)"
proof (cases e)
  case (Fail u t)
  have m: "jm_ok m" using assms(1) by (simp add: tracks_def)
  have room: "jm_get m u = None \<Longrightarrow> make_room t m = m"
    using no_eviction [OF m assms(2,3,4)] assms(5) Fail by simp
  have u: "jm_get m u = f u \<or> (jm_get m u = None \<and> (\<exists>a. f u = Some a \<and> at_expiresAt a < t))"
    using assms(1) Fail by (simp add: tracks_def)
  have "jm_get (recordFailedAttempt_memory cfg t u m) u = window_step cfg e f u"
    using u room Fail
    by (auto simp: recordFailedAttempt_memory_def Let_def jmap_laws split: option.split)
  moreover have "jm_get (recordFailedAttempt_memory cfg t u m) v = jm_get m v" if "v \<noteq> u" for v
    using that room by (auto simp: recordFailedAttempt_memory_def Let_def jmap_laws split: option.split)
  moreover have "jm_ok (recordFailedAttempt_memory cfg t u m)"
    using m room by (auto simp: recordFailedAttempt_memory_def Let_def split: option.split)
  moreover have "window_step cfg e f v = f v" if "v \<noteq> u" for v using that Fail by simp
  moreover have "jm_get m v = f v \<or> (jm_get m v = None \<and> (\<exists>a. f v = Some a \<and> at_expiresAt a < t))" for v
    using assms(1) Fail by (simp add: tracks_def)
  ultimately have "jm_get (recordFailedAttempt_memory cfg t u m) v = window_step cfg e f v \<or>
      (jm_get (recordFailedAttempt_memory cfg t u m) v = None \<and>
       (\<exists>a. window_step cfg e f v = Some a \<and> at_expiresAt a < t))" for v
    by (cases "v = u") simp_all
  then show ?thesis
    using \<open>jm_ok (recordFailedAttempt_memory cfg t u m)\<close> Fail by (simp add: tracks_def del: window_step.simps)
next
  case (Query u t)
  have "jm_get m u = Some a \<Longrightarrow> f u = Some a" for a
    using assms(1) unfolding tracks_def by (metis option.distinct(1))
  then show ?thesis
    using assms(1) Query by (auto simp: tracks_def isLockedOut_memory_def jmap_laws split: option.splits)
next
  case (Reset u t)
  then show ?thesis using assms(1) by (auto simp: tracks_def resetAttempts_memory_def jmap_laws)
next
  case (Sweep t)
  have "jm_ok m" using assms(1) by (simp add: tracks_def)
  have "jm_get (snd (sweepExpired t m)) v = f v \<or>
      (jm_get (snd (sweepExpired t m)) v = None \<and> (\<exists>a. f v = Some a \<and> at_expiresAt a < t))" for v
  proof -
    have "jm_get m v = f v \<or> (jm_get m v = None \<and> (\<exists>a. f v = Some a \<and> at_expiresAt a < t))"
      using assms(1) Sweep by (simp add: tracks_def)
    then show ?thesis using sweep_get [OF \<open>jm_ok m\<close>, of t v] by (auto split: option.splits)
  qed
  moreover have "jm_ok (snd (sweepExpired t m))" using \<open>jm_ok m\<close> by (simp add: sweepExpired_def)
  ultimately show ?thesis using Sweep by (simp add: tracks_def)
qed

lemma evict_keys: "set (jm_keys (evict_oldest m)) \<subseteq> set (jm_keys m)"
  by (auto simp: evict_oldest_def jm_keys_delete split: list.split if_splits)

lemma memory_keys:
  "set (jm_keys (memory_step cfg e m)) \<subseteq> set (jm_keys m) \<union> event_emails e"
proof -
  have f: "set (jm_keys (filter P m)) \<subseteq> set (jm_keys m)" for P and m :: memory
    by (auto simp: jm_keys_def)
  have d: "set (jm_keys (jm_delete k m)) \<subseteq> set (jm_keys m)" for k and m :: memory
    by (auto simp: jm_keys_delete)
  have r: "set (jm_keys (make_room t m)) \<subseteq> set (jm_keys m)" for t
    by (auto simp: make_room_def sweepExpired_def Let_def dest!: subsetD [OF evict_keys] subsetD [OF f])
  show ?thesis
  proof (cases e)
    case (Fail u t)
    have "set (jm_keys (jm_set u v m')) = insert u (set (jm_keys m'))" for v and m' :: memory
      by (auto simp: jm_keys_set jm_has_iff)
    then show ?thesis
      using r [of t] Fail by (auto simp: recordFailedAttempt_memory_def Let_def split: option.splits)
  qed (use f d in \<open>auto simp: isLockedOut_memory_def resetAttempts_memory_def sweepExpired_def split: option.splits\<close>)
qed

lemma tracks_run:
  assumes "sorted (map event_time es)" and "tracks t0 f m" and "set (jm_keys m) \<subseteq> E" and "finite E"
    and "card E \<le> MAX_MEMORY_LOCKOUT_ENTRIES" and "\<forall>e\<in>set es. event_emails e \<subseteq> E \<and> t0 \<le> event_time e"
    and "\<forall>e\<in>set es. event_time e \<le> now" and "t0 \<le> now"
  shows "tracks now (fold (window_step cfg) es f) (fold (memory_step cfg) es m)"
  using assms(1-3,6-8)
proof (induction es arbitrary: f m t0)
  case Nil
  then show ?case using tracks_later by simp
next
  case (Cons e es)
  have "tracks (event_time e) (window_step cfg e f) (memory_step cfg e m)"
    using tracks_step [OF tracks_later [OF Cons.prems(2)] Cons.prems(3) assms(4,5)] Cons.prems(4) by simp
  moreover have "set (jm_keys (memory_step cfg e m)) \<subseteq> E"
    using memory_keys [of cfg e m] Cons.prems(3,4) by auto
  ultimately show ?case
    using Cons.IH [of "event_time e"] Cons.prems by simp
qed

section \<open>Guarantees\<close>

definition all_emails :: "lockout_event list \<Rightarrow> string set" where
  "all_emails es = \<Union> (event_emails ` set es)"

lemma finite_all_emails: "finite (all_emails es)"
proof -
  have "finite (event_emails e)" for e by (cases e) auto
  then show ?thesis by (simp add: all_emails_def)
qed



definition named :: "memory \<Rightarrow> bool" where
  "named m \<longleftrightarrow> jm_ok m \<and> jm_size m \<le> MAX_MEMORY_LOCKOUT_ENTRIES \<and> [] \<notin> set (jm_keys m)"

lemma evict_smaller:
  assumes "jm_ok m" and "jm_size m \<noteq> 0" and "[] \<notin> set (jm_keys m)"
  shows "Suc (jm_size (evict_oldest m)) = jm_size m"
proof -
  obtain k ks where k: "jm_keys m = k # ks"
    using assms(2) by (cases "jm_keys m") (auto simp: jm_keys_def jm_size_def)
  then have "k \<noteq> []" and "jm_has m k" using assms(3) by (auto simp: jm_has_iff)
  with k assms(1) show ?thesis by (simp add: evict_oldest_def jm_size_delete)
qed

lemma room_made:
  assumes "named m"
  shows "jm_ok (make_room t m)" and "jm_size (make_room t m) < MAX_MEMORY_LOCKOUT_ENTRIES"
    and "[] \<notin> set (jm_keys (make_room t m))"
proof -
  let ?m = "snd (sweepExpired t m)"
  have s: "jm_ok ?m" "jm_size ?m \<le> MAX_MEMORY_LOCKOUT_ENTRIES" "[] \<notin> set (jm_keys ?m)"
    using assms jm_size_filter_le [of "\<lambda>(k, a). \<not> t > at_expiresAt a" m]
    by (auto simp: named_def sweepExpired_def jm_keys_def)
  have e: "jm_ok (evict_oldest ?m)" "[] \<notin> set (jm_keys (evict_oldest ?m))"
    using s evict_keys [of ?m] by (auto simp: evict_oldest_def split: list.split)
  have "jm_size ?m \<ge> MAX_MEMORY_LOCKOUT_ENTRIES \<Longrightarrow> Suc (jm_size (evict_oldest ?m)) = jm_size ?m"
    using evict_smaller [of ?m] s by (auto simp: MAX_MEMORY_LOCKOUT_ENTRIES_def)
  with s e assms show "jm_ok (make_room t m)" and "jm_size (make_room t m) < MAX_MEMORY_LOCKOUT_ENTRIES"
    and "[] \<notin> set (jm_keys (make_room t m))"
    by (auto simp: make_room_def Let_def named_def)
qed

lemma named_step:
  assumes "named m" and "[] \<notin> event_emails e"
  shows "named (memory_step cfg e m)"
proof (cases e)
  case (Fail u t)
  have "jm_has m u \<Longrightarrow> named (jm_set u a m)" for a
    using assms Fail by (auto simp: named_def jm_size_set jm_keys_set)
  moreover have "\<not> jm_has m u \<Longrightarrow> named (jm_set u a (make_room t m))" for a
    using room_made [OF assms(1), of t] assms(2) Fail by (auto simp: named_def jm_size_set jm_keys_set)
  ultimately show ?thesis
    using Fail by (auto simp: recordFailedAttempt_memory_def Let_def jm_has_def split: option.split)
next
  case (Query u t)
  then show ?thesis
    using assms jm_size_delete_le [of u m]
    by (auto simp: named_def isLockedOut_memory_def jm_keys_delete split: option.split)
next
  case (Reset u t)
  then show ?thesis
    using assms jm_size_delete_le [of u m] by (auto simp: named_def resetAttempts_memory_def jm_keys_delete)
next
  case (Sweep t)
  then show ?thesis
    using assms jm_size_filter_le [of "\<lambda>(k, a). \<not> t > at_expiresAt a" m]
    by (auto simp: named_def sweepExpired_def jm_keys_def)
qed

text \<open>
  The fallback's memory is bounded under attack: whatever e-mails an attacker tries and
  however often, it never holds more than 5000 entries, provided no e-mail is empty (the
  eviction skips an empty oldest key).
\<close>

theorem memory_lockout_bounded:
  assumes "\<forall>e\<in>set es. [] \<notin> event_emails e"
  shows "jm_size (memory_run cfg es) \<le> 5000"
proof -
  have "named m \<Longrightarrow> \<forall>e\<in>set es. [] \<notin> event_emails e \<Longrightarrow> named (fold (memory_step cfg) es m)" for m
    by (induction es arbitrary: m) (auto intro: named_step)
  moreover have "named []" by (simp add: named_def jm_size_def jm_keys_def)
  ultimately have "named (memory_run cfg es)" using assms by (simp add: memory_run_def)
  then show ?thesis by (simp add: named_def MAX_MEMORY_LOCKOUT_ENTRIES_def)
qed

theorem memory_lockout_bounded_witness:
  "jm_size (memory_run \<lparr>LOCKOUT_MAX_ATTEMPTS = 2, LOCKOUT_DURATION_MINUTES = 15\<rparr> [Fail ''a'' 0, Query ''a'' 1]) \<le> 5000"
  by (rule memory_lockout_bounded) simp

lemma alive_counted:
  "alive t (case alive t v of None \<Rightarrow> Some (1, None) | Some (n, d) \<Rightarrow> Some (n + 1, d)) =
   (case alive t v of None \<Rightarrow> Some (1, None) | Some (n, d) \<Rightarrow> Some (n + 1, d))"
  by (auto simp: alive_def split: option.splits if_splits)

lemma record_script:
  assumes "counters_laws C"
  shows "\<exists>d. c_view C (snd (RECORD_FAILED_ATTEMPT_LUA C t k ttl s)) k =
        Some ((case alive t (c_view C s k) of None \<Rightarrow> 1 | Some (n, _) \<Rightarrow> n + 1), Some d) \<and>
        (d = t + int ttl * 1000 \<or> (\<exists>n. alive t (c_view C s k) = Some (n, Some d)))"
proof -
  let ?v = "alive t (c_view C s k)"
  obtain n s1 where i: "c_incr C t s k = (n, s1)" by fastforce
  have n: "n = (case ?v of None \<Rightarrow> 1 | Some (n, d) \<Rightarrow> n + 1)"
    using assms i unfolding counters_laws_def by (metis fst_conv)
  have v1: "c_view C s1 k = (case ?v of None \<Rightarrow> Some (1, None) | Some (n, d) \<Rightarrow> Some (n + 1, d))"
    using assms i unfolding counters_laws_def by (metis snd_conv)
  have live: "alive t (c_view C s1 k) = c_view C s1 k"
    unfolding v1 by (rule alive_counted)
  have ttl: "c_ttl C t s1 k = (case c_view C s1 k of None \<Rightarrow> -2 | Some (n, None) \<Rightarrow> -1
      | Some (n, Some d) \<Rightarrow> (d - t + 500) div 1000)"
    and ex: "c_view C (c_expire C t s1 k sec) k =
      map_option (\<lambda>(n, d). (n, Some (t + int sec * 1000))) (c_view C s1 k)" for sec
    using assms live by (simp_all add: counters_laws_def)
  show ?thesis
  proof (cases "\<exists>a d. ?v = Some (a, Some d)")
    case True
    then obtain a d where v: "?v = Some (a, Some d)" by blast
    then have "t < d" by (auto simp: alive_def split: option.splits if_splits)
    then have "c_ttl C t s1 k \<noteq> -1" using ttl v1 v by fastforce
    then show ?thesis
      using v v1 i n by (cases "n = 1") (auto simp: RECORD_FAILED_ATTEMPT_LUA_def ex)
  next
    case False
    then have "c_view C s1 k = Some (n, None)" using n v1 by (auto split: option.splits)
    then show ?thesis
      using i n ttl by (auto simp: RECORD_FAILED_ATTEMPT_LUA_def ex split: option.splits)
  qed
qed

text \<open>
  With Redis no lockout is permanent and none is reported without cause: a failure counts
  one more than before, leaves a deadline that is the old one or one full duration ahead, even
  if an earlier failure had left none; and an account is reported locked exactly if its counter
  has reached the maximum and more than half a second of its deadline is left.
\<close>

theorem redis_lockout_expires:
  assumes "counters_laws C"
  shows "(\<exists>d. c_view C (recordFailedAttempt_redis cfg C t email s) (LOCKOUT_PREFIX @ email) =
        Some ((case alive t (c_view C s (LOCKOUT_PREFIX @ email)) of None \<Rightarrow> 1 | Some (n, _) \<Rightarrow> n + 1), Some d) \<and>
        (d = t + int (ttlSeconds cfg) * 1000 \<or>
         (\<exists>n. alive t (c_view C s (LOCKOUT_PREFIX @ email)) = Some (n, Some d)))) \<and>
    (fst (isLockedOut_redis cfg C t email s) \<longleftrightarrow>
       (\<exists>n d. c_view C s (LOCKOUT_PREFIX @ email) = Some (n, Some d) \<and> n \<ge> LOCKOUT_MAX_ATTEMPTS cfg \<and> d - t \<ge> 500))"
proof
  let ?k = "LOCKOUT_PREFIX @ email"
  let ?v = "alive t (c_view C s ?k)"
  show "\<exists>d. c_view C (recordFailedAttempt_redis cfg C t email s) ?k =
        Some ((case ?v of None \<Rightarrow> 1 | Some (n, _) \<Rightarrow> n + 1), Some d) \<and>
        (d = t + int (ttlSeconds cfg) * 1000 \<or> (\<exists>n. ?v = Some (n, Some d)))"
    unfolding recordFailedAttempt_redis_def by (rule record_script [OF assms])
  have "fst (isLockedOut_redis cfg C t email s) \<longleftrightarrow>
      (\<exists>n. map_option fst ?v = Some n \<and> n \<ge> LOCKOUT_MAX_ATTEMPTS cfg) \<and> c_ttl C t s ?k > 0"
    using assms by (auto simp: isLockedOut_redis_def Let_def counters_laws_def split: option.splits)
  also have "c_ttl C t s ?k = (case ?v of None \<Rightarrow> -2 | Some (n, None) \<Rightarrow> -1 | Some (n, Some d) \<Rightarrow> (d - t + 500) div 1000)"
    using assms by (simp add: counters_laws_def)
  finally show "fst (isLockedOut_redis cfg C t email s) \<longleftrightarrow>
       (\<exists>n d. c_view C s ?k = Some (n, Some d) \<and> n \<ge> LOCKOUT_MAX_ATTEMPTS cfg \<and> d - t \<ge> 500)"
    by (auto simp: alive_def split: option.splits if_splits)
qed

text \<open>A counter server over a map, for the example.\<close>

definition map_counters :: "(string \<Rightarrow> (nat \<times> int option) option) counters" where
  "map_counters = \<lparr>c_get = (\<lambda>t s k. map_option fst (alive t (s k))),
     c_incr = (\<lambda>t s k. case alive t (s k) of None \<Rightarrow> (1, s(k \<mapsto> (1, None))) | Some (n, d) \<Rightarrow> (n + 1, s(k \<mapsto> (n + 1, d)))),
     c_ttl = (\<lambda>t s k. case alive t (s k) of None \<Rightarrow> -2 | Some (n, None) \<Rightarrow> -1 | Some (n, Some d) \<Rightarrow> (d - t + 500) div 1000),
     c_expire = (\<lambda>t s k sec. s(k := map_option (\<lambda>(n, d). (n, Some (t + int sec * 1000))) (alive t (s k)))),
     c_del = (\<lambda>t s k. s(k := None)), c_view = (\<lambda>s k. s k)\<rparr>"

lemma map_counters_ok: "counters_laws map_counters"
  by (auto simp: counters_laws_def map_counters_def split: option.splits)

theorem redis_lockout_expires_witness:
  "fst (isLockedOut_redis \<lparr>LOCKOUT_MAX_ATTEMPTS = 2, LOCKOUT_DURATION_MINUTES = 15\<rparr> map_counters 1000 ''a''
     [''lockout:a'' \<mapsto> (2, Some 5000)])"
  using redis_lockout_expires [OF map_counters_ok,
      of "\<lparr>LOCKOUT_MAX_ATTEMPTS = 2, LOCKOUT_DURATION_MINUTES = 15\<rparr>" 1000 "''a''" "[''lockout:a'' \<mapsto> (2, Some 5000)]"]
  by (simp add: map_counters_def LOCKOUT_PREFIX_def)

end
