(* ===== verification/RateLimit.thy ===== *)
theory RateLimit
  imports Prelude "HOL-Library.Multiset"
begin

text \<open>
  Rate limiting: the sliding-window log of
  \<open>apps/api/src/infrastructure/rate-limit/rate-limit.service.ts\<close> over a Redis sorted set, and
  the two guards that apply it, \<open>common/guards/rate-limit.guard.ts\<close> and
  \<open>aggregate-rate-limit.guard.ts\<close>. Times are milliseconds. The sorted-set commands are an
  argument; \<open>zsets_ok\<close> states their documented meaning over the members of a key in order of
  their scores.
\<close>

record 's zsets =
  z_remrangebyscore :: "'s \<Rightarrow> string \<Rightarrow> int \<Rightarrow> 's"
  z_add :: "'s \<Rightarrow> string \<Rightarrow> int \<Rightarrow> string \<Rightarrow> 's"
  z_keep_newest :: "'s \<Rightarrow> string \<Rightarrow> nat \<Rightarrow> 's"
  z_card :: "'s \<Rightarrow> string \<Rightarrow> nat"
  z_expire :: "'s \<Rightarrow> string \<Rightarrow> nat \<Rightarrow> 's"
  z_view :: "'s \<Rightarrow> string \<Rightarrow> (int \<times> string) list"

text \<open>
  \<open>ZREMRANGEBYSCORE k 0 m\<close>, \<open>ZADD\<close> of a new member, \<open>ZREMRANGEBYRANK k 0 (-n - 1)\<close>, \<open>ZCARD\<close>, and
  \<open>EXPIRE\<close>, which removes nothing now.
\<close>

definition zsets_ok :: "'s zsets \<Rightarrow> bool" where
  "zsets_ok Z \<longleftrightarrow>
     (\<forall>s k. sorted (map fst (z_view Z s k))) \<and>
     (\<forall>s k m. z_view Z (z_remrangebyscore Z s k m) k = filter (\<lambda>(sc, _). \<not> (0 \<le> sc \<and> sc \<le> m)) (z_view Z s k)) \<and>
     (\<forall>s k sc x. x \<notin> snd ` set (z_view Z s k) \<longrightarrow>
        mset (z_view Z (z_add Z s k sc x) k) = add_mset (sc, x) (mset (z_view Z s k))) \<and>
     (\<forall>s k n. z_view Z (z_keep_newest Z s k n) k = drop (length (z_view Z s k) - n) (z_view Z s k)) \<and>
     (\<forall>s k. z_card Z s k = length (z_view Z s k)) \<and>
     (\<forall>s k ttl. z_view Z (z_expire Z s k ttl) k = z_view Z s k)"

definition SLIDING_WINDOW_LOG_PREFIX :: string where "SLIDING_WINDOW_LOG_PREFIX = ''ratelimit:''"
definition WINDOW_LOG_HEADROOM :: nat where "WINDOW_LOG_HEADROOM = 100"

record rate_limit_config =
  windowSeconds :: "nat option"
  maxRequests :: "nat option"
  failClosed :: "bool option"

record rate_limit_env =
  RATE_LIMIT_TTL :: nat
  RATE_LIMIT_MAX :: nat

record rate_limit_result =
  rl_allowed :: bool
  rl_remaining :: nat
  rl_resetAt :: int

definition ceil_div :: "int \<Rightarrow> int \<Rightarrow> int" where
  "ceil_div a b = - ((- a) div b)"

definition js_default :: "'a option \<Rightarrow> 'a \<Rightarrow> 'a" where
  "js_default o' d = (case o' of None \<Rightarrow> d | Some v \<Rightarrow> v)"

definition is_auth_key :: "string \<Rightarrow> bool" where
  "is_auth_key key \<longleftrightarrow> str_includes key ''/auth/'' \<or> str_includes key ''auth:''"

definition window_script :: "'s zsets \<Rightarrow> string \<Rightarrow> int \<Rightarrow> int \<Rightarrow> string \<Rightarrow> nat \<Rightarrow> nat \<Rightarrow> 's \<Rightarrow> nat \<times> 's" where
  "window_script Z key windowStart now member ttl keepNewest s =
    (let s1 = z_remrangebyscore Z s key windowStart;
         s2 = z_add Z s1 key now member;
         s3 = z_keep_newest Z s2 key keepNewest;
         n = z_card Z s3 key
     in (n, z_expire Z s3 key ttl))"

text \<open>\<open>client\<close> is the server state if Redis is connected. The member is unique per call.\<close>

definition rate_check ::
  "'s zsets \<Rightarrow> rate_limit_env \<Rightarrow> int \<Rightarrow> string \<Rightarrow> string \<Rightarrow> rate_limit_config \<Rightarrow> 's option
     \<Rightarrow> rate_limit_result \<times> 's option" where
  "rate_check Z env now member key config client =
    (let window = js_default (windowSeconds config) (RATE_LIMIT_TTL env);
         maxR = js_default (maxRequests config) (RATE_LIMIT_MAX env);
         windowStart = now - int window * 1000;
         resetAt = ceil_div (now + int window * 1000) 1000
     in case client of
          None \<Rightarrow>
            (if is_auth_key key \<or> failClosed config = Some True
             then (\<lparr>rl_allowed = False, rl_remaining = 0, rl_resetAt = resetAt\<rparr>, None)
             else (\<lparr>rl_allowed = True, rl_remaining = maxR, rl_resetAt = resetAt\<rparr>, None))
        | Some s \<Rightarrow>
            (case window_script Z (SLIDING_WINDOW_LOG_PREFIX @ key) windowStart now member window
                    (maxR + WINDOW_LOG_HEADROOM) s of
               (n, s') \<Rightarrow>
                 (\<lparr>rl_allowed = (n \<le> maxR), rl_remaining = maxR - n, rl_resetAt = resetAt\<rparr>, Some s')))"

section \<open>The guards\<close>

record rate_request =
  rr_method :: string
  rr_ip :: "string option"
  rr_remoteAddress :: "string option"
  rr_route :: "string option"

datatype rate_answer =
    Pass nat nat int
  | TooMany nat nat int int

text \<open>
  The route guard: the limit of the route's metadata or the default one, per client address
  and route template, failing closed for mutations unless the metadata says otherwise. The
  answer carries the three headers and, for a refusal, \<open>retryAfterMs\<close> at the time \<open>later\<close>.
\<close>

definition RateLimitGuard_canActivate ::
  "'s zsets \<Rightarrow> rate_limit_env \<Rightarrow> int \<Rightarrow> int \<Rightarrow> string \<Rightarrow> rate_limit_config option \<Rightarrow> rate_request \<Rightarrow> 's option
     \<Rightarrow> rate_answer \<times> 's option" where
  "RateLimitGuard_canActivate Z env now later member metadata req client =
    (let maxR = js_default (Option.bind metadata maxRequests) (RATE_LIMIT_MAX env);
         window = js_default (Option.bind metadata windowSeconds) (RATE_LIMIT_TTL env);
         isMutation = (rr_method req \<notin> {''GET'', ''HEAD'', ''OPTIONS''});
         closed = js_default (Option.bind metadata failClosed) isMutation;
         ip = js_default (rr_ip req) (js_default (rr_remoteAddress req) ''unknown'');
         route = js_default (rr_route req) ''unmatched''
     in case rate_check Z env now member (''ip:'' @ ip @ '':route:'' @ route)
               \<lparr>windowSeconds = Some window, maxRequests = Some maxR, failClosed = Some closed\<rparr> client of
          (r, client') \<Rightarrow>
            (if rl_allowed r then Pass maxR (rl_remaining r) (rl_resetAt r)
             else TooMany maxR (rl_remaining r) (rl_resetAt r) (max 0 (rl_resetAt r * 1000 - later)), client'))"

definition aggregate_enforce ::
  "'s zsets \<Rightarrow> rate_limit_env \<Rightarrow> int \<Rightarrow> int \<Rightarrow> string \<Rightarrow> string \<Rightarrow> rate_limit_config \<Rightarrow> rate_request
     \<Rightarrow> 's option \<Rightarrow> int option \<times> 's option" where
  "aggregate_enforce Z env now later member identity metadata req client =
    (let route = js_default (rr_route req) ''unmatched'' in
     case rate_check Z env now member (identity @ '':route:'' @ route) (metadata\<lparr>failClosed := Some True\<rparr>) client of
       (r, client') \<Rightarrow>
         (if rl_allowed r then None else Some (max 1 (rl_resetAt r - later div 1000)), client'))"

text \<open>
  The guard per actor and per tenant, on routes with metadata; \<open>Some n\<close> is the refusal with
  its \<open>Retry-After\<close>. The tenant is not charged for a request its actor's limit refuses.
\<close>

definition AggregateRateLimitGuard_canActivate ::
  "'s zsets \<Rightarrow> rate_limit_env \<Rightarrow> int \<Rightarrow> int \<Rightarrow> string \<Rightarrow> string \<Rightarrow> rate_limit_config option \<Rightarrow> rate_request
     \<Rightarrow> string option \<Rightarrow> string option \<Rightarrow> 's option \<Rightarrow> int option \<times> 's option" where
  "AggregateRateLimitGuard_canActivate Z env now later member1 member2 metadata req actor tenantId client =
    (case metadata of None \<Rightarrow> (None, client)
     | Some md \<Rightarrow>
         (case (case actor of None \<Rightarrow> (None, client)
                | Some sub \<Rightarrow> aggregate_enforce Z env now later member1 (''actor:'' @ sub) md req client) of
            (Some n, client1) \<Rightarrow> (Some n, client1)
          | (None, client1) \<Rightarrow>
              (case tenantId of None \<Rightarrow> (None, client1)
               | Some t \<Rightarrow> if t = [] then (None, client1)
                          else aggregate_enforce Z env now later member2 (''tenant:'' @ t) md req client1)))"

section \<open>The log and the window\<close>

definition lastn :: "nat \<Rightarrow> 'a list \<Rightarrow> 'a list" where
  "lastn n xs = drop (length xs - n) xs"

lemma length_lastn: "length (lastn n xs) = min n (length xs)"
  by (simp add: lastn_def)

lemma lastn_append: "lastn n (xs @ ys) = lastn (n - length ys) xs @ lastn n ys"
  by (cases "length ys \<le> n") (simp_all add: lastn_def)

lemma lastn_all: "length xs \<le> n \<Longrightarrow> lastn n xs = xs"
  by (simp add: lastn_def)

lemma lastn_lastn_snoc: "lastn n (lastn n xs @ [x]) = lastn n (xs @ [x])"
  by (cases "length xs \<le> n"; cases n) (simp_all add: lastn_def Suc_diff_Suc)

lemma sorted_filter_suffix:
  "sorted (xs :: int list) \<Longrightarrow> \<exists>as. xs = as @ filter (\<lambda>t. c < t) xs \<and> (\<forall>a\<in>set as. \<not> c < a)"
proof (induction xs)
  case (Cons x xs)
  then obtain as where as: "xs = as @ filter (\<lambda>t. c < t) xs" "\<forall>a\<in>set as. \<not> c < a" by auto
  show ?case
  proof (cases "c < x")
    case True
    with Cons.prems have "filter (\<lambda>t. c < t) (x # xs) = x # xs" by (auto intro!: filter_True)
    then show ?thesis by auto
  next
    case False
    with as show ?thesis by (intro exI [of _ "x # as"]) auto
  qed
qed simp

lemma filter_lastn:
  assumes "sorted (xs :: int list)"
  shows "filter (\<lambda>t. c < t) (lastn n xs) = lastn n (filter (\<lambda>t. c < t) xs)"
proof -
  let ?b = "filter (\<lambda>t. c < t) xs"
  obtain as where as: "xs = as @ ?b" "\<forall>a\<in>set as. \<not> c < a" using sorted_filter_suffix [OF assms] by blast
  have "lastn n xs = lastn (n - length ?b) as @ lastn n ?b" by (subst as(1)) (rule lastn_append)
  moreover have "filter (\<lambda>t. c < t) (lastn m as) = []" for m
    using as(2) by (auto simp: lastn_def filter_empty_conv dest: in_set_dropD)
  moreover have "filter (\<lambda>t. c < t) (lastn n ?b) = lastn n ?b"
    by (auto simp: lastn_def intro!: filter_True dest!: in_set_dropD)
  ultimately show ?thesis by simp
qed

lemma window_script_log:
  assumes Z: "zsets_ok Z" and s: "map fst (z_view Z s key) = ts" and "\<forall>t\<in>set ts. 0 \<le> t \<and> t \<le> now"
    and "ws < now" and "x \<notin> snd ` set (z_view Z s key)"
    and r: "window_script Z key ws now x ttl keep s = (n, s')"
  shows "map fst (z_view Z s' key) = lastn keep (filter (\<lambda>t. ws < t) ts @ [now])"
    and "n = length (lastn keep (filter (\<lambda>t. ws < t) ts @ [now]))"
    and "snd ` set (z_view Z s' key) \<subseteq> insert x (snd ` set (z_view Z s key))"
proof -
  let ?s1 = "z_remrangebyscore Z s key ws"
  let ?s2 = "z_add Z ?s1 key now x"
  let ?s3 = "z_keep_newest Z ?s2 key keep"
  have v1: "z_view Z ?s1 key = filter (\<lambda>(sc, _). \<not> (0 \<le> sc \<and> sc \<le> ws)) (z_view Z s key)"
    using Z by (simp add: zsets_ok_def)
  have t1: "map fst (z_view Z ?s1 key) = filter (\<lambda>t. ws < t) ts"
  proof -
    have "filter (\<lambda>(sc, _). \<not> (0 \<le> sc \<and> sc \<le> ws)) (z_view Z s key) =
        filter (\<lambda>p. ws < fst p) (z_view Z s key)"
    proof (rule filter_cong)
      fix p assume "p \<in> set (z_view Z s key)"
      then have "0 \<le> fst p" using assms(3) s by auto
      then show "(case p of (sc, _) \<Rightarrow> \<not> (0 \<le> sc \<and> sc \<le> ws)) \<longleftrightarrow> ws < fst p" by auto
    qed simp
    then show ?thesis by (simp add: v1 s [symmetric] filter_map comp_def)
  qed
  have m2: "mset (z_view Z ?s2 key) = add_mset (now, x) (mset (z_view Z ?s1 key))"
  proof -
    have "x \<notin> snd ` set (z_view Z ?s1 key)" using assms(5) v1 by auto
    then show ?thesis using Z unfolding zsets_ok_def by blast
  qed
  have so: "sorted (map fst (z_view Z ?s2 key))" and so1: "sorted (map fst (z_view Z ?s1 key))"
    using Z unfolding zsets_ok_def by blast+
  have "mset (map fst (z_view Z ?s2 key)) = mset (filter (\<lambda>t. ws < t) ts @ [now])"
    using arg_cong [OF m2, of "image_mset fst"] arg_cong [OF t1, of mset] by simp
  moreover have "sorted (filter (\<lambda>t. ws < t) ts @ [now])"
    using so1 assms(3) by (auto simp: t1 sorted_append)
  ultimately have t2: "map fst (z_view Z ?s2 key) = filter (\<lambda>t. ws < t) ts @ [now]"
    using so by (metis properties_for_sort)
  have v3: "z_view Z ?s3 key = lastn keep (z_view Z ?s2 key)"
    using Z by (simp add: zsets_ok_def lastn_def)
  have out: "n = length (z_view Z ?s3 key)" "z_view Z s' key = z_view Z ?s3 key"
    using Z r by (auto simp: zsets_ok_def window_script_def Let_def)
  have t3: "map fst (z_view Z ?s3 key) = lastn keep (filter (\<lambda>t. ws < t) ts @ [now])"
    unfolding v3 t2 [symmetric] by (simp add: lastn_def drop_map)
  then show "map fst (z_view Z s' key) = lastn keep (filter (\<lambda>t. ws < t) ts @ [now])" by (simp add: out)
  show "n = length (lastn keep (filter (\<lambda>t. ws < t) ts @ [now]))"
    unfolding t3 [symmetric] by (simp add: out)
  have "set (z_view Z ?s2 key) = insert (now, x) (set (z_view Z ?s1 key))"
    using arg_cong [OF m2, of set_mset] by simp
  then show "snd ` set (z_view Z s' key) \<subseteq> insert x (snd ` set (z_view Z s key))"
    using v1 v3 by (auto simp: out lastn_def dest!: in_set_dropD)
qed

text \<open>The calls for one key while Redis is connected, as times and members, and their verdicts.\<close>

fun rate_verdicts ::
  "'s zsets \<Rightarrow> rate_limit_env \<Rightarrow> string \<Rightarrow> rate_limit_config \<Rightarrow> (int \<times> string) list \<Rightarrow> 's \<Rightarrow> bool list" where
  "rate_verdicts Z env key config [] s = []"
| "rate_verdicts Z env key config ((now, x) # es) s =
    (case rate_check Z env now x key config (Some s) of
       (r, Some s') \<Rightarrow> rl_allowed r # rate_verdicts Z env key config es s'
     | (r, None) \<Rightarrow> [rl_allowed r])"

text \<open>The specification: how many calls, allowed or not, fall into the window that ends now.\<close>

fun window_verdicts :: "int \<Rightarrow> nat \<Rightarrow> int list \<Rightarrow> int list \<Rightarrow> bool list" where
  "window_verdicts w m past [] = []"
| "window_verdicts w m past (now # ts) =
    (length (filter (\<lambda>t. now - w < t) (past @ [now])) \<le> m) # window_verdicts w m (past @ [now]) ts"

lemma verdicts_window:
  assumes Z: "zsets_ok Z" and keep: "keep = m + 100"
  shows "map fst (z_view Z s (SLIDING_WINDOW_LOG_PREFIX @ key)) = lastn keep (filter (\<lambda>t. c < t) past) \<Longrightarrow>
    \<forall>now\<in>set (map fst es). c \<le> now - int w * 1000 \<Longrightarrow>
    sorted (past @ map fst es) \<Longrightarrow> \<forall>t\<in>set past. 0 \<le> t \<Longrightarrow> 0 < w \<Longrightarrow>
    \<forall>e\<in>set es. 0 \<le> fst e \<and> snd e \<notin> snd ` set (z_view Z s (SLIDING_WINDOW_LOG_PREFIX @ key)) \<Longrightarrow> distinct (map snd es) \<Longrightarrow>
    rate_verdicts Z env key \<lparr>windowSeconds = Some w, maxRequests = Some m, failClosed = fc\<rparr> es s =
    window_verdicts (int w * 1000) m past (map fst es)"
proof (induction es arbitrary: s past c)
  case (Cons e es)
  obtain now x where e: "e = (now, x)" by (cases e)
  let ?k = "SLIDING_WINDOW_LOG_PREFIX @ key" and ?ws = "now - int w * 1000"
  let ?old = "lastn keep (filter (\<lambda>t. c < t) past)"
  obtain n s' where r: "window_script Z ?k ?ws now x w keep s = (n, s')" by fastforce
  have so: "sorted past" and le: "\<forall>t\<in>set past. t \<le> now"
    using Cons.prems(3) e by (auto simp: sorted_append)
  have old: "\<forall>t\<in>set ?old. 0 \<le> t \<and> t \<le> now"
    using Cons.prems(4) le by (auto simp: lastn_def dest!: in_set_dropD)
  have cw: "c \<le> ?ws" using Cons.prems(2) e by simp
  have trim: "lastn keep (filter (\<lambda>t. ?ws < t) ?old @ [now]) = lastn keep (filter (\<lambda>t. ?ws < t) (past @ [now]))"
  proof -
    have "filter (\<lambda>t. ?ws < t) (filter (\<lambda>t. c < t) past) = filter (\<lambda>t. ?ws < t) past"
      using cw by (auto intro: filter_cong)
    then have "filter (\<lambda>t. ?ws < t) ?old = lastn keep (filter (\<lambda>t. ?ws < t) past)"
      using filter_lastn [of "filter (\<lambda>t. c < t) past" ?ws keep] so by (simp add: sorted_wrt_filter)
    moreover have "?ws < now" using Cons.prems(5) by simp
    ultimately show ?thesis by (simp add: lastn_lastn_snoc)
  qed
  note script = window_script_log [OF Z Cons.prems(1) old _ _ r, unfolded trim]
  have v: "map fst (z_view Z s' ?k) = lastn keep (filter (\<lambda>t. ?ws < t) (past @ [now]))"
    and n: "n = length (lastn keep (filter (\<lambda>t. ?ws < t) (past @ [now])))"
    and mem: "snd ` set (z_view Z s' ?k) \<subseteq> insert x (snd ` set (z_view Z s ?k))"
    using script Cons.prems(5,6) e by auto
  have allowed: "n \<le> m \<longleftrightarrow> length (filter (\<lambda>t. ?ws < t) (past @ [now])) \<le> m"
    using n keep by (auto simp: length_lastn)
  have step: "rate_check Z env now x key \<lparr>windowSeconds = Some w, maxRequests = Some m, failClosed = fc\<rparr> (Some s) =
      (\<lparr>rl_allowed = (n \<le> m), rl_remaining = m - n, rl_resetAt = ceil_div (now + int w * 1000) 1000\<rparr>, Some s')"
    using r keep by (simp add: rate_check_def js_default_def
        WINDOW_LOG_HEADROOM_def Let_def)
  have "rate_verdicts Z env key \<lparr>windowSeconds = Some w, maxRequests = Some m, failClosed = fc\<rparr> es s' =
      window_verdicts (int w * 1000) m (past @ [now]) (map fst es)"
  proof (rule Cons.IH [OF v])
    show "\<forall>t\<in>set (map fst es). ?ws \<le> t - int w * 1000"
      using Cons.prems(3) e by (auto simp: sorted_append)
    show "\<forall>e\<in>set es. 0 \<le> fst e \<and> snd e \<notin> snd ` set (z_view Z s' ?k)"
    proof
      fix a assume a: "a \<in> set es"
      then have "snd a \<noteq> x" using Cons.prems(7) e by auto
      then show "0 \<le> fst a \<and> snd a \<notin> snd ` set (z_view Z s' ?k)"
        using a Cons.prems(6) e mem by auto
    qed
  qed (use Cons.prems e in auto)
  then show ?case using step allowed by (simp add: e)
qed simp

section \<open>Guarantees\<close>

text \<open>
  C27. The limiter is an exact sliding window: for every sequence of calls for a key with
  Redis connected, a call is allowed exactly if at most \<open>maxRequests\<close> calls, itself and
  refused ones included, fall into the window that ends with it, although the log is trimmed to
  the newest \<open>maxRequests + 100\<close> entries. So no window ever contains more than
  \<open>maxRequests\<close> allowed calls at its end.
\<close>

theorem sliding_window_exact:
  assumes "zsets_ok Z" and "z_view Z s (SLIDING_WINDOW_LOG_PREFIX @ key) = []"
    and "sorted (map fst es)" and "\<forall>e\<in>set es. 0 \<le> fst e" and "distinct (map snd es)" and "0 < w"
  shows "rate_verdicts Z env key \<lparr>windowSeconds = Some w, maxRequests = Some m, failClosed = fc\<rparr> es s =
         window_verdicts (int w * 1000) m [] (map fst es)"
proof -
  have "\<forall>now\<in>set (map fst es). - int w * 1000 \<le> now - int w * 1000" using assms(4) by auto
  then show ?thesis
    using verdicts_window [OF assms(1) refl, where s = s and key = key and c = "- int w * 1000" and past = "[]"
        and es = es and w = w and env = env and m = m and fc = fc] assms
    by (simp add: lastn_def)
qed

definition map_zsets :: "(string \<Rightarrow> (int \<times> string) list) zsets" where
  "map_zsets = \<lparr>
     z_remrangebyscore = (\<lambda>s k m. s(k := filter (\<lambda>(sc, _). \<not> (0 \<le> sc \<and> sc \<le> m)) (sort_key fst (s k)))),
     z_add = (\<lambda>s k sc x. s(k := (sc, x) # s k)),
     z_keep_newest = (\<lambda>s k n. s(k := drop (length (s k) - n) (sort_key fst (s k)))),
     z_card = (\<lambda>s k. length (s k)), z_expire = (\<lambda>s k ttl. s), z_view = (\<lambda>s k. sort_key fst (s k))\<rparr>"

lemma map_zsets_ok: "zsets_ok map_zsets"
proof -
  have "sort_key fst (filter P (sort_key fst xs)) = filter P (sort_key fst (xs :: (int \<times> string) list))" for P xs
    by (rule sort_key_id_if_sorted) (simp add: sorted_filter)
  moreover have "sort_key fst (drop n (sort_key fst xs)) = drop n (sort_key fst (xs :: (int \<times> string) list))" for n xs
    by (rule sort_key_id_if_sorted) (simp add: drop_map [symmetric] sorted_wrt_drop)
  ultimately show ?thesis by (simp add: zsets_ok_def map_zsets_def)
qed

theorem sliding_window_exact_witness:
  "rate_verdicts map_zsets \<lparr>RATE_LIMIT_TTL = 60, RATE_LIMIT_MAX = 100\<rparr> ''k''
     \<lparr>windowSeconds = Some 1, maxRequests = Some 2, failClosed = None\<rparr>
     [(0, ''a''), (10, ''b''), (20, ''c''), (1015, ''d'')] (\<lambda>_. []) = [True, True, False, True]"
  using sliding_window_exact [OF map_zsets_ok, of "\<lambda>_. []" "''k''"
      "[(0, ''a''), (10, ''b''), (20, ''c''), (1015, ''d'')]" 1 "\<lparr>RATE_LIMIT_TTL = 60, RATE_LIMIT_MAX = 100\<rparr>" 2 None]
  by (simp add: map_zsets_def)

definition guard_key :: "rate_request \<Rightarrow> string" where
  "guard_key req = ''ip:'' @ js_default (rr_ip req) (js_default (rr_remoteAddress req) ''unknown'') @
     '':route:'' @ js_default (rr_route req) ''unmatched''"

fun rate_passes :: "rate_answer \<Rightarrow> bool" where
  "rate_passes (Pass _ _ _) = True"
| "rate_passes (TooMany _ _ _ _) = False"


end
