(* ===== verification/OperationReceipts.thy ===== *)
theory OperationReceipts
  imports Idempotency
begin

text \<open>
  Durable idempotency receipts,
  \<open>apps/api/src/infrastructure/idempotency/operation-receipt.service.ts\<close> over
  \<open>repositories/operation-receipt.repository.ts\<close>. The table is the list of its rows; each
  function is one SQL statement and runs atomically in a transaction at time \<open>now\<close>. The unique
  constraint is on the operation type, the scope and the operation id. A receipt id is a
  random UUID and an argument.
\<close>

section \<open>The table\<close>

datatype receipt_status = Processing | Completed

record receipt =
  rc_id :: string
  rc_operationId :: string
  rc_operationType :: string
  rc_scopeId :: string
  rc_actorId :: "string option"
  rc_tenantId :: "string option"
  rc_requestHash :: string
  rc_status :: receipt_status
  rc_result :: js
  rc_expiresAt :: int
  rc_createdAt :: int
  rc_completedAt :: "int option"

record operation_identity =
  operationId :: string
  operationType :: string
  scopeId :: string
  actorId :: "string option"
  op_tenantId :: "string option"
  requestHash :: string
  expiresAt :: "int option"

definition same_operation :: "string \<Rightarrow> string \<Rightarrow> string \<Rightarrow> receipt \<Rightarrow> bool" where
  "same_operation ty sc oid r \<longleftrightarrow> rc_operationType r = ty \<and> rc_scopeId r = sc \<and> rc_operationId r = oid"

definition new_receipt :: "string \<Rightarrow> operation_identity \<Rightarrow> int \<Rightarrow> int \<Rightarrow> receipt" where
  "new_receipt rid idn expires now =
     \<lparr>rc_id = rid, rc_operationId = operationId idn, rc_operationType = operationType idn,
      rc_scopeId = scopeId idn, rc_actorId = actorId idn, rc_tenantId = op_tenantId idn,
      rc_requestHash = requestHash idn, rc_status = Processing, rc_result = JNull,
      rc_expiresAt = expires, rc_createdAt = now, rc_completedAt = None\<rparr>"

text \<open>The update of a conflicting row; fields set to \<open>undefined\<close> keep their value.\<close>

definition take_over :: "string \<Rightarrow> operation_identity \<Rightarrow> int \<Rightarrow> int \<Rightarrow> receipt \<Rightarrow> receipt" where
  "take_over rid idn expires now r =
     r\<lparr>rc_id := rid,
       rc_actorId := (case actorId idn of None \<Rightarrow> rc_actorId r | Some a \<Rightarrow> Some a),
       rc_tenantId := (case op_tenantId idn of None \<Rightarrow> rc_tenantId r | Some t \<Rightarrow> Some t),
       rc_requestHash := requestHash idn, rc_status := Processing, rc_result := JNull,
       rc_expiresAt := expires, rc_createdAt := now, rc_completedAt := None\<rparr>"

definition createIfAbsent ::
  "string \<Rightarrow> operation_identity \<Rightarrow> int \<Rightarrow> int \<Rightarrow> receipt list \<Rightarrow> bool \<times> receipt list" where
  "createIfAbsent rid idn expires now rs =
    (let same = same_operation (operationType idn) (scopeId idn) (operationId idn);
         free = (\<lambda>r. same r \<and> rc_status r = Processing \<and> rc_expiresAt r < now)
     in if \<not> list_ex same rs then (True, rs @ [new_receipt rid idn expires now])
        else if list_ex free rs then (True, map (\<lambda>r. if free r then take_over rid idn expires now r else r) rs)
        else (False, rs))"

definition receipt_find :: "string \<Rightarrow> string \<Rightarrow> string \<Rightarrow> receipt list \<Rightarrow> receipt option" where
  "receipt_find ty sc oid rs = find (same_operation ty sc oid) rs"

definition open_receipt :: "string \<Rightarrow> receipt \<Rightarrow> bool" where
  "open_receipt rid r \<longleftrightarrow> rc_id r = rid \<and> rc_status r = Processing"

definition receipt_complete :: "string \<Rightarrow> js \<Rightarrow> int option \<Rightarrow> int \<Rightarrow> receipt list \<Rightarrow> bool \<times> receipt list" where
  "receipt_complete rid res expires now rs =
     (length (filter (open_receipt rid) rs) = 1,
      map (\<lambda>r. if open_receipt rid r
               then r\<lparr>rc_status := Completed, rc_result := res, rc_completedAt := Some now,
                      rc_expiresAt := (case expires of None \<Rightarrow> rc_expiresAt r | Some e \<Rightarrow> e)\<rparr>
               else r) rs)"

definition receipt_release :: "string \<Rightarrow> receipt list \<Rightarrow> receipt list" where
  "receipt_release rid rs = filter (\<lambda>r. \<not> open_receipt rid r) rs"

definition releaseByOperationId :: "string \<Rightarrow> string \<Rightarrow> receipt list \<Rightarrow> receipt list" where
  "releaseByOperationId ty oid rs =
     filter (\<lambda>r. \<not> (rc_operationType r = ty \<and> rc_operationId r = oid \<and> rc_status r = Processing)) rs"

text \<open>
  The retention: up to \<open>limit\<close> expired rows that no other transaction has locked, the oldest
  expiry first.
\<close>

definition deleteExpired :: "(string \<Rightarrow> bool) \<Rightarrow> nat \<Rightarrow> int \<Rightarrow> receipt list \<Rightarrow> receipt list" where
  "deleteExpired lockedElsewhere limit now rs =
    (let expired = take limit (sort_key rc_expiresAt
                     (filter (\<lambda>r. rc_expiresAt r < now \<and> \<not> lockedElsewhere (rc_id r)) rs))
     in filter (\<lambda>r. rc_id r \<notin> rc_id ` set expired) rs)"

section \<open>The service\<close>

definition DEFAULT_RECEIPT_TTL_MS :: int where "DEFAULT_RECEIPT_TTL_MS = 7 * 24 * 60 * 60 * 1000"
definition MAX_RECEIPT_RESULT_BYTES :: nat where "MAX_RECEIPT_RESULT_BYTES = 256 * 1024"

datatype receipt_error =
    TRANSACTION_REQUIRED
  | OPERATION_ID_REUSED
  | OPERATION_IN_PROGRESS
  | OPERATION_RESULT_TOO_LARGE

datatype operation_claim = CLAIMED string | COMPLETED js

definition receipts_claim ::
  "bool \<Rightarrow> string \<Rightarrow> operation_identity \<Rightarrow> int \<Rightarrow> receipt list \<Rightarrow> (receipt_error + operation_claim) \<times> receipt list" where
  "receipts_claim tx rid idn now rs =
    (if \<not> tx then (Inl TRANSACTION_REQUIRED, rs)
     else
       let expires = (case expiresAt idn of None \<Rightarrow> now + DEFAULT_RECEIPT_TTL_MS | Some e \<Rightarrow> e) in
       case createIfAbsent rid idn expires now rs of
         (True, rs') \<Rightarrow> (Inr (CLAIMED rid), rs')
       | (False, rs') \<Rightarrow>
           (case receipt_find (operationType idn) (scopeId idn) (operationId idn) rs' of
              None \<Rightarrow> (Inl OPERATION_ID_REUSED, rs')
            | Some existing \<Rightarrow>
                if rc_requestHash existing \<noteq> requestHash idn then (Inl OPERATION_ID_REUSED, rs')
                else if rc_status existing \<noteq> Completed then (Inl OPERATION_IN_PROGRESS, rs')
                else (Inr (COMPLETED (rc_result existing)), rs')))"

definition isStorableResult :: "(js \<Rightarrow> printed) \<Rightarrow> js \<Rightarrow> bool" where
  "isStorableResult stringify res \<longleftrightarrow>
     (case stringify res of Text v n \<Rightarrow> n \<le> MAX_RECEIPT_RESULT_BYTES | _ \<Rightarrow> False)"

definition receipts_complete ::
  "(js \<Rightarrow> printed) \<Rightarrow> bool \<Rightarrow> string \<Rightarrow> js \<Rightarrow> int option \<Rightarrow> int \<Rightarrow> receipt list \<Rightarrow> (receipt_error + unit) \<times> receipt list" where
  "receipts_complete stringify tx rid res expires now rs =
    (if \<not> tx then (Inl TRANSACTION_REQUIRED, rs)
     else if \<not> isStorableResult stringify res then (Inl OPERATION_RESULT_TOO_LARGE, rs)
     else (case receipt_complete rid res expires now rs of
             (True, rs') \<Rightarrow> (Inr (), rs')
           | (False, rs') \<Rightarrow> (Inl OPERATION_IN_PROGRESS, rs')))"

definition receipts_release :: "bool \<Rightarrow> string \<Rightarrow> receipt list \<Rightarrow> (receipt_error + unit) \<times> receipt list" where
  "receipts_release tx rid rs =
    (if \<not> tx then (Inl TRANSACTION_REQUIRED, rs) else (Inr (), receipt_release rid rs))"

definition receipts_releaseByOperationId ::
  "bool \<Rightarrow> string \<Rightarrow> string \<Rightarrow> receipt list \<Rightarrow> (receipt_error + unit) \<times> receipt list" where
  "receipts_releaseByOperationId tx ty oid rs =
    (if \<not> tx then (Inl TRANSACTION_REQUIRED, rs) else (Inr (), releaseByOperationId ty oid rs))"

section \<open>Sequences of statements\<close>

datatype receipt_op =
    Claim string operation_identity int
  | Complete string js "int option" int
  | Release string
  | ReleaseOperation string string
  | Purge "string list" nat int

fun receipt_step :: "(js \<Rightarrow> printed) \<Rightarrow> receipt_op \<Rightarrow> receipt list \<Rightarrow> receipt list" where
  "receipt_step str (Claim rid idn now) rs = snd (receipts_claim True rid idn now rs)"
| "receipt_step str (Complete rid res ex now) rs = snd (receipts_complete str True rid res ex now rs)"
| "receipt_step str (Release rid) rs = snd (receipts_release True rid rs)"
| "receipt_step str (ReleaseOperation ty oid) rs = snd (receipts_releaseByOperationId True ty oid rs)"
| "receipt_step str (Purge elsewhere limit now) rs = deleteExpired (\<lambda>i. i \<in> set elsewhere) limit now rs"

definition receipt_run :: "(js \<Rightarrow> printed) \<Rightarrow> receipt_op list \<Rightarrow> receipt list \<Rightarrow> receipt list" where
  "receipt_run str ops rs = fold (receipt_step str) ops rs"

definition identity_of :: "receipt \<Rightarrow> string \<times> string \<times> string" where
  "identity_of r = (rc_operationType r, rc_scopeId r, rc_operationId r)"

text \<open>The two unique constraints.\<close>

definition receipts_ok :: "receipt list \<Rightarrow> bool" where
  "receipts_ok rs \<longleftrightarrow> distinct (map identity_of rs) \<and> distinct (map rc_id rs)"

text \<open>Receipt ids are fresh: each claim brings one that no row has.\<close>

fun fresh_op :: "receipt list \<Rightarrow> receipt_op \<Rightarrow> bool" where
  "fresh_op rs (Claim rid idn now) = (rid \<notin> rc_id ` set rs)"
| "fresh_op rs _ = True"

lemma same_operation_identity:
  "same_operation ty sc oid r \<longleftrightarrow> identity_of r = (ty, sc, oid)"
  by (auto simp: same_operation_def identity_of_def)

lemma identity_unique:
  "receipts_ok rs \<Longrightarrow> r \<in> set rs \<Longrightarrow> q \<in> set rs \<Longrightarrow> identity_of r = identity_of q \<Longrightarrow> r = q"
  by (auto simp: receipts_ok_def distinct_map inj_on_def)

section \<open>The constraints are kept\<close>

definition free_receipt :: "operation_identity \<Rightarrow> int \<Rightarrow> receipt \<Rightarrow> bool" where
  "free_receipt idn now r \<longleftrightarrow>
     same_operation (operationType idn) (scopeId idn) (operationId idn) r \<and>
     rc_status r = Processing \<and> rc_expiresAt r < now"

lemma createIfAbsent_cases:
  "createIfAbsent rid idn e now rs =
     (if \<not> list_ex (same_operation (operationType idn) (scopeId idn) (operationId idn)) rs
      then (True, rs @ [new_receipt rid idn e now])
      else if list_ex (free_receipt idn now) rs
      then (True, map (\<lambda>r. if free_receipt idn now r then take_over rid idn e now r else r) rs)
      else (False, rs))"
  by (simp add: createIfAbsent_def free_receipt_def [abs_def] Let_def)

lemma take_over_simps [simp]:
  "identity_of (take_over rid idn e now r) = identity_of r" "rc_id (take_over rid idn e now r) = rid"
  by (simp_all add: take_over_def identity_of_def)

lemma free_unique:
  "receipts_ok rs \<Longrightarrow> r \<in> set rs \<Longrightarrow> q \<in> set rs \<Longrightarrow> free_receipt idn now r \<Longrightarrow> free_receipt idn now q \<Longrightarrow> r = q"
  by (rule identity_unique) (auto simp: free_receipt_def same_operation_identity)

lemma distinct_map_if:
  assumes "distinct (map f xs)" and "b \<notin> f ` set xs"
    and "\<And>x y. x \<in> set xs \<Longrightarrow> y \<in> set xs \<Longrightarrow> P x \<Longrightarrow> P y \<Longrightarrow> x = y"
  shows "distinct (map (\<lambda>x. if P x then b else f x) xs)"
  using assms by (auto simp: distinct_map inj_on_def)

lemma claim_ok:
  assumes ok: "receipts_ok rs" and fresh: "rid \<notin> rc_id ` set rs"
  shows "receipts_ok (snd (createIfAbsent rid idn e now rs))"
proof -
  let ?same = "same_operation (operationType idn) (scopeId idn) (operationId idn)"
  have app: "receipts_ok (rs @ [new_receipt rid idn e now])" if "\<not> list_ex ?same rs"
    using ok fresh that
    by (auto simp: receipts_ok_def new_receipt_def identity_of_def list_ex_iff same_operation_def)
  have "distinct (map rc_id (map (\<lambda>r. if free_receipt idn now r then take_over rid idn e now r else r) rs))"
    using distinct_map_if [where f = rc_id and P = "free_receipt idn now" and xs = rs and b = rid]
      ok fresh free_unique [OF ok]
    by (simp add: receipts_ok_def comp_def if_distrib [of rc_id] cong: if_cong)
  moreover have "map identity_of (map (\<lambda>r. if free_receipt idn now r then take_over rid idn e now r else r) rs) =
      map identity_of rs" by simp
  ultimately have "receipts_ok (map (\<lambda>r. if free_receipt idn now r then take_over rid idn e now r else r) rs)"
    using ok by (simp only: receipts_ok_def)
  with app ok show ?thesis by (auto simp: createIfAbsent_cases)
qed

lemma snd_claim:
  "snd (receipts_claim True rid idn now rs) =
     snd (createIfAbsent rid idn (case expiresAt idn of None \<Rightarrow> now + DEFAULT_RECEIPT_TTL_MS | Some e \<Rightarrow> e) now rs)"
  by (auto simp: receipts_claim_def Let_def split: prod.split bool.split option.split)

lemma snd_complete:
  "snd (receipts_complete str True rid res ex now rs) =
     (if isStorableResult str res then snd (receipt_complete rid res ex now rs) else rs)"
  by (auto simp: receipts_complete_def split: prod.split bool.split)

lemma receipts_ok_filter: "receipts_ok rs \<Longrightarrow> receipts_ok (filter P rs)"
  by (simp add: receipts_ok_def distinct_map_filter)

lemma receipt_step_ok:
  assumes "receipts_ok rs" and "fresh_op rs op"
  shows "receipts_ok (receipt_step str op rs)"
proof (cases op)
  case (Claim rid idn now)
  then show ?thesis using assms by (simp add: snd_claim claim_ok)
next
  case (Complete rid res ex now)
  have "map identity_of (snd (receipt_complete rid res ex now rs)) = map identity_of rs"
    "map rc_id (snd (receipt_complete rid res ex now rs)) = map rc_id rs"
    by (simp_all add: receipt_complete_def identity_of_def)
  with Complete assms show ?thesis by (simp add: snd_complete receipts_ok_def)
qed (use assms in \<open>simp_all add: receipts_release_def receipt_release_def receipts_releaseByOperationId_def
      releaseByOperationId_def deleteExpired_def Let_def receipts_ok_filter\<close>)

fun fresh_run :: "(js \<Rightarrow> printed) \<Rightarrow> receipt list \<Rightarrow> receipt_op list \<Rightarrow> bool" where
  "fresh_run str rs [] = True"
| "fresh_run str rs (op # ops) = (fresh_op rs op \<and> fresh_run str (receipt_step str op rs) ops)"

lemma receipt_run_ok: "receipts_ok rs \<Longrightarrow> fresh_run str rs ops \<Longrightarrow> receipts_ok (receipt_run str ops rs)"
  unfolding receipt_run_def by (induction ops arbitrary: rs) (simp_all add: receipt_step_ok)

section \<open>What keeps a row\<close>

fun op_within :: "int \<Rightarrow> receipt_op \<Rightarrow> bool" where
  "op_within e (Claim rid idn now) = (now \<le> e)"
| "op_within e (Complete rid res ex now) = (now \<le> e)"
| "op_within e (Purge elsewhere limit now) = (now \<le> e)"
| "op_within e _ = True"

text \<open>The operation does not address the open row \<open>r\<close>.\<close>

fun leaves :: "receipt \<Rightarrow> receipt_op \<Rightarrow> bool" where
  "leaves r (Complete rid res ex now) = (rid \<noteq> rc_id r)"
| "leaves r (Release rid) = (rid \<noteq> rc_id r)"
| "leaves r (ReleaseOperation ty oid) = (rc_operationType r \<noteq> ty \<or> rc_operationId r \<noteq> oid)"
| "leaves r _ = True"

lemma row_kept:
  assumes ok: "receipts_ok rs" and r: "r \<in> set rs" and w: "op_within (rc_expiresAt r) op"
    and keep: "rc_status r = Completed \<or> leaves r op"
  shows "r \<in> set (receipt_step str op rs)"
proof (cases op)
  case (Claim rid idn now)
  then have "\<not> free_receipt idn now r" using w by (simp add: free_receipt_def)
  with Claim r show ?thesis by (force simp: snd_claim createIfAbsent_cases)
next
  case (Complete rid res ex now)
  then have "\<not> open_receipt rid r" using keep by (auto simp: open_receipt_def)
  with Complete r show ?thesis by (force simp: snd_complete receipt_complete_def)
next
  case (Purge elsewhere limit now)
  have "q \<in> set rs \<Longrightarrow> rc_id q = rc_id r \<Longrightarrow> q = r" for q
    using ok r by (auto simp: receipts_ok_def distinct_map inj_on_def)
  then have "rc_id r \<notin> rc_id ` set (take limit (sort_key rc_expiresAt
      (filter (\<lambda>r. rc_expiresAt r < now \<and> \<not> rc_id r \<in> set elsewhere) rs)))"
    using w Purge by (auto dest!: in_set_takeD)
  with Purge r show ?thesis by (simp add: deleteExpired_def Let_def)
qed (use r keep in \<open>auto simp: receipts_release_def receipt_release_def receipts_releaseByOperationId_def
      releaseByOperationId_def open_receipt_def\<close>)

lemma row_kept_run:
  assumes "receipts_ok rs" and "r \<in> set rs" and "fresh_run str rs ops"
    and "list_all (op_within (rc_expiresAt r)) ops"
    and "rc_status r = Completed \<or> list_all (leaves r) ops"
  shows "r \<in> set (receipt_run str ops rs)"
  using assms unfolding receipt_run_def
  by (induction ops arbitrary: rs) (auto intro!: receipt_step_ok row_kept)

lemma claim_existing:
  assumes ok: "receipts_ok rs" and r: "r \<in> set rs"
    and same: "identity_of r = (operationType idn, scopeId idn, operationId idn)"
    and taken: "rc_status r = Completed \<or> now \<le> rc_expiresAt r"
  shows "receipts_claim True rid idn now rs =
    ((if rc_requestHash r \<noteq> requestHash idn then Inl OPERATION_ID_REUSED
      else if rc_status r \<noteq> Completed then Inl OPERATION_IN_PROGRESS
      else Inr (COMPLETED (rc_result r))), rs)"
proof -
  let ?same = "same_operation (operationType idn) (scopeId idn) (operationId idn)"
  have u: "q \<in> set rs \<Longrightarrow> ?same q \<Longrightarrow> q = r" for q
    using identity_unique [OF ok _ r] same by (auto simp: same_operation_identity)
  have s: "?same r" using same by (simp add: same_operation_identity)
  then have "find ?same rs = Some r"
    using u r by (metis find_None_iff find_Some_iff nth_mem option.exhaust)
  moreover have "\<not> list_ex (free_receipt idn now) rs"
    using u taken by (auto simp: list_ex_iff free_receipt_def)
  moreover have "list_ex ?same rs" using s r by (auto simp: list_ex_iff)
  ultimately show ?thesis
    by (simp add: receipts_claim_def createIfAbsent_cases receipt_find_def Let_def)
qed

section \<open>Guarantees\<close>

definition in_force :: "receipt list \<Rightarrow> receipt \<Rightarrow> (js \<Rightarrow> printed) \<Rightarrow> receipt_op list \<Rightarrow> bool" where
  "in_force rs r str ops \<longleftrightarrow>
     receipts_ok rs \<and> r \<in> set rs \<and> fresh_run str rs ops \<and> list_all (op_within (rc_expiresAt r)) ops"

text \<open>
  A completed operation is answered once and for all: until its receipt expires, whatever
  claims, completions, releases and purges happen in between, every claim of the same
  operation with the same request hash gets the stored result, and one with another hash is
  refused as a reuse of the id; neither changes the table.
\<close>

theorem receipt_result_stable:
  assumes "in_force rs r str ops" and "rc_status r = Completed"
    and "identity_of r = (operationType idn, scopeId idn, operationId idn)"
  shows "receipts_claim True rid idn now (receipt_run str ops rs) =
    (if rc_requestHash r = requestHash idn then Inr (COMPLETED (rc_result r)) else Inl OPERATION_ID_REUSED,
     receipt_run str ops rs)"
proof -
  have "receipts_ok (receipt_run str ops rs)" and "r \<in> set (receipt_run str ops rs)"
    using assms receipt_run_ok row_kept_run by (auto simp: in_force_def)
  from claim_existing [OF this assms(3)] assms(2) show ?thesis by simp
qed

definition demo_identity :: operation_identity where
  "demo_identity = \<lparr>operationId = ''op'', operationType = ''t'', scopeId = ''s'', actorId = None,
     op_tenantId = None, requestHash = ''h'', expiresAt = Some 1000\<rparr>"

definition demo_receipt :: "receipt_status \<Rightarrow> receipt" where
  "demo_receipt st = (new_receipt ''r1'' demo_identity 1000 0)\<lparr>rc_status := st, rc_result := JStr ''done''\<rparr>"

lemma demo_in_force:
  "in_force [demo_receipt st] (demo_receipt st) str [Claim ''r2'' demo_identity 10, Purge [] 5 20]"
proof -
  have "fresh_run str [demo_receipt st] [Claim ''r2'' demo_identity 10, Purge [] 5 20]"
    by (simp add: demo_receipt_def new_receipt_def)
  then show ?thesis by (simp add: in_force_def receipts_ok_def demo_receipt_def new_receipt_def)
qed

lemma demo_receipt_identity:
  "identity_of (demo_receipt st) = (operationType demo_identity, scopeId demo_identity, operationId demo_identity)"
  by (simp add: demo_receipt_def new_receipt_def identity_of_def)

theorem receipt_result_stable_witness:
  "fst (receipts_claim True ''r3'' demo_identity 30
     (receipt_run (\<lambda>v. NoText) [Claim ''r2'' demo_identity 10, Purge [] 5 20] [demo_receipt Completed])) =
   Inr (COMPLETED (JStr ''done''))"
proof -
  have "rc_status (demo_receipt Completed) = Completed" by (simp add: demo_receipt_def)
  from receipt_result_stable [OF demo_in_force this demo_receipt_identity, of "''r3''" 30 "\<lambda>v. NoText"]
  show ?thesis by (simp add: demo_receipt_def new_receipt_def demo_identity_def)
qed

text \<open>
  C21. A claim is exclusive: from the moment it is granted until it expires, as long as its
  holder neither completes nor releases it and nobody releases the operation, every other
  claim of the operation is refused, as in progress or as a reuse of the id.
\<close>

theorem receipt_claim_exclusive:
  assumes "receipts_claim True rid idn t rs0 = (Inr (CLAIMED rid), rs)"
    and "receipts_ok rs0" and "rid \<notin> rc_id ` set rs0"
    and "expiresAt idn = Some e" and "fresh_run str rs ops" and "list_all (op_within e) ops"
    and "\<forall>r\<in>set rs. rc_id r = rid \<longrightarrow> list_all (leaves r) ops"
    and "now \<le> e" and "operationType idn' = operationType idn" and "scopeId idn' = scopeId idn"
    and "operationId idn' = operationId idn"
  shows "fst (receipts_claim True rid' idn' now (receipt_run str ops rs)) =
    Inl (if requestHash idn' = requestHash idn then OPERATION_IN_PROGRESS else OPERATION_ID_REUSED)"
proof -
  have c: "createIfAbsent rid idn e t rs0 = (True, rs)"
    using assms(1,4) by (auto simp: receipts_claim_def Let_def split: prod.splits bool.splits option.splits if_splits)
  have ok: "receipts_ok rs" using claim_ok [OF assms(2,3), of idn e t] c by simp
  have "\<exists>r\<in>set rs. rc_id r = rid \<and> rc_status r = Processing \<and> rc_expiresAt r = e \<and>
      rc_requestHash r = requestHash idn \<and> identity_of r = (operationType idn, scopeId idn, operationId idn)"
  proof (cases "list_ex (same_operation (operationType idn) (scopeId idn) (operationId idn)) rs0")
    case False
    then show ?thesis using c by (auto simp: createIfAbsent_cases new_receipt_def identity_of_def)
  next
    case True
    then have "list_ex (free_receipt idn t) rs0"
      and rs: "rs = map (\<lambda>r. if free_receipt idn t r then take_over rid idn e t r else r) rs0"
      using c by (auto simp: createIfAbsent_cases split: if_splits)
    then obtain q where q: "q \<in> set rs0" "free_receipt idn t q" by (auto simp: list_ex_iff)
    then have "take_over rid idn e t q \<in> set rs" by (force simp: rs)
    moreover have "identity_of q = (operationType idn, scopeId idn, operationId idn)"
      using q by (simp add: free_receipt_def same_operation_identity)
    ultimately show ?thesis by (intro bexI [of _ "take_over rid idn e t q"]) (auto simp: take_over_def identity_of_def)
  qed
  then obtain r where r: "r \<in> set rs" "rc_id r = rid" "rc_status r = Processing" "rc_expiresAt r = e"
      "rc_requestHash r = requestHash idn" "identity_of r = (operationType idn, scopeId idn, operationId idn)"
    by blast
  have "r \<in> set (receipt_run str ops rs)"
    using row_kept_run [OF ok r(1) assms(5)] r assms(6,7) by auto
  from claim_existing [OF receipt_run_ok [OF ok assms(5)] this, of idn' now rid'] r assms(8-11)
  show ?thesis by auto
qed

theorem receipt_claim_exclusive_witness:
  "fst (receipts_claim True ''r2'' demo_identity 900 (receipt_run (\<lambda>v. NoText) [Release ''zz'']
     (snd (receipts_claim True ''r1'' demo_identity 0 [])))) = Inl OPERATION_IN_PROGRESS"
proof -
  have c: "receipts_claim True ''r1'' demo_identity 0 [] =
      (Inr (CLAIMED ''r1''), [new_receipt ''r1'' demo_identity 1000 0])"
    by (simp add: receipts_claim_def createIfAbsent_cases demo_identity_def)
  show ?thesis
    unfolding c snd_conv
    using receipt_claim_exclusive [OF c, of 1000 "\<lambda>v. NoText" "[Release ''zz'']" 900 demo_identity "''r2''"]
    by (simp add: receipts_ok_def demo_identity_def new_receipt_def)
qed

end
