(* ===== verification/Outbox.thy ===== *)
theory Outbox
  imports OperationReceipts
begin

text \<open>
  The transactional outbox, \<open>apps/api/src/infrastructure/outbox\<close>: the event table and its SQL
  statements (\<open>repositories/outbox.repository.ts\<close>), writing events (\<open>outbox.service.ts\<close>), the
  registry of required consumers (\<open>services/outbox-consumer.registry.ts\<close>), the relay and its
  retries (\<open>services/outbox-relay.delivery.ts\<close>, \<open>workers/outbox-relay.worker.ts\<close>) and the queue
  worker (\<open>workers/outbox-event.worker.ts\<close>), with the envelope check of
  \<open>packages/contracts/src/schemas/outbox.schema.ts\<close>. The payload schemas, the queue (BullMQ),
  the consumers and the random jitter are arguments. Times are milliseconds.
\<close>

section \<open>Envelopes\<close>

record envelope =
  ev_id :: string
  ev_topic :: string
  ev_version :: int
  ev_tenantId :: "string option"
  ev_payload :: js

definition envelope_ok :: "envelope \<Rightarrow> bool" where
  "envelope_ok e \<longleftrightarrow> ev_id e \<noteq> [] \<and> ev_topic e \<noteq> [] \<and> ev_version e > 0 \<and> ev_tenantId e \<noteq> Some [] \<and>
     isRecord (ev_payload e)"

text \<open>\<open>schemas\<close> are the payload schemas of version 1; a schema fails or returns its reading.\<close>

type_synonym payload_schemas = "string \<Rightarrow> (js \<Rightarrow> js option) option"

definition parseOutboxEventEnvelope :: "payload_schemas \<Rightarrow> envelope \<Rightarrow> envelope option" where
  "parseOutboxEventEnvelope schemas e =
    (if \<not> envelope_ok e then None
     else if ev_version e \<noteq> 1 then None
     else (case schemas (ev_topic e) of
             None \<Rightarrow> Some e
           | Some schema \<Rightarrow> map_option (\<lambda>p. e\<lparr>ev_payload := p\<rparr>) (schema (ev_payload e))))"

section \<open>The table\<close>

datatype event_status = PENDING | PROCESSING | PUBLISHED | FAILED | DEAD_LETTER

record event_row =
  ob_id :: string
  ob_tenantId :: "string option"
  ob_topic :: string
  ob_schemaVersion :: int
  ob_payload :: js
  ob_status :: event_status
  ob_error :: "string option"
  ob_attempts :: nat
  ob_nextAttemptAt :: "int option"
  ob_lockedAt :: "int option"
  ob_createdAt :: int
  ob_updatedAt :: int

definition update_where :: "(event_row \<Rightarrow> bool) \<Rightarrow> (event_row \<Rightarrow> event_row) \<Rightarrow> event_row list \<Rightarrow> event_row list" where
  "update_where P f rows = map (\<lambda>r. if P r then f r else r) rows"

text \<open>\<open>updateById\<close> of the base repository stamps \<open>updatedAt\<close>; the outbox table is not tenant-scoped.\<close>

definition updateById :: "string \<Rightarrow> (event_row \<Rightarrow> event_row) \<Rightarrow> int \<Rightarrow> event_row list \<Rightarrow> event_row list" where
  "updateById i f now rows = update_where (\<lambda>r. ob_id r = i) (\<lambda>r. (f r)\<lparr>ob_updatedAt := now\<rparr>) rows"

definition event_due :: "int \<Rightarrow> event_row \<Rightarrow> bool" where
  "event_due now r \<longleftrightarrow> ob_status r = PENDING \<and> (case ob_nextAttemptAt r of None \<Rightarrow> True | Some t \<Rightarrow> t \<le> now)"

text \<open>
  Claiming a batch: due events in order of creation, skipping those another transaction has
  locked. \<open>RETURNING\<close> promises no order; the rows come in table order here.
\<close>

definition lockPendingEvents ::
  "(string \<Rightarrow> bool) \<Rightarrow> nat \<Rightarrow> int \<Rightarrow> event_row list \<Rightarrow> event_row list \<times> event_row list" where
  "lockPendingEvents lockedElsewhere limit now rows =
    (let chosen = take limit (sort_key ob_createdAt
                    (filter (\<lambda>r. event_due now r \<and> \<not> lockedElsewhere (ob_id r)) rows));
         picked = (\<lambda>r. ob_id r \<in> ob_id ` set chosen);
         claim = (\<lambda>r. r\<lparr>ob_status := PROCESSING, ob_lockedAt := Some now, ob_updatedAt := now\<rparr>)
     in (map claim (filter picked rows), update_where picked claim rows))"

definition stale_lock :: "int \<Rightarrow> event_row \<Rightarrow> bool" where
  "stale_lock lockedBefore r \<longleftrightarrow>
     ob_status r = PROCESSING \<and> (case ob_lockedAt r of None \<Rightarrow> False | Some t \<Rightarrow> t < lockedBefore)"

definition recoverStaleLocks_rows :: "int \<Rightarrow> int \<Rightarrow> event_row list \<Rightarrow> nat \<times> event_row list" where
  "recoverStaleLocks_rows lockedBefore now rows =
     (length (filter (stale_lock lockedBefore) rows),
      update_where (stale_lock lockedBefore)
        (\<lambda>r. r\<lparr>ob_status := PENDING, ob_lockedAt := None, ob_updatedAt := now\<rparr>) rows)"

definition requeueDeadLetter :: "string \<Rightarrow> int \<Rightarrow> event_row list \<Rightarrow> bool \<times> event_row list" where
  "requeueDeadLetter i now rows =
    (let dead = (\<lambda>r. ob_id r = i \<and> ob_status r = DEAD_LETTER) in
     (list_ex dead rows,
      update_where dead (\<lambda>r. r\<lparr>ob_status := PENDING, ob_attempts := 0, ob_error := None,
        ob_nextAttemptAt := None, ob_lockedAt := None, ob_updatedAt := now\<rparr>) rows))"

definition deletePublishedBefore :: "int \<Rightarrow> nat \<Rightarrow> event_row list \<Rightarrow> nat \<times> event_row list" where
  "deletePublishedBefore cutoff limit rows =
    (let old = take limit (sort_key ob_updatedAt
                 (filter (\<lambda>r. ob_status r = PUBLISHED \<and> ob_updatedAt r < cutoff) rows));
         gone = (\<lambda>r. ob_id r \<in> ob_id ` set old)
     in (length (filter gone rows), filter (\<lambda>r. \<not> gone r) rows))"

section \<open>Required consumers\<close>

text \<open>
  Consumers per topic in order of registration. What a consumer does is an argument: its
  verdict may depend on everything handled before, which is the list of (consumer, event).
\<close>

record registration =
  rg_id :: string
  rg_topics :: "string list"

record consumer_registry =
  consumersByTopic :: "(string, registration list) jmap"
  consumerIds :: "string list"
  observerOnlyTopics :: "string list"

definition empty_registry :: consumer_registry where
  "empty_registry = \<lparr>consumersByTopic = [], consumerIds = [], observerOnlyTopics = []\<rparr>"

datatype registration_error = DuplicateConsumer | NoTopics

definition consumers_of :: "consumer_registry \<Rightarrow> string \<Rightarrow> registration list" where
  "consumers_of g topic = (case jm_get (consumersByTopic g) topic of None \<Rightarrow> [] | Some cs \<Rightarrow> cs)"

definition register_consumer :: "registration \<Rightarrow> consumer_registry \<Rightarrow> registration_error + consumer_registry" where
  "register_consumer c g =
    (if rg_id c \<in> set (consumerIds g) then Inl DuplicateConsumer
     else if rg_topics c = [] then Inl NoTopics
     else Inr (g\<lparr>consumerIds := js_add (rg_id c) (consumerIds g),
        consumersByTopic := fold (\<lambda>topic m. jm_set topic
            ((case jm_get m topic of None \<Rightarrow> [] | Some cs \<Rightarrow> cs) @ [c]) m) (rg_topics c) (consumersByTopic g)\<rparr>))"

definition registerObserverTopics :: "string list \<Rightarrow> consumer_registry \<Rightarrow> consumer_registry" where
  "registerObserverTopics topics g = g\<lparr>observerOnlyTopics := js_add_all topics (observerOnlyTopics g)\<rparr>"

datatype handler_result = HandlerOk | HandlerErr string | HandlerThrows

type_synonym effects = "(string \<times> string) list"
type_synonym handlers = "string \<Rightarrow> envelope \<Rightarrow> effects \<Rightarrow> handler_result"

fun run_consumers :: "handlers \<Rightarrow> envelope \<Rightarrow> registration list \<Rightarrow> effects \<Rightarrow> (string + unit) \<times> effects" where
  "run_consumers h e [] eff = (Inr (), eff)"
| "run_consumers h e (c # cs) eff =
    (case h (rg_id c) e eff of
       HandlerThrows \<Rightarrow> (Inl (''DURABLE_CONSUMER_THROWN:'' @ rg_id c), eff)
     | HandlerErr code \<Rightarrow> (Inl (''DURABLE_CONSUMER_FAILED:'' @ rg_id c @ '':'' @ code), eff)
     | HandlerOk \<Rightarrow> run_consumers h e cs (eff @ [(rg_id c, ev_id e)]))"

definition executeRequired :: "handlers \<Rightarrow> consumer_registry \<Rightarrow> envelope \<Rightarrow> effects \<Rightarrow> (string + unit) \<times> effects" where
  "executeRequired h g e eff =
    (let cs = consumers_of g (ev_topic e) in
     if cs = [] then
       (if ev_topic e \<in> set (observerOnlyTopics g) then (Inr (), eff)
        else (Inl (''UNCLASSIFIED_DURABLE_EVENT:'' @ ev_topic e), eff))
     else run_consumers h e cs eff)"

text \<open>The code that \<open>errorCode\<close> reports of a consumer's error.\<close>

definition errorCode :: "js \<Rightarrow> js" where
  "errorCode error =
    (case error of
       JObj fs \<Rightarrow> (if js_has error ''type'' then js_get error ''type''
                  else if js_has error ''code'' then js_get error ''code'' else JStr ''UNKNOWN'')
     | _ \<Rightarrow> JStr ''UNKNOWN'')"

section \<open>Writing events\<close>

definition OUTBOX_MAX_ATTEMPTS :: nat where "OUTBOX_MAX_ATTEMPTS = 5"
definition OUTBOX_PROCESSING_TTL_SECONDS :: nat where "OUTBOX_PROCESSING_TTL_SECONDS = 10 * 60"

datatype outbox_error =
    OUTBOX_WRITE_FAILED
  | OUTBOX_INVALID_EVENT
  | TENANT_SCOPE_REQUIRED
  | OUTBOX_NOT_FOUND

definition new_row :: "envelope \<Rightarrow> string option \<Rightarrow> string \<Rightarrow> int \<Rightarrow> event_row" where
  "new_row e tenantId topic now =
     \<lparr>ob_id = ev_id e, ob_tenantId = tenantId, ob_topic = topic, ob_schemaVersion = ev_version e,
      ob_payload = ev_payload e, ob_status = PENDING, ob_error = None, ob_attempts = 0,
      ob_nextAttemptAt = None, ob_lockedAt = None, ob_createdAt = now, ob_updatedAt = now\<rparr>"

text \<open>\<open>writes\<close>: whether the insert succeeds.\<close>

definition persist ::
  "payload_schemas \<Rightarrow> string \<Rightarrow> bool \<Rightarrow> string \<Rightarrow> js \<Rightarrow> string option \<Rightarrow> int \<Rightarrow> int \<Rightarrow> event_row list
     \<Rightarrow> (outbox_error + unit) \<times> event_row list" where
  "persist schemas uuid writes topic payload tenantId version now rows =
    (case parseOutboxEventEnvelope schemas
            \<lparr>ev_id = uuid, ev_topic = topic, ev_version = version, ev_tenantId = tenantId, ev_payload = payload\<rparr> of
       None \<Rightarrow> (Inl OUTBOX_INVALID_EVENT, rows)
     | Some event \<Rightarrow>
         if \<not> writes then (Inl OUTBOX_WRITE_FAILED, rows)
         else (Inr (), rows @ [new_row event tenantId topic now]))"

definition dispatchTenant ::
  "payload_schemas \<Rightarrow> string \<Rightarrow> bool \<Rightarrow> bool \<Rightarrow> string option \<Rightarrow> string \<Rightarrow> js \<Rightarrow> int \<Rightarrow> int \<Rightarrow> event_row list
     \<Rightarrow> (outbox_error + unit) \<times> event_row list" where
  "dispatchTenant schemas uuid writes multi tenantId topic payload version now rows =
    (if multi \<and> (tenantId = None \<or> tenantId = Some []) then (Inl TENANT_SCOPE_REQUIRED, rows)
     else persist schemas uuid writes topic payload tenantId version now rows)"

definition dispatchGlobal ::
  "payload_schemas \<Rightarrow> string \<Rightarrow> bool \<Rightarrow> string \<Rightarrow> js \<Rightarrow> int \<Rightarrow> int \<Rightarrow> event_row list
     \<Rightarrow> (outbox_error + unit) \<times> event_row list" where
  "dispatchGlobal schemas uuid writes topic payload version now rows =
     persist schemas uuid writes topic payload None version now rows"

section \<open>The relay\<close>

definition RETRY_BASE_DELAY_MS :: nat where "RETRY_BASE_DELAY_MS = 5000"
definition RETRY_MULTIPLIER :: nat where "RETRY_MULTIPLIER = 2"

text \<open>\<open>jitter d\<close> is \<open>Math.round(d * (0.8 + Math.random() * 0.4))\<close>.\<close>

definition jitter_ok :: "(nat \<Rightarrow> nat) \<Rightarrow> bool" where
  "jitter_ok jitter \<longleftrightarrow> (\<forall>d. 8 * d \<le> 10 * jitter d + 5 \<and> 10 * jitter d \<le> 12 * d + 5)"

definition scheduleRetry ::
  "(nat \<Rightarrow> nat) \<Rightarrow> int \<Rightarrow> event_row \<Rightarrow> string \<Rightarrow> event_row list \<Rightarrow> event_row list" where
  "scheduleRetry jitter now event error rows =
    (let attempts = ob_attempts event + 1;
         exhausted = (attempts \<ge> OUTBOX_MAX_ATTEMPTS);
         delay = jitter (RETRY_BASE_DELAY_MS * RETRY_MULTIPLIER ^ (attempts - 1))
     in updateById (ob_id event)
          (\<lambda>r. r\<lparr>ob_status := if exhausted then DEAD_LETTER else PENDING, ob_attempts := attempts,
                 ob_error := Some error,
                 ob_nextAttemptAt := if exhausted then None else Some (now + int delay),
                 ob_lockedAt := None\<rparr>) now rows)"

text \<open>
  The state that the relay and the worker share: the event table, the queue, the receipts, the
  markers in Redis and what the consumers have done. \<open>has_receipts\<close> and its neighbours say which of
  the optional providers the worker was built with.
\<close>

record ('q, 's) outbox_state =
  rows :: "event_row list"
  queue :: 'q
  receipts :: "receipt list"
  markers :: 's
  effects :: effects

record ('q, 's) outbox_world =
  schemas :: payload_schemas
  handle :: handlers
  consumers :: consumer_registry
  q_get :: "'q \<Rightarrow> string \<Rightarrow> envelope option"
  q_add :: "'q \<Rightarrow> string \<Rightarrow> envelope \<Rightarrow> 'q"
  q_remove :: "'q \<Rightarrow> string \<Rightarrow> 'q"
  marker_redis :: "'s redis"
  has_receipts :: bool
  has_database :: bool
  has_repository :: bool
  has_redis :: bool
  stringify_result :: "js \<Rightarrow> printed"
  jitter_of :: "nat \<Rightarrow> nat"
  production :: bool

text \<open>
  What can fail around one delivery: whether there is a queue, the call that adds the job, the
  update after it, the observers of \<open>emitAsync\<close>, and the update of \<open>scheduleRetry\<close>. Messages of
  foreign errors are stood for by a name.
\<close>

record delivery_faults =
  has_queue :: bool
  add_link :: link
  hold_link :: link
  observers_ok :: bool
  retry_link :: link

definition row_envelope :: "event_row \<Rightarrow> envelope" where
  "row_envelope r = \<lparr>ev_id = ob_id r, ev_topic = ob_topic r, ev_version = ob_schemaVersion r,
     ev_tenantId = ob_tenantId r, ev_payload = ob_payload r\<rparr>"

definition published :: "event_row \<Rightarrow> event_row" where
  "published r = r\<lparr>ob_status := PUBLISHED, ob_lockedAt := None, ob_nextAttemptAt := None, ob_error := None\<rparr>"

text \<open>One update in a transaction of its own; it may commit although the call throws.\<close>

definition update_row ::
  "link \<Rightarrow> string \<Rightarrow> (event_row \<Rightarrow> event_row) \<Rightarrow> int \<Rightarrow> ('q, 's) outbox_state
     \<Rightarrow> (string + unit) \<times> ('q, 's) outbox_state" where
  "update_row l i f now st =
    (case call l (\<lambda>rs. ((), updateById i f now rs)) (rows st) of
       (None, rs) \<Rightarrow> (Inl ''DATABASE'', st\<lparr>rows := rs\<rparr>)
     | (Some _, rs) \<Rightarrow> (Inr (), st\<lparr>rows := rs\<rparr>))"

definition attempt_delivery ::
  "('q, 's) outbox_world \<Rightarrow> delivery_faults \<Rightarrow> int \<Rightarrow> event_row \<Rightarrow> ('q, 's) outbox_state
     \<Rightarrow> (string + unit) \<times> ('q, 's) outbox_state" where
  "attempt_delivery w flt now event st =
    (case parseOutboxEventEnvelope (schemas w) (row_envelope event) of
       None \<Rightarrow> (Inl ''INVALID_ENVELOPE'', st)
     | Some envelope \<Rightarrow>
         if has_queue flt then
           (case call (add_link flt) (\<lambda>q. ((), q_add w q (ob_id event) envelope)) (queue st) of
              (None, q) \<Rightarrow> (Inl ''QUEUE'', st\<lparr>queue := q\<rparr>)
            | (Some _, q) \<Rightarrow>
                update_row (hold_link flt) (ob_id event)
                  (\<lambda>r. r\<lparr>ob_lockedAt := Some now, ob_nextAttemptAt := None, ob_error := None\<rparr>) now (st\<lparr>queue := q\<rparr>))
         else if production w then (Inl ''OUTBOX_DURABLE_QUEUE_UNAVAILABLE'', st)
         else
           (case executeRequired (handle w) (consumers w) envelope (effects st) of
              (Inl error, eff) \<Rightarrow> (Inl error, st\<lparr>effects := eff\<rparr>)
            | (Inr _, eff) \<Rightarrow>
                if \<not> observers_ok flt then (Inl ''OBSERVER'', st\<lparr>effects := eff\<rparr>)
                else update_row (hold_link flt) (ob_id event) published now (st\<lparr>effects := eff\<rparr>)))"

text \<open>The result says whether \<open>deliver\<close> returned; it throws when \<open>scheduleRetry\<close> does.\<close>

definition deliver ::
  "('q, 's) outbox_world \<Rightarrow> delivery_faults \<Rightarrow> int \<Rightarrow> event_row \<Rightarrow> ('q, 's) outbox_state
     \<Rightarrow> bool \<times> ('q, 's) outbox_state" where
  "deliver w flt now event st =
    (case attempt_delivery w flt now event st of
       (Inr _, st') \<Rightarrow> (True, st')
     | (Inl error, st') \<Rightarrow>
         (case call (retry_link flt) (\<lambda>rs. ((), scheduleRetry (jitter_of w) now event error rs)) (rows st') of
            (reply, rs) \<Rightarrow> (reply \<noteq> None, st'\<lparr>rows := rs\<rparr>)))"

text \<open>The loop of a tick; an exception ends it.\<close>

fun deliver_all ::
  "('q, 's) outbox_world \<Rightarrow> (string \<Rightarrow> delivery_faults) \<Rightarrow> int \<Rightarrow> event_row list \<Rightarrow> ('q, 's) outbox_state
     \<Rightarrow> ('q, 's) outbox_state" where
  "deliver_all w flts now [] st = st"
| "deliver_all w flts now (event # events) st =
    (case deliver w (flts (ob_id event)) now event st of
       (True, st') \<Rightarrow> deliver_all w flts now events st'
     | (False, st') \<Rightarrow> st')"

definition BATCH_SIZE :: nat where "BATCH_SIZE = 100"
definition LOCK_TIMEOUT_MS :: int where "LOCK_TIMEOUT_MS = 60000"
definition PUBLISHED_RETENTION_MS :: int where "PUBLISHED_RETENTION_MS = 7 * 24 * 60 * 60 * 1000"
definition RETENTION_BATCH_SIZE :: nat where "RETENTION_BATCH_SIZE = 1000"
definition RETENTION_MAX_BATCHES :: nat where "RETENTION_MAX_BATCHES = 10"

text \<open>
  One relay tick: a batch is claimed in a transaction and its events are delivered in turn;
  \<open>flts\<close> are the faults met, one per event. The API process and a tick during a tick do nothing.
\<close>

definition relayEvents ::
  "('q, 's) outbox_world \<Rightarrow> bool \<Rightarrow> bool \<Rightarrow> (string \<Rightarrow> bool) \<Rightarrow> (string \<Rightarrow> delivery_faults) \<Rightarrow> int
     \<Rightarrow> ('q, 's) outbox_state \<Rightarrow> ('q, 's) outbox_state" where
  "relayEvents w apiRole isProcessing lockedElsewhere flts now st =
    (if apiRole \<or> isProcessing then st
     else (case lockPendingEvents lockedElsewhere BATCH_SIZE now (rows st) of
             (events, rows') \<Rightarrow> deliver_all w flts now events (st\<lparr>rows := rows'\<rparr>)))"

definition recoverStaleLocks :: "bool \<Rightarrow> int \<Rightarrow> event_row list \<Rightarrow> event_row list" where
  "recoverStaleLocks apiRole now rs =
    (if apiRole then rs else snd (recoverStaleLocks_rows (now - LOCK_TIMEOUT_MS) now rs))"

fun prune_batches :: "nat \<Rightarrow> int \<Rightarrow> event_row list \<Rightarrow> event_row list" where
  "prune_batches 0 cutoff rs = rs"
| "prune_batches (Suc n) cutoff rs =
    (case deletePublishedBefore cutoff RETENTION_BATCH_SIZE rs of
       (deleted, rs') \<Rightarrow> if deleted < RETENTION_BATCH_SIZE then rs' else prune_batches n cutoff rs')"

definition retainPublishedEvents :: "bool \<Rightarrow> int \<Rightarrow> event_row list \<Rightarrow> event_row list" where
  "retainPublishedEvents apiRole now rs =
    (if apiRole then rs else prune_batches RETENTION_MAX_BATCHES (now - PUBLISHED_RETENTION_MS) rs)"

section \<open>The worker\<close>

text \<open>
  What can fail around one job: the calls to the database and to Redis, and the observers. A
  call in a transaction may commit although it throws.
\<close>

record job_calls =
  claim_link :: link
  get_link :: link
  set_link :: link
  done_link :: link
  complete_link :: link
  publish_link :: link
  release_link :: link
  dead_link :: link
  job_observers_ok :: bool

definition OUTBOX_DEDUPE_TTL_SECONDS :: nat where "OUTBOX_DEDUPE_TTL_SECONDS = 14 * 24 * 60 * 60"
definition OUTBOX_EVENT_IN_PROGRESS :: string where "OUTBOX_EVENT_IN_PROGRESS = ''OUTBOX_EVENT_IN_PROGRESS''"
definition OUTBOX_CONSUMER_OPERATION :: string where "OUTBOX_CONSUMER_OPERATION = ''outbox:event-consumer:v1''"
definition OUTBOX_COMPLETED_RECEIPT_RETENTION_MS :: int where
  "OUTBOX_COMPLETED_RECEIPT_RETENTION_MS = 8 * 24 * 60 * 60 * 1000"

definition marker_key :: "string \<Rightarrow> string" where "marker_key i = ''outbox:consumer:v1:'' @ i"
definition processing_marker :: stored where "processing_marker = NotJson ''processing''"
definition completed_marker :: stored where "completed_marker = NotJson ''completed''"

definition receipt_error_type :: "receipt_error \<Rightarrow> string" where
  "receipt_error_type e = (case e of TRANSACTION_REQUIRED \<Rightarrow> ''TRANSACTION_REQUIRED''
     | OPERATION_ID_REUSED \<Rightarrow> ''OPERATION_ID_REUSED'' | OPERATION_IN_PROGRESS \<Rightarrow> ''OPERATION_IN_PROGRESS''
     | OPERATION_RESULT_TOO_LARGE \<Rightarrow> ''OPERATION_RESULT_TOO_LARGE'')"

definition consumer_operation :: "envelope \<Rightarrow> int \<Rightarrow> operation_identity" where
  "consumer_operation e now =
     \<lparr>operationId = ev_id e, operationType = OUTBOX_CONSUMER_OPERATION,
      scopeId = (case ev_tenantId e of None \<Rightarrow> ''global'' | Some t \<Rightarrow> t), actorId = None,
      op_tenantId = ev_tenantId e, requestHash = ev_id e,
      expiresAt = Some (now + int OUTBOX_PROCESSING_TTL_SECONDS * 1000)\<rparr>"

text \<open>The claim: whether this run consumes the event, with its receipt. \<open>rid\<close> is a fresh UUID.\<close>

definition claimEvent ::
  "('q, 's) outbox_world \<Rightarrow> job_calls \<Rightarrow> string \<Rightarrow> int \<Rightarrow> envelope \<Rightarrow> ('q, 's) outbox_state
     \<Rightarrow> (string + bool \<times> string option) \<times> ('q, 's) outbox_state" where
  "claimEvent w c rid now e st =
    (if has_receipts w \<and> has_database w then
       (case call (claim_link c) (receipts_claim True rid (consumer_operation e now) now) (receipts st) of
          (None, rs) \<Rightarrow> (Inl ''DATABASE'', st\<lparr>receipts := rs\<rparr>)
        | (Some (Inl er), rs) \<Rightarrow>
            (Inl (if er = OPERATION_IN_PROGRESS then OUTBOX_EVENT_IN_PROGRESS
                  else ''OUTBOX_DURABLE_CLAIM_FAILED:'' @ receipt_error_type er), st\<lparr>receipts := rs\<rparr>)
        | (Some (Inr (COMPLETED _)), rs) \<Rightarrow> (Inr (False, None), st\<lparr>receipts := rs\<rparr>)
        | (Some (Inr (CLAIMED receiptId)), rs) \<Rightarrow> (Inr (True, Some receiptId), st\<lparr>receipts := rs\<rparr>))
     else if \<not> has_redis w then (Inr (True, None), st)
     else
       (case fst (call (get_link c) (\<lambda>s. (r_get (marker_redis w) s (marker_key (ev_id e)), s)) (markers st)) of
          None \<Rightarrow> (Inl ''REDIS'', st)
        | Some existing \<Rightarrow>
            if existing = Some completed_marker then (Inr (False, None), st)
            else if existing = Some processing_marker then (Inl OUTBOX_EVENT_IN_PROGRESS, st)
            else
              (case call (set_link c) (\<lambda>s. r_setnx (marker_redis w) s (marker_key (ev_id e)) processing_marker
                      (OUTBOX_PROCESSING_TTL_SECONDS * 1000)) (markers st) of
                 (None, s) \<Rightarrow> (Inl ''REDIS'', st\<lparr>markers := s\<rparr>)
               | (Some claimed, s) \<Rightarrow>
                   if claimed then (Inr (True, None), st\<lparr>markers := s\<rparr>)
                   else (Inl OUTBOX_EVENT_IN_PROGRESS, st\<lparr>markers := s\<rparr>))))"

definition markEventProcessed ::
  "('q, 's) outbox_world \<Rightarrow> job_calls \<Rightarrow> string \<Rightarrow> ('q, 's) outbox_state \<Rightarrow> (string + unit) \<times> ('q, 's) outbox_state" where
  "markEventProcessed w c i st =
    (if has_receipts w \<or> \<not> has_redis w then (Inr (), st)
     else (case call (done_link c) (\<lambda>s. ((), r_set (marker_redis w) s (marker_key i) completed_marker
                  (OUTBOX_DEDUPE_TTL_SECONDS * 1000))) (markers st) of
             (None, s) \<Rightarrow> (Inl ''REDIS'', st\<lparr>markers := s\<rparr>)
           | (Some _, s) \<Rightarrow> (Inr (), st\<lparr>markers := s\<rparr>)))"

definition clear_marker :: "('q, 's) outbox_world \<Rightarrow> link \<Rightarrow> string \<Rightarrow> ('q, 's) outbox_state \<Rightarrow> ('q, 's) outbox_state" where
  "clear_marker w l i st =
    (if \<not> has_redis w then st
     else st\<lparr>markers := snd (call l (\<lambda>s. r_del (marker_redis w) s (marker_key i)) (markers st))\<rparr>)"

definition releaseEvent ::
  "('q, 's) outbox_world \<Rightarrow> job_calls \<Rightarrow> string \<Rightarrow> string option \<Rightarrow> ('q, 's) outbox_state \<Rightarrow> ('q, 's) outbox_state" where
  "releaseEvent w c i receiptId st =
    (if receiptId \<noteq> None \<and> has_receipts w \<and> has_database w then
       st\<lparr>receipts := snd (call (release_link c) (receipts_release True (the receiptId)) (receipts st))\<rparr>
     else clear_marker w (release_link c) i st)"

definition completeEvent ::
  "('q, 's) outbox_world \<Rightarrow> job_calls \<Rightarrow> string option \<Rightarrow> int \<Rightarrow> ('q, 's) outbox_state \<Rightarrow> (string + unit) \<times> ('q, 's) outbox_state" where
  "completeEvent w c receiptId now st =
    (if receiptId = None \<or> \<not> has_receipts w \<or> \<not> has_database w then (Inr (), st)
     else (case call (complete_link c) (receipts_complete (stringify_result w) True (the receiptId)
                  (JObj [(''completed'', JBool True)]) (Some (now + OUTBOX_COMPLETED_RECEIPT_RETENTION_MS)) now) (receipts st) of
             (None, rs) \<Rightarrow> (Inl ''DATABASE'', st\<lparr>receipts := rs\<rparr>)
           | (Some (Inl er), rs) \<Rightarrow> (Inl (''OUTBOX_DURABLE_COMPLETE_FAILED:'' @ receipt_error_type er), st\<lparr>receipts := rs\<rparr>)
           | (Some (Inr _), rs) \<Rightarrow> (Inr (), st\<lparr>receipts := rs\<rparr>)))"

definition consumeInScope ::
  "('q, 's) outbox_world \<Rightarrow> job_calls \<Rightarrow> envelope \<Rightarrow> ('q, 's) outbox_state \<Rightarrow> (string + unit) \<times> ('q, 's) outbox_state" where
  "consumeInScope w c e st =
    (case executeRequired (handle w) (consumers w) e (effects st) of
       (Inl error, eff) \<Rightarrow> (Inl error, st\<lparr>effects := eff\<rparr>)
     | (Inr _, eff) \<Rightarrow> (if job_observers_ok c then Inr () else Inl ''OBSERVER'', st\<lparr>effects := eff\<rparr>))"

definition markPublished ::
  "('q, 's) outbox_world \<Rightarrow> job_calls \<Rightarrow> string \<Rightarrow> int \<Rightarrow> ('q, 's) outbox_state \<Rightarrow> (string + unit) \<times> ('q, 's) outbox_state" where
  "markPublished w c i now st =
    (if \<not> has_database w \<or> \<not> has_repository w then (Inr (), st)
     else update_row (publish_link c) i published now st)"

definition markDeadLetter ::
  "('q, 's) outbox_world \<Rightarrow> job_calls \<Rightarrow> string \<Rightarrow> string \<Rightarrow> int \<Rightarrow> ('q, 's) outbox_state \<Rightarrow> (string + unit) \<times> ('q, 's) outbox_state" where
  "markDeadLetter w c i error now st =
    (if \<not> has_database w \<or> \<not> has_repository w then (Inr (), st)
     else update_row (dead_link c) i (\<lambda>r. r\<lparr>ob_status := DEAD_LETTER, ob_lockedAt := None,
            ob_nextAttemptAt := None, ob_error := Some error\<rparr>) now st)"

text \<open>The three steps of a run that owns the event.\<close>

definition consume_owned ::
  "('q, 's) outbox_world \<Rightarrow> job_calls \<Rightarrow> string option \<Rightarrow> int \<Rightarrow> envelope \<Rightarrow> ('q, 's) outbox_state
     \<Rightarrow> (string + unit) \<times> ('q, 's) outbox_state" where
  "consume_owned w c receiptId now e st =
    (case consumeInScope w c e st of
       (Inl error, st1) \<Rightarrow> (Inl error, st1)
     | (Inr _, st1) \<Rightarrow>
         (case markEventProcessed w c (ev_id e) st1 of
            (Inl error, st2) \<Rightarrow> (Inl error, st2)
          | (Inr _, st2) \<Rightarrow> completeEvent w c receiptId now st2))"

text \<open>The \<open>catch\<close> block: \<open>owned\<close> holds the receipt when the run owns an unprocessed event.\<close>

definition job_failed ::
  "('q, 's) outbox_world \<Rightarrow> job_calls \<Rightarrow> string \<Rightarrow> string option option \<Rightarrow> nat \<Rightarrow> int \<Rightarrow> string \<Rightarrow> ('q, 's) outbox_state
     \<Rightarrow> (string + unit) \<times> ('q, 's) outbox_state" where
  "job_failed w c eventId owned attemptsMade now error st =
    (if eventId = [] then (Inl error, st)
     else
       let st1 = (case owned of None \<Rightarrow> st | Some receiptId \<Rightarrow> releaseEvent w c eventId receiptId st)
       in if attemptsMade + 1 \<ge> OUTBOX_MAX_ATTEMPTS then
            (case markDeadLetter w c eventId error now st1 of
               (Inl other, st2) \<Rightarrow> (Inl other, st2)
             | (Inr _, st2) \<Rightarrow> (Inl error, st2))
          else (Inl error, st1))"

definition handle_job ::
  "('q, 's) outbox_world \<Rightarrow> job_calls \<Rightarrow> string \<Rightarrow> int \<Rightarrow> nat \<Rightarrow> envelope \<Rightarrow> ('q, 's) outbox_state
     \<Rightarrow> (string + unit) \<times> ('q, 's) outbox_state" where
  "handle_job w c rid now attemptsMade data st =
    (case parseOutboxEventEnvelope (schemas w) data of
       None \<Rightarrow> job_failed w c (ev_id data) None attemptsMade now ''INVALID_ENVELOPE'' st
     | Some event \<Rightarrow>
         (case claimEvent w c rid now event st of
            (Inl error, st1) \<Rightarrow> job_failed w c (ev_id data) None attemptsMade now error st1
          | (Inr (claimed, receiptId), st1) \<Rightarrow>
              (case (if claimed then consume_owned w c receiptId now event st1 else (Inr (), st1)) of
                 (Inl error, st2) \<Rightarrow> job_failed w c (ev_id data) (Some receiptId) attemptsMade now error st2
               | (Inr _, st2) \<Rightarrow>
                   (case markPublished w c (ev_id event) now st2 of
                      (Inl error, st3) \<Rightarrow> job_failed w c (ev_id data) None attemptsMade now error st3
                    | (Inr _, st3) \<Rightarrow> (Inr (), st3)))))"

text \<open>
  Replaying a dead letter: the receipts, the marker and the retained job are cleared first. The
  result is whether a row was put back; \<open>None\<close>: the call threw.
\<close>

definition release_receipts ::
  "('q, 's) outbox_world \<Rightarrow> link \<Rightarrow> string \<Rightarrow> ('q, 's) outbox_state \<Rightarrow> bool \<times> ('q, 's) outbox_state" where
  "release_receipts w l i st =
    (if has_receipts w \<and> has_database w then
       (case call l (receipts_releaseByOperationId True OUTBOX_CONSUMER_OPERATION i) (receipts st) of
          (reply, rs) \<Rightarrow> (reply \<noteq> None, st\<lparr>receipts := rs\<rparr>))
     else (True, st))"

definition remove_job :: "('q, 's) outbox_world \<Rightarrow> link \<Rightarrow> string \<Rightarrow> ('q, 's) outbox_state \<Rightarrow> ('q, 's) outbox_state" where
  "remove_job w l i st = st\<lparr>queue := snd (call l (\<lambda>q. ((), q_remove w q i)) (queue st))\<rparr>"

definition worker_replayDeadLetter ::
  "('q, 's) outbox_world \<Rightarrow> job_calls \<Rightarrow> bool \<Rightarrow> int \<Rightarrow> string \<Rightarrow> ('q, 's) outbox_state \<Rightarrow> bool option \<times> ('q, 's) outbox_state" where
  "worker_replayDeadLetter w c queueThere now i st =
    (case release_receipts w (claim_link c) i (clear_marker w (release_link c) i st) of
       (False, st1) \<Rightarrow> (None, st1)
     | (True, st1) \<Rightarrow>
         let st2 = (if queueThere then remove_job w (get_link c) i st1 else st1)
         in if \<not> has_database w \<or> \<not> has_repository w then (Some False, st2)
            else (case call (publish_link c) (requeueDeadLetter i now) (rows st2) of
                    (reply, rs) \<Rightarrow> (reply, st2\<lparr>rows := rs\<rparr>)))"

definition replayDeadLetter ::
  "('q, 's) outbox_world \<Rightarrow> job_calls \<Rightarrow> bool \<Rightarrow> int \<Rightarrow> string \<Rightarrow> ('q, 's) outbox_state
     \<Rightarrow> (outbox_error + unit) option \<times> ('q, 's) outbox_state" where
  "replayDeadLetter w c queueThere now i st =
    (case worker_replayDeadLetter w c queueThere now i st of
       (reply, st') \<Rightarrow> (map_option (\<lambda>replayed. if replayed then Inr () else Inl OUTBOX_NOT_FOUND) reply, st'))"

end
