(* ===== verification/OutboxGuarantees.thy ===== *)
theory OutboxGuarantees
  imports Outbox
begin

text \<open>
  The outbox as a system. Events are written, relayed and consumed by any interleaving of
  dispatches, relay ticks, stale-lock recoveries, jobs of the queue with any faults, retention
  runs, replays and jobs that the queue drops. A job is one step here; what two workers on the
  same event may do is the exclusivity of the receipts (\<open>OperationReceipts\<close>).
\<close>

section \<open>The queue\<close>

text \<open>The queue adds nothing when it has a job of that id, and forgets jobs.\<close>

definition queue_ok :: "('q, 's) outbox_world \<Rightarrow> bool" where
  "queue_ok w \<longleftrightarrow>
     (\<forall>q i e j. q_get w (q_add w q i e) j =
        (if j = i \<and> q_get w q i = None then Some e else q_get w q j)) \<and>
     (\<forall>q i j. q_get w (q_remove w q i) j = (if j = i then None else q_get w q j))"

lemma queue_add:
  "queue_ok w \<Longrightarrow> q_get w (q_add w q i e) j = (if j = i \<and> q_get w q i = None then Some e else q_get w q j)"
  by (simp add: queue_ok_def)

lemma queue_remove: "queue_ok w \<Longrightarrow> q_get w (q_remove w q i) j = (if j = i then None else q_get w q j)"
  by (simp add: queue_ok_def)

lemma queue_add_call:
  assumes "queue_ok w"
    and "q_get w (snd (call l (\<lambda>q. ((), q_add w q i e)) q)) j = Some d"
  shows "q_get w q j = Some d \<or> (j = i \<and> d = e)"
  using assms by (cases l) (auto simp: call_def queue_add split: if_splits)

lemma queue_remove_call:
  assumes "queue_ok w"
    and "q_get w (snd (call l (\<lambda>q. ((), q_remove w q i)) q)) j = Some d"
  shows "q_get w q j = Some d"
  using assms by (cases l) (auto simp: call_def queue_remove split: if_splits)

section \<open>The system\<close>

datatype 'q outbox_op =
    Dispatch string bool bool "string option" string js int int
  | DispatchGlobal string bool string js int int
  | Tick "string list" "string \<Rightarrow> delivery_faults" int
  | Job string job_calls string nat int
  | Recover int
  | Retain int
  | Replay job_calls bool string int
  | DropJob string
  | PurgeReceipts "string list" nat int

fun outbox_step :: "('q, 's) outbox_world \<Rightarrow> 'q outbox_op \<Rightarrow> ('q, 's) outbox_state \<Rightarrow> ('q, 's) outbox_state" where
  "outbox_step w (Dispatch uuid writes multi tenant topic payload version now) st =
     st\<lparr>rows := snd (dispatchTenant (schemas w) uuid writes multi tenant topic payload version now (rows st))\<rparr>"
| "outbox_step w (DispatchGlobal uuid writes topic payload version now) st =
     st\<lparr>rows := snd (dispatchGlobal (schemas w) uuid writes topic payload version now (rows st))\<rparr>"
| "outbox_step w (Tick elsewhere flts now) st = relayEvents w False False (\<lambda>i. i \<in> set elsewhere) flts now st"
| "outbox_step w (Job i c rid attemptsMade now) st =
     (case q_get w (queue st) i of None \<Rightarrow> st | Some data \<Rightarrow> snd (handle_job w c rid now attemptsMade data st))"
| "outbox_step w (Recover now) st = st\<lparr>rows := recoverStaleLocks False now (rows st)\<rparr>"
| "outbox_step w (Retain now) st = st\<lparr>rows := retainPublishedEvents False now (rows st)\<rparr>"
| "outbox_step w (Replay c queueThere i now) st = snd (replayDeadLetter w c queueThere now i st)"
| "outbox_step w (DropJob i) st = st\<lparr>queue := q_remove w (queue st) i\<rparr>"
| "outbox_step w (PurgeReceipts elsewhere limit now) st =
     st\<lparr>receipts := deleteExpired (\<lambda>i. i \<in> set elsewhere) limit now (receipts st)\<rparr>"

definition outbox_run :: "('q, 's) outbox_world \<Rightarrow> 'q outbox_op list \<Rightarrow> ('q, 's) outbox_state \<Rightarrow> ('q, 's) outbox_state" where
  "outbox_run w ops st = fold (outbox_step w) ops st"

definition consumed :: "('q, 's) outbox_world \<Rightarrow> string \<Rightarrow> string \<Rightarrow> effects \<Rightarrow> bool" where
  "consumed w topic i eff \<longleftrightarrow> (\<forall>c\<in>set (consumers_of (consumers w) topic). (rg_id c, i) \<in> set eff)"

text \<open>
  A UUID is drawn once: \<open>topic_of\<close> names the topic an event id was written with, and \<open>event_of\<close> the
  event a receipt id was drawn for.
\<close>

fun uuids_ok :: "(string \<Rightarrow> string) \<Rightarrow> (string \<Rightarrow> string) \<Rightarrow> 'q outbox_op \<Rightarrow> bool" where
  "uuids_ok topic_of event_of (Dispatch uuid writes multi tenant topic payload version now) = (topic_of uuid = topic)"
| "uuids_ok topic_of event_of (DispatchGlobal uuid writes topic payload version now) = (topic_of uuid = topic)"
| "uuids_ok topic_of event_of (Job i c rid attemptsMade now) = (event_of rid = i)"
| "uuids_ok topic_of event_of _ = True"

definition rows_inv :: "('q, 's) outbox_world \<Rightarrow> (string \<Rightarrow> string) \<Rightarrow> event_row list \<Rightarrow> effects \<Rightarrow> bool" where
  "rows_inv w topic_of rs eff \<longleftrightarrow>
     (\<forall>r\<in>set rs. ob_topic r = topic_of (ob_id r) \<and>
        (ob_status r = PUBLISHED \<longrightarrow> consumed w (topic_of (ob_id r)) (ob_id r) eff))"

definition queue_inv :: "('q, 's) outbox_world \<Rightarrow> (string \<Rightarrow> string) \<Rightarrow> 'q \<Rightarrow> bool" where
  "queue_inv w topic_of q \<longleftrightarrow> (\<forall>i e. q_get w q i = Some e \<longrightarrow> ev_id e = i \<and> ev_topic e = topic_of i)"

definition receipts_inv ::
  "('q, 's) outbox_world \<Rightarrow> (string \<Rightarrow> string) \<Rightarrow> (string \<Rightarrow> string) \<Rightarrow> receipt list \<Rightarrow> effects \<Rightarrow> bool" where
  "receipts_inv w topic_of event_of rcs eff \<longleftrightarrow>
     (\<forall>r\<in>set rcs. event_of (rc_id r) = rc_operationId r \<and>
        (rc_status r = Completed \<longrightarrow> consumed w (topic_of (rc_operationId r)) (rc_operationId r) eff))"

definition markers_inv :: "('q, 's) outbox_world \<Rightarrow> (string \<Rightarrow> string) \<Rightarrow> 's \<Rightarrow> effects \<Rightarrow> bool" where
  "markers_inv w topic_of ms eff \<longleftrightarrow>
     (\<forall>i. r_get (marker_redis w) ms (marker_key i) = Some completed_marker \<longrightarrow> consumed w (topic_of i) i eff)"

definition outbox_inv ::
  "('q, 's) outbox_world \<Rightarrow> (string \<Rightarrow> string) \<Rightarrow> (string \<Rightarrow> string) \<Rightarrow> ('q, 's) outbox_state \<Rightarrow> bool" where
  "outbox_inv w topic_of event_of st \<longleftrightarrow>
     rows_inv w topic_of (rows st) (effects st) \<and> queue_inv w topic_of (queue st) \<and>
     receipts_inv w topic_of event_of (receipts st) (effects st) \<and> markers_inv w topic_of (markers st) (effects st)"

section \<open>Consumption only grows\<close>

lemma run_consumers_effects: "\<exists>xs. snd (run_consumers h e cs eff) = eff @ xs"
  by (induction h e cs eff rule: run_consumers.induct) (auto split: handler_result.splits)

lemma executeRequired_effects: "set eff \<subseteq> set (snd (executeRequired h g e eff))"
  using run_consumers_effects [of h e "consumers_of g (ev_topic e)" eff]
  by (auto simp: executeRequired_def Let_def)

lemma run_consumers_all:
  "run_consumers h e cs eff = (Inr u, eff') \<Longrightarrow> eff' = eff @ map (\<lambda>c. (rg_id c, ev_id e)) cs"
  by (induction h e cs eff rule: run_consumers.induct) (auto split: handler_result.splits)

lemma executeRequired_consumed:
  "executeRequired (handle w) (consumers w) e eff = (Inr u, eff') \<Longrightarrow> consumed w (ev_topic e) (ev_id e) eff'"
  by (auto simp: executeRequired_def consumed_def Let_def split: if_splits dest!: run_consumers_all)

lemma consumed_mono: "consumed w t i eff \<Longrightarrow> set eff \<subseteq> set eff' \<Longrightarrow> consumed w t i eff'"
  by (auto simp: consumed_def)

lemma inv_mono:
  assumes "set eff \<subseteq> set eff'"
  shows "rows_inv w f rs eff \<Longrightarrow> rows_inv w f rs eff'"
    and "receipts_inv w f v rcs eff \<Longrightarrow> receipts_inv w f v rcs eff'"
    and "markers_inv w f ms eff \<Longrightarrow> markers_inv w f ms eff'"
  using consumed_mono [OF _ assms, of w] by (auto simp: rows_inv_def receipts_inv_def markers_inv_def)

lemma parse_keeps:
  "parseOutboxEventEnvelope s e = Some e' \<Longrightarrow>
     ev_id e' = ev_id e \<and> ev_topic e' = ev_topic e \<and> ev_tenantId e' = ev_tenantId e \<and> ev_id e \<noteq> []"
  by (auto simp: parseOutboxEventEnvelope_def envelope_ok_def split: if_splits option.splits)

section \<open>Each step keeps the books\<close>

lemma rows_inv_update:
  assumes "rows_inv w t rs eff"
    and "\<And>r. r \<in> set rs \<Longrightarrow> P r \<Longrightarrow> ob_id (f r) = ob_id r \<and> ob_topic (f r) = ob_topic r \<and>
           (ob_status (f r) = PUBLISHED \<longrightarrow> ob_status r = PUBLISHED \<or> consumed w (t (ob_id r)) (ob_id r) eff)"
  shows "rows_inv w t (update_where P f rs) eff"
  using assms by (fastforce simp: rows_inv_def update_where_def)

lemma rows_inv_updateById:
  assumes "rows_inv w t rs eff"
    and "\<And>r. ob_id (f r) = ob_id r \<and> ob_topic (f r) = ob_topic r \<and>
           (ob_status (f r) = PUBLISHED \<longrightarrow> ob_status r = PUBLISHED \<or> consumed w (t i) i eff)"
  shows "rows_inv w t (updateById i f now rs) eff"
  unfolding updateById_def using assms by (intro rows_inv_update) auto

lemma call_cases:
  obtains "call l f s = (None, s)" | "call l f s = (None, snd (f s))" | "call l f s = (Some (fst (f s)), snd (f s))"
  by (cases l) (auto simp: call_def split: prod.splits)

lemma update_row_books:
  assumes "update_row l i f now st = (res, st')"
    and "outbox_inv w t v st"
    and "\<And>r. ob_id (f r) = ob_id r \<and> ob_topic (f r) = ob_topic r \<and>
           (ob_status (f r) = PUBLISHED \<longrightarrow> ob_status r = PUBLISHED \<or> consumed w (t i) i (effects st))"
  shows "outbox_inv w t v st' \<and> effects st' = effects st"
proof -
  have "rows_inv w t (rows st) (effects st)" using assms(2) by (simp add: outbox_inv_def)
  then have upd: "rows_inv w t (updateById i f now (rows st)) (effects st)"
    using assms(3) by (rule rows_inv_updateById)
  show ?thesis
    by (rule call_cases [of l "\<lambda>rs. ((), updateById i f now rs)" "rows st"])
       (use assms(1,2) upd in \<open>auto simp: update_row_def outbox_inv_def\<close>)
qed

lemma scheduleRetry_rows:
  assumes "rows_inv w t rs eff"
  shows "rows_inv w t (scheduleRetry jit now event error rs) eff"
  unfolding scheduleRetry_def Let_def using assms by (rule rows_inv_updateById) simp

lemma lockPendingEvents_books:
  assumes "lockPendingEvents lk n now rs = (events, rs')" and "rows_inv w t rs eff"
  shows "rows_inv w t rs' eff \<and> (\<forall>e\<in>set events. ob_topic e = t (ob_id e))"
proof -
  let ?claim = "\<lambda>r. r\<lparr>ob_status := PROCESSING, ob_lockedAt := Some now, ob_updatedAt := now\<rparr>"
  obtain P where split: "rs' = update_where P ?claim rs" "events = map ?claim (filter P rs)"
    using assms(1) by (force simp: lockPendingEvents_def Let_def)
  have "rows_inv w t rs' eff" unfolding split(1) using assms(2) by (rule rows_inv_update) simp
  moreover have "ob_topic e = t (ob_id e)" if "e \<in> set events" for e
    using that assms(2) unfolding split(2) by (auto simp: rows_inv_def)
  ultimately show ?thesis by blast
qed

lemma attempt_delivery_books:
  assumes "attempt_delivery w flt now event st = (res, st')"
    and "outbox_inv w t v st" "queue_ok w" "ob_topic event = t (ob_id event)"
  shows "outbox_inv w t v st'"
proof (cases "parseOutboxEventEnvelope (schemas w) (row_envelope event)")
  case None
  then show ?thesis using assms by (simp add: attempt_delivery_def)
next
  case (Some e)
  then have e: "ev_id e = ob_id event" "ev_topic e = t (ob_id event)"
    using parse_keeps [OF Some] assms(4) by (simp_all add: row_envelope_def)
  define q' where "q' = snd (call (add_link flt) (\<lambda>q. ((), q_add w q (ob_id event) e)) (queue st))"
  have "queue_inv w t q'"
    using assms(2) e queue_add_call [OF assms(3)] unfolding q'_def
    by (fastforce simp: outbox_inv_def queue_inv_def)
  then have queued: "outbox_inv w t v (st\<lparr>queue := q'\<rparr>)" using assms(2) by (simp add: outbox_inv_def)
  define eff where "eff = snd (executeRequired (handle w) (consumers w) e (effects st))"
  have "set (effects st) \<subseteq> set eff" unfolding eff_def by (rule executeRequired_effects)
  then have ran: "outbox_inv w t v (st\<lparr>effects := eff\<rparr>)"
    using assms(2) inv_mono [of "effects st" eff] by (auto simp: outbox_inv_def)
  show ?thesis
  proof (cases "has_queue flt")
    case True
    obtain reply where c: "call (add_link flt) (\<lambda>q. ((), q_add w q (ob_id event) e)) (queue st) = (reply, q')"
      by (metis q'_def prod.collapse)
    show ?thesis
    proof (cases reply)
      case None
      then show ?thesis using assms(1) Some True c queued by (simp add: attempt_delivery_def)
    next
      case Some': (Some u)
      let ?f = "\<lambda>r. r\<lparr>ob_lockedAt := Some now, ob_nextAttemptAt := None, ob_error := None\<rparr>"
      have "update_row (hold_link flt) (ob_id event) ?f now (st\<lparr>queue := q'\<rparr>) = (res, st')"
        using assms(1) Some Some' True c by (simp add: attempt_delivery_def)
      from update_row_books [OF this queued] show ?thesis by simp
    qed
  next
    case False
    obtain r where x: "executeRequired (handle w) (consumers w) e (effects st) = (r, eff)"
      by (metis eff_def prod.collapse)
    show ?thesis
    proof (cases r)
      case (Inl error)
      then show ?thesis using assms(1,2) Some False x ran
        by (auto simp: attempt_delivery_def split: if_splits)
    next
      case (Inr u)
      have all_done: "consumed w (t (ob_id event)) (ob_id event) eff"
        using executeRequired_consumed [of w e "effects st" u eff] x Inr e by simp
      have upd: "update_row (hold_link flt) (ob_id event) published now (st\<lparr>effects := eff\<rparr>) = (res, st') \<Longrightarrow> ?thesis"
        using update_row_books [OF _ ran, of "hold_link flt" "ob_id event" published now res st'] all_done
        by (simp add: published_def)
      show ?thesis
        using assms(1,2) Some False x Inr ran upd by (auto simp: attempt_delivery_def split: if_splits)
    qed
  qed
qed

lemma deliver_books:
  assumes "outbox_inv w t v st" "queue_ok w" "ob_topic event = t (ob_id event)"
  shows "outbox_inv w t v (snd (deliver w flt now event st))"
proof -
  obtain res st' where a: "attempt_delivery w flt now event st = (res, st')" by fastforce
  have inv: "outbox_inv w t v st'" using attempt_delivery_books [OF a] assms by blast
  show ?thesis
  proof (cases res)
    case (Inl error)
    have "rows_inv w t (scheduleRetry (jitter_of w) now event error (rows st')) (effects st')"
      using inv by (intro scheduleRetry_rows) (simp add: outbox_inv_def)
    then show ?thesis
      by (cases rule: call_cases [of "retry_link flt" "\<lambda>rs. ((), scheduleRetry (jitter_of w) now event error rs)" "rows st'"])
         (use a Inl inv in \<open>auto simp: deliver_def outbox_inv_def\<close>)
  qed (use a inv in \<open>simp add: deliver_def\<close>)
qed

lemma deliver_all_books:
  "outbox_inv w t v st \<Longrightarrow> queue_ok w \<Longrightarrow> \<forall>e\<in>set events. ob_topic e = t (ob_id e) \<Longrightarrow>
     outbox_inv w t v (deliver_all w flts now events st)"
proof (induction w flts now events st rule: deliver_all.induct)
  case (2 w flts now event events st)
  have "outbox_inv w t v (snd (deliver w (flts (ob_id event)) now event st))"
    using 2(2-) by (intro deliver_books) auto
  then show ?case using 2 by (auto split: prod.splits bool.splits)
qed simp

lemma receipts_claim_books:
  assumes "receipts_inv w t v rcs eff" "v rid = operationId idn"
  shows "receipts_inv w t v (snd (receipts_claim tx rid idn now rcs)) eff"
  using assms
  by (auto simp: receipts_claim_def createIfAbsent_def receipts_inv_def new_receipt_def take_over_def
      same_operation_def Let_def split: option.splits)

lemma receipts_claim_completed:
  assumes "receipts_claim tx rid idn now rcs = (Inr (COMPLETED x), rcs')" "receipts_inv w t v rcs eff"
  shows "consumed w (t (operationId idn)) (operationId idn) eff"
proof -
  obtain r where "find (same_operation (operationType idn) (scopeId idn) (operationId idn)) rcs = Some r"
    "rc_status r = Completed"
    using assms(1)
    by (auto simp: receipts_claim_def createIfAbsent_def receipt_find_def Let_def split: if_splits option.splits)
  then have "r \<in> set rcs" "rc_operationId r = operationId idn" "rc_status r = Completed"
    by (auto simp: find_Some_iff same_operation_def)
  then show ?thesis using assms(2) by (force simp: receipts_inv_def)
qed

lemma receipts_claim_id:
  "receipts_claim tx rid idn now rcs = (Inr (CLAIMED i), rcs') \<Longrightarrow> i = rid"
  by (auto simp: receipts_claim_def Let_def split: if_splits prod.splits option.splits bool.splits)

lemma receipts_complete_books:
  assumes "receipts_inv w t v rcs eff" "consumed w (t (v rid)) (v rid) eff"
  shows "receipts_inv w t v (snd (receipts_complete str tx rid res ex now rcs)) eff"
  using assms
  by (auto simp: receipts_complete_def receipt_complete_def receipts_inv_def open_receipt_def
      split: bool.splits)

lemma receipts_release_books:
  "receipts_inv w t v rcs eff \<Longrightarrow> receipts_inv w t v (snd (receipts_release tx rid rcs)) eff"
  "receipts_inv w t v rcs eff \<Longrightarrow> receipts_inv w t v (snd (receipts_releaseByOperationId tx ty i rcs)) eff"
  "receipts_inv w t v rcs eff \<Longrightarrow> receipts_inv w t v (deleteExpired lk n now rcs) eff"
  by (auto simp: receipts_release_def receipts_releaseByOperationId_def receipt_release_def
      releaseByOperationId_def deleteExpired_def receipts_inv_def Let_def)

lemma call_keeps: "P s \<Longrightarrow> P (snd (f s)) \<Longrightarrow> P (snd (call l f s))"
  using call_state [of l f s] by metis

lemma marker_key_eq [simp]: "marker_key i = marker_key j \<longleftrightarrow> i = j"
  by (simp add: marker_key_def)

lemma markers_set_books:
  assumes "redis_ok (marker_redis w)" "markers_inv w t ms eff" "v = completed_marker \<longrightarrow> consumed w (t i) i eff"
  shows "markers_inv w t (r_set (marker_redis w) ms (marker_key i) v ttl) eff"
  using assms by (auto simp: markers_inv_def redis_set)

lemma markers_setnx_books:
  assumes "redis_ok (marker_redis w)" "markers_inv w t ms eff"
  shows "markers_inv w t (snd (r_setnx (marker_redis w) ms (marker_key i) processing_marker ttl)) eff"
  using assms by (auto simp: markers_inv_def redis_setnx processing_marker_def completed_marker_def)

lemma markers_del_books:
  assumes "redis_ok (marker_redis w)" "markers_inv w t ms eff"
  shows "markers_inv w t (snd (r_del (marker_redis w) ms (marker_key i))) eff"
  using assms by (auto simp: markers_inv_def redis_del split: if_splits)

lemma claimEvent_books:
  assumes "claimEvent w c rid now e st = (res, st')" "outbox_inv w t v st" "redis_ok (marker_redis w)"
    and "v rid = ev_id e"
  shows "outbox_inv w t v st' \<and> effects st' = effects st \<and>
    (\<forall>receiptId. res = Inr (True, Some receiptId) \<longrightarrow> v receiptId = ev_id e) \<and>
    (\<forall>receiptId. res = Inr (False, receiptId) \<longrightarrow> consumed w (t (ev_id e)) (ev_id e) (effects st))"
proof (cases "has_receipts w \<and> has_database w")
  case True
  let ?f = "receipts_claim True rid (consumer_operation e now) now"
  obtain reply rcs where c: "call (claim_link c) ?f (receipts st) = (reply, rcs)" by fastforce
  have old: "receipts_inv w t v (receipts st) (effects st)" using assms(2) by (simp add: outbox_inv_def)
  then have "receipts_inv w t v (snd (?f (receipts st))) (effects st)"
    using assms(4) by (intro receipts_claim_books) (simp_all add: consumer_operation_def)
  then have "receipts_inv w t v (snd (call (claim_link c) ?f (receipts st))) (effects st)"
    using old by (intro call_keeps [where P = "\<lambda>rcs. receipts_inv w t v rcs (effects st)"])
  then have inv: "outbox_inv w t v (st\<lparr>receipts := rcs\<rparr>)"
    using assms(2) c by (simp add: outbox_inv_def)
  have fin: "?f (receipts st) = (r, rcs)" if "reply = Some r" for r
    using call_reply [of "claim_link c" ?f "receipts st" r] c that by (simp add: prod_eq_iff)
  show ?thesis
  proof (cases reply)
    case None
    then show ?thesis using assms(1) True c inv by (auto simp: claimEvent_def)
  next
    case (Some r)
    note f = fin [OF Some]
    show ?thesis
    proof (cases r)
      case (Inl er)
      then show ?thesis using assms(1) True c inv Some by (auto simp: claimEvent_def)
    next
      case (Inr claim)
      show ?thesis
      proof (cases claim)
        case (CLAIMED i)
        then have "i = rid" using f Inr by (auto dest: receipts_claim_id)
        then show ?thesis using assms(1,4) True c inv Some Inr CLAIMED by (auto simp: claimEvent_def)
      next
        case (COMPLETED x)
        have "consumed w (t (ev_id e)) (ev_id e) (effects st)"
          using receipts_claim_completed [of True rid "consumer_operation e now" now "receipts st" x rcs w t v "effects st"]
            f Inr COMPLETED old by (simp add: consumer_operation_def)
        then show ?thesis using assms(1) True c inv Some Inr COMPLETED by (auto simp: claimEvent_def)
      qed
    qed
  qed
next
  case False
  have old: "markers_inv w t (markers st) (effects st)" using assms(2) by (simp add: outbox_inv_def)
  let ?k = "marker_key (ev_id e)"
  let ?n = "\<lambda>s. r_setnx (marker_redis w) s ?k processing_marker (OUTBOX_PROCESSING_TTL_SECONDS * 1000)"
  obtain reply s where c: "call (set_link c) ?n (markers st) = (reply, s)" by fastforce
  have "markers_inv w t (snd (call (set_link c) ?n (markers st))) (effects st)"
    using old markers_setnx_books [OF assms(3) old]
    by (rule call_keeps [where P = "\<lambda>ms. markers_inv w t ms (effects st)"])
  then have inv: "outbox_inv w t v (st\<lparr>markers := s\<rparr>)" using assms(2) c by (simp add: outbox_inv_def)
  have seen: "consumed w (t (ev_id e)) (ev_id e) (effects st)"
    if "r_get (marker_redis w) (markers st) ?k = Some completed_marker"
    using old that by (simp add: markers_inv_def)
  show ?thesis
  proof (cases "has_redis w \<and> get_link c = Up")
    case False': False
    show ?thesis
    proof (cases "has_redis w")
      case True
      then have "get_link c = Down \<or> get_link c = ReplyLost" using False' by (cases "get_link c") auto
      then show ?thesis using assms(1,2) False True by (auto simp: claimEvent_def call_def)
    next
      case without: False
      show ?thesis using assms(1,2) False without by (auto simp: claimEvent_def)
    qed
  next
    case True
    let ?m = "r_get (marker_redis w) (markers st) ?k"
    have g: "fst (call (get_link c) (\<lambda>s. (r_get (marker_redis w) s ?k, s)) (markers st)) = Some ?m"
      using True by (simp add: call_def)
    consider (fin) "?m = Some completed_marker" | (busy) "?m = Some processing_marker" "?m \<noteq> Some completed_marker"
      | (free) "?m \<noteq> Some completed_marker" "?m \<noteq> Some processing_marker" by blast
    then show ?thesis
    proof cases
      case fin
      then show ?thesis using assms(1,2) False True g seen by (auto simp: claimEvent_def)
    next
      case busy
      then show ?thesis using assms(1,2) False True g
        by (auto simp: claimEvent_def simp del: option.inject)
    next
      case free
      then show ?thesis using assms(1) False True g c inv
        by (cases reply) (auto simp: claimEvent_def simp del: option.inject split: if_splits)
    qed
  qed
qed

lemma consumeInScope_books:
  assumes "consumeInScope w c e st = (res, st')" "outbox_inv w t v st" "ev_topic e = t (ev_id e)"
  shows "outbox_inv w t v st' \<and> (\<forall>u. res = Inr u \<longrightarrow> consumed w (t (ev_id e)) (ev_id e) (effects st'))"
proof -
  obtain r eff where x: "executeRequired (handle w) (consumers w) e (effects st) = (r, eff)" by fastforce
  have sub: "set (effects st) \<subseteq> set eff"
    using executeRequired_effects [of "effects st" "handle w" "consumers w" e] x by simp
  have inv: "outbox_inv w t v (st\<lparr>effects := eff\<rparr>)"
    using assms(2) inv_mono [OF sub] by (auto simp: outbox_inv_def)
  show ?thesis
  proof (cases r)
    case (Inl error)
    then show ?thesis using assms(1) x inv by (auto simp: consumeInScope_def)
  next
    case (Inr u)
    then have "consumed w (t (ev_id e)) (ev_id e) eff"
      using executeRequired_consumed [of w e "effects st" u eff] x assms(3) by simp
    then show ?thesis using assms(1) x inv Inr by (auto simp: consumeInScope_def)
  qed
qed

lemma with_markers: "outbox_inv w t v st \<Longrightarrow> markers_inv w t ms (effects st) \<Longrightarrow> outbox_inv w t v (st\<lparr>markers := ms\<rparr>)"
  and with_receipts: "outbox_inv w t v st \<Longrightarrow> receipts_inv w t v rcs (effects st) \<Longrightarrow> outbox_inv w t v (st\<lparr>receipts := rcs\<rparr>)"
  and with_rows: "outbox_inv w t v st \<Longrightarrow> rows_inv w t rs (effects st) \<Longrightarrow> outbox_inv w t v (st\<lparr>rows := rs\<rparr>)"
  by (simp_all add: outbox_inv_def)

lemma inv_parts:
  assumes "outbox_inv w t v st"
  shows "rows_inv w t (rows st) (effects st)" "queue_inv w t (queue st)"
    "receipts_inv w t v (receipts st) (effects st)" "markers_inv w t (markers st) (effects st)"
  using assms by (simp_all add: outbox_inv_def)

lemma markEventProcessed_books:
  assumes "markEventProcessed w c i st = (res, st')" "outbox_inv w t v st" "redis_ok (marker_redis w)"
    and "consumed w (t i) i (effects st)"
  shows "outbox_inv w t v st' \<and> effects st' = effects st"
proof -
  let ?f = "\<lambda>s. ((), r_set (marker_redis w) s (marker_key i) completed_marker (OUTBOX_DEDUPE_TTL_SECONDS * 1000))"
  obtain reply ms where c: "call (done_link c) ?f (markers st) = (reply, ms)" by fastforce
  have "markers_inv w t (snd (call (done_link c) ?f (markers st))) (effects st)"
    using markers_set_books [OF assms(3) inv_parts(4) [OF assms(2)]] assms(4) inv_parts(4) [OF assms(2)]
    by (intro call_keeps [where P = "\<lambda>ms. markers_inv w t ms (effects st)"]) simp_all
  then have "outbox_inv w t v (st\<lparr>markers := ms\<rparr>)" using assms(2) c by (intro with_markers) simp_all
  then show ?thesis
    using assms(1,2) c by (cases reply) (auto simp: markEventProcessed_def split: if_splits)
qed

lemma clear_marker_books:
  assumes "outbox_inv w t v st" "redis_ok (marker_redis w)"
  shows "outbox_inv w t v (clear_marker w l i st)"
proof -
  have "markers_inv w t (snd (call l (\<lambda>s. r_del (marker_redis w) s (marker_key i)) (markers st))) (effects st)"
    using inv_parts(4) [OF assms(1)] markers_del_books [OF assms(2) inv_parts(4) [OF assms(1)]]
    by (rule call_keeps [where P = "\<lambda>ms. markers_inv w t ms (effects st)"])
  then show ?thesis using assms(1) by (simp add: clear_marker_def with_markers)
qed

lemma releaseEvent_books:
  assumes "outbox_inv w t v st" "redis_ok (marker_redis w)"
  shows "outbox_inv w t v (releaseEvent w c i receiptId st)"
proof -
  have "receipts_inv w t v (snd (call l (receipts_release True rid) (receipts st))) (effects st)" for l rid
    using inv_parts(3) [OF assms(1)] receipts_release_books(1) [OF inv_parts(3) [OF assms(1)]]
    by (rule call_keeps [where P = "\<lambda>rcs. receipts_inv w t v rcs (effects st)"])
  then show ?thesis
    using assms by (simp add: releaseEvent_def with_receipts clear_marker_books)
qed

lemma completeEvent_books:
  assumes "completeEvent w c receiptId now st = (res, st')" "outbox_inv w t v st"
    and "\<forall>rid. receiptId = Some rid \<longrightarrow> consumed w (t (v rid)) (v rid) (effects st)"
  shows "outbox_inv w t v st' \<and> effects st' = effects st"
proof (cases "receiptId = None \<or> \<not> has_receipts w \<or> \<not> has_database w")
  case True
  then show ?thesis using assms(1,2) by (auto simp: completeEvent_def)
next
  case False
  then obtain rid where rid: "receiptId = Some rid" by auto
  let ?f = "receipts_complete (stringify_result w) True rid (JObj [(''completed'', JBool True)])
              (Some (now + OUTBOX_COMPLETED_RECEIPT_RETENTION_MS)) now"
  obtain reply rcs where c: "call (complete_link c) ?f (receipts st) = (reply, rcs)" by fastforce
  have "receipts_inv w t v (snd (call (complete_link c) ?f (receipts st))) (effects st)"
    using inv_parts(3) [OF assms(2)] receipts_complete_books [OF inv_parts(3) [OF assms(2)]] assms(3) rid
    by (intro call_keeps [where P = "\<lambda>rcs. receipts_inv w t v rcs (effects st)"]) simp_all
  then have "outbox_inv w t v (st\<lparr>receipts := rcs\<rparr>)" using assms(2) c by (intro with_receipts) simp_all
  then show ?thesis
    using assms(1) False rid c by (auto simp: completeEvent_def split: option.splits sum.splits)
qed

lemma consume_owned_books:
  assumes "consume_owned w c receiptId now e st = (res, st')" "outbox_inv w t v st" "redis_ok (marker_redis w)"
    and "ev_topic e = t (ev_id e)" "\<forall>rid. receiptId = Some rid \<longrightarrow> v rid = ev_id e"
  shows "outbox_inv w t v st' \<and> (\<forall>u. res = Inr u \<longrightarrow> consumed w (t (ev_id e)) (ev_id e) (effects st'))"
proof -
  obtain r1 st1 where c1: "consumeInScope w c e st = (r1, st1)" by fastforce
  obtain r2 st2 where c2: "markEventProcessed w c (ev_id e) st1 = (r2, st2)" by fastforce
  note b1 = consumeInScope_books [OF c1 assms(2,4)]
  show ?thesis
  proof (cases r1)
    case (Inl error)
    then show ?thesis using assms(1) c1 b1 by (auto simp: consume_owned_def)
  next
    case (Inr u)
    then have all: "consumed w (t (ev_id e)) (ev_id e) (effects st1)" using b1 by blast
    then have b2: "outbox_inv w t v st2 \<and> effects st2 = effects st1"
      using markEventProcessed_books [OF c2 _ assms(3)] b1 by blast
    show ?thesis
    proof (cases r2)
      case (Inl error)
      then show ?thesis using assms(1) c1 c2 b2 Inr by (auto simp: consume_owned_def)
    next
      case Inr': (Inr u')
      then have "completeEvent w c receiptId now st2 = (res, st')"
        using assms(1) c1 c2 Inr by (simp add: consume_owned_def)
      then show ?thesis using completeEvent_books [of w c receiptId now st2 res st' t v] b2 all assms(5) by auto
    qed
  qed
qed

lemma markPublished_books:
  assumes "markPublished w c i now st = (res, st')" "outbox_inv w t v st" "consumed w (t i) i (effects st)"
  shows "outbox_inv w t v st'"
proof (cases "has_database w \<and> has_repository w")
  case True
  then have "update_row (publish_link c) i published now st = (res, st')" using assms(1) by (simp add: markPublished_def)
  from update_row_books [OF this assms(2)] assms(3) show ?thesis by (simp add: published_def)
qed (use assms in \<open>auto simp: markPublished_def\<close>)

lemma markDeadLetter_books:
  assumes "markDeadLetter w c i error now st = (res, st')" "outbox_inv w t v st"
  shows "outbox_inv w t v st'"
proof (cases "has_database w \<and> has_repository w")
  case True
  let ?dead = "\<lambda>r. r\<lparr>ob_status := DEAD_LETTER, ob_lockedAt := None, ob_nextAttemptAt := None, ob_error := Some error\<rparr>"
  have "update_row (dead_link c) i ?dead now st = (res, st')" using True assms(1) by (simp add: markDeadLetter_def)
  from update_row_books [OF this assms(2)] show ?thesis by simp
qed (use assms in \<open>auto simp: markDeadLetter_def\<close>)

lemma job_failed_books:
  assumes "outbox_inv w t v st" "redis_ok (marker_redis w)"
  shows "outbox_inv w t v (snd (job_failed w c i owned n now error st))"
proof -
  define st1 where "st1 = (case owned of None \<Rightarrow> st | Some receiptId \<Rightarrow> releaseEvent w c i receiptId st)"
  have "outbox_inv w t v st1" using assms releaseEvent_books by (auto simp: st1_def split: option.split)
  moreover obtain r st2 where d: "markDeadLetter w c i error now st1 = (r, st2)" by fastforce
  ultimately have "outbox_inv w t v st1" "outbox_inv w t v st2" using markDeadLetter_books by blast+
  then show ?thesis
    using assms(1) d by (cases r) (simp_all add: job_failed_def Let_def st1_def [symmetric])
qed

lemma handle_job_books:
  assumes "outbox_inv w t v st" "redis_ok (marker_redis w)" "ev_topic d = t (ev_id d)" "v rid = ev_id d"
  shows "outbox_inv w t v (snd (handle_job w c rid now n d st))"
proof (cases "parseOutboxEventEnvelope (schemas w) d")
  case None
  then show ?thesis using assms by (simp add: handle_job_def job_failed_books)
next
  case (Some e)
  note e = parse_keeps [OF Some]
  obtain r1 st1 where c1: "claimEvent w c rid now e st = (r1, st1)" by fastforce
  have b1: "outbox_inv w t v st1" "\<And>i. r1 = Inr (True, Some i) \<Longrightarrow> v i = ev_id d"
    "\<And>i. r1 = Inr (False, i) \<Longrightarrow> consumed w (t (ev_id d)) (ev_id d) (effects st1)"
    using claimEvent_books [OF c1 assms(1,2)] e assms(4) by auto
  show ?thesis
  proof (cases r1)
    case (Inl error)
    then show ?thesis using Some c1 b1(1) assms(2) by (simp add: handle_job_def job_failed_books)
  next
    case (Inr cl)
    obtain claimed receiptId where cl: "cl = (claimed, receiptId)" by fastforce
    obtain r2 st2 where c2: "(if claimed then consume_owned w c receiptId now e st1 else (Inr (), st1)) = (r2, st2)"
      by fastforce
    have b2: "outbox_inv w t v st2 \<and> (\<forall>u. r2 = Inr u \<longrightarrow> consumed w (t (ev_id d)) (ev_id d) (effects st2))"
    proof (cases claimed)
      case True
      then have "consume_owned w c receiptId now e st1 = (r2, st2)" using c2 by simp
      then show ?thesis
        using consume_owned_books [of w c receiptId now e st1 r2 st2 t v] b1 assms(2,3) e Inr cl True by auto
    next
      case False
      then show ?thesis using c2 b1 Inr cl by auto
    qed
    show ?thesis
    proof (cases r2)
      case (Inl error)
      then show ?thesis using Some c1 Inr cl c2 b2 assms(2) by (simp add: handle_job_def job_failed_books)
    next
      case done2: (Inr u)
      obtain r3 st3 where c3: "markPublished w c (ev_id e) now st2 = (r3, st3)" by fastforce
      have "outbox_inv w t v st3" using markPublished_books [OF c3] b2 done2 e by auto
      then show ?thesis
        using Some c1 Inr cl c2 done2 c3 assms(2) by (cases r3) (simp_all add: handle_job_def job_failed_books)
    qed
  qed
qed

lemma queue_inv_remove:
  assumes "queue_ok w" "queue_inv w t q"
  shows "queue_inv w t (snd (call l (\<lambda>q. ((), q_remove w q i)) q))"
  unfolding queue_inv_def
proof (intro allI impI)
  fix j e
  assume "q_get w (snd (call l (\<lambda>q. ((), q_remove w q i)) q)) j = Some e"
  then have "q_get w q j = Some e" by (rule queue_remove_call [OF assms(1)])
  then show "ev_id e = j \<and> ev_topic e = t j" using assms(2) by (simp add: queue_inv_def)
qed

lemma release_receipts_books:
  assumes "outbox_inv w t v st"
  shows "outbox_inv w t v (snd (release_receipts w l i st))"
proof -
  have "receipts_inv w t v (snd (call l (receipts_releaseByOperationId True OUTBOX_CONSUMER_OPERATION i) (receipts st))) (effects st)"
    using inv_parts(3) [OF assms] receipts_release_books(2) [OF inv_parts(3) [OF assms]]
    by (rule call_keeps [where P = "\<lambda>rcs. receipts_inv w t v rcs (effects st)"])
  then show ?thesis using assms by (simp add: release_receipts_def with_receipts split: prod.split) (metis snd_conv with_receipts)
qed

lemma remove_job_books:
  assumes "outbox_inv w t v st" "queue_ok w"
  shows "outbox_inv w t v (remove_job w l i st)"
  using assms queue_inv_remove [OF assms(2) inv_parts(2) [OF assms(1)], of l i]
  by (simp add: remove_job_def outbox_inv_def)

lemma worker_replay_books:
  assumes "outbox_inv w t v st" "redis_ok (marker_redis w)" "queue_ok w"
  shows "outbox_inv w t v (snd (worker_replayDeadLetter w c there now i st))"
proof -
  obtain released st1 where r: "release_receipts w (claim_link c) i (clear_marker w (release_link c) i st) = (released, st1)"
    by fastforce
  have i1: "outbox_inv w t v st1"
    using release_receipts_books [OF clear_marker_books [OF assms(1,2), of "release_link c" i], of "claim_link c" i] r by simp
  define st2 where "st2 = (if there then remove_job w (get_link c) i st1 else st1)"
  have i2: "outbox_inv w t v st2" using i1 remove_job_books [OF i1 assms(3)] by (simp add: st2_def)
  have "rows_inv w t (snd (requeueDeadLetter i now (rows st2))) (effects st2)"
    unfolding requeueDeadLetter_def Let_def snd_conv using inv_parts(1) [OF i2] by (rule rows_inv_update) simp
  with inv_parts(1) [OF i2] have "rows_inv w t (snd (call (publish_link c) (requeueDeadLetter i now) (rows st2))) (effects st2)"
    by (rule call_keeps [where P = "\<lambda>rs. rows_inv w t rs (effects st2)"])
  then have "outbox_inv w t v (st2\<lparr>rows := snd (call (publish_link c) (requeueDeadLetter i now) (rows st2))\<rparr>)"
    using i2 by (rule with_rows [rotated])
  then show ?thesis
    using r i1 i2 by (cases released) (simp_all add: worker_replayDeadLetter_def Let_def st2_def [symmetric] split_beta)
qed

lemma prune_batches_subset: "set (prune_batches n cutoff rs) \<subseteq> set rs"
  by (induction n cutoff rs rule: prune_batches.induct)
     (auto simp: deletePublishedBefore_def Let_def split: prod.splits if_splits)

lemma persist_books:
  assumes "rows_inv w t rs eff" "t uuid = topic"
  shows "rows_inv w t (snd (persist s uuid writes topic payload tenant version now rs)) eff"
  using assms parse_keeps [of s "\<lparr>ev_id = uuid, ev_topic = topic, ev_version = version, ev_tenantId = tenant, ev_payload = payload\<rparr>"]
  by (auto simp: persist_def rows_inv_def new_row_def split: option.splits)

lemma outbox_step_books:
  assumes "outbox_inv w t v st" "redis_ok (marker_redis w)" "queue_ok w" "uuids_ok t v op"
  shows "outbox_inv w t v (outbox_step w op st)"
proof (cases op)
  case (Dispatch uuid writes multi tenant topic payload version now)
  then show ?thesis using assms inv_parts(1) [OF assms(1)]
    by (auto simp: dispatchTenant_def intro!: with_rows persist_books)
next
  case (DispatchGlobal uuid writes topic payload version now)
  then show ?thesis using assms inv_parts(1) [OF assms(1)]
    by (auto simp: dispatchGlobal_def intro!: with_rows persist_books)
next
  case (Tick elsewhere flts now)
  obtain events rs where l: "lockPendingEvents (\<lambda>i. i \<in> set elsewhere) BATCH_SIZE now (rows st) = (events, rs)"
    by fastforce
  from lockPendingEvents_books [OF this inv_parts(1) [OF assms(1)]]
  have "rows_inv w t rs (effects st)" "\<forall>e\<in>set events. ob_topic e = t (ob_id e)" by auto
  then show ?thesis using Tick l assms(1,3)
    by (auto simp: relayEvents_def intro!: deliver_all_books with_rows)
next
  case (Job i c rid n now)
  show ?thesis
  proof (cases "q_get w (queue st) i")
    case (Some d)
    then have "ev_id d = i" "ev_topic d = t i" using inv_parts(2) [OF assms(1)] by (simp_all add: queue_inv_def)
    then show ?thesis using Job Some assms by (simp add: handle_job_books)
  qed (use Job assms in simp)
next
  case (Recover now)
  have "rows_inv w t (recoverStaleLocks False now (rows st)) (effects st)"
    unfolding recoverStaleLocks_def recoverStaleLocks_rows_def using rows_inv_update [OF inv_parts(1) [OF assms(1)]] by simp
  then show ?thesis using Recover assms(1) by (simp add: with_rows)
next
  case (Retain now)
  have "rows_inv w t (retainPublishedEvents False now (rows st)) (effects st)"
    using inv_parts(1) [OF assms(1)] prune_batches_subset by (fastforce simp: retainPublishedEvents_def rows_inv_def)
  then show ?thesis using Retain assms(1) by (simp add: with_rows)
next
  case (Replay c there i now)
  then show ?thesis using worker_replay_books [OF assms(1-3)]
    by (auto simp: replayDeadLetter_def split: prod.split) (metis snd_conv)
next
  case (DropJob i)
  then show ?thesis using assms by (auto simp: outbox_inv_def queue_inv_def queue_remove)
next
  case (PurgeReceipts elsewhere limit now)
  then show ?thesis using assms inv_parts(3) [OF assms(1)] by (simp add: with_receipts receipts_release_books)
qed

lemma outbox_run_books:
  "outbox_inv w t v st \<Longrightarrow> redis_ok (marker_redis w) \<Longrightarrow> queue_ok w \<Longrightarrow> \<forall>op\<in>set ops. uuids_ok t v op \<Longrightarrow>
     outbox_inv w t v (outbox_run w ops st)"
  by (induction ops arbitrary: st) (auto simp: outbox_run_def outbox_step_books)

end
