(* ===== verification/OutboxProperties.thy ===== *)
theory OutboxProperties
  imports OutboxGuarantees
begin

text \<open>What the outbox promises, on the system of \<open>OutboxGuarantees\<close>, with examples.\<close>

section \<open>An example\<close>

definition demo_consumer :: registration where
  "demo_consumer = \<lparr>rg_id = ''mailer'', rg_topics = [''user.created'']\<rparr>"

definition demo_registry :: consumer_registry where
  "demo_registry = \<lparr>consumersByTopic = [(''user.created'', [demo_consumer])], consumerIds = [''mailer''],
     observerOnlyTopics = []\<rparr>"

type_synonym demo_queue = "(string, envelope) jmap"

definition demo_outbox :: "(demo_queue, (string, stored) jmap) outbox_world" where
  "demo_outbox = \<lparr>schemas = \<lambda>_. None, handle = \<lambda>_ _ _. HandlerOk, consumers = demo_registry,
     q_get = jm_get, q_add = (\<lambda>q i e. if jm_has q i then q else jm_set i e q), q_remove = (\<lambda>q i. jm_delete i q),
     marker_redis = map_redis, has_receipts = True, has_database = True, has_repository = True, has_redis = True,
     stringify_result = \<lambda>v. Text v 18, jitter_of = \<lambda>d. d, production = True\<rparr>"

definition calm :: delivery_faults where
  "calm = \<lparr>has_queue = True, add_link = Up, hold_link = Up, observers_ok = True, retry_link = Up\<rparr>"

definition calm_job :: job_calls where
  "calm_job = \<lparr>claim_link = Up, get_link = Up, set_link = Up, done_link = Up, complete_link = Up,
     publish_link = Up, release_link = Up, dead_link = Up, job_observers_ok = True\<rparr>"

definition empty_outbox :: "('q, 's) outbox_world \<Rightarrow> 'q \<Rightarrow> 's \<Rightarrow> ('q, 's) outbox_state" where
  "empty_outbox w q ms = \<lparr>rows = [], queue = q, receipts = [], markers = ms, effects = []\<rparr>"

definition nothing_queued :: "('q, 's) outbox_world \<Rightarrow> 'q \<Rightarrow> 's \<Rightarrow> bool" where
  "nothing_queued w q ms \<longleftrightarrow>
     (\<forall>i. q_get w q i = None) \<and> (\<forall>i. r_get (marker_redis w) ms (marker_key i) = None)"

lemma demo_queue_ok: "queue_ok demo_outbox"
  by (auto simp: queue_ok_def demo_outbox_def jmap_laws jm_has_def)

lemma demo_redis_ok: "redis_ok (marker_redis demo_outbox)"
  by (simp add: demo_outbox_def map_redis_ok)

lemma demo_nothing_queued: "nothing_queued demo_outbox [] []"
  by (simp add: nothing_queued_def demo_outbox_def map_redis_def jmap_laws)

definition demo_ops :: "demo_queue outbox_op list" where
  "demo_ops = [Dispatch ''e'' True True (Some ''t'') ''user.created'' (JObj []) 5 1000,
     Dispatch ''e'' True True (Some ''t'') ''user.created'' (JObj []) 1 1000, Tick [] (\<lambda>_. calm) 2000,
     Job ''e'' calm_job ''r'' 0 3000]"

lemmas outbox_eval = demo_ops_def demo_outbox_def demo_registry_def demo_consumer_def calm_def calm_job_def
  empty_outbox_def outbox_run_def dispatchTenant_def persist_def parseOutboxEventEnvelope_def envelope_ok_def
  new_row_def relayEvents_def lockPendingEvents_def event_due_def update_where_def deliver_def
  attempt_delivery_def update_row_def updateById_def row_envelope_def published_def call_def
  handle_job_def claimEvent_def consume_owned_def consumeInScope_def executeRequired_def consumers_of_def
  markEventProcessed_def completeEvent_def markPublished_def receipts_claim_def createIfAbsent_def
  consumer_operation_def same_operation_def new_receipt_def receipts_complete_def isStorableResult_def
  receipt_complete_def open_receipt_def jm_set_def jm_get_def jm_has_def MAX_RECEIPT_RESULT_BYTES_def

lemma demo_run:
  "rows (outbox_run demo_outbox demo_ops (empty_outbox demo_outbox [] [])) =
     [\<lparr>ob_id = ''e'', ob_tenantId = Some ''t'', ob_topic = ''user.created'', ob_schemaVersion = 1, ob_payload = JObj [],
       ob_status = PUBLISHED, ob_error = None, ob_attempts = 0, ob_nextAttemptAt = None, ob_lockedAt = None,
       ob_createdAt = 1000, ob_updatedAt = 3000\<rparr>]"
  by (simp add: outbox_eval BATCH_SIZE_def)

section \<open>Published means consumed\<close>

lemma empty_outbox_books:
  "nothing_queued w q ms \<Longrightarrow> outbox_inv w t v (empty_outbox w q ms)"
  by (simp add: nothing_queued_def outbox_inv_def empty_outbox_def rows_inv_def queue_inv_def receipts_inv_def markers_inv_def)



section \<open>No event is lost\<close>

definition event_content :: "event_row \<Rightarrow> string \<times> string option \<times> string \<times> int \<times> js \<times> int" where
  "event_content r = (ob_id r, ob_tenantId r, ob_topic r, ob_schemaVersion r, ob_payload r, ob_createdAt r)"

lemma update_where_content:
  "(\<And>r. event_content (f r) = event_content r) \<Longrightarrow>
     map event_content (update_where P f rs) = map event_content rs"
  by (simp add: update_where_def)

lemma updateById_content:
  "(\<And>r. event_content (f r) = event_content r) \<Longrightarrow> map event_content (updateById i f now rs) = map event_content rs"
  unfolding updateById_def by (rule update_where_content) (simp add: event_content_def)

lemma update_row_content:
  assumes "\<And>r. event_content (f r) = event_content r"
  shows "map event_content (rows (snd (update_row l i f now st))) = map event_content (rows st)"
  using updateById_content [OF assms] by (cases l) (simp_all add: update_row_def call_def)

lemma scheduleRetry_content: "map event_content (scheduleRetry jit now e er rs) = map event_content rs"
  unfolding scheduleRetry_def Let_def by (rule updateById_content) (simp add: event_content_def)

lemma attempt_delivery_content:
  "map event_content (rows (snd (attempt_delivery w flt now e st))) = map event_content (rows st)"
  by (simp add: attempt_delivery_def update_row_content published_def event_content_def
      split: option.split prod.split sum.split)

lemma deliver_content: "map event_content (rows (snd (deliver w flt now e st))) = map event_content (rows st)"
proof -
  obtain res st' where a: "attempt_delivery w flt now e st = (res, st')" by fastforce
  have "map event_content (rows st') = map event_content (rows st)"
    using attempt_delivery_content [of w flt now e st] a by simp
  then show ?thesis
    using a by (cases res; cases "retry_link flt") (simp_all add: deliver_def call_def scheduleRetry_content)
qed

lemma deliver_all_content:
  "map event_content (rows (deliver_all w flts now es st)) = map event_content (rows st)"
proof (induction w flts now es st rule: deliver_all.induct)
  case (2 w flts now e es st)
  then show ?case using deliver_content [of w "flts (ob_id e)" now e st] by (auto split: prod.splits bool.splits)
qed simp

lemma lockPendingEvents_content:
  "map event_content (snd (lockPendingEvents lk n now rs)) = map event_content rs"
  by (simp add: lockPendingEvents_def Let_def update_where_content event_content_def)

lemma claimEvent_rows: "rows (snd (claimEvent w c rid now e st)) = rows st"
  by (simp add: claimEvent_def split: option.split prod.split sum.split operation_claim.split)

lemma releaseEvent_rows: "rows (releaseEvent w c i receiptId st) = rows st"
  by (simp add: releaseEvent_def clear_marker_def)

lemma consumeInScope_rows: "rows (snd (consumeInScope w c e st)) = rows st"
  by (simp add: consumeInScope_def split: prod.split sum.split)

lemma markEventProcessed_rows: "rows (snd (markEventProcessed w c i st)) = rows st"
  by (simp add: markEventProcessed_def split: prod.split option.split)

lemma completeEvent_rows: "rows (snd (completeEvent w c receiptId now st)) = rows st"
  by (simp add: completeEvent_def split: prod.split option.split sum.split)

lemma consume_owned_rows: "rows (snd (consume_owned w c receiptId now e st)) = rows st"
proof -
  obtain r1 st1 where c1: "consumeInScope w c e st = (r1, st1)" by fastforce
  obtain r2 st2 where c2: "markEventProcessed w c (ev_id e) st1 = (r2, st2)" by fastforce
  have "rows st1 = rows st" "rows st2 = rows st1"
    using consumeInScope_rows [of w c e st] markEventProcessed_rows [of w c "ev_id e" st1] c1 c2 by simp_all
  then show ?thesis using c1 c2
    by (cases r1; cases r2) (simp_all add: consume_owned_def completeEvent_rows)
qed

lemma markPublished_content: "map event_content (rows (snd (markPublished w c i now st))) = map event_content (rows st)"
  by (simp add: markPublished_def update_row_content published_def event_content_def)

lemma markDeadLetter_content:
  "map event_content (rows (snd (markDeadLetter w c i er now st))) = map event_content (rows st)"
  by (simp add: markDeadLetter_def update_row_content event_content_def)

lemma job_failed_content:
  "map event_content (rows (snd (job_failed w c i owned n now er st))) = map event_content (rows st)"
proof -
  define st1 where "st1 = (case owned of None \<Rightarrow> st | Some receiptId \<Rightarrow> releaseEvent w c i receiptId st)"
  have "rows st1 = rows st" by (simp add: st1_def releaseEvent_rows split: option.split)
  moreover obtain r st2 where d: "markDeadLetter w c i er now st1 = (r, st2)" by fastforce
  moreover have "map event_content (rows st2) = map event_content (rows st1)"
    using markDeadLetter_content [of w c i er now st1] d by simp
  ultimately show ?thesis
    by (cases r) (simp_all add: job_failed_def Let_def st1_def [symmetric])
qed

lemma handle_job_content:
  "map event_content (rows (snd (handle_job w c rid now n d st))) = map event_content (rows st)"
proof (cases "parseOutboxEventEnvelope (schemas w) d")
  case (Some e)
  obtain r1 st1 where c1: "claimEvent w c rid now e st = (r1, st1)" by fastforce
  have s1: "rows st1 = rows st" using claimEvent_rows [of w c rid now e st] c1 by simp
  show ?thesis
  proof (cases r1)
    case (Inr cl)
    obtain claimed receiptId where cl: "cl = (claimed, receiptId)" by fastforce
    obtain r2 st2 where c2: "(if claimed then consume_owned w c receiptId now e st1 else (Inr (), st1)) = (r2, st2)"
      by fastforce
    have s2: "rows st2 = rows st1" using c2 consume_owned_rows [of w c receiptId now e st1] by (cases claimed) auto
    obtain r3 st3 where c3: "markPublished w c (ev_id e) now st2 = (r3, st3)" by fastforce
    have s3: "map event_content (rows st3) = map event_content (rows st2)"
      using markPublished_content [of w c "ev_id e" now st2] c3 by simp
    show ?thesis using Some c1 Inr cl c2 c3 s1 s2 s3
      by (cases r2; cases r3) (simp_all add: handle_job_def job_failed_content)
  qed (use Some c1 s1 in \<open>simp add: handle_job_def job_failed_content\<close>)
qed (simp add: handle_job_def job_failed_content)

lemma requeueDeadLetter_content: "map event_content (snd (requeueDeadLetter i now rs)) = map event_content rs"
  by (simp add: requeueDeadLetter_def Let_def update_where_content event_content_def)

lemma replay_content:
  "map event_content (rows (snd (worker_replayDeadLetter w c there now i st))) = map event_content (rows st)"
proof -
  obtain released st1 where r: "release_receipts w (claim_link c) i (clear_marker w (release_link c) i st) = (released, st1)"
    by fastforce
  have "rows st1 = rows (snd (release_receipts w (claim_link c) i (clear_marker w (release_link c) i st)))" using r by simp
  also have "\<dots> = rows st" by (simp add: release_receipts_def clear_marker_def split: prod.split)
  finally show ?thesis using r
    by (cases released; cases "publish_link c")
       (simp_all add: worker_replayDeadLetter_def Let_def remove_job_def call_def split_beta requeueDeadLetter_content)
qed

lemma retained:
  "r \<in> set rs \<Longrightarrow> \<not> (ob_status r = PUBLISHED \<and> ob_updatedAt r < cutoff) \<Longrightarrow> distinct (map ob_id rs) \<Longrightarrow>
     r \<in> set (prune_batches n cutoff rs)"
proof (induction n cutoff rs rule: prune_batches.induct)
  case (2 n cutoff rs)
  obtain k rs' where d: "deletePublishedBefore cutoff RETENTION_BATCH_SIZE rs = (k, rs')" by fastforce
  define old where "old = take RETENTION_BATCH_SIZE (sort_key ob_updatedAt
     (filter (\<lambda>r. ob_status r = PUBLISHED \<and> ob_updatedAt r < cutoff) rs))"
  have old: "o' \<in> set rs \<and> ob_status o' = PUBLISHED \<and> ob_updatedAt o' < cutoff" if "o' \<in> set old" for o'
    using set_take_subset that unfolding old_def by fastforce
  have rs': "rs' = filter (\<lambda>r. ob_id r \<notin> ob_id ` set old) rs"
    using d by (simp add: deletePublishedBefore_def Let_def old_def)
  have "ob_id r \<notin> ob_id ` set old"
  proof
    assume "ob_id r \<in> ob_id ` set old"
    then obtain o' where "o' \<in> set old" "ob_id o' = ob_id r" by auto
    then have "o' = r" using old 2(2,4) by (metis distinct_map inj_onD)
    then show False using old [OF \<open>o' \<in> set old\<close>] 2(3) by simp
  qed
  then have r: "r \<in> set rs'" using 2(2) rs' by simp
  have dist: "distinct (map ob_id rs')" using 2(4) rs' by (simp add: distinct_map_filter)
  show ?case using 2(1) [OF d [symmetric]] d r dist 2(3) by simp
qed simp

lemma content_member:
  assumes "map event_content rs' = map event_content rs" "r \<in> set rs"
  shows "\<exists>r'\<in>set rs'. event_content r' = event_content r"
  using assms by (metis (no_types, lifting) imageE image_eqI list.set_map)

lemma appended_member: "r \<in> set rs \<Longrightarrow> \<exists>r'\<in>set (snd (persist s uuid writes topic payload tenant version now rs)). event_content r' = event_content r"
  by (auto simp: persist_def split: option.split)

text \<open>
  C5. Events are durable: no step but the retention run removes a row of the table, and it
  removes none that is not \<open>PUBLISHED\<close> for more than seven days; no step changes an event's id,
  tenant, topic, version, payload or creation time.
\<close>

theorem no_event_lost:
  assumes "r \<in> set (rows st)" "distinct (map ob_id (rows st))"
    and "\<forall>now. op = Retain now \<longrightarrow> \<not> (ob_status r = PUBLISHED \<and> ob_updatedAt r < now - 7 * 24 * 60 * 60 * 1000)"
  shows "\<exists>r'\<in>set (rows (outbox_step w op st)). event_content r' = event_content r"
proof (cases op)
  case (Dispatch uuid writes multi tenant topic payload version now)
  show ?thesis using assms(1) appended_member [OF assms(1)] unfolding Dispatch
    by (auto simp: dispatchTenant_def)
next
  case (DispatchGlobal uuid writes topic payload version now)
  show ?thesis using appended_member [OF assms(1)] unfolding DispatchGlobal by (simp add: dispatchGlobal_def)
next
  case (Tick elsewhere flts now)
  obtain events rs where l: "lockPendingEvents (\<lambda>i. i \<in> set elsewhere) BATCH_SIZE now (rows st) = (events, rs)"
    by fastforce
  have "map event_content rs = map event_content (rows st)"
    using lockPendingEvents_content [of "\<lambda>i. i \<in> set elsewhere" BATCH_SIZE now "rows st"] l by simp
  then show ?thesis unfolding Tick
    by (intro content_member [OF _ assms(1)]) (simp add: relayEvents_def l deliver_all_content)
next
  case (Job i c rid n now)
  show ?thesis unfolding Job
    by (rule content_member [OF _ assms(1)]) (simp add: handle_job_content split: option.split)
next
  case (Recover now)
  show ?thesis unfolding Recover
    by (rule content_member [OF _ assms(1)])
       (simp add: recoverStaleLocks_def recoverStaleLocks_rows_def update_where_content event_content_def)
next
  case (Retain now)
  have "r \<in> set (prune_batches RETENTION_MAX_BATCHES (now - PUBLISHED_RETENTION_MS) (rows st))"
    using assms Retain by (intro retained) (simp_all add: PUBLISHED_RETENTION_MS_def)
  then show ?thesis unfolding Retain by (auto simp: retainPublishedEvents_def)
next
  case (Replay c there i now)
  show ?thesis unfolding Replay
    by (rule content_member [OF _ assms(1)]) (simp add: replayDeadLetter_def split_beta replay_content)
qed (use assms(1) in auto)

theorem no_event_lost_witness:
  "\<exists>r'\<in>set (rows (outbox_step demo_outbox (Retain 3600000)
      (outbox_run demo_outbox demo_ops (empty_outbox demo_outbox [] [])))).
    event_content r' = (''e'', Some ''t'', ''user.created'', 1, JObj [], 1000)"
  using no_event_lost [where w = demo_outbox and op = "Retain 3600000"
      and st = "outbox_run demo_outbox demo_ops (empty_outbox demo_outbox [] [])"
      and r = "hd (rows (outbox_run demo_outbox demo_ops (empty_outbox demo_outbox [] [])))"]
  unfolding demo_run by (simp add: event_content_def del: outbox_step.simps)

section \<open>Claiming a batch\<close>

definition claimable :: "(string \<Rightarrow> bool) \<Rightarrow> int \<Rightarrow> event_row \<Rightarrow> bool" where
  "claimable lk now r \<longleftrightarrow> event_due now r \<and> \<not> lk (ob_id r)"

lemma sorted_take_le:
  "sorted (map f xs) \<Longrightarrow> x \<in> set (take n xs) \<Longrightarrow> y \<in> set (drop n xs) \<Longrightarrow> f x \<le> f y"
proof -
  assume s: "sorted (map f xs)" and x: "x \<in> set (take n xs)" and y: "y \<in> set (drop n xs)"
  have "sorted (map f (take n xs) @ map f (drop n xs))" using s by (simp flip: map_append)
  then show "f x \<le> f y" using x y by (auto simp: sorted_append)
qed

lemma filter_ids:
  fixes rs :: "event_row list"
  assumes "distinct (map ob_id rs)" "set chosen \<subseteq> set rs" "distinct chosen"
  shows "length (filter (\<lambda>r. ob_id r \<in> ob_id ` set chosen) rs) = length chosen"
    and "set (filter (\<lambda>r. ob_id r \<in> ob_id ` set chosen) rs) = set chosen"
proof -
  have inj: "inj_on ob_id (set rs)" and d: "distinct rs" using assms(1) by (simp_all add: distinct_map)
  have eq: "r \<in> set chosen" if "r \<in> set rs" "ob_id r \<in> ob_id ` set chosen" for r
  proof -
    from that(2) obtain r' where "r' \<in> set chosen" "ob_id r' = ob_id r" by auto
    then have "r' = r" using inj_onD [OF inj, of r' r] that(1) assms(2) by auto
    then show ?thesis using \<open>r' \<in> set chosen\<close> by simp
  qed
  then show s: "set (filter (\<lambda>r. ob_id r \<in> ob_id ` set chosen) rs) = set chosen" using assms(2) by auto
  have "length (filter (\<lambda>r. ob_id r \<in> ob_id ` set chosen) rs) = card (set (filter (\<lambda>r. ob_id r \<in> ob_id ` set chosen) rs))"
    using distinct_card [OF distinct_filter [OF d]] by metis
  also have "\<dots> = length chosen" unfolding s using assms(3) by (simp add: distinct_card)
  finally show "length (filter (\<lambda>r. ob_id r \<in> ob_id ` set chosen) rs) = length chosen" .
qed

text \<open>
  A relay tick claims at most a hundred events. They are due events that nobody else has
  locked, the oldest ones first; every claimed event is left \<open>PROCESSING\<close> with a fresh lock, so
  that a second claim at the same time, by another relay, gets none of them.
\<close>

theorem relay_claims_exact:
  assumes "distinct (map ob_id rs)" "lockPendingEvents lk n now rs = (events, rs')"
  shows "length events = min n (length (filter (claimable lk now) rs)) \<and>
    (\<forall>e\<in>set events. ob_status e = PROCESSING \<and> ob_lockedAt e = Some now \<and> e \<in> set rs' \<and>
       (\<exists>r\<in>set rs. claimable lk now r \<and> ob_id r = ob_id e \<and> ob_createdAt r = ob_createdAt e \<and>
          (\<forall>r'\<in>set rs. claimable lk now r' \<and> ob_id r' \<notin> ob_id ` set events \<longrightarrow> ob_createdAt r \<le> ob_createdAt r'))) \<and>
    ob_id ` set (fst (lockPendingEvents lk' n' now rs')) \<inter> ob_id ` set events = {}"
proof -
  let ?claim = "\<lambda>r. r\<lparr>ob_status := PROCESSING, ob_lockedAt := Some now, ob_updatedAt := now\<rparr>"
  define due where "due = sort_key ob_createdAt (filter (claimable lk now) rs)"
  define chosen where "chosen = take n due"
  define picked where "picked = (\<lambda>r :: event_row. ob_id r \<in> ob_id ` set chosen)"
  have ev: "events = map ?claim (filter picked rs)" and rs': "rs' = update_where picked ?claim rs"
    using assms(2) by (simp_all add: lockPendingEvents_def Let_def picked_def chosen_def due_def claimable_def [abs_def])
  have d: "distinct rs" using assms(1) by (simp add: distinct_map)
  have due: "set due = {r \<in> set rs. claimable lk now r}" "distinct due" "sorted (map ob_createdAt due)"
    "length due = length (filter (claimable lk now) rs)"
    using d by (auto simp: due_def)
  have sub: "set chosen \<subseteq> set due" "distinct chosen"
    using set_take_subset due(2) by (auto simp: chosen_def dest: in_set_takeD)
  then have "set chosen \<subseteq> set rs" using due by auto
  note f = filter_ids [OF assms(1) this sub(2), folded picked_def]
  have len: "length events = min n (length (filter (claimable lk now) rs))"
    using f(1) due(4) by (simp add: ev chosen_def min.commute)
  have ids: "ob_id ` set events = ob_id ` set chosen"
    using f(2) by (auto simp: ev image_image)
  have each: "\<exists>r\<in>set rs. claimable lk now r \<and> ob_id r = ob_id e \<and> ob_createdAt r = ob_createdAt e \<and>
        (\<forall>r'\<in>set rs. claimable lk now r' \<and> ob_id r' \<notin> ob_id ` set events \<longrightarrow> ob_createdAt r \<le> ob_createdAt r')"
    "ob_status e = PROCESSING" "ob_lockedAt e = Some now" "e \<in> set rs'" if "e \<in> set events" for e
  proof -
    from that f(2) obtain r where r: "r \<in> set chosen" "picked r" "r \<in> set rs" "e = ?claim r"
      by (fastforce simp: ev)
    have "ob_createdAt r \<le> ob_createdAt r'"
      if "r' \<in> set rs" "claimable lk now r'" "ob_id r' \<notin> ob_id ` set events" for r'
    proof -
      have "r' \<in> set due" "r' \<notin> set (take n due)" using that due ids by (auto simp: chosen_def)
      then have "r' \<in> set (drop n due)" by (metis Un_iff append_take_drop_id set_append)
      then show ?thesis using sorted_take_le [OF due(3)] r(1) unfolding chosen_def by blast
    qed
    moreover have "claimable lk now r" using r sub due by auto
    ultimately show "\<exists>r\<in>set rs. claimable lk now r \<and> ob_id r = ob_id e \<and> ob_createdAt r = ob_createdAt e \<and>
        (\<forall>r'\<in>set rs. claimable lk now r' \<and> ob_id r' \<notin> ob_id ` set events \<longrightarrow> ob_createdAt r \<le> ob_createdAt r')"
      using r(3,4) by (intro bexI [of _ r]) auto
    show "ob_status e = PROCESSING" "ob_lockedAt e = Some now" "e \<in> set rs'"
      using r by (auto simp: rs' update_where_def intro!: image_eqI [of _ _ r])
  qed
  have "ob_id e \<notin> ob_id ` set events" if "e \<in> set (fst (lockPendingEvents lk' n' now rs'))" for e
  proof -
    define again where "again = take n' (sort_key ob_createdAt (filter (\<lambda>r. event_due now r \<and> \<not> lk' (ob_id r)) rs'))"
    have "ob_id e \<in> ob_id ` set again"
      using that by (auto simp: lockPendingEvents_def Let_def again_def [symmetric])
    moreover have "set again \<subseteq> {r \<in> set rs'. event_due now r}" by (auto simp: again_def dest: in_set_takeD)
    ultimately have "\<exists>r\<in>set rs'. event_due now r \<and> ob_id r = ob_id e" by auto
    then show ?thesis
      by (auto simp: rs' update_where_def event_due_def ids picked_def split: if_splits)
  qed
  then show ?thesis using len each by (auto simp: disjoint_iff)
qed

theorem relay_claims_exact_witness:
  "length (fst (lockPendingEvents (\<lambda>_. False) 5 2000 [new_row \<lparr>ev_id = ''e'', ev_topic = ''x'', ev_version = 1,
     ev_tenantId = None, ev_payload = JObj []\<rparr> None ''x'' 1000])) = 1"
proof -
  let ?row = "new_row \<lparr>ev_id = ''e'', ev_topic = ''x'', ev_version = 1, ev_tenantId = None, ev_payload = JObj []\<rparr> None ''x'' 1000"
  obtain events rs' where l: "lockPendingEvents (\<lambda>_. False) 5 2000 [?row] = (events, rs')" by fastforce
  have "distinct (map ob_id [?row])" by simp
  from relay_claims_exact [OF this l] have "length events = min 5 (length (filter (claimable (\<lambda>_. False) 2000) [?row]))"
    by blast
  then show ?thesis using l by (simp add: claimable_def event_due_def new_row_def)
qed

section \<open>Retries\<close>

lemma updateById_others:
  "(\<And>r. ob_id (f r) = ob_id r) \<Longrightarrow>
     filter (\<lambda>r. ob_id r \<noteq> i) (updateById i f now rs) = filter (\<lambda>r. ob_id r \<noteq> i) rs"
  unfolding updateById_def update_where_def by (induction rs) auto

lemma jitter_exact:
  assumes "jitter_ok jit"
  shows "4000 * 2 ^ k \<le> int (jit (5000 * 2 ^ k)) \<and> int (jit (5000 * 2 ^ k)) \<le> 6000 * 2 ^ k"
proof -
  have "8 * (5000 * 2 ^ k) \<le> 10 * jit (5000 * 2 ^ k) + 5 \<and> 10 * jit (5000 * 2 ^ k) \<le> 12 * (5000 * 2 ^ k) + 5"
    using assms unfolding jitter_ok_def by blast
  then have "4000 * 2 ^ k \<le> jit (5000 * 2 ^ k)" "jit (5000 * 2 ^ k) \<le> 6000 * 2 ^ k" by simp_all
  then have "int (4000 * 2 ^ k) \<le> int (jit (5000 * 2 ^ k))" "int (jit (5000 * 2 ^ k)) \<le> int (6000 * 2 ^ k)"
    unfolding of_nat_le_iff .
  then show ?thesis by simp
qed

text \<open>
  The retry policy: a delivery that fails leaves the event \<open>PENDING\<close> with one more attempt
  and the error, due again after 5 seconds doubled per earlier attempt, give or take a fifth;
  the fifth failure makes it a dead letter, which no tick claims again. No other event changes.
\<close>

theorem retry_policy:
  assumes "jitter_ok (jitter_of w)"
    and "attempt_delivery w flt now event st = (Inl error, st1)" "deliver w flt now event st = (True, st')"
    and "r \<in> set (rows st')" "ob_id r = ob_id event"
  shows "ob_attempts r = ob_attempts event + 1 \<and> ob_error r = Some error \<and> ob_lockedAt r = None \<and>
    (if ob_attempts event < 4
     then ob_status r = PENDING \<and> (\<exists>due. ob_nextAttemptAt r = Some due \<and>
            now + 4000 * 2 ^ ob_attempts event \<le> due \<and> due \<le> now + 6000 * 2 ^ ob_attempts event)
     else ob_status r = DEAD_LETTER \<and> (\<forall>later. \<not> event_due later r)) \<and>
    filter (\<lambda>r. ob_id r \<noteq> ob_id event) (rows st') = filter (\<lambda>r. ob_id r \<noteq> ob_id event) (rows st1)"
proof -
  have up: "retry_link flt = Up" using assms(2,3) by (cases "retry_link flt") (auto simp: deliver_def call_def)
  then have rows': "rows st' = scheduleRetry (jitter_of w) now event error (rows st1)"
    using assms(2,3) by (auto simp: deliver_def call_def)
  then obtain r0 where r0: "ob_id r0 = ob_id event"
    "r = (let n = ob_attempts event + 1; dead = (n \<ge> OUTBOX_MAX_ATTEMPTS) in
       r0\<lparr>ob_status := if dead then DEAD_LETTER else PENDING, ob_attempts := n, ob_error := Some error,
          ob_nextAttemptAt := if dead then None
            else Some (now + int (jitter_of w (RETRY_BASE_DELAY_MS * RETRY_MULTIPLIER ^ (n - 1)))),
          ob_lockedAt := None, ob_updatedAt := now\<rparr>)"
    using assms(4,5) by (auto simp: scheduleRetry_def Let_def updateById_def update_where_def split: if_splits)
  have "filter (\<lambda>r. ob_id r \<noteq> ob_id event) (rows st') = filter (\<lambda>r. ob_id r \<noteq> ob_id event) (rows st1)"
    unfolding rows' scheduleRetry_def Let_def by (rule updateById_others) simp
  then show ?thesis
    using r0 jitter_exact [OF assms(1), of "ob_attempts event"]
    by (auto simp: Let_def OUTBOX_MAX_ATTEMPTS_def RETRY_BASE_DELAY_MS_def RETRY_MULTIPLIER_def event_due_def)
qed

theorem retry_policy_witness:
  "\<exists>r. set (rows (snd (deliver demo_outbox (calm\<lparr>add_link := Down\<rparr>) 2000
      (new_row \<lparr>ev_id = ''e'', ev_topic = ''x'', ev_version = 1, ev_tenantId = None, ev_payload = JObj []\<rparr> None ''x'' 1000)
      ((empty_outbox demo_outbox [] [])\<lparr>rows :=
        [new_row \<lparr>ev_id = ''e'', ev_topic = ''x'', ev_version = 1, ev_tenantId = None, ev_payload = JObj []\<rparr> None ''x'' 1000]\<rparr>)))) = {r}
     \<and> ob_status r = PENDING \<and> ob_attempts r = 1"
proof -
  let ?row = "new_row \<lparr>ev_id = ''e'', ev_topic = ''x'', ev_version = 1, ev_tenantId = None, ev_payload = JObj []\<rparr> None ''x'' 1000"
  let ?st = "(empty_outbox demo_outbox [] [])\<lparr>rows := [?row]\<rparr>"
  let ?flt = "calm\<lparr>add_link := Down\<rparr>"
  have j: "jitter_ok (jitter_of demo_outbox)" by (simp add: jitter_ok_def demo_outbox_def)
  have a: "attempt_delivery demo_outbox ?flt 2000 ?row ?st = (Inl ''QUEUE'', ?st)"
    by (simp add: outbox_eval)
  have d: "deliver demo_outbox ?flt 2000 ?row ?st =
      (True, ?st\<lparr>rows := scheduleRetry (jitter_of demo_outbox) 2000 ?row ''QUEUE'' [?row]\<rparr>)"
    using a by (simp add: deliver_def calm_def call_def)
  obtain r where r: "scheduleRetry (jitter_of demo_outbox) 2000 ?row ''QUEUE'' [?row] = [r]" "ob_id r = ob_id ?row"
    by (simp add: scheduleRetry_def Let_def updateById_def update_where_def)
  have "r \<in> set (rows (?st\<lparr>rows := scheduleRetry (jitter_of demo_outbox) 2000 ?row ''QUEUE'' [?row]\<rparr>))"
    using r by simp
  from retry_policy [OF j a d this r(2)] have "ob_attempts r = 1 \<and> ob_status r = PENDING"
    by (simp add: new_row_def)
  then show ?thesis using d r by simp
qed


section \<open>Consumed once\<close>

lemma job_failed_effects: "effects (snd (job_failed w c i owned n now er st)) = effects st"
proof -
  define st1 where "st1 = (case owned of None \<Rightarrow> st | Some receiptId \<Rightarrow> releaseEvent w c i receiptId st)"
  have 1: "effects st1 = effects st" by (simp add: st1_def releaseEvent_def clear_marker_def split: option.split)
  obtain r st2 where d: "markDeadLetter w c i er now st1 = (r, st2)" by fastforce
  have "effects (snd (markDeadLetter w c i er now st1)) = effects st1"
    by (simp add: markDeadLetter_def update_row_def split: prod.split option.split)
  then show ?thesis using 1 d by (cases r) (simp_all add: job_failed_def Let_def st1_def [symmetric])
qed

lemma markPublished_effects: "effects (snd (markPublished w c i now st)) = effects st"
  by (simp add: markPublished_def update_row_def split: prod.split option.split)

lemma claimEvent_effects: "effects (snd (claimEvent w c rid now e st)) = effects st"
  by (simp add: claimEvent_def split: option.split prod.split sum.split operation_claim.split)

lemma handle_job_unclaimed:
  assumes "parseOutboxEventEnvelope (schemas w) d = Some e" "claimEvent w c rid now e st = (r, st1)"
    and "\<And>receiptId. r \<noteq> Inr (True, receiptId)"
  shows "effects (snd (handle_job w c rid now n d st)) = effects st"
proof -
  have 1: "effects st1 = effects st" using claimEvent_effects [of w c rid now e st] assms(2) by simp
  show ?thesis
  proof (cases r)
    case (Inl error)
    then show ?thesis using assms(1,2) 1 by (simp add: handle_job_def job_failed_effects)
  next
    case (Inr cl)
    then obtain receiptId where cl: "cl = (False, receiptId)" using assms(3) by (cases cl) auto
    obtain r3 st3 where c3: "markPublished w c (ev_id e) now st1 = (r3, st3)" by fastforce
    then have "effects st3 = effects st1" using markPublished_effects [of w c "ev_id e" now st1] by simp
    then show ?thesis using assms(1,2) 1 Inr cl c3 by (cases r3) (simp_all add: handle_job_def job_failed_effects)
  qed
qed

text \<open>\<open>event_settled\<close>: the receipt of a consumed event.\<close>

definition event_receipt :: "envelope \<Rightarrow> receipt \<Rightarrow> bool" where
  "event_receipt e r \<longleftrightarrow>
     identity_of r = (OUTBOX_CONSUMER_OPERATION, scopeId (consumer_operation e 0), ev_id e) \<and> rc_requestHash r = ev_id e"

definition event_settled :: "receipt list \<Rightarrow> envelope \<Rightarrow> bool" where
  "event_settled rcs e \<longleftrightarrow> (\<exists>r\<in>set rcs. event_receipt e r \<and> rc_status r = Completed)"

lemma event_receipt_identity:
  "event_receipt e r \<Longrightarrow> identity_of r = (operationType (consumer_operation e now), scopeId (consumer_operation e now),
     operationId (consumer_operation e now)) \<and> rc_requestHash r = requestHash (consumer_operation e now)"
  by (simp add: event_receipt_def consumer_operation_def)

lemma claimEvent_refused:
  assumes "has_receipts w" "has_database w" "receipts_ok (receipts st)" "r \<in> set (receipts st)" "event_receipt e r"
    and "rc_status r = Completed \<or> now \<le> rc_expiresAt r"
  shows "claimEvent w c rid now e st =
    (case claim_link c of Up \<Rightarrow> if rc_status r = Completed then Inr (False, None) else Inl OUTBOX_EVENT_IN_PROGRESS
     | _ \<Rightarrow> Inl ''DATABASE'', st)"
proof -
  have "receipts_claim True rid (consumer_operation e now) now (receipts st) =
    (if rc_status r = Completed then Inr (COMPLETED (rc_result r)) else Inl OPERATION_IN_PROGRESS, receipts st)"
    using claim_existing [of "receipts st" r "consumer_operation e now" now rid] assms(3-6) event_receipt_identity [of e r now]
    by simp
  then show ?thesis using assms(1,2) by (cases "claim_link c") (auto simp: claimEvent_def call_def)
qed

lemma created_row:
  assumes "createIfAbsent rid idn e now rs = (True, rs')"
  shows "\<exists>r\<in>set rs'. identity_of r = (operationType idn, scopeId idn, operationId idn) \<and> rc_id r = rid \<and>
    rc_requestHash r = requestHash idn \<and> rc_status r = Processing \<and> rc_expiresAt r = e"
proof (cases "list_ex (same_operation (operationType idn) (scopeId idn) (operationId idn)) rs")
  case False
  then have "new_receipt rid idn e now \<in> set rs'" using assms by (auto simp: createIfAbsent_cases)
  then show ?thesis by (rule rev_bexI) (simp add: new_receipt_def identity_of_def)
next
  case True
  then obtain r where r: "r \<in> set rs" "free_receipt idn now r"
    "rs' = map (\<lambda>r. if free_receipt idn now r then take_over rid idn e now r else r) rs"
    using assms by (auto simp: createIfAbsent_cases list_ex_iff split: if_splits)
  then have "take_over rid idn e now r \<in> set rs'" by (auto intro!: image_eqI [of _ _ r])
  moreover have "identity_of r = (operationType idn, scopeId idn, operationId idn)"
    using r(2) by (simp add: free_receipt_def same_operation_identity)
  ultimately show ?thesis by (intro rev_bexI) (auto simp: take_over_def identity_of_def)
qed

lemma claimed_row:
  assumes "receipts_claim True rid (consumer_operation e now) now rcs = (Inr (CLAIMED i), rcs')" "receipts_ok rcs"
    and "rid \<notin> rc_id ` set rcs"
  shows "receipts_ok rcs' \<and> i = rid \<and>
    (\<exists>r\<in>set rcs'. event_receipt e r \<and> rc_id r = rid \<and> rc_status r = Processing \<and> rc_expiresAt r = now + 600000)"
proof -
  let ?idn = "consumer_operation e now"
  have c: "createIfAbsent rid ?idn (now + 600000) now rcs = (True, rcs')" and i: "i = rid"
    using assms(1) by (auto simp: receipts_claim_def Let_def consumer_operation_def OUTBOX_PROCESSING_TTL_SECONDS_def
        split: prod.splits bool.splits option.splits if_splits)
  have "\<exists>r\<in>set rcs'. event_receipt e r \<and> rc_id r = rid \<and> rc_status r = Processing \<and> rc_expiresAt r = now + 600000"
    using created_row [OF c] by (auto simp: event_receipt_def consumer_operation_def)
  then show ?thesis using claim_ok [OF assms(2,3), of ?idn "now + 600000" now] c i by simp
qed

lemma claimEvent_ok:
  assumes "has_receipts w" "has_database w" "receipts_ok (receipts st)" "rid \<notin> rc_id ` set (receipts st)"
    and "claimEvent w c rid now e st = (Inr (claimed, receiptId), st1)"
  shows "receipts_ok (receipts st1) \<and> effects st1 = effects st \<and>
    (if claimed then receiptId = Some rid \<and> (\<exists>r\<in>set (receipts st1). event_receipt e r \<and> rc_id r = rid)
     else event_settled (receipts st1) e)"
proof -
  let ?f = "receipts_claim True rid (consumer_operation e now) now"
  obtain r where "call (claim_link c) ?f (receipts st) = (Some (Inr r), receipts st1)"
    and r: "r = CLAIMED (the receiptId) \<and> claimed \<and> receiptId \<noteq> None \<or> (\<exists>v. r = COMPLETED v) \<and> \<not> claimed"
    using assms(1,2,5)
    by (auto simp: claimEvent_def split: prod.splits option.splits sum.splits operation_claim.splits)
  then have f: "?f (receipts st) = (Inr r, receipts st1)"
    using call_reply [of "claim_link c" ?f "receipts st" "Inr r"] by (simp add: prod_eq_iff)
  have eff: "effects st1 = effects st" using claimEvent_effects [of w c rid now e st] assms(5) by simp
  show ?thesis
  proof (cases claimed)
    case True
    then have "r = CLAIMED (the receiptId)" "receiptId \<noteq> None" using r by auto
    then show ?thesis using claimed_row [of rid e now "receipts st" "the receiptId" "receipts st1"] f assms(3,4) eff True
      by auto
  next
    case False
    then obtain v where "r = COMPLETED v" using r by auto
    with f have "receipts st1 = receipts st" and "\<exists>x. find (same_operation (operationType (consumer_operation e now))
        (scopeId (consumer_operation e now)) (operationId (consumer_operation e now))) (receipts st) = Some x \<and>
        rc_requestHash x = ev_id e \<and> rc_status x = Completed"
      by (auto simp: receipts_claim_def createIfAbsent_cases receipt_find_def consumer_operation_def Let_def
          split: if_splits option.splits)
    then have "event_settled (receipts st1) e"
      by (auto simp: event_settled_def event_receipt_def find_Some_iff same_operation_def identity_of_def consumer_operation_def)
    then show ?thesis using False eff \<open>receipts st1 = receipts st\<close> assms(3) by simp
  qed
qed

lemma receipts_complete_settles:
  assumes "receipts_complete str True rid v ex now rcs = (Inr u, rcs')" "receipts_ok rcs"
    and "r \<in> set rcs" "event_receipt e r" "rc_id r = rid"
  shows "receipts_ok rcs' \<and> event_settled rcs' e"
proof -
  have one: "length (filter (open_receipt rid) rcs) = 1" and rcs': "rcs' = snd (receipt_complete rid v ex now rcs)"
    using assms(1) by (auto simp: receipts_complete_def receipt_complete_def split: if_splits bool.splits)
  then have "filter (open_receipt rid) rcs \<noteq> []" by auto
  then obtain q where q: "q \<in> set rcs" "open_receipt rid q" by (auto simp: filter_empty_conv)
  then have "q = r" using assms(2,3,5) by (auto simp: receipts_ok_def open_receipt_def distinct_map inj_on_def)
  then have "open_receipt rid r" using q by simp
  let ?done = "r\<lparr>rc_status := Completed, rc_result := v, rc_completedAt := Some now,
      rc_expiresAt := (case ex of None \<Rightarrow> rc_expiresAt r | Some e \<Rightarrow> e)\<rparr>"
  have "?done \<in> set rcs'" using assms(3) \<open>open_receipt rid r\<close> by (auto simp: rcs' receipt_complete_def)
  moreover have "event_receipt e ?done \<and> rc_status ?done = Completed"
    using assms(4) by (simp add: event_receipt_def identity_of_def)
  ultimately have "event_settled rcs' e" unfolding event_settled_def by blast
  moreover have "map identity_of rcs' = map identity_of rcs" "map rc_id rcs' = map rc_id rcs"
    by (simp_all add: rcs' receipt_complete_def identity_of_def)
  ultimately show ?thesis using assms(2) by (simp add: receipts_ok_def)
qed

lemma consume_owned_ok:
  assumes "has_receipts w" "has_database w" "receipts_ok (receipts st)"
    and "r \<in> set (receipts st)" "event_receipt e r" "rc_id r = rid"
    and "consume_owned w c (Some rid) now e st = (Inr (), st1)"
  shows "receipts_ok (receipts st1) \<and> event_settled (receipts st1) e \<and>
    effects st1 = effects st @ map (\<lambda>c. (rg_id c, ev_id e)) (consumers_of (consumers w) (ev_topic e))"
proof -
  obtain r1 eff where x: "executeRequired (handle w) (consumers w) e (effects st) = (r1, eff)" by fastforce
  obtain u where r1: "r1 = Inr u" "job_observers_ok c"
    using assms(7) x by (cases r1) (auto simp: consume_owned_def consumeInScope_def split: if_splits)
  have eff: "eff = effects st @ map (\<lambda>c. (rg_id c, ev_id e)) (consumers_of (consumers w) (ev_topic e))"
    using x r1 by (auto simp: executeRequired_def Let_def split: if_splits dest!: run_consumers_all)
  have "completeEvent w c (Some rid) now (st\<lparr>effects := eff\<rparr>) = (Inr (), st1)"
    using assms(1,7) x r1 by (simp add: consume_owned_def consumeInScope_def markEventProcessed_def)
  then obtain v ex where "call (complete_link c) (receipts_complete (stringify_result w) True rid v ex now) (receipts st)
      = (Some (Inr ()), receipts st1)" and e1: "effects st1 = eff"
    using assms(1,2) by (auto simp: completeEvent_def split: prod.splits option.splits sum.splits)
  then have "receipts_complete (stringify_result w) True rid v ex now (receipts st) = (Inr (), receipts st1)"
    using call_reply [of "complete_link c" "receipts_complete (stringify_result w) True rid v ex now" "receipts st" "Inr ()"]
    by (simp add: prod_eq_iff)
  from receipts_complete_settles [OF this assms(3-6)] show ?thesis using e1 eff by simp
qed

lemma settled_consumes_nothing:
  assumes "has_receipts w" "has_database w" "receipts_ok (receipts st)" "event_settled (receipts st) e"
    and "parseOutboxEventEnvelope (schemas w) d = Some e"
  shows "effects (snd (handle_job w c rid now n d st)) = effects st"
proof -
  obtain r where r: "r \<in> set (receipts st)" "event_receipt e r" "rc_status r = Completed"
    using assms(4) by (auto simp: event_settled_def)
  have "claimEvent w c rid now e st = (case claim_link c of Up \<Rightarrow> Inr (False, None) | _ \<Rightarrow> Inl ''DATABASE'', st)"
    using claimEvent_refused [OF assms(1,2,3) r(1,2), of now c rid] r(3) by simp
  from handle_job_unclaimed [OF assms(5) this] show ?thesis by (cases "claim_link c") simp_all
qed

text \<open>
  With durable receipts, a job that succeeds has run every consumer of its topic once, in
  the order of registration, or nothing when the event had been consumed before; it leaves the
  event \<open>PUBLISHED\<close>, and a redelivery of the job, with whatever faults, runs no consumer again.
\<close>

theorem job_consumes_once:
  assumes "has_receipts w" "has_database w" "has_repository w" "receipts_ok (receipts st)"
    and "rid \<notin> rc_id ` set (receipts st)" "handle_job w c rid now n d st = (Inr (), st')"
  shows "(effects st' = effects st \<or>
      effects st' = effects st @ map (\<lambda>c. (rg_id c, ev_id d)) (consumers_of (consumers w) (ev_topic d))) \<and>
    (\<forall>r\<in>set (rows st'). ob_id r = ev_id d \<longrightarrow> ob_status r = PUBLISHED) \<and>
    (\<forall>c' rid' now' n'. effects (snd (handle_job w c' rid' now' n' d st')) = effects st')"
proof -
  have never: "fst (job_failed w c i owned n now er s) \<noteq> Inr ()" for i owned er s
    by (auto simp: job_failed_def Let_def split: prod.split sum.split)
  obtain e where e: "parseOutboxEventEnvelope (schemas w) d = Some e"
    using assms(6) never by (cases "parseOutboxEventEnvelope (schemas w) d") (auto simp: handle_job_def dest: arg_cong [of _ _ fst])
  note ids = parse_keeps [OF e]
  obtain claimed receiptId st1 where c1: "claimEvent w c rid now e st = (Inr (claimed, receiptId), st1)"
    using assms(6) e never by (fastforce simp: handle_job_def split: sum.splits prod.splits dest: arg_cong [of _ _ fst])
  obtain st2 where c2: "(if claimed then consume_owned w c receiptId now e st1 else (Inr (), st1)) = (Inr (), st2)"
    and c3: "markPublished w c (ev_id e) now st2 = (Inr (), st')"
    using assms(6) e c1 never by (fastforce simp: handle_job_def split: sum.splits prod.splits dest: arg_cong [of _ _ fst])
  note k1 = claimEvent_ok [OF assms(1,2,4,5) c1]
  have k2: "receipts_ok (receipts st2) \<and> event_settled (receipts st2) e \<and> (effects st2 = effects st \<or>
      effects st2 = effects st @ map (\<lambda>c. (rg_id c, ev_id d)) (consumers_of (consumers w) (ev_topic d)))"
  proof (cases claimed)
    case True
    then obtain r where r: "r \<in> set (receipts st1)" "event_receipt e r" "rc_id r = rid" "receiptId = Some rid"
      using k1 by auto
    then show ?thesis using consume_owned_ok [OF assms(1,2) _ r(1-3), of c now st2] k1 c2 True ids by simp
  qed (use k1 c2 in simp)
  have "update_row (publish_link c) (ev_id e) published now st2 = (Inr (), st')"
    using c3 assms(2,3) by (simp add: markPublished_def)
  then have up: "rows st' = updateById (ev_id e) published now (rows st2)"
    and same: "effects st' = effects st2" "receipts st' = receipts st2"
    by (cases "publish_link c"; auto simp: update_row_def call_def)+
  then have "\<forall>r\<in>set (rows st'). ob_id r = ev_id d \<longrightarrow> ob_status r = PUBLISHED"
    using ids by (auto simp: updateById_def update_where_def published_def split: if_splits)
  moreover have "effects (snd (handle_job w c' rid' now' n' d st')) = effects st'" for c' rid' now' n'
    using settled_consumes_nothing [OF assms(1,2) _ _ e] k2 same by simp
  ultimately show ?thesis using k2 same by simp
qed

definition demo_envelope :: envelope where
  "demo_envelope = \<lparr>ev_id = ''e'', ev_topic = ''user.created'', ev_version = 1, ev_tenantId = Some ''t'', ev_payload = JObj []\<rparr>"

definition demo_queued :: "(demo_queue, (string, stored) jmap) outbox_state" where
  "demo_queued = \<lparr>rows = [new_row demo_envelope (Some ''t'') ''user.created'' 1000], queue = [(''e'', demo_envelope)],
     receipts = [], markers = [], effects = []\<rparr>"

lemma demo_job:
  "fst (handle_job demo_outbox calm_job ''r'' 3000 0 demo_envelope demo_queued) = Inr ()"
  "effects (snd (handle_job demo_outbox calm_job ''r'' 3000 0 demo_envelope demo_queued)) = [(''mailer'', ''e'')]"
  by (simp_all add: outbox_eval demo_envelope_def demo_queued_def)

theorem job_consumes_once_witness:
  "effects (snd (handle_job demo_outbox calm_job ''r2'' 9000 3 demo_envelope
      (snd (handle_job demo_outbox calm_job ''r'' 3000 0 demo_envelope demo_queued)))) = [(''mailer'', ''e'')]"
proof -
  have j: "handle_job demo_outbox calm_job ''r'' 3000 0 demo_envelope demo_queued =
      (Inr (), snd (handle_job demo_outbox calm_job ''r'' 3000 0 demo_envelope demo_queued))"
    using demo_job(1) by (metis prod.collapse)
  have h: "has_receipts demo_outbox" "has_database demo_outbox" "has_repository demo_outbox"
    "receipts_ok (receipts demo_queued)" "''r'' \<notin> rc_id ` set (receipts demo_queued)"
    by (simp_all add: demo_outbox_def demo_queued_def receipts_ok_def)
  show ?thesis using job_consumes_once [OF h j] demo_job(2) by simp
qed

section \<open>Writing and reading back\<close>

text \<open>A schema's reading of what it read before is the same: the payload schemas transform nothing twice.\<close>

definition schemas_idempotent :: "payload_schemas \<Rightarrow> bool" where
  "schemas_idempotent s \<longleftrightarrow>
     (\<forall>topic schema v p. s topic = Some schema \<and> schema v = Some p \<longrightarrow> schema p = Some p \<and> isRecord p)"

lemma parse_twice:
  assumes "schemas_idempotent s" "parseOutboxEventEnvelope s e = Some e'"
  shows "parseOutboxEventEnvelope s e' = Some e'"
proof (cases "s (ev_topic e)")
  case None
  then show ?thesis using assms(2) by (auto simp: parseOutboxEventEnvelope_def split: if_splits)
next
  case (Some schema)
  then obtain p where p: "schema (ev_payload e) = Some p" "e' = e\<lparr>ev_payload := p\<rparr>" "envelope_ok e" "ev_version e = 1"
    using assms(2) by (auto simp: parseOutboxEventEnvelope_def split: if_splits)
  then have "schema p = Some p" "isRecord p" using assms(1) Some unfolding schemas_idempotent_def by blast+
  then show ?thesis using p Some by (simp add: parseOutboxEventEnvelope_def envelope_ok_def)
qed



section \<open>Two behaviours against the comments\<close>

text \<open>
  \<open>outbox.constants.ts\<close> asks that a crashed consumer become claimable before the durable job is
  exhausted. The claim lasts ten minutes, the five attempts of a job end after 5 + 10 + 20 + 40
  seconds: a run that died after its claim leaves an event that the remaining attempts refuse
  and the last one makes a dead letter, without any consumer having been tried again.
\<close>

lemma crash_exhausts_retries:
  assumes "has_receipts w" "has_database w" "has_repository w" "receipts_ok (receipts st)"
    and "rid \<notin> rc_id ` set (receipts st)" "claimEvent w c rid t e st = (Inr (True, i), st1)"
    and "parseOutboxEventEnvelope (schemas w) d = Some e"
    and "now \<le> t + 600000" "claim_link c' = Up" "dead_link c' = Up"
  shows "fst (handle_job w c' rid' now n d st1) = Inl OUTBOX_EVENT_IN_PROGRESS \<and>
    effects (snd (handle_job w c' rid' now n d st1)) = effects st1 \<and>
    (4 \<le> n \<longrightarrow> (\<forall>r\<in>set (rows (snd (handle_job w c' rid' now n d st1))). ob_id r = ev_id d \<longrightarrow> ob_status r = DEAD_LETTER))"
proof -
  let ?f = "receipts_claim True rid (consumer_operation e t) t"
  obtain x where "call (claim_link c) ?f (receipts st) = (Some (Inr (CLAIMED x)), receipts st1)"
    using assms(1,2,6)
    by (auto simp: claimEvent_def split: prod.splits option.splits sum.splits operation_claim.splits)
  then have "?f (receipts st) = (Inr (CLAIMED x), receipts st1)"
    using call_reply [of "claim_link c" ?f "receipts st"] by (simp add: prod_eq_iff)
  from claimed_row [OF this assms(4,5)] obtain r where r: "receipts_ok (receipts st1)" "r \<in> set (receipts st1)"
    "event_receipt e r" "rc_status r = Processing" "rc_expiresAt r = t + 600000" by auto
  have "claimEvent w c' rid' now e st1 = (Inl OUTBOX_EVENT_IN_PROGRESS, st1)"
    using claimEvent_refused [OF assms(1,2) r(1-3), of now c' rid'] r(4,5) assms(8,9) by simp
  then have h: "handle_job w c' rid' now n d st1 = job_failed w c' (ev_id d) None n now OUTBOX_EVENT_IN_PROGRESS st1"
    using assms(7) by (simp add: handle_job_def)
  show ?thesis
    using assms(2,3,10) parse_keeps [OF assms(7)] unfolding h
    by (auto simp: job_failed_def Let_def markDeadLetter_def update_row_def call_def OUTBOX_MAX_ATTEMPTS_def
        updateById_def update_where_def split: if_splits)
qed

text \<open>
  Replaying an event that is not a dead letter answers \<open>OUTBOX_NOT_FOUND\<close>, after having released
  the claim of a run in progress and removed its job.
\<close>

lemma replay_of_live_event:
  assumes "has_receipts w" "has_database w" "has_repository w" "queue_ok w"
    and "\<forall>r\<in>set (rows st). ob_id r = i \<longrightarrow> ob_status r \<noteq> DEAD_LETTER"
    and "claim_link c = Up" "get_link c = Up" "publish_link c = Up"
  shows "fst (replayDeadLetter w c True now i st) = Some (Inl OUTBOX_NOT_FOUND) \<and>
    q_get w (queue (snd (replayDeadLetter w c True now i st))) i = None \<and>
    (\<forall>r\<in>set (receipts (snd (replayDeadLetter w c True now i st))).
       \<not> (rc_operationType r = OUTBOX_CONSUMER_OPERATION \<and> rc_operationId r = i \<and> rc_status r = Processing))"
  using assms
  by (auto simp: replayDeadLetter_def worker_replayDeadLetter_def release_receipts_def remove_job_def call_def
      receipts_releaseByOperationId_def releaseByOperationId_def requeueDeadLetter_def Let_def list_ex_iff queue_remove
      clear_marker_def)

end
