(* ===== verification/Sessions.thy ===== *)
theory Sessions
  imports RedisStore
begin

text \<open>
  Login sessions and refresh rotation in Redis,
  \<open>apps/api/src/infrastructure/session/session.service.ts\<close> with \<open>session.utils.ts\<close> and
  \<open>session.types.ts\<close>. Expiry matters to these scripts, so the server's commands take the
  server's time in milliseconds; what they do is said over two views, of the string keys and of
  the sorted sets, which keep the deadline of each key.
\<close>

section \<open>The server\<close>

type_synonym zset = "(int \<times> string) list"

record 's session_db =
  d_get :: "int \<Rightarrow> 's \<Rightarrow> string \<Rightarrow> stored option"
  d_ttl :: "int \<Rightarrow> 's \<Rightarrow> string \<Rightarrow> int"
  d_setex :: "int \<Rightarrow> 's \<Rightarrow> string \<Rightarrow> stored \<Rightarrow> int \<Rightarrow> 's"
  d_set_keepttl :: "int \<Rightarrow> 's \<Rightarrow> string \<Rightarrow> stored \<Rightarrow> 's"
  d_del :: "int \<Rightarrow> 's \<Rightarrow> string \<Rightarrow> 's"
  z_is_other :: "int \<Rightarrow> 's \<Rightarrow> string \<Rightarrow> bool"
  z_range :: "int \<Rightarrow> 's \<Rightarrow> string \<Rightarrow> string list"
  z_add :: "int \<Rightarrow> 's \<Rightarrow> string \<Rightarrow> int \<Rightarrow> string \<Rightarrow> 's"
  z_rem :: "int \<Rightarrow> 's \<Rightarrow> string \<Rightarrow> string \<Rightarrow> 's"
  z_expire :: "int \<Rightarrow> 's \<Rightarrow> string \<Rightarrow> int \<Rightarrow> 's"
  z_del :: "int \<Rightarrow> 's \<Rightarrow> string \<Rightarrow> 's"
  d_view :: "'s \<Rightarrow> string \<Rightarrow> (stored \<times> int option) option"
  z_view :: "'s \<Rightarrow> string \<Rightarrow> (zset \<times> int option) option"

definition unexpired :: "int \<Rightarrow> ('a \<times> int option) option \<Rightarrow> ('a \<times> int option) option" where
  "unexpired now v = (case v of Some (x, Some d) \<Rightarrow> if now < d then v else None | _ \<Rightarrow> v)"

definition z_members :: "'s session_db \<Rightarrow> int \<Rightarrow> 's \<Rightarrow> string \<Rightarrow> zset" where
  "z_members D now s k = (case unexpired now (z_view D s k) of None \<Rightarrow> [] | Some (xs, d) \<Rightarrow> xs)"

definition z_deadline :: "'s session_db \<Rightarrow> int \<Rightarrow> 's \<Rightarrow> string \<Rightarrow> int option" where
  "z_deadline D now s k = (case unexpired now (z_view D s k) of None \<Rightarrow> None | Some (xs, d) \<Rightarrow> d)"

text \<open>The string commands: \<open>GET\<close>, \<open>TTL\<close>, \<open>SET EX\<close>, \<open>SET KEEPTTL\<close>, \<open>DEL\<close>.\<close>

definition strings_ok :: "'s session_db \<Rightarrow> bool" where
  "strings_ok D \<longleftrightarrow>
     (\<forall>t s k. d_get D t s k = map_option fst (unexpired t (d_view D s k))) \<and>
     (\<forall>t s k. d_ttl D t s k = (case unexpired t (d_view D s k) of
        None \<Rightarrow> -2 | Some (v, None) \<Rightarrow> -1 | Some (v, Some d) \<Rightarrow> (d - t + 500) div 1000)) \<and>
     (\<forall>t s k v n k'. d_view D (d_setex D t s k v n) k' =
        (if k' = k then Some (v, Some (t + n * 1000)) else d_view D s k')) \<and>
     (\<forall>t s k v k'. d_view D (d_set_keepttl D t s k v) k' =
        (if k' = k then Some (v, case unexpired t (d_view D s k) of None \<Rightarrow> None | Some (x, d) \<Rightarrow> d)
         else d_view D s k')) \<and>
     (\<forall>t s k k'. d_view D (d_del D t s k) k' = (if k' = k then None else d_view D s k')) \<and>
     (\<forall>t s k v n. z_view D (d_setex D t s k v n) = z_view D s) \<and>
     (\<forall>t s k v. z_view D (d_set_keepttl D t s k v) = z_view D s) \<and>
     (\<forall>t s k. z_view D (d_del D t s k) = z_view D s)"

text \<open>
  The sorted sets: \<open>ZRANGE\<close>, \<open>ZADD\<close>, \<open>ZREM\<close>, \<open>EXPIRE\<close>, \<open>DEL\<close>. Members are distinct and come in
  the order of their scores; how ties are broken is left open.
\<close>

definition zset_ok :: "zset \<Rightarrow> bool" where
  "zset_ok xs \<longleftrightarrow> distinct (map snd xs) \<and> sorted (map fst xs)"

definition zsets_laws :: "'s session_db \<Rightarrow> bool" where
  "zsets_laws D \<longleftrightarrow>
     (\<forall>t s k. z_range D t s k = map snd (z_members D t s k)) \<and>
     (\<forall>t s k sc m. set (z_members D t (z_add D t s k sc m) k) =
        insert (sc, m) {x \<in> set (z_members D t s k). snd x \<noteq> m} \<and>
        (zset_ok (z_members D t s k) \<longrightarrow> zset_ok (z_members D t (z_add D t s k sc m) k))) \<and>
     (\<forall>t s k m. z_members D t (z_rem D t s k m) k = filter (\<lambda>x. snd x \<noteq> m) (z_members D t s k)) \<and>
     (\<forall>t s k n. 0 < n \<longrightarrow> z_members D t (z_expire D t s k n) k = z_members D t s k \<and>
        (z_members D t s k \<noteq> [] \<longrightarrow> z_deadline D t (z_expire D t s k n) k = Some (t + n * 1000))) \<and>
     (\<forall>t s k m. z_members D t s k \<noteq> [] \<longrightarrow> z_members D t (z_rem D t s k m) k \<noteq> [] \<longrightarrow>
        z_deadline D t (z_rem D t s k m) k = z_deadline D t s k) \<and>
     (\<forall>t s k. z_view D (z_del D t s k) k = None) \<and>
     (\<forall>t s k k' sc m. k' \<noteq> k \<longrightarrow> z_view D (z_add D t s k sc m) k' = z_view D s k') \<and>
     (\<forall>t s k k' m. k' \<noteq> k \<longrightarrow> z_view D (z_rem D t s k m) k' = z_view D s k') \<and>
     (\<forall>t s k k' n. k' \<noteq> k \<longrightarrow> z_view D (z_expire D t s k n) k' = z_view D s k') \<and>
     (\<forall>t s k k'. k' \<noteq> k \<longrightarrow> z_view D (z_del D t s k) k' = z_view D s k') \<and>
     (\<forall>t s k sc m. d_view D (z_add D t s k sc m) = d_view D s) \<and>
     (\<forall>t s k m. d_view D (z_rem D t s k m) = d_view D s) \<and>
     (\<forall>t s k n. d_view D (z_expire D t s k n) = d_view D s) \<and>
     (\<forall>t s k. d_view D (z_del D t s k) = d_view D s)"

definition session_db_ok :: "'s session_db \<Rightarrow> bool" where
  "session_db_ok D \<longleftrightarrow> strings_ok D \<and> zsets_laws D"

section \<open>Keys and sessions\<close>

definition SESSION_PREFIX :: string where "SESSION_PREFIX = ''session:''"
definition TOKEN_REVOCATION_PREFIX :: string where "TOKEN_REVOCATION_PREFIX = ''revoked:''"
definition TOKEN_REVOCATION_TTL_SECONDS :: int where "TOKEN_REVOCATION_TTL_SECONDS = 604800"
definition REFRESH_FAMILY_PREFIX :: string where "REFRESH_FAMILY_PREFIX = ''auth:refresh:family:''"
definition REFRESH_USED_PREFIX :: string where "REFRESH_USED_PREFIX = ''auth:refresh:used:''"
definition USER_SESSION_PREFIX :: string where "USER_SESSION_PREFIX = ''user:''"
definition USER_SESSION_SUFFIX :: string where "USER_SESSION_SUFFIX = '':sessions''"
definition MAX_ACTIVE_SESSIONS :: nat where "MAX_ACTIVE_SESSIONS = 20"

definition sessionKey :: "string \<Rightarrow> string" where "sessionKey sid = SESSION_PREFIX @ sid"
definition tokenRevocationKey :: "string \<Rightarrow> string" where "tokenRevocationKey sid = TOKEN_REVOCATION_PREFIX @ sid"
definition userSessionsKey :: "string \<Rightarrow> string" where
  "userSessionsKey uid = USER_SESSION_PREFIX @ uid @ USER_SESSION_SUFFIX"
definition familyKey :: "string \<Rightarrow> string \<Rightarrow> string" where
  "familyKey uid sid = REFRESH_FAMILY_PREFIX @ uid @ '':'' @ sid"
definition usedKey :: "string \<Rightarrow> string \<Rightarrow> string \<Rightarrow> string" where
  "usedKey uid sid jti = REFRESH_USED_PREFIX @ uid @ '':'' @ sid @ '':'' @ jti"

definition one_marker :: stored where "one_marker = Json (JNum 1)"

record create_input =
  ci_userId :: string
  ci_ip :: string
  ci_userAgent :: string
  ci_deviceName :: string

definition session_data :: "create_input \<Rightarrow> string \<Rightarrow> int \<Rightarrow> int \<Rightarrow> js" where
  "session_data inp sid now ttl =
     JObj [(''id'', JStr sid), (''userId'', JStr (ci_userId inp)), (''ip'', JStr (ci_ip inp)),
           (''userAgent'', JStr (ci_userAgent inp)), (''deviceName'', JStr (ci_deviceName inp)),
           (''createdAt'', JNum now), (''lastAccessedAt'', JNum now), (''expiresAt'', JNum (now + ttl * 1000))]"

text \<open>\<open>parseDurationToSeconds\<close> on the number and the unit that its pattern matched.\<close>

datatype duration_unit = Millis | Seconds | Minutes | Hours | Days | Weeks

definition parseDurationToSeconds :: "nat \<Rightarrow> duration_unit \<Rightarrow> int" where
  "parseDurationToSeconds amount u =
     max 1 (case u of Millis \<Rightarrow> int amount div 1000 | Seconds \<Rightarrow> int amount | Minutes \<Rightarrow> int amount * 60
              | Hours \<Rightarrow> int amount * 3600 | Days \<Rightarrow> int amount * 86400 | Weeks \<Rightarrow> int amount * 604800)"

section \<open>The scripts\<close>

definition evict_session :: "'s session_db \<Rightarrow> int \<Rightarrow> string \<Rightarrow> string \<Rightarrow> 's \<Rightarrow> 's" where
  "evict_session D t indexKey sid s = z_rem D t (d_del D t s (SESSION_PREFIX @ sid)) indexKey sid"

definition CREATE_SESSION_SCRIPT ::
  "'s session_db \<Rightarrow> int \<Rightarrow> string \<Rightarrow> string \<Rightarrow> int \<Rightarrow> stored \<Rightarrow> int \<Rightarrow> string \<Rightarrow> 's \<Rightarrow> nat \<times> 's" where
  "CREATE_SESSION_SCRIPT D t key indexKey ttl v score sid s =
    (let s1 = (if z_is_other D t s indexKey then z_del D t s indexKey else s);
         s2 = d_setex D t s1 key v ttl;
         s3 = z_add D t s2 indexKey score sid;
         s4 = z_expire D t s3 indexKey ttl;
         overflow = length (z_range D t s4 indexKey) - MAX_ACTIVE_SESSIONS
     in if overflow = 0 then (0, s4)
        else (let expired = take overflow (z_range D t s4 indexKey)
              in (length expired, fold (evict_session D t indexKey) expired s4)))"

datatype rotation = rotated | reused | unavailable

definition ROTATE_REFRESH_SCRIPT ::
  "'s session_db \<Rightarrow> int \<Rightarrow> string \<Rightarrow> string \<Rightarrow> string \<Rightarrow> string \<Rightarrow> string \<Rightarrow> 's \<Rightarrow> rotation \<times> 's" where
  "ROTATE_REFRESH_SCRIPT D t family used session presented new s =
    (let ttl = d_ttl D t s session in
     if ttl \<le> 0 then (unavailable, s)
     else if d_get D t s used \<noteq> None then (reused, s)
     else (case d_get D t s family of
             Some current \<Rightarrow> if current \<noteq> NotJson presented then (reused, s)
               else (rotated, d_setex D t (d_setex D t s family (NotJson new) ttl) used one_marker ttl)
           | None \<Rightarrow> (rotated, d_setex D t (d_setex D t s family (NotJson new) ttl) used one_marker ttl)))"

section \<open>The service\<close>

text \<open>\<open>connected\<close>: whether the service has a Redis client. \<open>Broken\<close>: the stored text does not parse and the call throws.\<close>

datatype lookup = Missing | Found js | Broken

definition session_create ::
  "'s session_db \<Rightarrow> bool \<Rightarrow> link \<Rightarrow> int \<Rightarrow> int \<Rightarrow> int \<Rightarrow> string \<Rightarrow> create_input \<Rightarrow> 's \<Rightarrow> js option \<times> 's" where
  "session_create D connected l t ttl now sid inp s =
    (if \<not> connected then (None, s)
     else (case call l (CREATE_SESSION_SCRIPT D t (sessionKey sid) (userSessionsKey (ci_userId inp)) ttl
                  (Json (session_data inp sid now ttl)) now sid) s of
             (None, s') \<Rightarrow> (None, s')
           | (Some _, s') \<Rightarrow> (Some (session_data inp sid now ttl), s')))"

definition rotateSessionRefresh ::
  "'s session_db \<Rightarrow> bool \<Rightarrow> int \<Rightarrow> string \<Rightarrow> string \<Rightarrow> string \<Rightarrow> string \<Rightarrow> 's \<Rightarrow> rotation \<times> 's" where
  "rotateSessionRefresh D connected t uid sid presentedJti newJti s =
    (if \<not> connected then (unavailable, s)
     else ROTATE_REFRESH_SCRIPT D t (familyKey uid sid) (usedKey uid sid presentedJti) (sessionKey sid)
            presentedJti newJti s)"

definition isRevoked :: "'s session_db \<Rightarrow> bool \<Rightarrow> int \<Rightarrow> string \<Rightarrow> 's \<Rightarrow> bool" where
  "isRevoked D connected t sid s \<longleftrightarrow> connected \<and> d_get D t s (tokenRevocationKey sid) = Some one_marker"

definition getById :: "'s session_db \<Rightarrow> bool \<Rightarrow> int \<Rightarrow> string \<Rightarrow> 's \<Rightarrow> lookup" where
  "getById D connected t sid s =
    (if \<not> connected then Missing
     else (case d_get D t s (sessionKey sid) of
             None \<Rightarrow> Missing
           | Some (Json v) \<Rightarrow> Found v
           | Some (NotJson x) \<Rightarrow> if x = [] then Missing else Broken))"

definition getRefreshSession :: "'s session_db \<Rightarrow> bool \<Rightarrow> int \<Rightarrow> string \<Rightarrow> 's \<Rightarrow> lookup" where
  "getRefreshSession D connected t sid s =
    (if \<not> connected then Missing
     else if isRevoked D connected t sid s then Missing
     else getById D connected t sid s)"

fun set_field :: "string \<Rightarrow> js \<Rightarrow> js \<Rightarrow> js" where
  "set_field k v (JObj fs) = JObj (AList.update k v fs)"
| "set_field k v x = x"

definition validate :: "'s session_db \<Rightarrow> bool \<Rightarrow> int \<Rightarrow> int \<Rightarrow> string \<Rightarrow> string \<Rightarrow> 's \<Rightarrow> lookup \<times> 's" where
  "validate D connected t now sid ip s =
    (if \<not> connected then (Missing, s)
     else if isRevoked D connected t sid s then (Missing, s)
     else (case getById D connected t sid s of
             Found session \<Rightarrow>
               if js_get session ''ip'' \<noteq> JStr ip then (Missing, s)
               else (let touched = set_field ''lastAccessedAt'' (JNum now) session
                     in (Found touched, d_set_keepttl D t s (sessionKey sid) (Json touched)))
           | other \<Rightarrow> (other, s)))"

definition session_owner :: "js \<Rightarrow> string" where
  "session_owner session = (case js_get session ''userId'' of JStr u \<Rightarrow> u | _ \<Rightarrow> ''undefined'')"

definition revoke :: "'s session_db \<Rightarrow> bool \<Rightarrow> int \<Rightarrow> string \<Rightarrow> 's \<Rightarrow> 's" where
  "revoke D connected t sid s =
    (case getById D connected t sid s of
       Found session \<Rightarrow>
         (let s1 = d_del D t s (sessionKey sid);
              index = userSessionsKey (session_owner session);
              s2 = (if z_is_other D t s1 index then s1 else z_rem D t s1 index sid)
          in d_setex D t s2 (tokenRevocationKey sid) one_marker TOKEN_REVOCATION_TTL_SECONDS)
     | _ \<Rightarrow> s)"

definition revoke_one :: "'s session_db \<Rightarrow> int \<Rightarrow> string \<Rightarrow> 's \<Rightarrow> 's" where
  "revoke_one D t sid s =
     d_setex D t (d_del D t s (sessionKey sid)) (tokenRevocationKey sid) one_marker TOKEN_REVOCATION_TTL_SECONDS"

definition revokeAllForUser :: "'s session_db \<Rightarrow> bool \<Rightarrow> int \<Rightarrow> string \<Rightarrow> 's \<Rightarrow> 's" where
  "revokeAllForUser D connected t uid s =
    (let index = userSessionsKey uid in
     if \<not> connected then s
     else if z_is_other D t s index then z_del D t s index
     else z_del D t (fold (revoke_one D t) (z_range D t s index) s) index)"

definition getActiveSessions :: "'s session_db \<Rightarrow> bool \<Rightarrow> int \<Rightarrow> string \<Rightarrow> 's \<Rightarrow> js list \<times> 's" where
  "getActiveSessions D connected t uid s =
    (let index = userSessionsKey uid in
     if \<not> connected then ([], s)
     else if z_is_other D t s index then ([], z_del D t s index)
     else
       let sids = take MAX_ACTIVE_SESSIONS (z_range D t s index);
           missing = filter (\<lambda>sid. d_get D t s (sessionKey sid) = None) sids
       in (concat (map (\<lambda>sid. case d_get D t s (sessionKey sid) of Some (Json v) \<Rightarrow> [v] | _ \<Rightarrow> []) sids),
           fold (\<lambda>sid s. z_rem D t s index sid) missing s))"

section \<open>Laws in use\<close>

lemma session_views:
  assumes "session_db_ok D"
  shows "d_get D t s k = map_option fst (unexpired t (d_view D s k))"
    and "d_ttl D t s k = (case unexpired t (d_view D s k) of
        None \<Rightarrow> -2 | Some (v, None) \<Rightarrow> -1 | Some (v, Some d) \<Rightarrow> (d - t + 500) div 1000)"
    and "d_view D (d_setex D t s k v n) k' = (if k' = k then Some (v, Some (t + n * 1000)) else d_view D s k')"
    and "d_view D (d_set_keepttl D t s k v) k' =
        (if k' = k then Some (v, case unexpired t (d_view D s k) of None \<Rightarrow> None | Some (x, d) \<Rightarrow> d) else d_view D s k')"
    and "d_view D (d_del D t s k) k' = (if k' = k then None else d_view D s k')"
    and "z_view D (d_setex D t s k v n) = z_view D s" "z_view D (d_set_keepttl D t s k v) = z_view D s"
    and "z_view D (d_del D t s k) = z_view D s"
    and "d_view D (z_add D t s k sc m) = d_view D s" "d_view D (z_rem D t s k m) = d_view D s"
    and "d_view D (z_expire D t s k n) = d_view D s" "d_view D (z_del D t s k) = d_view D s"
  using assms by (auto simp: session_db_ok_def strings_ok_def zsets_laws_def)

section \<open>A server in memory, for examples\<close>

type_synonym demo_store = "(string \<Rightarrow> (stored \<times> int option) option) \<times> (string \<Rightarrow> (zset \<times> int option) option)"

definition demo_members :: "int \<Rightarrow> demo_store \<Rightarrow> string \<Rightarrow> zset" where
  "demo_members t s k = (case unexpired t (snd s k) of None \<Rightarrow> [] | Some (xs, d) \<Rightarrow> xs)"

definition demo_deadline :: "int \<Rightarrow> demo_store \<Rightarrow> string \<Rightarrow> int option" where
  "demo_deadline t s k = (case unexpired t (snd s k) of None \<Rightarrow> None | Some (xs, d) \<Rightarrow> d)"

definition demo_db :: "demo_store session_db" where
  "demo_db = \<lparr>d_get = (\<lambda>t s k. map_option fst (unexpired t (fst s k))),
     d_ttl = (\<lambda>t s k. case unexpired t (fst s k) of
        None \<Rightarrow> -2 | Some (v, None) \<Rightarrow> -1 | Some (v, Some d) \<Rightarrow> (d - t + 500) div 1000),
     d_setex = (\<lambda>t s k v n. ((fst s)(k := Some (v, Some (t + n * 1000))), snd s)),
     d_set_keepttl = (\<lambda>t s k v. ((fst s)(k := Some (v, case unexpired t (fst s k) of None \<Rightarrow> None | Some (x, d) \<Rightarrow> d)), snd s)),
     d_del = (\<lambda>t s k. ((fst s)(k := None), snd s)),
     z_is_other = (\<lambda>t s k. False),
     z_range = (\<lambda>t s k. map snd (demo_members t s k)),
     z_add = (\<lambda>t s k sc m. (fst s, (snd s)(k := Some (insort_key fst (sc, m) (filter (\<lambda>x. snd x \<noteq> m) (demo_members t s k)),
        demo_deadline t s k)))),
     z_rem = (\<lambda>t s k m. (fst s, (snd s)(k := Some (filter (\<lambda>x. snd x \<noteq> m) (demo_members t s k), demo_deadline t s k)))),
     z_expire = (\<lambda>t s k n. (fst s, (snd s)(k := Some (demo_members t s k, Some (t + n * 1000))))),
     z_del = (\<lambda>t s k. (fst s, (snd s)(k := None))),
     d_view = fst, z_view = snd\<rparr>"

lemma demo_views:
  "z_members demo_db t s k = demo_members t s k" "z_deadline demo_db t s k = demo_deadline t s k"
  by (simp_all add: z_members_def demo_members_def z_deadline_def demo_deadline_def demo_db_def)

lemma demo_update:
  "demo_members t (f, g(k := Some (xs, demo_deadline t s k))) k = xs"
  "0 < n \<Longrightarrow> demo_members t (f, g(k := Some (xs, Some (t + n)))) k = xs"
  "demo_deadline t (f, g(k := Some (xs, demo_deadline t s k))) k = demo_deadline t s k"
  "0 < n \<Longrightarrow> demo_deadline t (f, g(k := Some (xs, Some (t + n)))) k = Some (t + n)"
  by (auto simp: demo_members_def demo_deadline_def unexpired_def split: option.split)

lemma distinct_insort_snd:
  "distinct (map snd xs) \<Longrightarrow> m \<notin> snd ` set xs \<Longrightarrow> distinct (map snd (insort_key fst (sc, m) xs))"
proof (induction xs)
  case (Cons x xs)
  then show ?case by (auto simp: set_insort_key)
qed simp

lemma demo_db_ok: "session_db_ok demo_db"
proof -
  have "strings_ok demo_db" by (auto simp: strings_ok_def demo_db_def)
  moreover have "zsets_laws demo_db"
    unfolding zsets_laws_def demo_views
    by (auto simp: demo_db_def demo_update zset_ok_def set_insort_key sorted_insort_key
        distinct_map_filter sorted_filter intro!: distinct_insort_snd)
  ultimately show ?thesis by (simp add: session_db_ok_def)
qed

end
