(* ===== verification/SessionGuarantees.thy ===== *)
theory SessionGuarantees
  imports Sessions
begin

text \<open>
  What the session store promises: refresh tokens form one chain per session, under every
  interleaving of the commands that the service sends; the number of sessions of a user is
  bounded; revoking all sessions of a user leaves none.
\<close>

section \<open>Interleaved commands\<close>

text \<open>
  The commands of the service, one per round trip: each operation is a sequence of them, so
  every interleaving of operations is a sequence of commands at some server times.
\<close>

datatype session_cmd =
    CmdRotate int string string string string
  | CmdCreate int string string stored int int
  | CmdTouch int string stored
  | CmdDel int string
  | CmdMark int string
  | CmdUnindex int string string
  | CmdDropIndex int string

fun cmd_step :: "'s session_db \<Rightarrow> session_cmd \<Rightarrow> 's \<Rightarrow> 's" where
  "cmd_step D (CmdRotate t u i a b) s = snd (rotateSessionRefresh D True t u i a b s)"
| "cmd_step D (CmdCreate t u i v ttl score) s =
     snd (CREATE_SESSION_SCRIPT D t (sessionKey i) (userSessionsKey u) ttl v score i s)"
| "cmd_step D (CmdTouch t i v) s = d_set_keepttl D t s (sessionKey i) v"
| "cmd_step D (CmdDel t i) s = d_del D t s (sessionKey i)"
| "cmd_step D (CmdMark t i) s = d_setex D t s (tokenRevocationKey i) one_marker TOKEN_REVOCATION_TTL_SECONDS"
| "cmd_step D (CmdUnindex t u i) s = z_rem D t s (userSessionsKey u) i"
| "cmd_step D (CmdDropIndex t u) s = z_del D t s (userSessionsKey u)"

text \<open>The successful rotations of one session: the token presented and the token issued.\<close>

fun rotations :: "'s session_db \<Rightarrow> string \<Rightarrow> string \<Rightarrow> session_cmd list \<Rightarrow> 's \<Rightarrow> (string \<times> string) list" where
  "rotations D uid sid [] s = []"
| "rotations D uid sid (c # cs) s =
    (case c of
       CmdRotate t u i a b \<Rightarrow>
         (if u = uid \<and> i = sid \<and> fst (rotateSessionRefresh D True t u i a b s) = rotated then [(a, b)] else [])
     | _ \<Rightarrow> []) @ rotations D uid sid cs (cmd_step D c s)"

fun chain :: "string option \<Rightarrow> (string \<times> string) list \<Rightarrow> bool" where
  "chain h [] = True"
| "chain h ((a, b) # rs) = ((h = None \<or> h = Some a) \<and> chain (Some b) rs)"

text \<open>Users and sessions are named without colons, and the session is not created a second time.\<close>

fun cmd_ok :: "string \<Rightarrow> session_cmd \<Rightarrow> bool" where
  "cmd_ok sid (CmdRotate t u i a b) = (CHR '':'' \<notin> set u \<and> CHR '':'' \<notin> set i)"
| "cmd_ok sid (CmdCreate t u i v ttl score) = (i \<noteq> sid)"
| "cmd_ok sid _ = True"

section \<open>Keys\<close>

lemma colon_free_append:
  "CHR '':'' \<notin> set a \<Longrightarrow> CHR '':'' \<notin> set b \<Longrightarrow> a @ CHR '':'' # u = b @ CHR '':'' # u' \<longleftrightarrow> a = b \<and> u = u'"
  by (auto simp: append_eq_append_conv2 Cons_eq_append_conv append_eq_Cons_conv)

lemma family_key_inj:
  "CHR '':'' \<notin> set u \<Longrightarrow> CHR '':'' \<notin> set u' \<Longrightarrow> familyKey u i = familyKey u' i' \<longleftrightarrow> u = u' \<and> i = i'"
  by (simp add: familyKey_def colon_free_append)

lemma used_key_inj:
  "CHR '':'' \<notin> set u \<union> set u' \<union> set i \<union> set i' \<Longrightarrow>
     usedKey u i a = usedKey u' i' a' \<longleftrightarrow> u = u' \<and> i = i' \<and> a = a'"
  by (simp add: usedKey_def colon_free_append)

lemma key_kinds [simp]:
  "sessionKey i \<noteq> familyKey u j" "familyKey u j \<noteq> sessionKey i"
  "sessionKey i \<noteq> usedKey u j a" "usedKey u j a \<noteq> sessionKey i"
  "sessionKey i \<noteq> tokenRevocationKey j" "tokenRevocationKey j \<noteq> sessionKey i"
  "familyKey u i \<noteq> usedKey w j a" "usedKey w j a \<noteq> familyKey u i"
  "familyKey u i \<noteq> tokenRevocationKey j" "tokenRevocationKey j \<noteq> familyKey u i"
  "usedKey u i a \<noteq> tokenRevocationKey j" "tokenRevocationKey j \<noteq> usedKey u i a"
  by (simp_all add: sessionKey_def familyKey_def usedKey_def tokenRevocationKey_def SESSION_PREFIX_def
      REFRESH_FAMILY_PREFIX_def REFRESH_USED_PREFIX_def TOKEN_REVOCATION_PREFIX_def)

lemma session_key_inj [simp]: "sessionKey i = sessionKey j \<longleftrightarrow> i = j" "tokenRevocationKey i = tokenRevocationKey j \<longleftrightarrow> i = j"
  by (simp_all add: sessionKey_def tokenRevocationKey_def)

section \<open>The refresh chain\<close>

text \<open>
  \<open>d0\<close> is the deadline the session was created with. The markers of consumed tokens and the
  head of the chain outlive the last moment at which a rotation is possible: half a second
  before \<open>d0\<close>, when \<open>TTL\<close> rounds to zero.
\<close>

definition lasting :: "int \<Rightarrow> stored \<Rightarrow> (stored \<times> int option) option \<Rightarrow> bool" where
  "lasting d0 v x \<longleftrightarrow> (\<exists>d. x = Some (v, Some d) \<and> d0 - 499 \<le> d)"

definition chain_inv ::
  "'s session_db \<Rightarrow> int \<Rightarrow> string \<Rightarrow> string \<Rightarrow> string set \<Rightarrow> string option \<Rightarrow> 's \<Rightarrow> bool" where
  "chain_inv D d0 uid sid consumed head s \<longleftrightarrow>
     (\<forall>v d. d_view D s (sessionKey sid) = Some (v, Some d) \<longrightarrow> d = d0) \<and>
     (\<forall>a\<in>consumed. lasting d0 one_marker (d_view D s (usedKey uid sid a))) \<and>
     (\<forall>h. head = Some h \<longrightarrow> lasting d0 (NotJson h) (d_view D s (familyKey uid sid)))"

lemma create_script_view:
  assumes "session_db_ok D" "k \<noteq> key" "\<And>i. k \<noteq> SESSION_PREFIX @ i"
  shows "d_view D (snd (CREATE_SESSION_SCRIPT D t key idx ttl v score sid s)) k = d_view D s k"
proof -
  have ev: "d_view D (fold (evict_session D t idx) xs s') k = d_view D s' k" for xs s'
    using assms(3) by (induction xs arbitrary: s') (simp_all add: evict_session_def session_views [OF assms(1)])
  show ?thesis using assms(2)
    by (simp add: CREATE_SESSION_SCRIPT_def Let_def ev session_views [OF assms(1)])
qed

lemma evict_view:
  assumes "session_db_ok D"
  shows "d_view D (fold (evict_session D t idx) xs s) (sessionKey j) =
    (if j \<in> set xs then None else d_view D s (sessionKey j))"
  by (induction xs arbitrary: s) (auto simp: evict_session_def session_views [OF assms] sessionKey_def)

lemma create_script_other:
  assumes "session_db_ok D" "j \<noteq> sid"
  shows "d_view D (snd (CREATE_SESSION_SCRIPT D t (sessionKey sid) idx ttl v score sid s)) (sessionKey j) \<in>
    {None, d_view D s (sessionKey j)}"
  using assms by (auto simp: CREATE_SESSION_SCRIPT_def Let_def evict_view session_views [OF assms(1)])

lemma rotate_success:
  assumes "session_db_ok D" "rotateSessionRefresh D True t uid sid a b s = (rotated, s')"
  obtains v d where "d_view D s (sessionKey sid) = Some (v, Some d)" "1000 \<le> d - t + 500"
    "unexpired t (d_view D s (usedKey uid sid a)) = None"
    "\<And>h. map_option fst (unexpired t (d_view D s (familyKey uid sid))) = Some h \<Longrightarrow> h = NotJson a"
    "s' = d_setex D t (d_setex D t s (familyKey uid sid) (NotJson b) ((d - t + 500) div 1000)) (usedKey uid sid a)
       one_marker ((d - t + 500) div 1000)"
proof -
  let ?ttl = "d_ttl D t s (sessionKey sid)"
  have pos: "0 < ?ttl" and used: "d_get D t s (usedKey uid sid a) = None"
    and fam: "\<And>h. d_get D t s (familyKey uid sid) = Some h \<Longrightarrow> h = NotJson a"
    and s': "s' = d_setex D t (d_setex D t s (familyKey uid sid) (NotJson b) ?ttl) (usedKey uid sid a) one_marker ?ttl"
    using assms(2) by (auto simp: rotateSessionRefresh_def ROTATE_REFRESH_SCRIPT_def Let_def split: if_splits option.splits)
  obtain v d where v: "unexpired t (d_view D s (sessionKey sid)) = Some (v, Some d)" "?ttl = (d - t + 500) div 1000"
    using pos by (auto simp: session_views(2) [OF assms(1)] split: option.splits prod.splits)
  then have "d_view D s (sessionKey sid) = Some (v, Some d)"
    by (auto simp: unexpired_def split: option.splits prod.splits if_splits)
  moreover have "1000 \<le> d - t + 500" using pos v(2) by linarith
  ultimately show ?thesis
    using that used fam s' v(2) by (simp add: session_views(1) [OF assms(1)])
qed

lemma lasting_unexpired: "lasting d0 v x \<Longrightarrow> t < d0 - 499 \<Longrightarrow> unexpired t x = x \<and> map_option fst x = Some v"
  by (auto simp: lasting_def unexpired_def)

lemma rotated_chain_inv:
  assumes D: "session_db_ok D" and inv: "chain_inv D d0 uid sid U h s"
    and rot: "rotateSessionRefresh D True t uid sid a b s = (rotated, s')"
    and colon: "CHR '':'' \<notin> set uid \<union> set sid"
  shows "a \<notin> U \<and> (h = None \<or> h = Some a) \<and> chain_inv D d0 uid sid (insert a U) (Some b) s'"
proof -
  obtain v d where r: "d_view D s (sessionKey sid) = Some (v, Some d)" "1000 \<le> d - t + 500"
    "unexpired t (d_view D s (usedKey uid sid a)) = None"
    "\<And>h. map_option fst (unexpired t (d_view D s (familyKey uid sid))) = Some h \<Longrightarrow> h = NotJson a"
    "s' = d_setex D t (d_setex D t s (familyKey uid sid) (NotJson b) ((d - t + 500) div 1000)) (usedKey uid sid a)
       one_marker ((d - t + 500) div 1000)"
    using rotate_success [OF D rot] by blast
  have d: "d = d0" using inv r(1) by (simp add: chain_inv_def)
  then have now: "t < d0 - 499" using r(2) by simp
  have "a \<notin> U"
  proof
    assume "a \<in> U"
    then have "lasting d0 one_marker (d_view D s (usedKey uid sid a))" using inv by (simp add: chain_inv_def)
    from lasting_unexpired [OF this now] r(3) show False by auto
  qed
  moreover have "h = None \<or> h = Some a"
  proof (cases h)
    case (Some x)
    then have "lasting d0 (NotJson x) (d_view D s (familyKey uid sid))" using inv by (simp add: chain_inv_def)
    from lasting_unexpired [OF this now] r(4) [of "NotJson x"] Some show ?thesis by simp
  qed simp
  moreover have "d0 - 499 \<le> t + (d0 - t + 500) div 1000 * 1000" by linarith
  then have "chain_inv D d0 uid sid (insert a U) (Some b) s'"
    using inv d colon unfolding r(5)
    by (auto simp: chain_inv_def session_views [OF D] lasting_def used_key_inj)
  ultimately show ?thesis by blast
qed

lemma rotate_other_inv:
  assumes D: "session_db_ok D" and inv: "chain_inv D d0 uid sid U h s"
    and other: "(u, i) \<noteq> (uid, sid) \<or> fst (rotateSessionRefresh D True t u i a b s) \<noteq> rotated"
    and colon: "CHR '':'' \<notin> set uid \<union> set sid \<union> set u \<union> set i"
  shows "chain_inv D d0 uid sid U h (snd (rotateSessionRefresh D True t u i a b s))"
proof (cases "fst (rotateSessionRefresh D True t u i a b s) = rotated")
  case False
  then have "snd (rotateSessionRefresh D True t u i a b s) = s"
    by (auto simp: rotateSessionRefresh_def ROTATE_REFRESH_SCRIPT_def Let_def split: option.splits if_splits)
  then show ?thesis using inv by simp
next
  case True
  obtain s' where s': "rotateSessionRefresh D True t u i a b s = (rotated, s')"
    using True by (metis prod.collapse)
  obtain v d where r: "s' = d_setex D t (d_setex D t s (familyKey u i) (NotJson b) ((d - t + 500) div 1000))
      (usedKey u i a) one_marker ((d - t + 500) div 1000)"
    using rotate_success [OF D s'] by blast
  have "usedKey uid sid x \<noteq> usedKey u i a" "familyKey uid sid \<noteq> familyKey u i" for x
    using other True colon by (auto simp: used_key_inj family_key_inj)
  then show ?thesis
    using inv unfolding s' snd_conv r by (simp add: chain_inv_def session_views [OF D])
qed

lemma cmd_step_inv:
  assumes D: "session_db_ok D" and inv: "chain_inv D d0 uid sid U h s"
    and ok: "cmd_ok sid c" and colon: "CHR '':'' \<notin> set uid \<union> set sid"
    and other: "\<And>t a b. c = CmdRotate t uid sid a b \<Longrightarrow> fst (rotateSessionRefresh D True t uid sid a b s) \<noteq> rotated"
  shows "chain_inv D d0 uid sid U h (cmd_step D c s)"
proof (cases c)
  case (CmdRotate t u i a b)
  then show ?thesis using rotate_other_inv [OF D inv, of u i t a b] ok colon other by auto
next
  case (CmdCreate t u i v ttl score)
  let ?s = "snd (CREATE_SESSION_SCRIPT D t (sessionKey i) (userSessionsKey u) ttl v score i s)"
  have "d_view D ?s (usedKey uid sid a) = d_view D s (usedKey uid sid a)" for a
    using key_kinds(4) [of uid sid a] by (intro create_script_view [OF D]) (simp_all flip: sessionKey_def)
  moreover have "d_view D ?s (familyKey uid sid) = d_view D s (familyKey uid sid)"
    using key_kinds(2) [of uid sid] by (intro create_script_view [OF D]) (simp_all flip: sessionKey_def)
  moreover have "d_view D ?s (sessionKey sid) \<in> {None, d_view D s (sessionKey sid)}"
    using ok CmdCreate by (intro create_script_other [OF D]) simp
  ultimately show ?thesis using inv CmdCreate by (auto simp: chain_inv_def)
next
  case (CmdTouch t i v)
  have "v' = v \<and> d = d0" if "d_view D (d_set_keepttl D t s (sessionKey sid) v) (sessionKey sid) = Some (v', Some d)" for v' d
    using that inv by (auto simp: session_views [OF D] chain_inv_def unexpired_def split: option.splits prod.splits if_splits)
  then show ?thesis using inv CmdTouch
    by (cases "i = sid") (auto simp: chain_inv_def session_views [OF D])
qed (use inv in \<open>auto simp: chain_inv_def session_views [OF D]\<close>)

lemma rotations_chain:
  assumes "session_db_ok D" "CHR '':'' \<notin> set uid \<union> set sid"
  shows "list_all (cmd_ok sid) cs \<Longrightarrow> chain_inv D d0 uid sid U h s \<Longrightarrow>
    chain h (rotations D uid sid cs s) \<and> distinct (map fst (rotations D uid sid cs s)) \<and>
    fst ` set (rotations D uid sid cs s) \<inter> U = {}"
proof (induction cs arbitrary: U h s)
  case (Cons c cs)
  show ?case
  proof (cases "\<exists>t a b. c = CmdRotate t uid sid a b \<and> fst (rotateSessionRefresh D True t uid sid a b s) = rotated")
    case True
    then obtain t a b s' where c: "c = CmdRotate t uid sid a b"
      and r: "rotateSessionRefresh D True t uid sid a b s = (rotated, s')" by (metis prod.collapse)
    note step = rotated_chain_inv [OF assms(1) Cons.prems(2) r assms(2)]
    have rs: "rotations D uid sid (c # cs) s = (a, b) # rotations D uid sid cs s'" using c r by simp
    show ?thesis unfolding rs using Cons.IH [of "insert a U" "Some b" s'] Cons.prems(1) step by auto
  next
    case False
    have "chain_inv D d0 uid sid U h (cmd_step D c s)"
      using Cons.prems False by (intro cmd_step_inv [OF assms(1) Cons.prems(2) _ assms(2)]) auto
    moreover have "rotations D uid sid (c # cs) s = rotations D uid sid cs (cmd_step D c s)"
      using False by (auto split: session_cmd.split)
    ultimately show ?thesis using Cons.IH Cons.prems(1) by simp
  qed
qed simp

text \<open>
  C11. Refresh tokens are single-use and form one chain: whatever commands of whatever requests
  are interleaved, at whatever times, the successful rotations of a session present distinct
  tokens, and each presents the token that the previous one issued. So a stolen token and its
  legitimate successor never both rotate. This holds up to the last moment of the session
  although the markers live only a whole number of seconds.
\<close>

theorem refresh_tokens_single_use:
  assumes "session_db_ok D" "CHR '':'' \<notin> set uid \<union> set sid" "list_all (cmd_ok sid) cs"
    and "d_view D s (sessionKey sid) = Some (v, Some d)"
  shows "chain None (rotations D uid sid cs s) \<and> distinct (map fst (rotations D uid sid cs s))"
proof -
  have "chain_inv D d uid sid {} None s" using assms(4) by (simp add: chain_inv_def)
  from rotations_chain [OF assms(1,2,3) this] show ?thesis by simp
qed

definition demo_session :: demo_store where
  "demo_session = ((\<lambda>_. None)(sessionKey ''s'' := Some (Json (JObj []), Some 100000)), \<lambda>_. None)"

lemma demo_rotations:
  "rotations demo_db ''u'' ''s'' [CmdRotate 1000 ''u'' ''s'' ''a'' ''b'', CmdRotate 2000 ''u'' ''s'' ''a'' ''c'',
     CmdRotate 3000 ''u'' ''s'' ''b'' ''d''] demo_session = [(''a'', ''b''), (''b'', ''d'')]"
  by (simp add: rotateSessionRefresh_def ROTATE_REFRESH_SCRIPT_def demo_db_def demo_session_def Let_def unexpired_def
      used_key_inj)

theorem refresh_tokens_single_use_witness:
  "chain None [(''a'', ''b''), (''b'', ''d'')] \<and> distinct (map fst [(''a'', ''b''), (''b'', ''d'' :: string)])"
proof -
  let ?cs = "[CmdRotate 1000 ''u'' ''s'' ''a'' ''b'', CmdRotate 2000 ''u'' ''s'' ''a'' ''c'', CmdRotate 3000 ''u'' ''s'' ''b'' ''d'']"
  have "d_view demo_db demo_session (sessionKey ''s'') = Some (Json (JObj []), Some 100000)"
    by (simp add: demo_db_def demo_session_def)
  from refresh_tokens_single_use [OF demo_db_ok _ _ this, of "''u''" ?cs] show ?thesis
    unfolding demo_rotations by simp
qed

section \<open>The number of sessions\<close>

lemma zset_views:
  assumes "session_db_ok D"
  shows "z_range D t s k = map snd (z_members D t s k)"
    and "set (z_members D t (z_add D t s k sc m) k) = insert (sc, m) {x \<in> set (z_members D t s k). snd x \<noteq> m}"
    and "zset_ok (z_members D t s k) \<Longrightarrow> zset_ok (z_members D t (z_add D t s k sc m) k)"
    and "z_members D t (z_rem D t s k m) k = filter (\<lambda>x. snd x \<noteq> m) (z_members D t s k)"
    and "0 < n \<Longrightarrow> z_members D t (z_expire D t s k n) k = z_members D t s k"
    and "0 < n \<Longrightarrow> z_members D t s k \<noteq> [] \<Longrightarrow> z_deadline D t (z_expire D t s k n) k = Some (t + n * 1000)"
    and "z_members D t s k \<noteq> [] \<Longrightarrow> z_members D t (z_rem D t s k m) k \<noteq> [] \<Longrightarrow>
      z_deadline D t (z_rem D t s k m) k = z_deadline D t s k"
    and "z_view D (z_del D t s k) k = None"
    and "k' \<noteq> k \<Longrightarrow> z_view D (z_add D t s k sc m) k' = z_view D s k'"
    and "k' \<noteq> k \<Longrightarrow> z_view D (z_rem D t s k m) k' = z_view D s k'"
    and "k' \<noteq> k \<Longrightarrow> z_view D (z_expire D t s k n) k' = z_view D s k'"
    and "k' \<noteq> k \<Longrightarrow> z_view D (z_del D t s k) k' = z_view D s k'"
  using assms by (auto simp: session_db_ok_def zsets_laws_def)

lemma z_same: "z_view D s' k = z_view D s k \<Longrightarrow> z_members D t s' k = z_members D t s k \<and> z_deadline D t s' k = z_deadline D t s k"
  by (simp add: z_members_def z_deadline_def)

lemma evict_one:
  assumes D: "session_db_ok D"
  shows "z_members D t (evict_session D t idx i s) idx = filter (\<lambda>x. snd x \<noteq> i) (z_members D t s idx)"
    and "z_members D t s idx \<noteq> [] \<Longrightarrow> z_members D t (evict_session D t idx i s) idx \<noteq> [] \<Longrightarrow>
      z_deadline D t (evict_session D t idx i s) idx = z_deadline D t s idx"
    and "k \<noteq> idx \<Longrightarrow> z_view D (evict_session D t idx i s) k = z_view D s k"
proof -
  have same: "z_view D (d_del D t s (SESSION_PREFIX @ i)) = z_view D s" by (simp add: session_views [OF D])
  then have m: "z_members D t (d_del D t s (SESSION_PREFIX @ i)) idx = z_members D t s idx"
    "z_deadline D t (d_del D t s (SESSION_PREFIX @ i)) idx = z_deadline D t s idx"
    by (simp_all add: z_members_def z_deadline_def)
  show "z_members D t (evict_session D t idx i s) idx = filter (\<lambda>x. snd x \<noteq> i) (z_members D t s idx)"
    by (simp add: evict_session_def zset_views [OF D] m)
  show "z_deadline D t (evict_session D t idx i s) idx = z_deadline D t s idx"
    if "z_members D t s idx \<noteq> []" "z_members D t (evict_session D t idx i s) idx \<noteq> []"
    using that zset_views(7) [OF D, of t "d_del D t s (SESSION_PREFIX @ i)" idx i] m by (simp add: evict_session_def)
  show "z_view D (evict_session D t idx i s) k = z_view D s k" if "k \<noteq> idx"
    using that same by (simp add: evict_session_def zset_views [OF D])
qed

lemma evict_members:
  assumes D: "session_db_ok D"
  shows "z_members D t (fold (evict_session D t idx) es s) idx = filter (\<lambda>x. snd x \<notin> set es) (z_members D t s idx)"
proof (induction es arbitrary: s)
  case (Cons i es)
  then show ?case by (simp add: evict_one [OF D] conj_commute cong: filter_cong)
qed simp

lemma evict_deadline:
  assumes D: "session_db_ok D"
  shows "filter (\<lambda>x. snd x \<notin> set es) (z_members D t s idx) \<noteq> [] \<Longrightarrow>
    z_deadline D t (fold (evict_session D t idx) es s) idx = z_deadline D t s idx"
proof (induction es arbitrary: s)
  case (Cons i es)
  have a: "filter (\<lambda>x. snd x \<notin> set es) (z_members D t (evict_session D t idx i s) idx) \<noteq> []"
    using Cons.prems by (simp add: evict_one [OF D])
  then have "z_members D t (evict_session D t idx i s) idx \<noteq> []" "z_members D t s idx \<noteq> []"
    using Cons.prems by auto
  then have "z_deadline D t (evict_session D t idx i s) idx = z_deadline D t s idx"
    using evict_one(2) [OF D] by blast
  then show ?case using Cons.IH [OF a] by simp
qed simp

lemma evict_frame:
  assumes "session_db_ok D" "k \<noteq> idx"
  shows "z_view D (fold (evict_session D t idx) es s) k = z_view D s k"
  using assms by (induction es arbitrary: s) (simp_all add: evict_one)

definition created_base :: "'s session_db \<Rightarrow> int \<Rightarrow> string \<Rightarrow> string \<Rightarrow> int \<Rightarrow> stored \<Rightarrow> int \<Rightarrow> string \<Rightarrow> 's \<Rightarrow> 's" where
  "created_base D t key idx ttl v score sid s = z_expire D t (z_add D t (d_setex D t s key v ttl) idx score sid) idx ttl"

lemma created_base_views:
  assumes D: "session_db_ok D" and "0 < ttl"
  shows "set (z_members D t (created_base D t key idx ttl v score sid s) idx) =
      insert (score, sid) {x \<in> set (z_members D t s idx). snd x \<noteq> sid}"
    and "zset_ok (z_members D t s idx) \<Longrightarrow> zset_ok (z_members D t (created_base D t key idx ttl v score sid s) idx)"
    and "z_deadline D t (created_base D t key idx ttl v score sid s) idx = Some (t + ttl * 1000)"
    and "d_view D (created_base D t key idx ttl v score sid s) k =
      (if k = key then Some (v, Some (t + ttl * 1000)) else d_view D s k)"
    and "k \<noteq> idx \<Longrightarrow> z_view D (created_base D t key idx ttl v score sid s) k = z_view D s k"
proof -
  let ?s1 = "d_setex D t s key v ttl"
  have m: "z_members D t ?s1 idx = z_members D t s idx" by (rule conjunct1 [OF z_same]) (simp add: session_views [OF D])
  have set1: "set (z_members D t (z_add D t ?s1 idx score sid) idx) =
      insert (score, sid) {x \<in> set (z_members D t s idx). snd x \<noteq> sid}"
    by (simp add: zset_views(2) [OF D] m)
  then have ne: "z_members D t (z_add D t ?s1 idx score sid) idx \<noteq> []" by force
  show "set (z_members D t (created_base D t key idx ttl v score sid s) idx) =
      insert (score, sid) {x \<in> set (z_members D t s idx). snd x \<noteq> sid}"
    using set1 by (simp add: created_base_def zset_views(5) [OF D assms(2)])
  show "zset_ok (z_members D t (created_base D t key idx ttl v score sid s) idx)" if "zset_ok (z_members D t s idx)"
    using that zset_views(3) [OF D, of t ?s1 idx score sid] m
    by (simp add: created_base_def zset_views(5) [OF D assms(2)])
  show "z_deadline D t (created_base D t key idx ttl v score sid s) idx = Some (t + ttl * 1000)"
    using zset_views(6) [OF D assms(2) ne] by (simp add: created_base_def)
  show "d_view D (created_base D t key idx ttl v score sid s) k =
      (if k = key then Some (v, Some (t + ttl * 1000)) else d_view D s k)"
    by (simp add: created_base_def session_views [OF D])
  show "z_view D (created_base D t key idx ttl v score sid s) k = z_view D s k" if "k \<noteq> idx"
    using that by (simp add: created_base_def zset_views [OF D] session_views [OF D])
qed

lemma create_script_base:
  assumes "session_db_ok D" "\<not> z_is_other D t s idx"
  shows "\<exists>n. CREATE_SESSION_SCRIPT D t key idx ttl v score sid s =
    (n, let b = created_base D t key idx ttl v score sid s; xs = map snd (z_members D t b idx)
        in fold (evict_session D t idx) (take (length xs - 20) xs) b)"
  using assms(2)
  by (simp add: CREATE_SESSION_SCRIPT_def Let_def created_base_def [symmetric] zset_views(1) [OF assms(1)] MAX_ACTIVE_SESSIONS_def)

lemma distinct_take_filter:
  assumes "distinct (map f xs)"
  shows "filter (\<lambda>x. f x \<notin> set (map f (take n xs))) xs = drop n xs"
proof -
  have d: "set (map f (take n xs)) \<inter> set (map f (drop n xs)) = {}"
    using assms by (metis append_take_drop_id distinct_append map_append)
  have "filter (\<lambda>x. f x \<notin> set (map f (take n xs))) xs =
      filter (\<lambda>x. f x \<notin> set (map f (take n xs))) (take n xs @ drop n xs)" by simp
  also have "\<dots> = drop n xs" unfolding filter_append
    using d by (auto simp: filter_empty_conv disjoint_iff intro!: filter_True)
  finally show ?thesis .
qed

lemma strict_top_last:
  assumes "zset_ok xs" "(sc, m) \<in> set xs" "\<And>x. x \<in> set xs \<Longrightarrow> x \<noteq> (sc, m) \<Longrightarrow> fst x < sc"
  shows "last xs = (sc, m)"
proof (rule ccontr)
  assume ne: "last xs \<noteq> (sc, m)"
  have "xs \<noteq> []" using assms(2) by auto
  then have less: "fst (last xs) < sc" using assms(3) ne by simp
  obtain ys where ys: "xs = ys @ [last xs]" using \<open>xs \<noteq> []\<close> by (metis append_butlast_last_id)
  then have "(sc, m) \<in> set ys" using assms(2) ne by (metis UnE set_append set_ConsD empty_iff list.set(1))
  moreover have "sorted (map fst ys @ [fst (last xs)])" using assms(1) ys by (metis zset_ok_def list.map map_append)
  ultimately have "sc \<le> fst (last xs)" by (force simp: sorted_append)
  then show False using less by simp
qed


definition demo_input :: "string \<Rightarrow> create_input" where
  "demo_input u = \<lparr>ci_userId = u, ci_ip = ''1.2.3.4'', ci_userAgent = ''ua'', ci_deviceName = ''phone''\<rparr>"

definition no_sessions :: demo_store where "no_sessions = (\<lambda>_. None, \<lambda>_. None)"


section \<open>Revoking everything\<close>

datatype session_op =
    OpCreate int link int string create_input
  | OpRotate int string string string string
  | OpValidate int int string string
  | OpRevoke int string
  | OpRevokeAll int string
  | OpActive int string

fun op_time :: "session_op \<Rightarrow> int" where
  "op_time (OpCreate t l now i inp) = t"
| "op_time (OpRotate t u i a b) = t"
| "op_time (OpValidate t now i ip) = t"
| "op_time (OpRevoke t i) = t"
| "op_time (OpRevokeAll t u) = t"
| "op_time (OpActive t u) = t"

fun session_step :: "'s session_db \<Rightarrow> int \<Rightarrow> session_op \<Rightarrow> 's \<Rightarrow> 's" where
  "session_step D ttl (OpCreate t l now i inp) s = snd (session_create D True l t ttl now i inp s)"
| "session_step D ttl (OpRotate t u i a b) s = snd (rotateSessionRefresh D True t u i a b s)"
| "session_step D ttl (OpValidate t now i ip) s = snd (validate D True t now i ip s)"
| "session_step D ttl (OpRevoke t i) s = revoke D True t i s"
| "session_step D ttl (OpRevokeAll t u) s = revokeAllForUser D True t u s"
| "session_step D ttl (OpActive t u) s = snd (getActiveSessions D True t u s)"

definition session_run :: "'s session_db \<Rightarrow> int \<Rightarrow> session_op list \<Rightarrow> 's \<Rightarrow> 's" where
  "session_run D ttl ops s = fold (session_step D ttl) ops s"

text \<open>Every live session is in the index of its owner, and the index outlives it.\<close>

definition index_inv :: "'s session_db \<Rightarrow> int \<Rightarrow> int \<Rightarrow> 's \<Rightarrow> bool" where
  "index_inv D ttl t s \<longleftrightarrow>
     (\<forall>i x. unexpired t (d_view D s (sessionKey i)) = Some x \<longrightarrow>
        (\<exists>v d. x = (Json v, Some d) \<and> d \<le> t + ttl * 1000 \<and>
           i \<in> snd ` set (z_members D t s (userSessionsKey (session_owner v))) \<and>
           (\<exists>di. z_deadline D t s (userSessionsKey (session_owner v)) = Some di \<and> d \<le> di)))"

lemma unexpired_later: "t \<le> t' \<Longrightarrow> unexpired t' v = Some x \<Longrightarrow> unexpired t v = Some x"
  by (auto simp: unexpired_def split: option.splits prod.splits if_splits)

lemma index_later:
  assumes "z_deadline D t s k = Some di" "t' < di"
  shows "z_members D t' s k = z_members D t s k" "z_deadline D t' s k = Some di"
  using assms by (auto simp: z_members_def z_deadline_def unexpired_def split: option.splits prod.splits if_splits)

lemma index_inv_later:
  assumes "index_inv D ttl t s" "t \<le> t'"
  shows "index_inv D ttl t' s"
  unfolding index_inv_def
proof (intro allI impI)
  fix i x
  assume live: "unexpired t' (d_view D s (sessionKey i)) = Some x"
  then have "unexpired t (d_view D s (sessionKey i)) = Some x" by (rule unexpired_later [OF assms(2)])
  then obtain v d di where x: "x = (Json v, Some d)" "d \<le> t + ttl * 1000"
    "i \<in> snd ` set (z_members D t s (userSessionsKey (session_owner v)))"
    "z_deadline D t s (userSessionsKey (session_owner v)) = Some di" "d \<le> di"
    using assms(1) unfolding index_inv_def by blast
  have "t' < d" using live x(1) by (auto simp: unexpired_def split: option.splits prod.splits if_splits)
  then show "\<exists>v d. x = (Json v, Some d) \<and> d \<le> t' + ttl * 1000 \<and>
           i \<in> snd ` set (z_members D t' s (userSessionsKey (session_owner v))) \<and>
           (\<exists>di. z_deadline D t' s (userSessionsKey (session_owner v)) = Some di \<and> d \<le> di)"
    using x index_later [OF x(4), of t'] assms(2) by auto
qed

text \<open>A step that removes sessions and leaves the other index entries keeps the invariant.\<close>

lemma index_inv_owned:
  assumes "index_inv D ttl t s" "unexpired t (d_view D s (sessionKey i)) = Some (Json v, y)"
  shows "\<exists>d di. y = Some d \<and> d \<le> t + ttl * 1000 \<and> i \<in> snd ` set (z_members D t s (userSessionsKey (session_owner v))) \<and>
    z_deadline D t s (userSessionsKey (session_owner v)) = Some di \<and> d \<le> di"
  using assms(1) [unfolded index_inv_def, rule_format, OF assms(2)] by auto

lemma index_inv_shrink:
  assumes "index_inv D ttl t s"
    and "\<And>i x. unexpired t (d_view D s' (sessionKey i)) = Some x \<Longrightarrow>
      \<exists>v. unexpired t (d_view D s (sessionKey i)) = Some (Json v, snd x) \<and> (\<exists>v'. fst x = Json v' \<and> session_owner v' = session_owner v) \<and>
        i \<in> snd ` set (z_members D t s' (userSessionsKey (session_owner v))) \<and>
        z_deadline D t s' (userSessionsKey (session_owner v)) = z_deadline D t s (userSessionsKey (session_owner v))"
  shows "index_inv D ttl t s'"
  unfolding index_inv_def
proof (intro allI impI)
  fix i x
  assume "unexpired t (d_view D s' (sessionKey i)) = Some x"
  from assms(2) [OF this] obtain v v' where v: "unexpired t (d_view D s (sessionKey i)) = Some (Json v, snd x)"
    "fst x = Json v'" "session_owner v' = session_owner v"
    "i \<in> snd ` set (z_members D t s' (userSessionsKey (session_owner v)))"
    "z_deadline D t s' (userSessionsKey (session_owner v)) = z_deadline D t s (userSessionsKey (session_owner v))" by blast
  obtain d di where "snd x = Some d" "d \<le> t + ttl * 1000"
    "z_deadline D t s (userSessionsKey (session_owner v)) = Some di" "d \<le> di"
    using index_inv_owned [OF assms(1) v(1)] by blast
  then show "\<exists>v d. x = (Json v, Some d) \<and> d \<le> t + ttl * 1000 \<and>
           i \<in> snd ` set (z_members D t s' (userSessionsKey (session_owner v))) \<and>
           (\<exists>di. z_deadline D t s' (userSessionsKey (session_owner v)) = Some di \<and> d \<le> di)"
    using v by (intro exI [of _ v'] exI [of _ d]) (auto simp: prod_eq_iff)
qed

lemma unexpired_None: "unexpired t None = None"
  by (simp add: unexpired_def)

lemma index_inv_same:
  assumes "index_inv D ttl t s" "\<And>i. d_view D s' (sessionKey i) \<in> {None, d_view D s (sessionKey i)}" "z_view D s' = z_view D s"
  shows "index_inv D ttl t s'"
proof (rule index_inv_shrink [OF assms(1)])
  fix i x
  assume "unexpired t (d_view D s' (sessionKey i)) = Some x"
  then have l: "unexpired t (d_view D s (sessionKey i)) = Some x"
    using assms(2) [of i] by (auto simp: unexpired_None)
  then obtain v where "fst x = Json v" "i \<in> snd ` set (z_members D t s (userSessionsKey (session_owner v)))"
    using assms(1) unfolding index_inv_def by (metis fst_conv)
  then show "\<exists>v. unexpired t (d_view D s (sessionKey i)) = Some (Json v, snd x) \<and>
      (\<exists>v'. fst x = Json v' \<and> session_owner v' = session_owner v) \<and>
      i \<in> snd ` set (z_members D t s' (userSessionsKey (session_owner v))) \<and>
      z_deadline D t s' (userSessionsKey (session_owner v)) = z_deadline D t s (userSessionsKey (session_owner v))"
    using l assms(3) by (intro exI [of _ v]) (auto simp: prod_eq_iff z_members_def z_deadline_def)
qed

lemma rotate_inv:
  assumes "session_db_ok D" "index_inv D ttl t s"
  shows "index_inv D ttl t (snd (rotateSessionRefresh D c t' u i a b s))"
  using assms(2)
  by (rule index_inv_same)
     (auto simp: rotateSessionRefresh_def ROTATE_REFRESH_SCRIPT_def Let_def session_views [OF assms(1)] split: option.split)

lemma owner_touched: "session_owner (set_field ''lastAccessedAt'' v x) = session_owner x"
  by (cases x) (simp_all add: session_owner_def update_conv')

lemma validate_inv:
  assumes D: "session_db_ok D" and inv: "index_inv D ttl t s"
  shows "index_inv D ttl t (snd (validate D c t now sid ip s))"
proof (cases "snd (validate D c t now sid ip s) = s")
  case False
  then obtain x where x: "getById D c t sid s = Found x"
    "snd (validate D c t now sid ip s) = d_set_keepttl D t s (sessionKey sid) (Json (set_field ''lastAccessedAt'' (JNum now) x))"
    by (auto simp: validate_def Let_def split: lookup.splits if_splits)
  then obtain d where d: "unexpired t (d_view D s (sessionKey sid)) = Some (Json x, d)"
    by (auto simp: getById_def session_views(1) [OF D] split: if_splits option.splits stored.splits)
  let ?s' = "d_set_keepttl D t s (sessionKey sid) (Json (set_field ''lastAccessedAt'' (JNum now) x))"
  have zv: "z_view D ?s' = z_view D s" by (simp add: session_views [OF D])
  show ?thesis unfolding x(2)
  proof (rule index_inv_shrink [OF inv])
    fix i y
    assume l: "unexpired t (d_view D ?s' (sessionKey i)) = Some y"
    obtain v where v: "unexpired t (d_view D s (sessionKey i)) = Some (Json v, snd y)"
      "\<exists>v'. fst y = Json v' \<and> session_owner v' = session_owner v"
    proof (cases "i = sid")
      case True
      then have "y = (Json (set_field ''lastAccessedAt'' (JNum now) x), d)"
        using l d by (auto simp: session_views [OF D] unexpired_def split: option.splits if_splits)
      then show ?thesis using that [of x] d True by (simp add: owner_touched)
    next
      case False
      then have l': "unexpired t (d_view D s (sessionKey i)) = Some y" using l by (simp add: session_views [OF D])
      then obtain v where "fst y = Json v" using inv unfolding index_inv_def by (metis fst_conv)
      then show ?thesis using that [of v] l' by (simp add: prod_eq_iff)
    qed
    then show "\<exists>v. unexpired t (d_view D s (sessionKey i)) = Some (Json v, snd y) \<and>
        (\<exists>v'. fst y = Json v' \<and> session_owner v' = session_owner v) \<and>
        i \<in> snd ` set (z_members D t ?s' (userSessionsKey (session_owner v))) \<and>
        z_deadline D t ?s' (userSessionsKey (session_owner v)) = z_deadline D t s (userSessionsKey (session_owner v))"
      using index_inv_owned [OF inv v(1)] zv by (intro exI [of _ v]) (auto simp: z_members_def z_deadline_def)
  qed
qed (use inv in simp)

lemma rem_keeps:
  assumes D: "session_db_ok D" and "i \<in> snd ` set (z_members D t s k)" "i \<noteq> m"
  shows "i \<in> snd ` set (z_members D t (z_rem D t s idx m) k) \<and> z_deadline D t (z_rem D t s idx m) k = z_deadline D t s k"
proof (cases "k = idx")
  case True
  have "i \<in> snd ` set (z_members D t (z_rem D t s idx m) idx)"
    using assms(2,3) True by (auto simp: zset_views(4) [OF D] image_iff intro: rev_bexI)
  moreover then have "z_members D t s idx \<noteq> []" "z_members D t (z_rem D t s idx m) idx \<noteq> []"
    using assms(2) True by auto
  ultimately show ?thesis using zset_views(7) [OF D] True by blast
next
  case False
  then show ?thesis using assms(2) z_same [where D = D and t = t and k = k, OF zset_views(10) [OF D False]] by simp
qed

lemma inv_live:
  "index_inv D ttl t s \<Longrightarrow> unexpired t (d_view D s (sessionKey i)) = Some x \<Longrightarrow>
     \<exists>v. fst x = Json v \<and> unexpired t (d_view D s (sessionKey i)) = Some (Json v, snd x) \<and>
         i \<in> snd ` set (z_members D t s (userSessionsKey (session_owner v)))"
  unfolding index_inv_def by (metis fst_conv snd_conv)

lemma unindex_inv:
  assumes D: "session_db_ok D" and inv: "index_inv D ttl t s"
    and gone: "unexpired t (d_view D s (sessionKey m)) = None"
  shows "index_inv D ttl t (z_rem D t s idx m)"
proof (rule index_inv_shrink [OF inv])
  fix i x
  assume "unexpired t (d_view D (z_rem D t s idx m) (sessionKey i)) = Some x"
  then have l: "unexpired t (d_view D s (sessionKey i)) = Some x" by (simp add: session_views [OF D])
  then have "i \<noteq> m" using gone by auto
  then show "\<exists>v. unexpired t (d_view D s (sessionKey i)) = Some (Json v, snd x) \<and>
      (\<exists>v'. fst x = Json v' \<and> session_owner v' = session_owner v) \<and>
      i \<in> snd ` set (z_members D t (z_rem D t s idx m) (userSessionsKey (session_owner v))) \<and>
      z_deadline D t (z_rem D t s idx m) (userSessionsKey (session_owner v)) = z_deadline D t s (userSessionsKey (session_owner v))"
    using inv_live [OF inv l] rem_keeps [OF D] by blast
qed

lemma del_inv: "session_db_ok D \<Longrightarrow> index_inv D ttl t s \<Longrightarrow> index_inv D ttl t (d_del D t' s (sessionKey i))"
  by (erule index_inv_same) (simp_all add: session_views)

lemma mark_inv:
  "session_db_ok D \<Longrightarrow> index_inv D ttl t s \<Longrightarrow> index_inv D ttl t (d_setex D t' s (tokenRevocationKey i) v n)"
  by (erule index_inv_same) (simp_all add: session_views)

lemma revoke_inv:
  assumes D: "session_db_ok D" and inv: "index_inv D ttl t s"
  shows "index_inv D ttl t (revoke D c t sid s)"
proof -
  have "unexpired t (d_view D (d_del D t s (sessionKey sid)) (sessionKey sid)) = None"
    by (simp add: session_views [OF D] unexpired_def)
  then show ?thesis
    using mark_inv [OF D] unindex_inv [OF D del_inv [OF D inv]] del_inv [OF D inv] inv
    by (auto simp: revoke_def Let_def split: lookup.split)
qed

lemma active_inv:
  assumes D: "session_db_ok D" and inv: "index_inv D ttl t s" and N: "\<And>t s u. \<not> z_is_other D t s (userSessionsKey u)"
  shows "index_inv D ttl t (snd (getActiveSessions D c t u s))"
proof -
  have "index_inv D ttl t (fold (\<lambda>i s. z_rem D t s idx i) ms s')"
    if "index_inv D ttl t s'" "\<forall>i\<in>set ms. unexpired t (d_view D s' (sessionKey i)) = None" for ms s' idx
    using that
  proof (induction ms arbitrary: s')
    case (Cons i ms)
    then show ?case using unindex_inv [OF D Cons.prems(1), of i idx] by (simp add: session_views [OF D])
  qed simp
  then show ?thesis using inv N by (simp add: getActiveSessions_def Let_def session_views(1) [OF D])
qed

lemma revoke_all_fold:
  assumes "session_db_ok D"
  shows "d_view D (fold (revoke_one D t) is s) (sessionKey j) = (if j \<in> set is then None else d_view D s (sessionKey j)) \<and>
    z_view D (fold (revoke_one D t) is s) = z_view D s"
  by (induction "is" arbitrary: s) (auto simp: revoke_one_def session_views [OF assms])

lemma revoke_all_effect:
  assumes D: "session_db_ok D" and N: "\<And>t s u. \<not> z_is_other D t s (userSessionsKey u)"
  shows "d_view D (revokeAllForUser D True t u s) (sessionKey j) =
      (if j \<in> snd ` set (z_members D t s (userSessionsKey u)) then None else d_view D s (sessionKey j))"
    and "k \<noteq> userSessionsKey u \<Longrightarrow> z_view D (revokeAllForUser D True t u s) k = z_view D s k"
  using N revoke_all_fold [OF D, of t]
  by (simp_all add: revokeAllForUser_def Let_def zset_views [OF D] session_views [OF D])

lemma user_key_inj [simp]: "userSessionsKey u = userSessionsKey u' \<longleftrightarrow> u = u'"
  by (simp add: userSessionsKey_def)

lemma revoke_all_clears:
  assumes D: "session_db_ok D" and inv: "index_inv D ttl t s" and N: "\<And>t s u. \<not> z_is_other D t s (userSessionsKey u)"
    and live: "unexpired t (d_view D (revokeAllForUser D True t u s) (sessionKey i)) = Some x"
  shows "\<exists>v. x = (Json v, snd x) \<and> unexpired t (d_view D s (sessionKey i)) = Some x \<and> session_owner v \<noteq> u \<and>
    i \<in> snd ` set (z_members D t s (userSessionsKey (session_owner v)))"
proof -
  have out: "i \<notin> snd ` set (z_members D t s (userSessionsKey u))" and l: "unexpired t (d_view D s (sessionKey i)) = Some x"
    using live by (auto simp: revoke_all_effect(1) [OF D N] unexpired_None split: if_splits)
  then show ?thesis using inv_live [OF inv l] by (metis prod.collapse)
qed

lemma revoke_all_inv:
  assumes D: "session_db_ok D" and inv: "index_inv D ttl t s" and N: "\<And>t s u. \<not> z_is_other D t s (userSessionsKey u)"
  shows "index_inv D ttl t (revokeAllForUser D True t u s)"
proof (rule index_inv_shrink [OF inv])
  fix i x
  assume "unexpired t (d_view D (revokeAllForUser D True t u s) (sessionKey i)) = Some x"
  from revoke_all_clears [OF D inv N this] obtain v where v: "x = (Json v, snd x)"
    "unexpired t (d_view D s (sessionKey i)) = Some x" "session_owner v \<noteq> u"
    "i \<in> snd ` set (z_members D t s (userSessionsKey (session_owner v)))" by blast
  have "z_view D (revokeAllForUser D True t u s) (userSessionsKey (session_owner v)) =
      z_view D s (userSessionsKey (session_owner v))"
    using v(3) by (intro revoke_all_effect(2) [OF D N]) simp
  then show "\<exists>v. unexpired t (d_view D s (sessionKey i)) = Some (Json v, snd x) \<and>
      (\<exists>v'. fst x = Json v' \<and> session_owner v' = session_owner v) \<and>
      i \<in> snd ` set (z_members D t (revokeAllForUser D True t u s) (userSessionsKey (session_owner v))) \<and>
      z_deadline D t (revokeAllForUser D True t u s) (userSessionsKey (session_owner v)) =
        z_deadline D t s (userSessionsKey (session_owner v))"
    using v by (intro exI [of _ v]) (cases x, simp add: z_members_def z_deadline_def)
qed

lemma evict_inv:
  assumes D: "session_db_ok D" and inv: "index_inv D ttl t s"
  shows "index_inv D ttl t (fold (evict_session D t idx) es s)"
  using inv
proof (induction es arbitrary: s)
  case (Cons i es)
  have "unexpired t (d_view D (d_del D t s (sessionKey i)) (sessionKey i)) = None"
    by (simp add: session_views [OF D] unexpired_def)
  from unindex_inv [OF D del_inv [OF D Cons.prems] this]
  have "index_inv D ttl t (evict_session D t idx i s)" by (simp add: evict_session_def flip: sessionKey_def)
  then show ?case using Cons.IH by simp
qed simp

lemma owner_created: "session_owner (session_data inp sid now ttl) = ci_userId inp"
  by (simp add: session_owner_def session_data_def)

lemma base_inv:
  assumes D: "session_db_ok D" and inv: "index_inv D ttl t s" and "0 < ttl"
  shows "index_inv D ttl t (created_base D t (sessionKey sid) (userSessionsKey (ci_userId inp)) ttl
           (Json (session_data inp sid now ttl)) now sid s)"
    (is "index_inv D ttl t ?b")
  unfolding index_inv_def
proof (intro allI impI)
  let ?idx = "userSessionsKey (ci_userId inp)" and ?v = "session_data inp sid now ttl"
  note base = created_base_views [OF D assms(3), where t = t and key = "sessionKey sid" and idx = ?idx and v = "Json ?v"
      and score = now and sid = sid and s = s]
  fix i x
  assume l: "unexpired t (d_view D ?b (sessionKey i)) = Some x"
  show "\<exists>v d. x = (Json v, Some d) \<and> d \<le> t + ttl * 1000 \<and>
      i \<in> snd ` set (z_members D t ?b (userSessionsKey (session_owner v))) \<and>
      (\<exists>di. z_deadline D t ?b (userSessionsKey (session_owner v)) = Some di \<and> d \<le> di)"
  proof (cases "i = sid")
    case True
    then have "x = (Json ?v, Some (t + ttl * 1000))" using l assms(3) by (simp add: base(4) unexpired_def)
    moreover have "sid \<in> snd ` set (z_members D t ?b ?idx)" unfolding base(1) by force
    ultimately show ?thesis using True base(3) by (intro exI [of _ ?v] exI [of _ "t + ttl * 1000"]) (simp add: owner_created)
  next
    case False
    then have "unexpired t (d_view D s (sessionKey i)) = Some x" using l by (simp add: base(4))
    moreover from inv_live [OF inv this] obtain v where v: "x = (Json v, snd x)" by (metis prod.collapse)
    ultimately obtain d di where d: "snd x = Some d" "d \<le> t + ttl * 1000"
      "i \<in> snd ` set (z_members D t s (userSessionsKey (session_owner v)))"
      "z_deadline D t s (userSessionsKey (session_owner v)) = Some di" "d \<le> di"
      using index_inv_owned [OF inv, of i v "snd x"] by metis
    have "i \<in> snd ` set (z_members D t ?b (userSessionsKey (session_owner v))) \<and>
        (\<exists>di. z_deadline D t ?b (userSessionsKey (session_owner v)) = Some di \<and> d \<le> di)"
    proof (cases "session_owner v = ci_userId inp")
      case True
      have "i \<in> snd ` set (z_members D t ?b ?idx)" unfolding base(1) using d(3) True False by auto
      then show ?thesis using True base(3) d(2) by simp
    next
      case False
      then have "z_view D ?b (userSessionsKey (session_owner v)) = z_view D s (userSessionsKey (session_owner v))"
        by (intro base(5)) simp
      then show ?thesis using d z_same by metis
    qed
    then show ?thesis using v d by (intro exI [of _ v] exI [of _ d]) simp
  qed
qed

lemma create_inv:
  assumes D: "session_db_ok D" and inv: "index_inv D ttl t s" and ttl: "0 < ttl"
    and N: "\<And>t s u. \<not> z_is_other D t s (userSessionsKey u)"
  shows "index_inv D ttl t (snd (session_create D c l t ttl now sid inp s))"
proof -
  let ?f = "CREATE_SESSION_SCRIPT D t (sessionKey sid) (userSessionsKey (ci_userId inp)) ttl
              (Json (session_data inp sid now ttl)) now sid"
  have n: "\<not> z_is_other D t s (userSessionsKey (ci_userId inp))" by (rule N)
  have "index_inv D ttl t (snd (?f s))"
    using create_script_base [OF D n, of "sessionKey sid" ttl "Json (session_data inp sid now ttl)" now sid]
      evict_inv [OF D base_inv [OF D inv ttl]] by (auto simp: Let_def)
  then show ?thesis using inv
    by (cases l) (auto simp: session_create_def call_def split: prod.splits)
qed

lemma session_step_inv:
  assumes "session_db_ok D" "index_inv D ttl (op_time op) s" "0 < ttl" "\<And>t s u. \<not> z_is_other D t s (userSessionsKey u)"
  shows "index_inv D ttl (op_time op) (session_step D ttl op s)"
  using assms
  by (cases op) (simp_all add: create_inv rotate_inv validate_inv revoke_inv revoke_all_inv active_inv)

lemma session_run_inv:
  assumes "session_db_ok D" "0 < ttl" "\<And>t s u. \<not> z_is_other D t s (userSessionsKey u)"
  shows "sorted (map op_time ops) \<Longrightarrow> \<forall>op\<in>set ops. t \<le> op_time op \<and> op_time op \<le> t' \<Longrightarrow> t \<le> t' \<Longrightarrow>
    index_inv D ttl t s \<Longrightarrow> index_inv D ttl t' (session_run D ttl ops s)"
proof (induction ops arbitrary: s t)
  case Nil
  then show ?case by (simp add: session_run_def index_inv_later)
next
  case (Cons op ops)
  have "index_inv D ttl (op_time op) (session_step D ttl op s)"
    using Cons.prems assms by (intro session_step_inv index_inv_later [OF Cons.prems(4)]) auto
  then show ?case using Cons.IH [of "op_time op" "session_step D ttl op s"] Cons.prems by (simp add: session_run_def)
qed


definition demo_sessions :: "session_op list" where
  "demo_sessions = [OpCreate 1000 Up 1000 ''s'' (demo_input ''u''), OpCreate 1100 Up 1100 ''r'' (demo_input ''w'')]"

lemma demo_survivor:
  "getById demo_db True 3000 ''r'' (revokeAllForUser demo_db True 2000 ''u'' (session_run demo_db 60 demo_sessions no_sessions)) =
     Found (session_data (demo_input ''w'') ''r'' 1100 60)"
  by (simp add: session_run_def demo_sessions_def session_create_def call_def CREATE_SESSION_SCRIPT_def Let_def demo_db_def
      no_sessions_def demo_members_def demo_deadline_def unexpired_def demo_input_def revokeAllForUser_def revoke_one_def
      getById_def MAX_ACTIVE_SESSIONS_def)


text \<open>
  \<open>validate\<close> reads a session and writes it back with \<open>KEEPTTL\<close>. If the session is revoked in
  between, the write creates the key anew and without a deadline: once the revocation marker
  has expired, after seven days, the session is there again, for good.
\<close>

lemma touch_resurrects:
  assumes "session_db_ok D" "getById D True t i s = Found x"
    and "s' = d_set_keepttl D t (revoke D True t i s) (sessionKey i) v" "t + 604800000 \<le> later"
    and "v = Json y"
  shows "getRefreshSession D True later i s' = Found y"
proof -
  note D = session_views [OF assms(1)]
  obtain z where r: "revoke D True t i s = d_setex D t z (tokenRevocationKey i) one_marker TOKEN_REVOCATION_TTL_SECONDS"
    and z: "d_view D z (sessionKey i) = None"
    using assms(2) by (auto simp: revoke_def Let_def D)
  have "unexpired later (d_view D s' (tokenRevocationKey i)) = None"
    using assms(4) by (simp add: assms(3) r D TOKEN_REVOCATION_TTL_SECONDS_def unexpired_def)
  moreover have "d_view D s' (sessionKey i) = Some (Json y, None)"
    using assms(5) by (simp add: assms(3) r D z unexpired_def)
  ultimately show ?thesis by (simp add: getRefreshSession_def isRevoked_def getById_def D(1)) (simp add: unexpired_def)
qed

end
