(* ===== verification/Authentication.thy ===== *)
theory Authentication
  imports SessionGuarantees AccountLockout
begin

text \<open>
  Authentication: the JWT keyring (\<open>infrastructure/security/keyring/jwt-keyring.ts\<close>), access and
  refresh tokens (\<open>common/utils/access-token.utils.ts\<close>, \<open>modules/auth/application/utils/jwt.utils.ts\<close>),
  the guard (\<open>common/guards/auth.guard.ts\<close>) and the commands of \<open>modules/auth/application\<close>: login,
  refresh, verification, logout and password reset. Signing and verifying a JWT, Argon2 and the
  user table are arguments.
\<close>

section \<open>Tokens\<close>

text \<open>
  \<open>jwt_verify\<close>: the payload of a token under a secret, without the registered claims the library
  adds (\<open>iat\<close>, \<open>exp\<close>, \<open>iss\<close>, \<open>aud\<close>), or nothing where the library throws or the payload is a
  string; the options (issuer, audience, HS256) are fixed. \<open>jwt_kid\<close>: the key id in
  the header of a token that decodes. \<open>jwt_sign\<close> takes payload, secret and key id.
\<close>

record jwt_lib =
  jwt_verify :: "string \<Rightarrow> string \<Rightarrow> js option"
  jwt_kid :: "string \<Rightarrow> string option"
  jwt_sign :: "js \<Rightarrow> string \<Rightarrow> string \<Rightarrow> string"

record jwt_keyring =
  activeKeyId :: string
  keys :: "(string \<times> string) list"
  legacySecret :: string

record jwt_env =
  JWT_ACTIVE_KEY_ID :: string
  JWT_SECRET :: string
  JWT_SIGNING_KEYS :: "(string \<times> string) list option"
  JWT_REFRESH_ACTIVE_KEY_ID :: string
  JWT_REFRESH_SECRET :: string
  JWT_REFRESH_SIGNING_KEYS :: "(string \<times> string) list option"

datatype token_kind = Access | Refresh

definition getJwtKeyring :: "jwt_env \<Rightarrow> token_kind \<Rightarrow> jwt_keyring" where
  "getJwtKeyring env kind =
    (let refresh = (kind = Refresh);
         active = (if refresh then JWT_REFRESH_ACTIVE_KEY_ID env else JWT_ACTIVE_KEY_ID env);
         legacy = (if refresh then JWT_REFRESH_SECRET env else JWT_SECRET env);
         configured = (if refresh then JWT_REFRESH_SIGNING_KEYS env else JWT_SIGNING_KEYS env)
     in \<lparr>activeKeyId = active, keys = (case configured of None \<Rightarrow> [(active, legacy)] | Some ks \<Rightarrow> ks),
         legacySecret = legacy\<rparr>)"

definition verificationSecrets :: "jwt_lib \<Rightarrow> string \<Rightarrow> jwt_keyring \<Rightarrow> string list" where
  "verificationSecrets lib token kr =
    (case jwt_kid lib token of
       Some kid \<Rightarrow>
         (if kid = [] then [legacySecret kr]
          else (case map_of (keys kr) kid of
                  None \<Rightarrow> []
                | Some secret \<Rightarrow> if secret \<noteq> [] then [secret] else []))
     | None \<Rightarrow> [legacySecret kr])"

fun first_verified :: "jwt_lib \<Rightarrow> string \<Rightarrow> string list \<Rightarrow> js option" where
  "first_verified lib token [] = None"
| "first_verified lib token (secret # rest) =
    (case jwt_verify lib token secret of Some decoded \<Rightarrow> Some decoded | None \<Rightarrow> first_verified lib token rest)"

definition verifyJwtWithKeyring :: "jwt_lib \<Rightarrow> string \<Rightarrow> jwt_keyring \<Rightarrow> js option" where
  "verifyJwtWithKeyring lib token kr = first_verified lib token (verificationSecrets lib token kr)"

fun js_is_string :: "js \<Rightarrow> bool" where
  "js_is_string (JStr s) = True"
| "js_is_string _ = False"

fun js_is_number :: "js \<Rightarrow> bool" where
  "js_is_number (JNum n) = True"
| "js_is_number _ = False"

fun js_is_object :: "js \<Rightarrow> bool" where
  "js_is_object (JObj fs) = True"
| "js_is_object (JArr xs) = True"
| "js_is_object _ = False"

definition isRefreshTokenPayload :: "js \<Rightarrow> bool" where
  "isRefreshTokenPayload v \<longleftrightarrow> js_is_object v \<and> js_get v ''type'' = JStr ''refresh'' \<and>
     js_is_string (js_get v ''sub'') \<and> js_is_number (js_get v ''version'') \<and>
     js_is_string (js_get v ''jti'') \<and> js_is_string (js_get v ''sid'')"

definition isAuthenticatedUser :: "js \<Rightarrow> bool" where
  "isAuthenticatedUser v \<longleftrightarrow> js_is_string (js_get v ''sub'') \<and> js_is_string (js_get v ''email'') \<and>
     (js_get v ''name'' = JUndef \<or> js_is_string (js_get v ''name'')) \<and>
     (js_get v ''role'' = JStr ''admin'' \<or> js_get v ''role'' = JStr ''user'') \<and>
     (js_get v ''authVersion'' = JUndef \<or> js_is_number (js_get v ''authVersion''))"

definition verifyRefreshToken :: "jwt_lib \<Rightarrow> jwt_env \<Rightarrow> string \<Rightarrow> js option" where
  "verifyRefreshToken lib env token =
    (case verifyJwtWithKeyring lib token (getJwtKeyring env Refresh) of
       Some v \<Rightarrow> if isRefreshTokenPayload v then Some v else None
     | None \<Rightarrow> None)"

definition verifyAccessToken :: "jwt_lib \<Rightarrow> jwt_env \<Rightarrow> string \<Rightarrow> js option" where
  "verifyAccessToken lib env token =
    (case verifyJwtWithKeyring lib token (getJwtKeyring env Access) of
       Some v \<Rightarrow> if isAuthenticatedUser v then Some v else None
     | None \<Rightarrow> None)"

record user =
  us_id :: string
  us_email :: string
  us_name :: string
  us_role :: string
  us_avatarFileId :: "string option"
  us_authVersion :: int
  us_isEmailVerified :: bool

definition signing_secret :: "jwt_keyring \<Rightarrow> string" where
  "signing_secret kr = (case map_of (keys kr) (activeKeyId kr) of Some secret \<Rightarrow> secret | None \<Rightarrow> legacySecret kr)"

definition signAccessToken :: "jwt_lib \<Rightarrow> jwt_env \<Rightarrow> user \<Rightarrow> string" where
  "signAccessToken lib env u =
    (let kr = getJwtKeyring env Access in
     jwt_sign lib
       (JObj [(''sub'', JStr (us_id u)), (''email'', JStr (us_email u)), (''name'', JStr (us_name u)),
              (''role'', JStr (us_role u)), (''authVersion'', JNum (us_authVersion u))])
       (signing_secret kr) (activeKeyId kr))"

definition refresh_payload :: "string \<Rightarrow> int \<Rightarrow> string \<Rightarrow> string \<Rightarrow> js" where
  "refresh_payload uid version sid jti =
     JObj [(''sub'', JStr uid), (''type'', JStr ''refresh''), (''version'', JNum version), (''jti'', JStr jti), (''sid'', JStr sid)]"

definition signRefreshToken :: "jwt_lib \<Rightarrow> jwt_env \<Rightarrow> string \<Rightarrow> int \<Rightarrow> string \<Rightarrow> string \<Rightarrow> string" where
  "signRefreshToken lib env uid version sid jti =
    (let kr = getJwtKeyring env Refresh in
     jwt_sign lib (refresh_payload uid version sid jti) (signing_secret kr) (activeKeyId kr))"

section \<open>The guard\<close>

record http_credentials =
  hc_authorization :: "string option"
  hc_access_cookie :: "string option"
  hc_url :: "string option"

definition METRICS_PATH :: string where "METRICS_PATH = ''/metrics''"

definition is_metrics_path :: "http_credentials \<Rightarrow> bool" where
  "is_metrics_path req \<longleftrightarrow> (case hc_url req of None \<Rightarrow> False | Some url \<Rightarrow> hd (split_on (CHR ''?'') url) = METRICS_PATH)"

definition strip_bearer :: "string \<Rightarrow> string" where
  "strip_bearer s = (if starts_with s ''Bearer '' then drop 7 s else s)"

definition isMetricsAuthorized :: "string option \<Rightarrow> bool \<Rightarrow> http_credentials \<Rightarrow> bool" where
  "isMetricsAuthorized METRICS_TOKEN production req \<longleftrightarrow> is_metrics_path req \<and>
    (case METRICS_TOKEN of
       None \<Rightarrow> \<not> production
     | Some expected \<Rightarrow>
         if expected = [] then \<not> production
         else (case map_option strip_bearer (hc_authorization req) of
                 None \<Rightarrow> False
               | Some provided \<Rightarrow> provided \<noteq> [] \<and> provided = expected))"

definition extractToken :: "http_credentials \<Rightarrow> string option" where
  "extractToken req =
    (case hc_authorization req of
       Some auth \<Rightarrow> if starts_with auth ''Bearer '' then Some (drop 7 auth)
                    else (if hc_access_cookie req = Some [] then None else hc_access_cookie req)
     | None \<Rightarrow> if hc_access_cookie req = Some [] then None else hc_access_cookie req)"

text \<open>\<open>users\<close>: the current row of a user, if it can be read.\<close>

definition verifyUserAuthVersion :: "(string \<Rightarrow> user option) \<Rightarrow> js \<Rightarrow> js \<Rightarrow> bool" where
  "verifyUserAuthVersion users sub expected =
    (case js_string sub of
       None \<Rightarrow> False
     | Some uid \<Rightarrow> (case users uid of
                       None \<Rightarrow> False
                     | Some u \<Rightarrow> expected = JUndef \<or> JNum (us_authVersion u) = expected))"

datatype auth_verdict = Unauthorized | AllowedAnonymous | AllowedAs js

definition AuthGuard_canActivate ::
  "jwt_lib \<Rightarrow> jwt_env \<Rightarrow> string option \<Rightarrow> bool \<Rightarrow> (string \<Rightarrow> user option) \<Rightarrow> bool \<Rightarrow> http_credentials \<Rightarrow> auth_verdict" where
  "AuthGuard_canActivate lib env METRICS_TOKEN production users isPublic req =
    (if isPublic \<or> isMetricsAuthorized METRICS_TOKEN production req then AllowedAnonymous
     else if is_metrics_path req then Unauthorized
     else (case extractToken req of
             None \<Rightarrow> Unauthorized
           | Some token \<Rightarrow>
               if token = [] then Unauthorized
               else (case verifyAccessToken lib env token of
                       None \<Rightarrow> Unauthorized
                     | Some decoded \<Rightarrow>
                         if verifyUserAuthVersion users (js_get decoded ''sub'') (js_get decoded ''authVersion'')
                         then AllowedAs decoded else Unauthorized)))"

section \<open>The user table\<close>

text \<open>The columns of \<open>users\<close> that authentication reads and writes. Times are milliseconds.\<close>

record account =
  ac_user :: user
  ac_passwordHash :: string
  ac_resetTokenHash :: "string option"
  ac_resetExpiresAt :: "int option"
  ac_verificationTokenHash :: "string option"
  ac_verificationExpiresAt :: "int option"
  ac_pendingEmail :: "string option"
  ac_emailChangeTokenHash :: "string option"
  ac_emailChangeExpiresAt :: "int option"
  ac_deleted :: bool

definition find_account :: "(account \<Rightarrow> bool) \<Rightarrow> account list \<Rightarrow> account option" where
  "find_account P accounts = find P accounts"

text \<open>\<open>findById\<close> sees rows that are not soft-deleted, \<open>findByEmailWithPassword\<close> sees all.\<close>

definition findById :: "account list \<Rightarrow> string \<Rightarrow> user option" where
  "findById accounts uid = map_option ac_user (find_account (\<lambda>a. us_id (ac_user a) = uid \<and> \<not> ac_deleted a) accounts)"

definition findByEmailWithPassword :: "account list \<Rightarrow> string \<Rightarrow> account option" where
  "findByEmailWithPassword accounts email = find_account (\<lambda>a. us_email (ac_user a) = email) accounts"

definition update_accounts :: "(account \<Rightarrow> bool) \<Rightarrow> (account \<Rightarrow> account) \<Rightarrow> account list \<Rightarrow> account option \<times> account list" where
  "update_accounts P f accounts =
     (map_option f (find_account P accounts), map (\<lambda>a. if P a then f a else a) accounts)"

definition bump_version :: "user \<Rightarrow> user" where
  "bump_version u = u\<lparr>us_authVersion := us_authVersion u + 1\<rparr>"

definition setPasswordResetToken :: "string \<Rightarrow> string \<Rightarrow> int \<Rightarrow> account list \<Rightarrow> account list" where
  "setPasswordResetToken uid tokenHash expiresAt accounts =
     snd (update_accounts (\<lambda>a. us_id (ac_user a) = uid)
       (\<lambda>a. a\<lparr>ac_resetTokenHash := Some tokenHash, ac_resetExpiresAt := Some expiresAt\<rparr>) accounts)"

definition after_now :: "int \<Rightarrow> int option \<Rightarrow> bool" where
  "after_now now t \<longleftrightarrow> (case t of None \<Rightarrow> False | Some e \<Rightarrow> now < e)"

definition resetPasswordByToken :: "string \<Rightarrow> string \<Rightarrow> int \<Rightarrow> account list \<Rightarrow> account option \<times> account list" where
  "resetPasswordByToken tokenHash passwordHash now accounts =
     update_accounts (\<lambda>a. ac_resetTokenHash a = Some tokenHash \<and> after_now now (ac_resetExpiresAt a))
       (\<lambda>a. a\<lparr>ac_passwordHash := passwordHash, ac_user := bump_version (ac_user a),
              ac_resetTokenHash := None, ac_resetExpiresAt := None\<rparr>) accounts"

definition setEmailVerificationToken :: "string \<Rightarrow> string \<Rightarrow> int \<Rightarrow> account list \<Rightarrow> account list" where
  "setEmailVerificationToken uid tokenHash expiresAt accounts =
     snd (update_accounts (\<lambda>a. us_id (ac_user a) = uid)
       (\<lambda>a. a\<lparr>ac_verificationTokenHash := Some tokenHash, ac_verificationExpiresAt := Some expiresAt\<rparr>) accounts)"

definition verifyEmailByToken :: "string \<Rightarrow> int \<Rightarrow> account list \<Rightarrow> account option \<times> account list" where
  "verifyEmailByToken tokenHash now accounts =
     update_accounts (\<lambda>a. ac_verificationTokenHash a = Some tokenHash \<and> after_now now (ac_verificationExpiresAt a))
       (\<lambda>a. a\<lparr>ac_user := (ac_user a)\<lparr>us_isEmailVerified := True\<rparr>, ac_verificationTokenHash := None,
              ac_verificationExpiresAt := None\<rparr>) accounts"

definition setEmailChangeRequest :: "string \<Rightarrow> string \<Rightarrow> string \<Rightarrow> int \<Rightarrow> account list \<Rightarrow> account list" where
  "setEmailChangeRequest uid pending tokenHash expiresAt accounts =
     snd (update_accounts (\<lambda>a. us_id (ac_user a) = uid)
       (\<lambda>a. a\<lparr>ac_pendingEmail := Some pending, ac_emailChangeTokenHash := Some tokenHash,
              ac_emailChangeExpiresAt := Some expiresAt\<rparr>) accounts)"

text \<open>
  \<open>email = pending_email\<close>. The statement fails (\<open>None\<close>) when a matching row has no pending address,
  as the column does not admit \<open>NULL\<close>, and when two rows that are not deleted would hold the same
  address, which the index \<open>users_email_unique\<close> excludes (addresses are stored in lower case).
\<close>

definition live_emails :: "account list \<Rightarrow> string list" where
  "live_emails accounts = map (us_email \<circ> ac_user) (filter (\<lambda>a. \<not> ac_deleted a) accounts)"

definition change_matches :: "string \<Rightarrow> int \<Rightarrow> account \<Rightarrow> bool" where
  "change_matches tokenHash now a \<longleftrightarrow>
     ac_emailChangeTokenHash a = Some tokenHash \<and> after_now now (ac_emailChangeExpiresAt a)"

definition email_changed :: "account \<Rightarrow> account" where
  "email_changed a =
     a\<lparr>ac_user := (bump_version (ac_user a))\<lparr>us_email := the (ac_pendingEmail a), us_isEmailVerified := True\<rparr>,
       ac_pendingEmail := None, ac_emailChangeTokenHash := None, ac_emailChangeExpiresAt := None\<rparr>"

definition applyEmailChangeByToken :: "string \<Rightarrow> int \<Rightarrow> account list \<Rightarrow> (account option \<times> account list) option" where
  "applyEmailChangeByToken tokenHash now accounts =
    (if \<exists>a\<in>set accounts. change_matches tokenHash now a \<and> ac_pendingEmail a = None then None
     else (case update_accounts (change_matches tokenHash now) email_changed accounts of
             (found, accounts') \<Rightarrow> if distinct (live_emails accounts') then Some (found, accounts') else None))"

definition incrementAuthVersion :: "string \<Rightarrow> account list \<Rightarrow> account option \<times> account list" where
  "incrementAuthVersion uid accounts =
     update_accounts (\<lambda>a. us_id (ac_user a) = uid) (\<lambda>a. a\<lparr>ac_user := bump_version (ac_user a)\<rparr>) accounts"

section \<open>The commands\<close>

datatype auth_error =
    INVALID_CREDENTIALS
  | EMAIL_TAKEN
  | USER_NOT_FOUND
  | INVALID_TOKEN
  | EMAIL_NOT_FOUND
  | ACCOUNT_LOCKED
  | SESSION_UNAVAILABLE
  | TRANSACTION_FAILED

record auth_response =
  ar_accessToken :: string
  ar_refreshToken :: string
  ar_user :: user

text \<open>What the commands use of the environment: the libraries, the session store and its settings.\<close>

record 's auth_world =
  aw_jwt :: jwt_lib
  aw_env :: jwt_env
  aw_db :: "'s session_db"
  aw_connected :: bool
  aw_ttl :: int
  aw_argon :: "string \<Rightarrow> string \<Rightarrow> bool"
  aw_sha256 :: "string \<Rightarrow> string"

text \<open>The lockout at one moment: both stores of \<open>AccountLockout\<close> offer it.\<close>

record 'l lockout =
  lk_isLockedOut :: "string \<Rightarrow> 'l \<Rightarrow> bool \<times> 'l"
  lk_recordFailedAttempt :: "string \<Rightarrow> 'l \<Rightarrow> 'l"
  lk_resetAttempts :: "string \<Rightarrow> 'l \<Rightarrow> 'l"

definition memory_lockout :: "lockout_config \<Rightarrow> int \<Rightarrow> memory lockout" where
  "memory_lockout cfg now = \<lparr>lk_isLockedOut = isLockedOut_memory cfg now,
     lk_recordFailedAttempt = recordFailedAttempt_memory cfg now, lk_resetAttempts = resetAttempts_memory\<rparr>"

definition redis_lockout :: "lockout_config \<Rightarrow> 'c counters \<Rightarrow> int \<Rightarrow> 'c lockout" where
  "redis_lockout cfg C now = \<lparr>lk_isLockedOut = isLockedOut_redis cfg C now,
     lk_recordFailedAttempt = recordFailedAttempt_redis cfg C now, lk_resetAttempts = resetAttempts_redis C now\<rparr>"

definition DUMMY_PASSWORD_HASH :: string where "DUMMY_PASSWORD_HASH = 
  ''$argon2id$v=19$m=19456,t=2,p=1$iD2QwPY/VlkWMIJf83VrSg$//0VZk6X3rG/5u1ZGP4o0FPYdtyjd0X/z5Sw5adxZH4''"

definition verify_user_credentials :: "'s auth_world \<Rightarrow> account list \<Rightarrow> string \<Rightarrow> string \<Rightarrow> user option" where
  "verify_user_credentials w accounts email password =
    (let credentials = findByEmailWithPassword accounts email;
         hash = (case credentials of None \<Rightarrow> DUMMY_PASSWORD_HASH | Some a \<Rightarrow> ac_passwordHash a);
         passwordValid = aw_argon w hash password
     in case credentials of
          None \<Rightarrow> None
        | Some a \<Rightarrow> if \<not> passwordValid then None else findById accounts (us_id (ac_user a)))"

record device =
  dv_ip :: "string option"
  dv_userAgent :: "string option"
  dv_deviceName :: "string option"

definition session_input :: "string \<Rightarrow> device \<Rightarrow> create_input" where
  "session_input uid dv =
    (let known = (\<lambda>x. case x of None \<Rightarrow> ''unknown'' | Some v \<Rightarrow> v) in
     \<lparr>ci_userId = uid, ci_ip = known (dv_ip dv), ci_userAgent = known (dv_userAgent dv), ci_deviceName = known (dv_deviceName dv)\<rparr>)"

definition tokens_for :: "'s auth_world \<Rightarrow> user \<Rightarrow> string \<Rightarrow> string \<Rightarrow> auth_response" where
  "tokens_for w u sid jti =
     \<lparr>ar_accessToken = signAccessToken (aw_jwt w) (aw_env w) u,
      ar_refreshToken = signRefreshToken (aw_jwt w) (aw_env w) (us_id u) (us_authVersion u) sid jti, ar_user = u\<rparr>"

text \<open>\<open>l\<close>: how the creation of the session went; \<open>sid\<close> and \<open>jti\<close> are random.\<close>

definition open_session ::
  "'s auth_world \<Rightarrow> link \<Rightarrow> int \<Rightarrow> int \<Rightarrow> string \<Rightarrow> string \<Rightarrow> device \<Rightarrow> user \<Rightarrow> 's \<Rightarrow> (auth_error + auth_response) \<times> 's" where
  "open_session w l t now sid jti dv u s =
    (case session_create (aw_db w) (aw_connected w) l t (aw_ttl w) now sid (session_input (us_id u) dv) s of
       (None, s') \<Rightarrow> (Inl SESSION_UNAVAILABLE, s')
     | (Some _, s') \<Rightarrow> (Inr (tokens_for w u sid jti), s'))"

definition rejectCredentials :: "'l lockout \<Rightarrow> string \<Rightarrow> 'l \<Rightarrow> (auth_error + auth_response) \<times> 'l" where
  "rejectCredentials lo email ls = (Inl INVALID_CREDENTIALS, lk_recordFailedAttempt lo email ls)"

definition LoginCommand ::
  "'s auth_world \<Rightarrow> 'l lockout \<Rightarrow> account list \<Rightarrow> link \<Rightarrow> int \<Rightarrow> int \<Rightarrow> string \<Rightarrow> string \<Rightarrow> device \<Rightarrow> string \<Rightarrow> string
     \<Rightarrow> 'l \<times> 's \<Rightarrow> (auth_error + auth_response) \<times> 'l \<times> 's" where
  "LoginCommand w lo accounts l t now sid jti dv email password st =
    (case st of (ls, s) \<Rightarrow>
     (case lk_isLockedOut lo email ls of
        (True, ls1) \<Rightarrow> (Inl ACCOUNT_LOCKED, ls1, s)
      | (False, ls1) \<Rightarrow>
          (case verify_user_credentials w accounts email password of
             None \<Rightarrow> (case rejectCredentials lo email ls1 of (r, ls2) \<Rightarrow> (r, ls2, s))
           | Some u \<Rightarrow>
               if \<not> us_isEmailVerified u then (case rejectCredentials lo email ls1 of (r, ls2) \<Rightarrow> (r, ls2, s))
               else (case open_session w l t now sid jti dv u s of
                       (Inl e, s') \<Rightarrow> (Inl e, ls1, s')
                     | (Inr resp, s') \<Rightarrow> (Inr resp, lk_resetAttempts lo email ls1, s')))))"

definition VerifyEmailCommand ::
  "'s auth_world \<Rightarrow> link \<Rightarrow> int \<Rightarrow> int \<Rightarrow> string \<Rightarrow> string \<Rightarrow> device \<Rightarrow> string \<Rightarrow> account list \<times> 's
     \<Rightarrow> (auth_error + auth_response) \<times> account list \<times> 's" where
  "VerifyEmailCommand w l t now sid jti dv token st =
    (case st of (accounts, s) \<Rightarrow>
     (case verifyEmailByToken (aw_sha256 w token) now accounts of
        (None, accounts') \<Rightarrow> (Inl INVALID_TOKEN, accounts', s)
      | (Some a, accounts') \<Rightarrow>
          (case open_session w l t now sid jti dv (ac_user a) s of (r, s') \<Rightarrow> (r, accounts', s'))))"

text \<open>\<open>None\<close>: the stored session does not parse and the request fails.\<close>

definition RefreshTokensCommand ::
  "'s auth_world \<Rightarrow> account list \<Rightarrow> int \<Rightarrow> string \<Rightarrow> string \<Rightarrow> 's \<Rightarrow> (auth_error + auth_response) option \<times> 's" where
  "RefreshTokensCommand w accounts t newJti refreshToken s =
    (case verifyRefreshToken (aw_jwt w) (aw_env w) refreshToken of
       None \<Rightarrow> (Some (Inl INVALID_TOKEN), s)
     | Some decoded \<Rightarrow>
         let sid = the (js_string (js_get decoded ''sid''));
             sub = the (js_string (js_get decoded ''sub''));
             jti = the (js_string (js_get decoded ''jti''))
         in (case getRefreshSession (aw_db w) (aw_connected w) t sid s of
               Broken \<Rightarrow> (None, s)
             | Missing \<Rightarrow> (Some (Inl INVALID_TOKEN), s)
             | Found session \<Rightarrow>
                 if js_get session ''userId'' \<noteq> JStr sub then (Some (Inl INVALID_TOKEN), s)
                 else (case findById accounts sub of
                         None \<Rightarrow> (Some (Inl USER_NOT_FOUND), s)
                       | Some u \<Rightarrow>
                           if js_get decoded ''version'' \<noteq> JNum (us_authVersion u) then (Some (Inl INVALID_TOKEN), s)
                           else
                             let id = the (js_string (js_get session ''id'')) in
                             (case rotateSessionRefresh (aw_db w) (aw_connected w) t (us_id u) id jti newJti s of
                                (rotated, s') \<Rightarrow> (Some (Inr (tokens_for w u id newJti)), s')
                              | (reused, s') \<Rightarrow> (Some (Inl INVALID_TOKEN), revoke (aw_db w) (aw_connected w) t id s')
                              | (unavailable, s') \<Rightarrow> (Some (Inl INVALID_TOKEN), s')))))"

definition LogoutCommand :: "'s auth_world \<Rightarrow> int \<Rightarrow> string \<Rightarrow> account list \<times> 's \<Rightarrow> (auth_error + unit) \<times> account list \<times> 's" where
  "LogoutCommand w t uid st =
    (case st of (accounts, s) \<Rightarrow>
     (case incrementAuthVersion uid accounts of
        (None, accounts') \<Rightarrow> (Inl INVALID_TOKEN, accounts', s)
      | (Some _, accounts') \<Rightarrow> (Inr (), accounts', revokeAllForUser (aw_db w) (aw_connected w) t uid s)))"

definition ResetPasswordCommand ::
  "'s auth_world \<Rightarrow> (string \<Rightarrow> string) \<Rightarrow> int \<Rightarrow> int \<Rightarrow> string \<Rightarrow> string \<Rightarrow> account list \<times> 's
     \<Rightarrow> (auth_error + unit) \<times> account list \<times> 's" where
  "ResetPasswordCommand w hash t now token newPassword st =
    (case st of (accounts, s) \<Rightarrow>
     (case resetPasswordByToken (aw_sha256 w token) (hash newPassword) now accounts of
        (None, accounts') \<Rightarrow> (Inl INVALID_TOKEN, accounts', s)
      | (Some a, accounts') \<Rightarrow> (Inr (), accounts', revokeAllForUser (aw_db w) (aw_connected w) t (us_id (ac_user a)) s)))"

datatype email_change_error = INVALID_EMAIL_CHANGE_TOKEN | EMAIL_CHANGE_FAILED

definition VerifyEmailChangeCommand ::
  "'s auth_world \<Rightarrow> int \<Rightarrow> int \<Rightarrow> string \<Rightarrow> account list \<times> 's \<Rightarrow> (email_change_error + user) \<times> account list \<times> 's" where
  "VerifyEmailChangeCommand w t now token st =
    (case st of (accounts, s) \<Rightarrow>
     (case applyEmailChangeByToken (aw_sha256 w token) now accounts of
        None \<Rightarrow> (Inl EMAIL_CHANGE_FAILED, accounts, s)
      | Some (None, accounts') \<Rightarrow> (Inl INVALID_EMAIL_CHANGE_TOKEN, accounts', s)
      | Some (Some a, accounts') \<Rightarrow>
          (Inr (ac_user a), accounts', revokeAllForUser (aw_db w) (aw_connected w) t (us_id (ac_user a)) s)))"

definition ForgotPasswordCommand :: "'s auth_world \<Rightarrow> int \<Rightarrow> int \<Rightarrow> string \<Rightarrow> user option \<Rightarrow> account list \<Rightarrow> account list" where
  "ForgotPasswordCommand w now ttlMinutes resetToken found accounts =
    (case found of
       None \<Rightarrow> accounts
     | Some u \<Rightarrow> setPasswordResetToken (us_id u) (aw_sha256 w resetToken) (now + ttlMinutes * 60000) accounts)"

definition SendVerificationEmailCommand :: "'s auth_world \<Rightarrow> int \<Rightarrow> int \<Rightarrow> string \<Rightarrow> user option \<Rightarrow> account list \<Rightarrow> account list" where
  "SendVerificationEmailCommand w now ttlHours token found accounts =
    (case found of
       None \<Rightarrow> accounts
     | Some u \<Rightarrow> if us_isEmailVerified u then accounts
                 else setEmailVerificationToken (us_id u) (aw_sha256 w token) (now + ttlHours * 3600000) accounts)"

end
