(* ===== verification/AuthenticationGuarantees.thy ===== *)
theory AuthenticationGuarantees
  imports Authentication
begin

text \<open>
  What signing out and the rotation of refresh tokens guarantee. Every statement on the user table
  keeps the rows apart and never lowers \<open>auth_version\<close>; logout, password reset and the change of
  the address raise it, and both the guard and the refresh command compare the version in a token
  with the row. A refresh token that is presented twice kills its session.
\<close>

section \<open>The statements keep rows and versions\<close>

abbreviation account_id :: "account \<Rightarrow> string" where "account_id a \<equiv> us_id (ac_user a)"

abbreviation account_version :: "account \<Rightarrow> int" where "account_version a \<equiv> us_authVersion (ac_user a)"

datatype account_stmt =
    SetPasswordReset string string int
  | ResetPassword string string int
  | SetEmailVerification string string int
  | VerifyEmail string int
  | SetEmailChange string string string int
  | ApplyEmailChange string int
  | IncrementAuthVersion string

fun account_step :: "account_stmt \<Rightarrow> account list \<Rightarrow> account list" where
  "account_step (SetPasswordReset uid h e) accounts = setPasswordResetToken uid h e accounts"
| "account_step (ResetPassword h p now) accounts = snd (resetPasswordByToken h p now accounts)"
| "account_step (SetEmailVerification uid h e) accounts = setEmailVerificationToken uid h e accounts"
| "account_step (VerifyEmail h now) accounts = snd (verifyEmailByToken h now accounts)"
| "account_step (SetEmailChange uid p h e) accounts = setEmailChangeRequest uid p h e accounts"
| "account_step (ApplyEmailChange h now) accounts =
     (case applyEmailChangeByToken h now accounts of None \<Rightarrow> accounts | Some (a, accounts') \<Rightarrow> accounts')"
| "account_step (IncrementAuthVersion uid) accounts = snd (incrementAuthVersion uid accounts)"

definition keeps_row :: "(account \<Rightarrow> account) \<Rightarrow> bool" where
  "keeps_row f \<longleftrightarrow> (\<forall>a. account_id (f a) = account_id a \<and> ac_deleted (f a) = ac_deleted a \<and>
     account_version a \<le> account_version (f a))"

definition grown :: "account list \<Rightarrow> account list \<Rightarrow> bool" where
  "grown accounts accounts' \<longleftrightarrow> list_all2 (\<lambda>a a'. account_id a' = account_id a \<and> ac_deleted a' = ac_deleted a \<and>
     account_version a \<le> account_version a') accounts accounts'"

lemma grown_refl: "grown accounts accounts"
  by (simp add: grown_def list_all2_same)

lemma grown_trans: "grown xs ys \<Longrightarrow> grown ys zs \<Longrightarrow> grown xs zs"
  unfolding grown_def by (erule (1) list_all2_trans [rotated]) auto

lemma grown_update:
  assumes "keeps_row f"
  shows "grown accounts (snd (update_accounts P f accounts))"
  using assms unfolding grown_def update_accounts_def keeps_row_def
  by (auto simp: list_all2_map2 list_all2_same)

lemma grown_change:
  assumes "applyEmailChangeByToken h now accounts = Some (found, accounts')"
  shows "grown accounts accounts'"
proof -
  have "keeps_row email_changed" by (simp add: keeps_row_def email_changed_def bump_version_def)
  moreover have "accounts' = snd (update_accounts (change_matches h now) email_changed accounts)"
    using assms by (auto simp: applyEmailChangeByToken_def split: if_splits prod.splits)
  ultimately show ?thesis by (simp add: grown_update)
qed

lemma grown_step: "grown accounts (account_step op accounts)"
proof (cases op)
  case (ApplyEmailChange h now)
  then show ?thesis by (auto simp: grown_refl intro: grown_change split: option.split prod.split)
qed (simp_all add: setPasswordResetToken_def resetPasswordByToken_def setEmailVerificationToken_def verifyEmailByToken_def
    setEmailChangeRequest_def incrementAuthVersion_def bump_version_def keeps_row_def grown_update)

lemma grown_run: "grown accounts (fold account_step ops accounts)"
proof (induction ops arbitrary: accounts)
  case (Cons op ops)
  show ?case using grown_trans [OF grown_step Cons.IH] by simp
qed (simp add: grown_refl)

text \<open>A row that is found later was found before, with a smaller or equal version.\<close>

lemma grown_find:
  assumes "grown accounts accounts'" and "findById accounts' uid = Some u'"
  shows "\<exists>u. findById accounts uid = Some u \<and> us_authVersion u \<le> us_authVersion u'"
proof -
  let ?P = "\<lambda>a. account_id a = uid \<and> \<not> ac_deleted a"
  have "list_all2 (\<lambda>a a'. account_id a' = account_id a \<and> ac_deleted a' = ac_deleted a \<and>
     account_version a \<le> account_version a') accounts accounts' \<Longrightarrow> find ?P accounts' = Some a' \<Longrightarrow>
     \<exists>a. find ?P accounts = Some a \<and> account_version a \<le> account_version a'" for a'
    by (induction rule: list_all2_induct) (auto split: if_splits)
  then show ?thesis
    using assms unfolding grown_def findById_def find_account_def by fastforce
qed

section \<open>Signing out\<close>

text \<open>The three commands that end the sessions of a user, with what they take from their request and the clocks.\<close>

datatype sign_out =
    LogoutOf string int
  | ResetWith string string int int
  | ChangeEmailWith string int int

fun sign_out_step :: "'s auth_world \<Rightarrow> (string \<Rightarrow> string) \<Rightarrow> sign_out \<Rightarrow> account list \<times> 's \<Rightarrow> account list \<times> 's" where
  "sign_out_step w hash (LogoutOf uid t) st = snd (LogoutCommand w t uid st)"
| "sign_out_step w hash (ResetWith token pw t now) st = snd (ResetPasswordCommand w hash t now token pw st)"
| "sign_out_step w hash (ChangeEmailWith token t now) st = snd (VerifyEmailChangeCommand w t now token st)"

text \<open>The user a request signs out, if it succeeds.\<close>

fun signs_out :: "'s auth_world \<Rightarrow> (string \<Rightarrow> string) \<Rightarrow> sign_out \<Rightarrow> account list \<times> 's \<Rightarrow> string option" where
  "signs_out w hash (LogoutOf uid t) st = (case fst (LogoutCommand w t uid st) of Inl e \<Rightarrow> None | Inr _ \<Rightarrow> Some uid)"
| "signs_out w hash (ResetWith token pw t now) st =
     map_option account_id (fst (resetPasswordByToken (aw_sha256 w token) (hash pw) now (fst st)))"
| "signs_out w hash (ChangeEmailWith token t now) st =
     (case fst (VerifyEmailChangeCommand w t now token st) of Inl e \<Rightarrow> None | Inr u \<Rightarrow> Some (us_id u))"

definition accounts_ok :: "account list \<Rightarrow> bool" where
  "accounts_ok accounts \<longleftrightarrow> distinct (map account_id accounts)"

lemma find_map_row:
  assumes "\<And>a. account_id (f a) = account_id a \<and> ac_deleted (f a) = ac_deleted a"
  shows "find (\<lambda>a. account_id a = uid \<and> \<not> ac_deleted a) (map f accounts) =
    map_option f (find (\<lambda>a. account_id a = uid \<and> \<not> ac_deleted a) accounts)"
  using assms by (induction accounts) auto

text \<open>A statement that raises the version of the rows it touches raises that of the row it returns.\<close>

lemma update_raises:
  assumes f: "\<And>a. account_id (f a) = account_id a \<and> ac_deleted (f a) = ac_deleted a \<and> account_version (f a) = account_version a + 1"
    and ids: "accounts_ok accounts"
    and upd: "update_accounts P f accounts = (Some b, accounts')" and b: "account_id b = uid"
    and u: "findById accounts uid = Some u"
  shows "\<exists>u'. findById accounts' uid = Some u' \<and> us_authVersion u' = us_authVersion u + 1"
proof -
  obtain a where a: "find P accounts = Some a" "b = f a" and acc: "accounts' = map (\<lambda>a. if P a then f a else a) accounts"
    using upd by (auto simp: update_accounts_def find_account_def)
  have aid: "account_id a = uid" using a(2) b f [of a] by simp
  obtain c where c: "find (\<lambda>a. account_id a = uid \<and> \<not> ac_deleted a) accounts = Some c" "ac_user c = u"
    using u by (auto simp: findById_def find_account_def)
  have "c = a"
    using find_in [OF c(1)] find_in [OF a(1)] ids aid by (auto simp: accounts_ok_def distinct_map dest: inj_onD)
  then have "P c" using find_in [OF a(1)] by simp
  have "find (\<lambda>a. account_id a = uid \<and> \<not> ac_deleted a) accounts' = Some (if P c then f c else c)"
    unfolding acc by (subst find_map_row) (use f c in auto)
  with \<open>P c\<close> have "findById accounts' uid = Some (ac_user (f c))"
    by (simp add: findById_def find_account_def)
  then show ?thesis using f [of c] c(2) by simp
qed

lemma sign_out_raises:
  assumes ids: "accounts_ok accounts" and out: "signs_out w hash req (accounts, s) = Some uid"
    and u: "findById accounts uid = Some u"
  shows "\<exists>u'. findById (fst (sign_out_step w hash req (accounts, s))) uid = Some u' \<and> us_authVersion u < us_authVersion u'"
proof -
  have raise: ?thesis
    if "update_accounts P f accounts = (Some b, accounts')" "account_id b = uid"
      and "\<And>a. account_id (f a) = account_id a \<and> ac_deleted (f a) = ac_deleted a \<and> account_version (f a) = account_version a + 1"
      and "fst (sign_out_step w hash req (accounts, s)) = accounts'" for P f b accounts'
    using update_raises [OF that(3) ids that(1,2) u] that(4) by fastforce
  show ?thesis
  proof (cases req)
    case (LogoutOf uid' t)
    obtain found accounts' where inc: "incrementAuthVersion uid' accounts = (found, accounts')" by fastforce
    with out LogoutOf obtain b where b: "found = Some b" "uid' = uid"
      by (cases found) (auto simp: LogoutCommand_def)
    have P: "account_id b = uid"
      using inc b by (auto simp: incrementAuthVersion_def update_accounts_def find_account_def bump_version_def dest: find_in)
    show ?thesis
      by (rule raise [OF inc [unfolded b incrementAuthVersion_def] P])
         (use inc b LogoutOf in \<open>auto simp: bump_version_def LogoutCommand_def\<close>)
  next
    case (ResetWith token pw t now)
    obtain b accounts' where res: "resetPasswordByToken (aw_sha256 w token) (hash pw) now accounts = (Some b, accounts')"
      using out ResetWith by (cases "resetPasswordByToken (aw_sha256 w token) (hash pw) now accounts") auto
    have P: "account_id b = uid" using out ResetWith res by simp
    show ?thesis
      by (rule raise [OF res [unfolded resetPasswordByToken_def] P])
         (use res ResetWith in \<open>auto simp: bump_version_def ResetPasswordCommand_def\<close>)
  next
    case (ChangeEmailWith token t now)
    obtain b accounts' where app: "applyEmailChangeByToken (aw_sha256 w token) now accounts = Some (Some b, accounts')"
      using out ChangeEmailWith by (auto simp: VerifyEmailChangeCommand_def split: option.splits prod.splits)
    have P: "account_id b = uid" using out ChangeEmailWith app by (simp add: VerifyEmailChangeCommand_def)
    have upd: "update_accounts (change_matches (aw_sha256 w token) now) email_changed accounts = (Some b, accounts')"
      using app by (auto simp: applyEmailChangeByToken_def split: if_splits prod.splits)
    show ?thesis
      by (rule raise [OF upd P])
         (use app ChangeEmailWith in \<open>auto simp: bump_version_def email_changed_def VerifyEmailChangeCommand_def\<close>)
  qed
qed

lemma version_refused:
  assumes "accounts_ok accounts" and "signs_out w hash req (accounts, s) = Some uid"
    and "findById accounts uid = Some u" and "v \<le> us_authVersion u"
    and "sign_out_step w hash req (accounts, s) = (accounts1, s1)"
    and "findById (fold account_step ops accounts1) uid = Some u'"
  shows "v < us_authVersion u'"
proof -
  obtain u1 where "findById accounts1 uid = Some u1" "us_authVersion u1 \<le> us_authVersion u'"
    using grown_find [OF grown_run assms(6)] by auto
  moreover obtain u2 where "findById accounts1 uid = Some u2" "us_authVersion u < us_authVersion u2"
    using sign_out_raises [OF assms(1-3)] assms(5) by auto
  ultimately show ?thesis using assms(4) by simp
qed

lemma stale_version_invalid:
  assumes "\<And>u'. users uid = Some u' \<Longrightarrow> v < us_authVersion u'"
  shows "\<not> verifyUserAuthVersion users (JStr uid) (JNum v)"
  using assms by (fastforce simp: verifyUserAuthVersion_def split: option.splits)

lemma guard_refuses:
  assumes "verifyAccessToken lib env token = Some d" and "extractToken r = Some token" and "\<not> is_metrics_path r"
    and "\<not> verifyUserAuthVersion users (js_get d ''sub'') (js_get d ''authVersion'')"
  shows "AuthGuard_canActivate lib env m production users False r = Unauthorized"
  using assms by (simp add: AuthGuard_canActivate_def isMetricsAuthorized_def)

lemma refresh_refuses:
  assumes "verifyRefreshToken (aw_jwt w) (aw_env w) token = Some r"
    and "js_get r ''sub'' = JStr uid" and "js_get r ''version'' = JNum v"
    and "\<And>u'. findById accounts uid = Some u' \<Longrightarrow> v < us_authVersion u'"
  shows "snd (RefreshTokensCommand w accounts t jti token s) = s \<and>
    (\<forall>resp. fst (RefreshTokensCommand w accounts t jti token s) \<noteq> Some (Inr resp))"
proof (cases "findById accounts uid")
  case None
  then show ?thesis using assms(1-3) by (simp add: RefreshTokensCommand_def split: lookup.split)
next
  case (Some u')
  with assms(4) have "v < us_authVersion u'" by simp
  then show ?thesis using assms(1-3) Some by (simp add: RefreshTokensCommand_def split: lookup.split)
qed

text \<open>
  C12. Signing out is final for every token issued before it. Once a logout, a password reset or a
  change of the address succeeded for a user, an access token that carries a version up to the one
  of that moment is refused by the guard on every route that is not public, and a refresh token of
  such a version gets no tokens and changes nothing, whatever happens to the user table afterwards
  and whatever is in the session store: revocation does not depend on Redis.
\<close>

theorem signed_out_tokens_refused:
  assumes "accounts_ok accounts" and "signs_out w hash req (accounts, s) = Some uid"
    and "findById accounts uid = Some u" and "v \<le> us_authVersion u"
    and "sign_out_step w hash req (accounts, s) = (accounts1, s1)"
    and "verifyAccessToken (aw_jwt w) (aw_env w) atoken = Some a"
    and "js_get a ''sub'' = JStr uid" and "js_get a ''authVersion'' = JNum v"
    and "extractToken r = Some atoken" and "\<not> is_metrics_path r"
    and "verifyRefreshToken (aw_jwt w) (aw_env w) rtoken = Some f"
    and "js_get f ''sub'' = JStr uid" and "js_get f ''version'' = JNum v"
  shows "AuthGuard_canActivate (aw_jwt w) (aw_env w) m production (findById (fold account_step ops accounts1)) False r = Unauthorized \<and>
    snd (RefreshTokensCommand w (fold account_step ops accounts1) t jti rtoken s2) = s2 \<and>
    (\<forall>resp. fst (RefreshTokensCommand w (fold account_step ops accounts1) t jti rtoken s2) \<noteq> Some (Inr resp))"
proof -
  note stale = version_refused [OF assms(1-5), of ops]
  have "\<not> verifyUserAuthVersion (findById (fold account_step ops accounts1)) (js_get a ''sub'') (js_get a ''authVersion'')"
    unfolding assms(7,8) by (rule stale_version_invalid [OF stale])
  with guard_refuses [OF assms(6,9,10)] refresh_refuses [OF assms(11-13) stale] show ?thesis by simp
qed

section \<open>Keys, signatures and an example\<close>

text \<open>
  What the JWT library promises of one token: until it expires it verifies under the secret that
  signed it, and its header shows the key id.
\<close>

definition jwt_law :: "jwt_lib \<Rightarrow> js \<Rightarrow> string \<Rightarrow> string \<Rightarrow> bool" where
  "jwt_law lib p secret kid \<longleftrightarrow> jwt_verify lib (jwt_sign lib p secret kid) secret = Some p \<and>
     jwt_kid lib (jwt_sign lib p secret kid) = Some kid"

text \<open>The active key can sign: it has an id and, where keys are configured, it is one of them.\<close>

definition keyring_ok :: "jwt_keyring \<Rightarrow> bool" where
  "keyring_ok kr \<longleftrightarrow> activeKeyId kr \<noteq> [] \<and> (\<exists>secret. map_of (keys kr) (activeKeyId kr) = Some secret \<and> secret \<noteq> [])"

lemma signed_verifies:
  assumes "jwt_law lib p (signing_secret kr) (activeKeyId kr)" and "keyring_ok kr"
  shows "verifyJwtWithKeyring lib (jwt_sign lib p (signing_secret kr) (activeKeyId kr)) kr = Some p"
  using assms by (auto simp: jwt_law_def keyring_ok_def verifyJwtWithKeyring_def verificationSecrets_def signing_secret_def)

definition access_payload :: "user \<Rightarrow> js" where
  "access_payload u = JObj [(''sub'', JStr (us_id u)), (''email'', JStr (us_email u)), (''name'', JStr (us_name u)),
     (''role'', JStr (us_role u)), (''authVersion'', JNum (us_authVersion u))]"

definition refresh_law :: "jwt_lib \<Rightarrow> jwt_env \<Rightarrow> js \<Rightarrow> bool" where
  "refresh_law lib env p \<longleftrightarrow> keyring_ok (getJwtKeyring env Refresh) \<and>
     jwt_law lib p (signing_secret (getJwtKeyring env Refresh)) (activeKeyId (getJwtKeyring env Refresh))"

lemma refresh_roundtrip:
  assumes "refresh_law lib env (refresh_payload uid version sid jti)"
  shows "verifyRefreshToken lib env (signRefreshToken lib env uid version sid jti) = Some (refresh_payload uid version sid jti)"
proof -
  have "verifyJwtWithKeyring lib (signRefreshToken lib env uid version sid jti) (getJwtKeyring env Refresh) =
      Some (refresh_payload uid version sid jti)"
    unfolding signRefreshToken_def Let_def
    by (rule signed_verifies) (use assms in \<open>simp_all add: refresh_law_def\<close>)
  then show ?thesis by (simp add: verifyRefreshToken_def isRefreshTokenPayload_def refresh_payload_def)
qed

lemma access_roundtrip:
  assumes "jwt_law lib (access_payload u) (signing_secret (getJwtKeyring env Access)) (activeKeyId (getJwtKeyring env Access))"
    and "keyring_ok (getJwtKeyring env Access)" and "us_role u \<in> {''admin'', ''user''}"
  shows "verifyAccessToken lib env (signAccessToken lib env u) = Some (access_payload u)"
  using signed_verifies [OF assms(1,2)] assms(3)
  by (auto simp: verifyAccessToken_def signAccessToken_def Let_def isAuthenticatedUser_def access_payload_def)

section \<open>One token, one use\<close>

lemma payload_fields [simp]:
  "js_get (refresh_payload uid v sid jti) ''sub'' = JStr uid" "js_get (refresh_payload uid v sid jti) ''version'' = JNum v"
  "js_get (refresh_payload uid v sid jti) ''jti'' = JStr jti" "js_get (refresh_payload uid v sid jti) ''sid'' = JStr sid"
  by (simp_all add: refresh_payload_def)

text \<open>A session as \<open>create\<close> stores it, owned by the user the token names.\<close>

definition session_of :: "string \<Rightarrow> string \<Rightarrow> js \<Rightarrow> bool" where
  "session_of uid sid session \<longleftrightarrow> js_get session ''userId'' = JStr uid \<and> js_get session ''id'' = JStr sid"

lemma findById_id: "findById accounts uid = Some u \<Longrightarrow> us_id u = uid"
  by (auto simp: findById_def find_account_def dest: find_in)

lemma refresh_rotates:
  assumes "verifyRefreshToken (aw_jwt w) (aw_env w) tok = Some (refresh_payload uid (us_authVersion u) sid jti)"
    and "getRefreshSession (aw_db w) (aw_connected w) t sid s = Found session" and "session_of uid sid session"
    and "findById accounts uid = Some u"
  shows "RefreshTokensCommand w accounts t newJti tok s =
    (case rotateSessionRefresh (aw_db w) (aw_connected w) t uid sid jti newJti s of
       (rotated, s') \<Rightarrow> (Some (Inr (tokens_for w u sid newJti)), s')
     | (reused, s') \<Rightarrow> (Some (Inl INVALID_TOKEN), revoke (aw_db w) (aw_connected w) t sid s')
     | (unavailable, s') \<Rightarrow> (Some (Inl INVALID_TOKEN), s'))"
  using assms findById_id [OF assms(4)]
  by (simp add: RefreshTokensCommand_def session_of_def split: prod.split rotation.split)

lemma refresh_without_session:
  assumes "verifyRefreshToken (aw_jwt w) (aw_env w) tok = None \<or>
      (\<exists>r. verifyRefreshToken (aw_jwt w) (aw_env w) tok = Some r \<and> js_get r ''sid'' = JStr sid)"
    and "getRefreshSession (aw_db w) (aw_connected w) t sid s = Missing"
  shows "RefreshTokensCommand w accounts t newJti tok s = (Some (Inl INVALID_TOKEN), s)"
  using assms by (auto simp: RefreshTokensCommand_def)

definition unspent :: "'s session_db \<Rightarrow> int \<Rightarrow> string \<Rightarrow> string \<Rightarrow> string \<Rightarrow> 's \<Rightarrow> bool" where
  "unspent D t uid sid jti s \<longleftrightarrow> d_get D t s (usedKey uid sid jti) = None \<and>
     d_get D t s (familyKey uid sid) \<in> {None, Some (NotJson jti)}"

definition rotated_store :: "'s session_db \<Rightarrow> int \<Rightarrow> string \<Rightarrow> string \<Rightarrow> string \<Rightarrow> string \<Rightarrow> 's \<Rightarrow> 's" where
  "rotated_store D t uid sid jti newJti s =
     d_setex D t (d_setex D t s (familyKey uid sid) (NotJson newJti) (d_ttl D t s (sessionKey sid)))
       (usedKey uid sid jti) one_marker (d_ttl D t s (sessionKey sid))"

lemma rotate_unspent:
  assumes "unspent D t uid sid jti s" and "0 < d_ttl D t s (sessionKey sid)"
  shows "rotateSessionRefresh D True t uid sid jti newJti s = (rotated, rotated_store D t uid sid jti newJti s)"
  using assms by (auto simp: rotateSessionRefresh_def ROTATE_REFRESH_SCRIPT_def unspent_def rotated_store_def Let_def)

lemma rotated_views:
  assumes "session_db_ok D"
  shows "d_view D (rotated_store D t uid sid jti newJti s) (sessionKey i) = d_view D s (sessionKey i)"
    and "d_view D (rotated_store D t uid sid jti newJti s) (tokenRevocationKey i) = d_view D s (tokenRevocationKey i)"
    and "d_view D (rotated_store D t uid sid jti newJti s) (usedKey uid sid jti) =
      Some (one_marker, Some (t + d_ttl D t s (sessionKey sid) * 1000))"
    and "d_view D (rotated_store D t uid sid jti newJti s) (familyKey uid sid) =
      Some (NotJson newJti, Some (t + d_ttl D t s (sessionKey sid) * 1000))"
    and "newJti \<noteq> jti \<Longrightarrow> d_view D (rotated_store D t uid sid jti newJti s) (usedKey uid sid newJti) =
      d_view D s (usedKey uid sid newJti)"
proof -
  have used: "usedKey uid sid newJti = usedKey uid sid jti \<longleftrightarrow> newJti = jti" by (simp add: usedKey_def)
  show "d_view D (rotated_store D t uid sid jti newJti s) (sessionKey i) = d_view D s (sessionKey i)"
    "d_view D (rotated_store D t uid sid jti newJti s) (tokenRevocationKey i) = d_view D s (tokenRevocationKey i)"
    "d_view D (rotated_store D t uid sid jti newJti s) (usedKey uid sid jti) =
      Some (one_marker, Some (t + d_ttl D t s (sessionKey sid) * 1000))"
    "d_view D (rotated_store D t uid sid jti newJti s) (familyKey uid sid) =
      Some (NotJson newJti, Some (t + d_ttl D t s (sessionKey sid) * 1000))"
    "newJti \<noteq> jti \<Longrightarrow> d_view D (rotated_store D t uid sid jti newJti s) (usedKey uid sid newJti) =
      d_view D s (usedKey uid sid newJti)"
    by (simp_all add: rotated_store_def session_views(3) [OF assms] used)
qed

text \<open>A session that \<open>TTL\<close> still reports at \<open>t2\<close> is found until then, before and after a rotation.\<close>

lemma ttl_deadline:
  assumes "session_db_ok D" and "0 < d_ttl D t s k"
  obtains v d where "d_view D s k = Some (v, Some d)" "500 \<le> d - t" "d_ttl D t s k = (d - t + 500) div 1000"
proof -
  obtain v d where v: "unexpired t (d_view D s k) = Some (v, Some d)" "d_ttl D t s k = (d - t + 500) div 1000"
    using assms(2) by (auto simp: session_views(2) [OF assms(1)] split: option.splits prod.splits)
  then have "d_view D s k = Some (v, Some d)"
    by (auto simp: unexpired_def split: option.splits prod.splits if_splits)
  moreover have "500 \<le> d - t" using assms(2) v(2) by linarith
  ultimately show ?thesis using that v(2) by simp
qed

lemma refresh_session_cong:
  assumes "session_db_ok D" and "d_view D s' (sessionKey sid) = d_view D s (sessionKey sid)"
    and "d_view D s' (tokenRevocationKey sid) = d_view D s (tokenRevocationKey sid)"
  shows "getRefreshSession D True t sid s' = getRefreshSession D True t sid s"
  using assms(2,3) by (simp add: getRefreshSession_def isRevoked_def getById_def session_views(1) [OF assms(1)])

lemma refresh_session_later:
  assumes db: "session_db_ok D" and "getRefreshSession D True t sid s = Found session"
    and "t \<le> t2" and "0 < d_ttl D t2 s (sessionKey sid)"
  shows "getRefreshSession D True t2 sid s = Found session"
proof -
  obtain v d where v: "d_view D s (sessionKey sid) = Some (v, Some d)" "500 \<le> d - t2"
    using ttl_deadline [OF db assms(4)] by metis
  then have same: "d_get D t2 s (sessionKey sid) = d_get D t s (sessionKey sid)"
    using assms(3) by (simp add: session_views(1) [OF db] unexpired_def)
  have "\<not> isRevoked D True t2 sid s"
  proof
    assume "isRevoked D True t2 sid s"
    then obtain x where "unexpired t2 (d_view D s (tokenRevocationKey sid)) = Some (one_marker, x)"
      by (auto simp: isRevoked_def session_views(1) [OF db])
    then have "unexpired t (d_view D s (tokenRevocationKey sid)) = Some (one_marker, x)"
      by (rule unexpired_later [OF assms(3)])
    then have "isRevoked D True t sid s" by (simp add: isRevoked_def session_views(1) [OF db])
    with assms(2) show False by (simp add: getRefreshSession_def)
  qed
  then show ?thesis using assms(2) same by (simp add: getRefreshSession_def getById_def split: if_splits)
qed

lemma revoked_missing:
  assumes "session_db_ok D" and "getRefreshSession D True t sid s = Found session"
  shows "getRefreshSession D True t3 sid (revoke D True t sid s) = Missing"
proof -
  have "getById D True t sid s = Found session" using assms(2) by (simp add: getRefreshSession_def split: if_splits)
  then have "d_view D (revoke D True t sid s) (sessionKey sid) = None"
    by (simp add: revoke_def Let_def session_views [OF assms(1)])
  then show ?thesis by (simp add: getRefreshSession_def getById_def session_views(1) [OF assms(1)] unexpired_def)
qed

text \<open>
  C23. A refresh token buys one refresh. While its session has time left, an unspent token of the
  user's current version is exchanged for an access token and a new refresh token of the same
  session, and the new one can be exchanged in its turn. If instead the old one is presented a
  second time, both its holders lose: the call gets \<open>INVALID_TOKEN\<close>, and from then on every
  token of the session, the one issued last included, gets \<open>INVALID_TOKEN\<close> and changes nothing.
\<close>

theorem refresh_reuse_kills_session:
  assumes "session_db_ok (aw_db w)" and "aw_connected w"
    and "verifyRefreshToken (aw_jwt w) (aw_env w) tok = Some (refresh_payload uid (us_authVersion u) sid jti)"
    and "getRefreshSession (aw_db w) True t sid s = Found session" and "session_of uid sid session"
    and "findById accounts uid = Some u" and "unspent (aw_db w) t uid sid jti s"
    and "0 < d_ttl (aw_db w) t s (sessionKey sid)"
    and "refresh_law (aw_jwt w) (aw_env w) (refresh_payload uid (us_authVersion u) sid newJti)"
    and "newJti \<noteq> jti" and "d_get (aw_db w) t2 s (usedKey uid sid newJti) = None"
    and "t \<le> t2" and "0 < d_ttl (aw_db w) t2 s (sessionKey sid)"
    and "RefreshTokensCommand w accounts t newJti tok s = (r1, s1)"
    and "RefreshTokensCommand w accounts t2 jti2 tok s1 = (r2, s2)"
  shows "r1 = Some (Inr (tokens_for w u sid newJti)) \<and>
    fst (RefreshTokensCommand w accounts t2 jti3 (ar_refreshToken (tokens_for w u sid newJti)) s1) =
      Some (Inr (tokens_for w u sid jti3)) \<and>
    r2 = Some (Inl INVALID_TOKEN) \<and>
    (\<forall>accounts3 t3 jti4 tok3 p. verifyRefreshToken (aw_jwt w) (aw_env w) tok3 = Some p \<longrightarrow> js_get p ''sid'' = JStr sid \<longrightarrow>
       RefreshTokensCommand w accounts3 t3 jti4 tok3 s2 = (Some (Inl INVALID_TOKEN), s2))"
proof -
  let ?D = "aw_db w"
  note db = assms(1) and views = rotated_views [OF assms(1), where t = t and uid = uid and sid = sid and jti = jti and newJti = newJti and s = s]
  have "RefreshTokensCommand w accounts t newJti tok s =
      (Some (Inr (tokens_for w u sid newJti)), rotated_store ?D t uid sid jti newJti s)"
    using refresh_rotates [OF assms(3) _ assms(5,6)] assms(2,4) rotate_unspent [OF assms(7,8)] by simp
  with assms(14) have r1: "r1 = Some (Inr (tokens_for w u sid newJti))" and s1: "s1 = rotated_store ?D t uid sid jti newJti s"
    by simp_all
  have found: "getRefreshSession ?D True t2 sid s1 = Found session"
    unfolding s1 refresh_session_cong [OF db views(1,2)]
    by (rule refresh_session_later [OF db assms(4,12,13)])
  obtain v d where d: "d_view ?D s (sessionKey sid) = Some (v, Some d)" "500 \<le> d - t"
      "d_ttl ?D t s (sessionKey sid) = (d - t + 500) div 1000"
    by (rule ttl_deadline [OF db assms(8)])
  obtain v2 d2 where "d_view ?D s (sessionKey sid) = Some (v2, Some d2)" "500 \<le> d2 - t2"
    by (rule ttl_deadline [OF db assms(13)])
  with d have alive: "t2 < t + d_ttl ?D t s (sessionKey sid) * 1000" by simp
  have used: "d_get ?D t2 s1 (usedKey uid sid jti) \<noteq> None"
    using alive by (simp add: s1 session_views(1) [OF db] views(3) unexpired_def)
  have family: "d_get ?D t2 s1 (familyKey uid sid) = Some (NotJson newJti)"
    using alive by (simp add: s1 session_views(1) [OF db] views(4) unexpired_def)
  have new: "d_get ?D t2 s1 (usedKey uid sid newJti) = None"
    using assms(11) by (simp add: s1 session_views(1) [OF db] views(5) [OF assms(10)])
  have ttl: "0 < d_ttl ?D t2 s1 (sessionKey sid)"
    using assms(13) by (simp add: s1 session_views(2) [OF db] views(1))
  have "unspent ?D t2 uid sid newJti s1" using family new by (simp add: unspent_def)
  from rotate_unspent [OF this ttl] have r3: "fst (RefreshTokensCommand w accounts t2 jti3
      (ar_refreshToken (tokens_for w u sid newJti)) s1) = Some (Inr (tokens_for w u sid jti3))"
    using refresh_rotates [OF refresh_roundtrip [OF assms(9)] _ assms(5,6)] assms(2) found findById_id [OF assms(6)]
    by (simp add: tokens_for_def)
  have "rotateSessionRefresh ?D True t2 uid sid jti jti2 s1 = (reused, s1)"
    using ttl used by (auto simp: rotateSessionRefresh_def ROTATE_REFRESH_SCRIPT_def)
  then have "r2 = Some (Inl INVALID_TOKEN)" and s2: "s2 = revoke ?D True t2 sid s1"
    using refresh_rotates [OF assms(3) _ assms(5,6)] assms(2,15) found by simp_all
  moreover have missing: "getRefreshSession ?D (aw_connected w) t3 sid s2 = Missing" for t3
    using revoked_missing [OF db found] assms(2) by (simp add: s2)
  have "RefreshTokensCommand w accounts3 t3 jti4 tok3 s2 = (Some (Inl INVALID_TOKEN), s2)"
    if "verifyRefreshToken (aw_jwt w) (aw_env w) tok3 = Some p" "js_get p ''sid'' = JStr sid" for accounts3 t3 jti4 tok3 p
    by (rule refresh_without_session [OF _ missing]) (use that in simp)
  ultimately show ?thesis using r1 r3 by simp
qed

text \<open>A library that knows the tokens of one user, for the examples.\<close>

definition demo_jwt :: jwt_lib where
  "demo_jwt = \<lparr>jwt_verify = (\<lambda>tok secret. if secret \<noteq> ''k'' then None
       else (case tok of [] \<Rightarrow> None
             | c # j \<Rightarrow> Some (if c = CHR ''r'' then refresh_payload ''u'' 0 ''s'' j
                 else JObj [(''sub'', JStr ''u''), (''email'', JStr ''e''), (''role'', JStr ''user''), (''authVersion'', JNum 0)]))),
     jwt_kid = (\<lambda>tok. Some ''1''),
     jwt_sign = (\<lambda>p secret kid. case js_get p ''jti'' of JStr j \<Rightarrow> ''r'' @ j | _ \<Rightarrow> ''a'')\<rparr>"

definition demo_env :: jwt_env where
  "demo_env = \<lparr>JWT_ACTIVE_KEY_ID = ''1'', JWT_SECRET = ''k'', JWT_SIGNING_KEYS = None,
     JWT_REFRESH_ACTIVE_KEY_ID = ''1'', JWT_REFRESH_SECRET = ''k'', JWT_REFRESH_SIGNING_KEYS = None\<rparr>"

definition demo_auth :: "demo_store auth_world" where
  "demo_auth = \<lparr>aw_jwt = demo_jwt, aw_env = demo_env, aw_db = demo_db, aw_connected = True, aw_ttl = 3600,
     aw_argon = (\<lambda>h p. h = p), aw_sha256 = (\<lambda>x. x)\<rparr>"

definition demo_user :: user where
  "demo_user = \<lparr>us_id = ''u'', us_email = ''e'', us_name = ''n'', us_role = ''user'', us_avatarFileId = None,
     us_authVersion = 0, us_isEmailVerified = True\<rparr>"

definition demo_account :: account where
  "demo_account = \<lparr>ac_user = demo_user, ac_passwordHash = ''p'', ac_resetTokenHash = None, ac_resetExpiresAt = None,
     ac_verificationTokenHash = None, ac_verificationExpiresAt = None, ac_pendingEmail = None,
     ac_emailChangeTokenHash = None, ac_emailChangeExpiresAt = None, ac_deleted = False\<rparr>"

definition demo_live :: demo_store where
  "demo_live = ([''session:s'' \<mapsto> (Json (JObj [(''id'', JStr ''s''), (''userId'', JStr ''u'')]), Some 100000)], \<lambda>_. None)"

lemmas demo_defs = demo_auth_def demo_jwt_def demo_env_def demo_user_def demo_account_def

lemma demo_token: "verifyRefreshToken (aw_jwt demo_auth) (aw_env demo_auth) (''r'' @ j) = Some (refresh_payload ''u'' 0 ''s'' j)"
  by (simp add: demo_auth_def demo_jwt_def demo_env_def verifyRefreshToken_def verifyJwtWithKeyring_def verificationSecrets_def
      getJwtKeyring_def Let_def isRefreshTokenPayload_def) (simp add: refresh_payload_def)

lemma demo_accounts: "findById [demo_account] ''u'' = Some demo_user" "us_authVersion demo_user = 0" "accounts_ok [demo_account]"
  by (simp_all add: findById_def find_account_def demo_account_def demo_user_def accounts_ok_def)

lemma demo_law: "refresh_law (aw_jwt demo_auth) (aw_env demo_auth) (refresh_payload ''u'' 0 ''s'' j)"
  by (simp add: refresh_law_def demo_auth_def demo_jwt_def demo_env_def keyring_ok_def getJwtKeyring_def Let_def jwt_law_def signing_secret_def)

lemma demo_stored:
  "t < 100000 \<Longrightarrow> getRefreshSession demo_db True t ''s'' demo_live = Found (JObj [(''id'', JStr ''s''), (''userId'', JStr ''u'')])"
  "t < 99000 \<Longrightarrow> 0 < d_ttl demo_db t demo_live (sessionKey ''s'')"
  "d_get demo_db t demo_live (usedKey ''u'' ''s'' j) = None" "d_get demo_db t demo_live (familyKey ''u'' ''s'') = None"
  by (simp_all add: getRefreshSession_def isRevoked_def getById_def demo_db_def demo_live_def unexpired_def sessionKey_def
      SESSION_PREFIX_def tokenRevocationKey_def TOKEN_REVOCATION_PREFIX_def usedKey_def REFRESH_USED_PREFIX_def
      familyKey_def REFRESH_FAMILY_PREFIX_def)

theorem refresh_reuse_kills_session_witness:
  "case RefreshTokensCommand demo_auth [demo_account] 0 ''b'' (''r'' @ ''a'') demo_live of (r1, s1) \<Rightarrow>
   case RefreshTokensCommand demo_auth [demo_account] 1000 ''c'' (''r'' @ ''a'') s1 of (r2, s2) \<Rightarrow>
     r1 = Some (Inr (tokens_for demo_auth demo_user ''s'' ''b'')) \<and> r2 = Some (Inl INVALID_TOKEN) \<and>
     RefreshTokensCommand demo_auth [demo_account] 2000 ''d'' (''r'' @ ''b'') s2 = (Some (Inl INVALID_TOKEN), s2)"
proof -
  obtain r1 s1 where 1: "RefreshTokensCommand demo_auth [demo_account] 0 ''b'' (''r'' @ ''a'') demo_live = (r1, s1)"
    by (rule prod.exhaust)
  obtain r2 s2 where 2: "RefreshTokensCommand demo_auth [demo_account] 1000 ''c'' (''r'' @ ''a'') s1 = (r2, s2)"
    by (rule prod.exhaust)
  have w: "aw_db demo_auth = demo_db" "aw_connected demo_auth" by (simp_all add: demo_auth_def)
  have "session_of ''u'' ''s'' (JObj [(''id'', JStr ''s''), (''userId'', JStr ''u'')])" by (simp add: session_of_def)
  from refresh_reuse_kills_session [where w = demo_auth and tok = "''r'' @ ''a''" and uid = "''u''" and u = demo_user
      and sid = "''s''" and jti = "''a''" and t = 0 and s = demo_live and accounts = "[demo_account]" and newJti = "''b''"
      and ?t2.0 = 1000 and ?jti2.0 = "''c''", unfolded w(1) demo_accounts(2), OF demo_db_ok w(2) demo_token demo_stored(1) this
      demo_accounts(1) _ demo_stored(2) demo_law _ demo_stored(3) _ demo_stored(2) 1 2]
  have "r1 = Some (Inr (tokens_for demo_auth demo_user ''s'' ''b'')) \<and> r2 = Some (Inl INVALID_TOKEN) \<and>
      (\<forall>accounts3 t3 jti4 tok3 p. verifyRefreshToken (aw_jwt demo_auth) (aw_env demo_auth) tok3 = Some p \<longrightarrow>
         js_get p ''sid'' = JStr ''s'' \<longrightarrow>
         RefreshTokensCommand demo_auth accounts3 t3 jti4 tok3 s2 = (Some (Inl INVALID_TOKEN), s2))"
    by (simp add: unspent_def demo_stored)
  moreover have "js_get (refresh_payload ''u'' 0 ''s'' ''b'') ''sid'' = JStr ''s''" by simp
  ultimately show ?thesis using 1 2 demo_token [of "''b''"] by simp
qed

theorem signed_out_tokens_refused_witness:
  "case sign_out_step demo_auth (\<lambda>p. p) (LogoutOf ''u'' 0) ([demo_account], demo_live) of (accounts1, s1) \<Rightarrow>
     AuthGuard_canActivate demo_jwt demo_env None True (findById accounts1) False
       \<lparr>hc_authorization = Some ''Bearer a'', hc_access_cookie = None, hc_url = Some ''/users''\<rparr> = Unauthorized \<and>
     snd (RefreshTokensCommand demo_auth accounts1 0 ''j'' (''r'' @ ''a'') s1) = s1"
proof -
  let ?req = "\<lparr>hc_authorization = Some ''Bearer a'', hc_access_cookie = None, hc_url = Some ''/users''\<rparr>"
  let ?p = "JObj [(''sub'', JStr ''u''), (''email'', JStr ''e''), (''role'', JStr ''user''), (''authVersion'', JNum 0)]"
  obtain accounts1 s1 where 1: "sign_out_step demo_auth (\<lambda>p. p) (LogoutOf ''u'' 0) ([demo_account], demo_live) = (accounts1, s1)"
    by (rule prod.exhaust)
  have out: "signs_out demo_auth (\<lambda>p. p) (LogoutOf ''u'' 0) ([demo_account], demo_live) = Some ''u''"
    by (simp add: LogoutCommand_def incrementAuthVersion_def update_accounts_def find_account_def demo_account_def demo_user_def)
  have a: "verifyAccessToken (aw_jwt demo_auth) (aw_env demo_auth) ''a'' = Some ?p"
    by (simp add: verifyAccessToken_def verifyJwtWithKeyring_def verificationSecrets_def getJwtKeyring_def Let_def
        isAuthenticatedUser_def demo_auth_def demo_jwt_def demo_env_def)
  have r: "extractToken ?req = Some ''a''" "\<not> is_metrics_path ?req"
    by (simp_all add: extractToken_def is_metrics_path_def METRICS_PATH_def starts_with_def)
  from signed_out_tokens_refused [where w = demo_auth and v = 0 and accounts = "[demo_account]" and s = demo_live
      and a = ?p and r = ?req and f = "refresh_payload ''u'' 0 ''s'' ''a''" and ops = "[]" and m = None and production = True,
      OF demo_accounts(3) out demo_accounts(1) _ 1 a _ _ r demo_token]
  show ?thesis using 1 by (simp add: demo_accounts(2) demo_auth_def)
qed

text \<open>
  A deleted account hides its successor: the lookup by address does not leave out deleted rows, so
  that whoever registers again after deleting an account is refused with the right password as long
  as the database returns the old row first.
\<close>

lemma deleted_row_shadows_login:
  assumes "ac_deleted old" and "us_email (ac_user old) = email"
    and "\<forall>a\<in>set accounts. account_id a \<noteq> account_id old"
  shows "verify_user_credentials w (old # accounts) email password = None"
proof -
  have "findById (old # accounts) (account_id old) = None"
    using assms(1,3) by (auto simp: findById_def find_account_def find_None_iff)
  then show ?thesis using assms(2)
    by (simp add: verify_user_credentials_def findByEmailWithPassword_def find_account_def)
qed

end
