(* ===== verification/Transactions.thy ===== *)
theory Transactions
  imports Prelude
begin

text \<open>
  Units of work (\<open>infrastructure/database/database.service.ts\<close> and
  \<open>infrastructure/database/transactions/\<close>): the outermost transaction, savepoints for
  nested units, callbacks that wait for the commit, tenant and system scopes, advisory locks.

  The code runs SQL commands on one connection. What the commands mean is PostgreSQL's
  documented behaviour: a failing statement breaks the transaction, in a broken transaction
  every command but \<open>ROLLBACK TO SAVEPOINT\<close> fails, and \<open>COMMIT\<close> of a broken transaction
  rolls back without an error. \<open>set_config(.., true)\<close> and transaction-level advisory locks
  are undone with the savepoint they follow.

  A method is an action: a function from the world to an outcome and the next world. The
  world holds the rows every other connection sees, the session of the open transaction, the
  request store (CLS), the queue of callbacks and the log of the callbacks that ran.
\<close>

section \<open>Outcomes\<close>

datatype 'e tx_error = Business 'e | TRANSACTION_FAILED

text \<open>
  What a \<open>throw\<close> carries: an object with a \<open>type\<close>, as every error value of the modules
  is, or anything else (a driver error, an \<open>Error\<close>).
\<close>

datatype 'e thrown = ErrorObject "'e tx_error" | OtherError

datatype ('a, 'e) outcome = Return 'a | Throw "'e thrown"

type_synonym ('v, 'e) tx_result = "'e tx_error + 'v"

section \<open>The world\<close>

record 'd snapshot =
  visible :: 'd
  setting :: "string \<Rightarrow> string"
  advisory :: "string set"

record 'd tx_session =
  present :: "'d snapshot"
  broken :: bool
  marks :: "(nat \<times> 'd snapshot) list"

record cls_store =
  tenantMode :: string
  tenantId :: "string option"
  userId :: string
  userEmail :: string
  systemScope :: bool

text \<open>
  The surroundings of the connection: which rows pass the constraints that are checked at
  the commit, the keys of advisory locks that other transactions keep for longer than
  \<open>lock_timeout\<close>, and the three timeouts of the environment.
\<close>

record 'd tx_site =
  commits :: "'d \<Rightarrow> bool"
  elsewhere :: "string set"
  statementTimeout :: string
  lockTimeout :: string
  idleTimeout :: string

record ('d, 'c) tx_world =
  durable :: 'd
  ambient :: "'d tx_session option"
  afterCommit :: "'c list"
  store :: cls_store
  uuid :: nat
  ran :: "'c list"
  site :: "'d tx_site"

type_synonym ('d, 'c, 'e, 'a) action = "('d, 'c) tx_world \<Rightarrow> ('a, 'e) outcome \<times> ('d, 'c) tx_world"

definition yields :: "'a \<Rightarrow> ('d, 'c, 'e, 'a) action" where
  "yields v w = (Return v, w)"

definition raises :: "'e thrown \<Rightarrow> ('d, 'c, 'e, 'a) action" where
  "raises x w = (Throw x, w)"

definition then_do ::
  "('d, 'c, 'e, 'a) action \<Rightarrow> ('a \<Rightarrow> ('d, 'c, 'e, 'b) action) \<Rightarrow> ('d, 'c, 'e, 'b) action" where
  "then_do A B w = (case A w of (Return v, w') \<Rightarrow> B v w' | (Throw x, w') \<Rightarrow> (Throw x, w'))"

text \<open>\<open>try { return await A } catch (error) { .. }\<close>: the outcome becomes a value.\<close>

definition caught :: "('d, 'c, 'e, 'a) action \<Rightarrow> ('d, 'c, 'e, ('a, 'e) outcome) action" where
  "caught A w = (case A w of (r, w') \<Rightarrow> (Return r, w'))"

definition run_with :: "cls_store \<Rightarrow> ('d, 'c, 'e, 'a) action \<Rightarrow> ('d, 'c, 'e, 'a) action" where
  "run_with st A w = (case A (w\<lparr>store := st\<rparr>) of (r, w') \<Rightarrow> (r, w'\<lparr>store := store w\<rparr>))"

section \<open>Commands of the session\<close>

definition getTx :: "('d, 'c) tx_world \<Rightarrow> bool" where
  "getTx w \<longleftrightarrow> ambient w \<noteq> None"

type_synonym ('d, 'v) query = "(string \<Rightarrow> string) \<Rightarrow> 'd \<Rightarrow> ('d \<times> 'v) option"

text \<open>A statement: \<open>None\<close> when the database refuses it. Outside a transaction it commits alone.\<close>

definition statement :: "('d, 'v) query \<Rightarrow> ('d, 'c, 'e, 'v) action" where
  "statement q w =
     (case ambient w of
        None \<Rightarrow>
          (case q (\<lambda>_. []) (durable w) of
             Some (d, v) \<Rightarrow> if commits (site w) d then (Return v, w\<lparr>durable := d\<rparr>)
                            else (Throw OtherError, w)
           | None \<Rightarrow> (Throw OtherError, w))
      | Some s \<Rightarrow>
          if broken s then (Throw OtherError, w)
          else (case q (setting (present s)) (visible (present s)) of
                  Some (d, v) \<Rightarrow> (Return v, w\<lparr>ambient := Some (s\<lparr>present := (present s)\<lparr>visible := d\<rparr>\<rparr>)\<rparr>)
                | None \<Rightarrow> (Throw OtherError, w\<lparr>ambient := Some (s\<lparr>broken := True\<rparr>)\<rparr>)))"

definition setTransactionConfig :: "string \<Rightarrow> string \<Rightarrow> ('d, 'c, 'e, unit) action" where
  "setTransactionConfig k v w =
     (case ambient w of
        None \<Rightarrow> (Return (), w)
      | Some s \<Rightarrow>
          if broken s then (Throw OtherError, w)
          else (Return (), w\<lparr>ambient := Some (s\<lparr>present :=
                  (present s)\<lparr>setting := (setting (present s))(k := v)\<rparr>\<rparr>)\<rparr>))"

datatype tx_command = SAVEPOINT nat | RELEASE_SAVEPOINT nat | ROLLBACK_TO_SAVEPOINT nat

fun tx_execute :: "tx_command \<Rightarrow> 'd tx_session \<Rightarrow> bool \<times> 'd tx_session" where
  "tx_execute (SAVEPOINT n) s =
     (if broken s then (False, s) else (True, s\<lparr>marks := (n, present s) # marks s\<rparr>))"
| "tx_execute (RELEASE_SAVEPOINT n) s =
     (if broken s then (False, s)
      else (case dropWhile (\<lambda>m. fst m \<noteq> n) (marks s) of
              [] \<Rightarrow> (False, s\<lparr>broken := True\<rparr>)
            | m # ms \<Rightarrow> (True, s\<lparr>marks := ms\<rparr>)))"
| "tx_execute (ROLLBACK_TO_SAVEPOINT n) s =
     (case dropWhile (\<lambda>m. fst m \<noteq> n) (marks s) of
        [] \<Rightarrow> (False, s\<lparr>broken := True\<rparr>)
      | m # ms \<Rightarrow> (True, s\<lparr>present := snd m, broken := False, marks := m # ms\<rparr>))"

definition runTxCommand :: "tx_command \<Rightarrow> ('d, 'c, 'e, unit) action" where
  "runTxCommand c w =
     (case ambient w of
        None \<Rightarrow> (Return (), w)
      | Some s \<Rightarrow>
          (case tx_execute c s of
             (okay, s') \<Rightarrow> (if okay then Return () else Throw OtherError, w\<lparr>ambient := Some s'\<rparr>)))"

text \<open>Fresh names: the identifiers of \<open>randomUUID\<close> are told apart by a counter.\<close>

definition nextSavepointName :: "('d, 'c) tx_world \<Rightarrow> nat \<times> ('d, 'c) tx_world" where
  "nextSavepointName w = (uuid w, w\<lparr>uuid := Suc (uuid w)\<rparr>)"

definition afterCommitCheckpoint :: "('d, 'c) tx_world \<Rightarrow> nat" where
  "afterCommitCheckpoint w = length (afterCommit w)"

definition discardAfterCommitSince :: "nat \<Rightarrow> ('d, 'c) tx_world \<Rightarrow> ('d, 'c) tx_world" where
  "discardAfterCommitSince n w =
     (if n < length (afterCommit w) then w\<lparr>afterCommit := take n (afterCommit w)\<rparr> else w)"

definition safeRollbackToSavepoint :: "nat \<Rightarrow> ('d, 'c) tx_world \<Rightarrow> ('d, 'c) tx_world" where
  "safeRollbackToSavepoint n w =
     snd (runTxCommand (ROLLBACK_TO_SAVEPOINT n) w :: (unit, unit) outcome \<times> ('d, 'c) tx_world)"

section \<open>Nested units: savepoints\<close>

definition withSavepointResult ::
  "('d, 'c, 'e, ('v, 'e) tx_result) action \<Rightarrow> ('d, 'c, 'e, ('v, 'e) tx_result) action" where
  "withSavepointResult fn w =
     (let (n, w0) = nextSavepointName w;
          cp = afterCommitCheckpoint w0;
          failing = (\<lambda>u. (Return (Inl TRANSACTION_FAILED),
                          discardAfterCommitSince cp (safeRollbackToSavepoint n u)))
      in case runTxCommand (SAVEPOINT n) w0 of
           (Throw _ :: (unit, 'e) outcome, w1) \<Rightarrow> failing w1
         | (Return _, w1) \<Rightarrow>
             (case fn w1 of
                (Throw _, w2) \<Rightarrow> failing w2
              | (Return (Inl e), w2) \<Rightarrow>
                  (case runTxCommand (ROLLBACK_TO_SAVEPOINT n) w2 of
                     (Throw _ :: (unit, 'e) outcome, w3) \<Rightarrow> failing w3
                   | (Return _, w3) \<Rightarrow> (Return (Inl e), discardAfterCommitSince cp w3))
              | (Return (Inr v), w2) \<Rightarrow>
                  (case runTxCommand (RELEASE_SAVEPOINT n) w2 of
                     (Throw _ :: (unit, 'e) outcome, w3) \<Rightarrow> failing w3
                   | (Return _, w3) \<Rightarrow> (Return (Inr v), w3))))"

definition withSavepoint :: "('d, 'c, 'e, 'a) action \<Rightarrow> ('d, 'c, 'e, 'a) action" where
  "withSavepoint fn w =
     (let (n, w0) = nextSavepointName w;
          cp = afterCommitCheckpoint w0;
          failing = (\<lambda>x u. (Throw x, discardAfterCommitSince cp (safeRollbackToSavepoint n u)))
      in case runTxCommand (SAVEPOINT n) w0 of
           (Throw x :: (unit, 'e) outcome, w1) \<Rightarrow> (Throw x, w1)
         | (Return _, w1) \<Rightarrow>
             (case fn w1 of
                (Throw x, w2) \<Rightarrow> failing x w2
              | (Return v, w2) \<Rightarrow>
                  (case runTxCommand (RELEASE_SAVEPOINT n) w2 of
                     (Throw x :: (unit, 'e) outcome, w3) \<Rightarrow> failing x w3
                   | (Return _, w3) \<Rightarrow> (Return v, w3))))"

section \<open>The outermost transaction\<close>

definition configureTransactionContext :: "'d tx_site \<Rightarrow> cls_store \<Rightarrow> string \<Rightarrow> string" where
  "configureTransactionContext env st =
     (\<lambda>_. [])(''app.tenancy_mode'' := tenantMode st,
              ''app.current_tenant'' := (case tenantId st of Some t \<Rightarrow> t | None \<Rightarrow> []),
              ''app.current_user'' := userId st,
              ''app.current_user_email'' := userEmail st,
              ''app.system_scope'' := (if systemScope st then ''true'' else ''false''),
              ''statement_timeout'' := statementTimeout env,
              ''lock_timeout'' := lockTimeout env,
              ''idle_in_transaction_session_timeout'' := idleTimeout env)"

definition opened :: "('d, 'c) tx_world \<Rightarrow> ('d, 'c) tx_world" where
  "opened w =
     w\<lparr>ambient := Some \<lparr>present = \<lparr>visible = durable w,
                                   setting = configureTransactionContext (site w) (store w),
                                   advisory = {}\<rparr>,
                        broken = False, marks = []\<rparr>,
       afterCommit := []\<rparr>"

text \<open>The end of \<open>runWith\<close>: the store and the queue of the caller are back.\<close>

definition closed_in :: "('d, 'c) tx_world \<Rightarrow> ('d, 'c) tx_world \<Rightarrow> ('d, 'c) tx_world" where
  "closed_in w w' = w'\<lparr>ambient := None, afterCommit := afterCommit w, store := store w\<rparr>"

definition drainAfterCommit :: "'c list \<Rightarrow> ('d, 'c) tx_world \<Rightarrow> ('d, 'c) tx_world" where
  "drainAfterCommit cs w = foldl (\<lambda>u c. u\<lparr>ran := ran u @ [c]\<rparr>) w cs"

definition openTransaction :: "('d, 'c, 'e, 'a) action \<Rightarrow> ('d, 'c, 'e, 'a) action" where
  "openTransaction fn w =
     (case fn (opened w) of
        (Throw x, w') \<Rightarrow> (Throw x, closed_in w w')
      | (Return v, w') \<Rightarrow>
          (case ambient w' of
             None \<Rightarrow> (Return v, drainAfterCommit (afterCommit w') (closed_in w w'))
           | Some s \<Rightarrow>
               if broken s then (Return v, drainAfterCommit (afterCommit w') (closed_in w w'))
               else if commits (site w') (visible (present s)) then
                 (Return v, drainAfterCommit (afterCommit w')
                              (closed_in w (w'\<lparr>durable := visible (present s)\<rparr>)))
               else (Throw OtherError, closed_in w w')))"

definition runTransaction :: "('d, 'c, 'e, 'a) action \<Rightarrow> ('d, 'c, 'e, 'a) action" where
  "runTransaction fn w = (if getTx w then withSavepoint fn w else openTransaction fn w)"

definition withTransaction :: "('d, 'c, 'e, 'a) action \<Rightarrow> ('d, 'c, 'e, ('a, 'e) tx_result) action" where
  "withTransaction fn w =
     (case runTransaction fn w of
        (Return v, w') \<Rightarrow> (Return (Inr v), w')
      | (Throw _, w') \<Rightarrow> (Return (Inl TRANSACTION_FAILED), w'))"

text \<open>\<open>if (inner.isErr()) throw inner.error; return inner.value\<close>\<close>

definition unwrapped :: "('d, 'c, 'e, ('v, 'e) tx_result) action \<Rightarrow> ('d, 'c, 'e, 'v) action" where
  "unwrapped fn = then_do fn (\<lambda>r. case r of Inl e \<Rightarrow> raises (ErrorObject e) | Inr v \<Rightarrow> yields v)"

definition withResultTransaction ::
  "('d, 'c, 'e, ('v, 'e) tx_result) action \<Rightarrow> ('d, 'c, 'e, ('v, 'e) tx_result) action" where
  "withResultTransaction fn w =
     (if getTx w then withSavepointResult fn w
      else (case openTransaction (unwrapped fn) w of
              (Return v, w') \<Rightarrow> (Return (Inr v), w')
            | (Throw (ErrorObject e), w') \<Rightarrow> (Return (Inl e), w')
            | (Throw OtherError, w') \<Rightarrow> (Return (Inl TRANSACTION_FAILED), w')))"

definition service_withSavepoint :: "('d, 'c, 'e, 'a) action \<Rightarrow> ('d, 'c, 'e, 'a) action" where
  "service_withSavepoint fn w = (if getTx w then withSavepoint fn w else fn w)"

section \<open>Scopes, deferred effects and locks\<close>

definition setTenantContext :: "string \<Rightarrow> ('d, 'c, 'e, unit) action" where
  "setTenantContext t w =
     (if getTx w
      then then_do (setTransactionConfig ''app.current_tenant'' t)
             (\<lambda>_ u. (Return (), u\<lparr>store := (store u)\<lparr>tenantId := Some t\<rparr>\<rparr>)) w
      else (Throw OtherError, w))"

text \<open>\<open>try { return await fn() } finally { await last() }\<close>: a throw of \<open>last\<close> wins.\<close>

definition finally_do :: "('d, 'c, 'e, 'a) action \<Rightarrow> ('d, 'c, 'e, unit) action \<Rightarrow> ('d, 'c, 'e, 'a) action" where
  "finally_do fn lst w =
     (case fn w of
        (r, w1) \<Rightarrow> (case lst w1 of (Return _, w2) \<Rightarrow> (r, w2) | (Throw x, w2) \<Rightarrow> (Throw x, w2)))"

definition withTenantScope :: "string \<Rightarrow> ('d, 'c, 'e, 'a) action \<Rightarrow> ('d, 'c, 'e, 'a) action" where
  "withTenantScope t fn w =
     (if getTx w
      then let previous = (case tenantId (store w) of Some p \<Rightarrow> p | None \<Rightarrow> [])
           in then_do (setTenantContext t) (\<lambda>_. finally_do fn (setTenantContext previous)) w
      else run_with ((store w)\<lparr>tenantId := Some t\<rparr>) (runTransaction fn) w)"

definition scope_text :: "bool \<Rightarrow> string" where
  "scope_text b = (if b then ''true'' else ''false'')"

definition withSystemScope :: "('d, 'c, 'e, 'a) action \<Rightarrow> ('d, 'c, 'e, 'a) action" where
  "withSystemScope fn w =
     run_with ((store w)\<lparr>systemScope := True\<rparr>)
       (if getTx w
        then then_do (setTransactionConfig ''app.system_scope'' (scope_text True))
               (\<lambda>_. finally_do fn
                      (setTransactionConfig ''app.system_scope'' (scope_text (systemScope (store w)))))
        else runTransaction fn) w"

definition runAfterCommit :: "'c \<Rightarrow> ('d, 'c, 'e, unit) action" where
  "runAfterCommit c w =
     (if getTx w then (Return (), w\<lparr>afterCommit := afterCommit w @ [c]\<rparr>)
      else (Return (), w\<lparr>ran := ran w @ [c]\<rparr>))"

definition recordAuditMutation :: "string option \<Rightarrow> ('d, unit) query \<Rightarrow> ('d, 'c, 'e, unit) action" where
  "recordAuditMutation tenant row w =
     (if getTx w
      then (case tenant of
              Some _ \<Rightarrow> statement row w
            | None \<Rightarrow> withSystemScope (statement row) w)
      else (Throw OtherError, w))"

text \<open>An emission is the audit row of a mutation or an event for the emitter.\<close>

datatype ('d, 'c) emission = Mutated "string option" "('d, unit) query" | Emitted 'c

fun emitAfterCommit :: "('d, 'c) emission \<Rightarrow> ('d, 'c, 'e, unit) action" where
  "emitAfterCommit (Mutated tenant row) = recordAuditMutation tenant row"
| "emitAfterCommit (Emitted c) = runAfterCommit c"

text \<open>
  \<open>pg_advisory_xact_lock\<close> waits; when the other transaction outlasts \<open>lock_timeout\<close> the
  statement fails and breaks the transaction. \<open>pg_try_advisory_xact_lock\<close> answers at once.
\<close>

definition take_lock :: "string \<Rightarrow> 'd tx_session \<Rightarrow> 'd tx_session" where
  "take_lock k s = s\<lparr>present := (present s)\<lparr>advisory := insert k (advisory (present s))\<rparr>\<rparr>"

definition withAdvisoryLock :: "string \<Rightarrow> ('d, 'c, 'e, 'a) action \<Rightarrow> ('d, 'c, 'e, 'a) action" where
  "withAdvisoryLock k fn w =
     (case ambient w of
        None \<Rightarrow> (Throw OtherError, w)
      | Some s \<Rightarrow>
          if broken s then (Throw OtherError, w)
          else if k \<in> elsewhere (site w) then
            (Throw OtherError, w\<lparr>ambient := Some (s\<lparr>broken := True\<rparr>)\<rparr>)
          else fn (w\<lparr>ambient := Some (take_lock k s)\<rparr>))"

definition tryAdvisoryLock :: "string \<Rightarrow> ('d, 'c, 'e, 'a) action \<Rightarrow> ('d, 'c, 'e, 'a option) action" where
  "tryAdvisoryLock k fn w =
     (case ambient w of
        None \<Rightarrow> (Throw OtherError, w)
      | Some s \<Rightarrow>
          if broken s then (Throw OtherError, w)
          else if k \<in> elsewhere (site w) then (Return None, w)
          else then_do fn (\<lambda>v. yields (Some v)) (w\<lparr>ambient := Some (take_lock k s)\<rparr>))"


text \<open>
  Exclusive execution of a scheduled task takes the Redis lock (theory \<open>RedisLock\<close>), not a
  lock of the database: \<open>locked\<close> is \<open>redisLock.withLock(key, fn)\<close>.
\<close>

definition withExclusiveExecution :: "bool \<Rightarrow> ('s \<Rightarrow> 'a option \<times> 's) \<Rightarrow> 's \<Rightarrow> 'a option \<times> 's" where
  "withExclusiveExecution available locked s = (if \<not> available then (None, s) else locked s)"

end
