(* ===== verification/TransactionGuarantees.thy ===== *)
theory TransactionGuarantees
  imports Transactions
begin

text \<open>
  What units of work promise. The methods of the code keep a stack of named savepoints, cut
  an array of callbacks back to a remembered length and repair the session after errors.
  The specification knows none of this: a nested unit that does not succeed is as if it had
  not run. \<open>implements\<close> relates an action of the code to a function of the specification,
  one lemma per method shows the relation, and a program over all methods, with any nesting,
  values and error handling, inherits it.
\<close>

named_theorems tx_impl "methods that implement their specification"

section \<open>The specification\<close>

record ('d, 'c) view =
  v_now :: "'d snapshot"
  v_broken :: bool
  v_todo :: "'c list"
  v_store :: cls_store

type_synonym ('d, 'c, 'e, 'a) effect_spec = "('d, 'c) view \<Rightarrow> ('a, 'e) outcome \<times> ('d, 'c) view"

definition s_then ::
  "('d, 'c, 'e, 'a) effect_spec \<Rightarrow> ('a \<Rightarrow> ('d, 'c, 'e, 'b) effect_spec) \<Rightarrow> ('d, 'c, 'e, 'b) effect_spec" where
  "s_then D E v = (case D v of (Return x, v') \<Rightarrow> E x v' | (Throw x, v') \<Rightarrow> (Throw x, v'))"

definition s_caught :: "('d, 'c, 'e, 'a) effect_spec \<Rightarrow> ('d, 'c, 'e, ('a, 'e) outcome) effect_spec" where
  "s_caught D v = (case D v of (r, v') \<Rightarrow> (Return r, v'))"

definition s_with :: "cls_store \<Rightarrow> ('d, 'c, 'e, 'a) effect_spec \<Rightarrow> ('d, 'c, 'e, 'a) effect_spec" where
  "s_with st D v = (case D (v\<lparr>v_store := st\<rparr>) of (r, v') \<Rightarrow> (r, v'\<lparr>v_store := v_store v\<rparr>))"

definition s_finally :: "('d, 'c, 'e, 'a) effect_spec \<Rightarrow> ('d, 'c, 'e, unit) effect_spec \<Rightarrow> ('d, 'c, 'e, 'a) effect_spec" where
  "s_finally D L v =
     (case D v of (r, v1) \<Rightarrow> (case L v1 of (Return _, v2) \<Rightarrow> (r, v2) | (Throw x, v2) \<Rightarrow> (Throw x, v2)))"

definition s_statement :: "('d, 'v) query \<Rightarrow> ('d, 'c, 'e, 'v) effect_spec" where
  "s_statement q v =
     (if v_broken v then (Throw OtherError, v)
      else (case q (setting (v_now v)) (visible (v_now v)) of
              Some (d, x) \<Rightarrow> (Return x, v\<lparr>v_now := (v_now v)\<lparr>visible := d\<rparr>\<rparr>)
            | None \<Rightarrow> (Throw OtherError, v\<lparr>v_broken := True\<rparr>)))"

definition s_config :: "string \<Rightarrow> string \<Rightarrow> ('d, 'c, 'e, unit) effect_spec" where
  "s_config k x v =
     (if v_broken v then (Throw OtherError, v)
      else (Return (), v\<lparr>v_now := (v_now v)\<lparr>setting := (setting (v_now v))(k := x)\<rparr>\<rparr>))"

text \<open>Taking back a unit: rows, settings, locks, callbacks and health are those of its start.\<close>

definition undone :: "('d, 'c) view \<Rightarrow> ('d, 'c) view \<Rightarrow> ('d, 'c) view" where
  "undone v v' = v\<lparr>v_store := v_store v'\<rparr>"

definition s_unit :: "('d, 'c, 'e, ('v, 'e) tx_result) effect_spec \<Rightarrow> ('d, 'c, 'e, ('v, 'e) tx_result) effect_spec" where
  "s_unit D v =
     (if v_broken v then (Return (Inl TRANSACTION_FAILED), v)
      else (case D v of
              (Return (Inr x), v') \<Rightarrow>
                if v_broken v' then (Return (Inl TRANSACTION_FAILED), undone v v') else (Return (Inr x), v')
            | (Return (Inl e), v') \<Rightarrow> (Return (Inl e), undone v v')
            | (Throw _, v') \<Rightarrow> (Return (Inl TRANSACTION_FAILED), undone v v')))"

definition s_savepoint :: "('d, 'c, 'e, 'a) effect_spec \<Rightarrow> ('d, 'c, 'e, 'a) effect_spec" where
  "s_savepoint D v =
     (if v_broken v then (Throw OtherError, v)
      else (case D v of
              (Return x, v') \<Rightarrow>
                if v_broken v' then (Throw OtherError, undone v v') else (Return x, v')
            | (Throw x, v') \<Rightarrow> (Throw x, undone v v')))"

definition s_transaction :: "('d, 'c, 'e, 'a) effect_spec \<Rightarrow> ('d, 'c, 'e, ('a, 'e) tx_result) effect_spec" where
  "s_transaction D v =
     (case s_savepoint D v of
        (Return x, v') \<Rightarrow> (Return (Inr x), v')
      | (Throw _, v') \<Rightarrow> (Return (Inl TRANSACTION_FAILED), v'))"

definition s_tenant :: "string \<Rightarrow> ('d, 'c, 'e, unit) effect_spec" where
  "s_tenant t = s_then (s_config ''app.current_tenant'' t)
                  (\<lambda>_ v. (Return (), v\<lparr>v_store := (v_store v)\<lparr>tenantId := Some t\<rparr>\<rparr>))"

definition s_in_tenant :: "string \<Rightarrow> ('d, 'c, 'e, 'a) effect_spec \<Rightarrow> ('d, 'c, 'e, 'a) effect_spec" where
  "s_in_tenant t D v =
     s_then (s_tenant t)
       (\<lambda>_. s_finally D (s_tenant (case tenantId (v_store v) of Some p \<Rightarrow> p | None \<Rightarrow> []))) v"

definition s_in_system :: "('d, 'c, 'e, 'a) effect_spec \<Rightarrow> ('d, 'c, 'e, 'a) effect_spec" where
  "s_in_system D v =
     s_with ((v_store v)\<lparr>systemScope := True\<rparr>)
       (s_then (s_config ''app.system_scope'' (scope_text True))
          (\<lambda>_. s_finally D (s_config ''app.system_scope'' (scope_text (systemScope (v_store v)))))) v"

definition s_defer :: "'c \<Rightarrow> ('d, 'c, 'e, unit) effect_spec" where
  "s_defer c v = (Return (), v\<lparr>v_todo := v_todo v @ [c]\<rparr>)"

fun s_emit :: "('d, 'c) emission \<Rightarrow> ('d, 'c, 'e, unit) effect_spec" where
  "s_emit (Emitted c) = s_defer c"
| "s_emit (Mutated (Some _) row) = s_statement row"
| "s_emit (Mutated None row) = s_in_system (s_statement row)"

definition s_take :: "string \<Rightarrow> ('d, 'c) view \<Rightarrow> ('d, 'c) view" where
  "s_take k v = v\<lparr>v_now := (v_now v)\<lparr>advisory := insert k (advisory (v_now v))\<rparr>\<rparr>"

definition s_lock :: "string set \<Rightarrow> string \<Rightarrow> ('d, 'c, 'e, 'a) effect_spec \<Rightarrow> ('d, 'c, 'e, 'a) effect_spec" where
  "s_lock others k D v =
     (if v_broken v then (Throw OtherError, v)
      else if k \<in> others then (Throw OtherError, v\<lparr>v_broken := True\<rparr>)
      else D (s_take k v))"

definition s_trylock :: "string set \<Rightarrow> string \<Rightarrow> ('d, 'c, 'e, 'a) effect_spec \<Rightarrow> ('d, 'c, 'e, 'a option) effect_spec" where
  "s_trylock others k D v =
     (if v_broken v then (Throw OtherError, v)
      else if k \<in> others then (Return None, v)
      else s_then D (\<lambda>x u. (Return (Some x), u)) (s_take k v))"

section \<open>The relation\<close>

definition view_of :: "('d, 'c) tx_world \<Rightarrow> 'd tx_session \<Rightarrow> ('d, 'c) view" where
  "view_of w s = \<lparr>v_now = present s, v_broken = broken s, v_todo = afterCommit w, v_store = store w\<rparr>"

definition fresh_marks :: "('d, 'c) tx_world \<Rightarrow> 'd tx_session \<Rightarrow> bool" where
  "fresh_marks w s \<longleftrightarrow> (\<forall>m\<in>set (marks s). fst m < uuid w)"

text \<open>
  From \<open>w\<close> with the session \<open>s\<close> to \<open>w'\<close>: nothing outside the transaction changed, the
  callbacks of before are a prefix of those after, savepoints were at most added.
\<close>

definition advances :: "('d, 'c) tx_world \<Rightarrow> 'd tx_session \<Rightarrow> ('d, 'c) tx_world \<Rightarrow> 'd tx_session \<Rightarrow> bool" where
  "advances w s w' s' \<longleftrightarrow>
     ambient w' = Some s' \<and> uuid w \<le> uuid w' \<and>
     (\<exists>later_marks. marks s' = later_marks @ marks s \<and> (\<forall>m\<in>set later_marks. uuid w \<le> fst m \<and> fst m < uuid w')) \<and>
     (\<exists>cs. afterCommit w' = afterCommit w @ cs) \<and>
     durable w' = durable w \<and> ran w' = ran w \<and> site w' = site w"

definition implements ::
  "string set \<Rightarrow> ('d, 'c, 'e, 'a) action \<Rightarrow> ('d, 'c, 'e, 'a) effect_spec \<Rightarrow> bool" where
  "implements others A D \<longleftrightarrow>
     (\<forall>w s. ambient w = Some s \<and> fresh_marks w s \<and> elsewhere (site w) = others \<longrightarrow>
        (\<exists>s'. advances w s (snd (A w)) s' \<and>
              D (view_of w s) = (fst (A w), view_of (snd (A w)) s')))"

lemma implementsI:
  assumes "\<And>w s. ambient w = Some s \<Longrightarrow> fresh_marks w s \<Longrightarrow> elsewhere (site w) = others \<Longrightarrow>
             \<exists>r w' s'. A w = (r, w') \<and> advances w s w' s' \<and> D (view_of w s) = (r, view_of w' s')"
  shows "implements others A D"
  unfolding implements_def
proof (intro allI impI, elim conjE)
  fix w :: "('a, 'b) tx_world" and s
  assume "ambient w = Some s" "fresh_marks w s" "elsewhere (site w) = others"
  from assms[OF this] obtain r w' s'
    where "A w = (r, w')" "advances w s w' s'" "D (view_of w s) = (r, view_of w' s')" by blast
  then show "\<exists>s'. advances w s (snd (A w)) s' \<and> D (view_of w s) = (fst (A w), view_of (snd (A w)) s')"
    by auto
qed

lemma implementsE:
  fixes A :: "('d, 'c, 'e, 'a) action"
  assumes "implements others A D" "ambient w = Some s" "fresh_marks w s" "elsewhere (site w) = others"
  obtains r w' s' where "A w = (r, w')" "advances w s w' s'" "D (view_of w s) = (r, view_of w' s')"
  using assms unfolding implements_def by (metis prod.collapse)

lemma advances_refl: "ambient w = Some s \<Longrightarrow> advances w s w s"
  by (simp add: advances_def)

lemma advances_trans:
  assumes "advances w s w1 s1" "advances w1 s1 w2 s2"
  shows "advances w s w2 s2"
proof -
  obtain m1 c1 where 1: "marks s1 = m1 @ marks s" "\<forall>m\<in>set m1. uuid w \<le> fst m \<and> fst m < uuid w1"
    "afterCommit w1 = afterCommit w @ c1" using assms(1) by (auto simp: advances_def)
  obtain m2 c2 where 2: "marks s2 = m2 @ marks s1" "\<forall>m\<in>set m2. uuid w1 \<le> fst m \<and> fst m < uuid w2"
    "afterCommit w2 = afterCommit w1 @ c2" using assms(2) by (auto simp: advances_def)
  have mono: "uuid w \<le> uuid w1" "uuid w1 \<le> uuid w2" using assms by (simp_all add: advances_def)
  have "marks s2 = (m2 @ m1) @ marks s" using 1 2 by simp
  moreover have "\<forall>m\<in>set (m2 @ m1). uuid w \<le> fst m \<and> fst m < uuid w2"
    using 1(2) 2(2) mono by (auto intro: order_trans less_le_trans)
  moreover have "afterCommit w2 = afterCommit w @ (c1 @ c2)" using 1 2 by simp
  ultimately show ?thesis using assms mono by (auto simp: advances_def)
qed

lemma advances_fresh: "fresh_marks w s \<Longrightarrow> advances w s w' s' \<Longrightarrow> fresh_marks w' s'"
  unfolding advances_def fresh_marks_def by (fastforce intro: less_le_trans)

lemma advances_ambient: "advances w s w' s' \<Longrightarrow> ambient w' = Some s'"
  by (simp add: advances_def)

lemma advances_site: "advances w s w' s' \<Longrightarrow> site w' = site w"
  by (simp add: advances_def)


section \<open>Plain actions\<close>

lemma impl_yields [tx_impl]: "implements others (yields x) (\<lambda>v. (Return x, v))"
  by (rule implementsI) (auto simp: yields_def intro: advances_refl)

lemma impl_raises [tx_impl]: "implements others (raises x) (\<lambda>v. (Throw x, v))"
  by (rule implementsI) (auto simp: raises_def intro: advances_refl)

lemma impl_then [tx_impl]:
  fixes A :: "('d, 'c, 'e, 'a) action"
  assumes A: "implements others A D" and B: "\<And>x. implements others (B x) (E x)"
  shows "implements others (then_do A B) (s_then D E)"
proof (rule implementsI)
  fix w :: "('d, 'c) tx_world" and s assume w: "ambient w = Some s" "fresh_marks w s" "elsewhere (site w) = others"
  obtain r w1 s1 where 1: "A w = (r, w1)" "advances w s w1 s1" "D (view_of w s) = (r, view_of w1 s1)"
    by (rule implementsE[OF A w])
  show "\<exists>r w' s'. then_do A B w = (r, w') \<and> advances w s w' s' \<and> s_then D E (view_of w s) = (r, view_of w' s')"
  proof (cases r)
    case (Throw x)
    then show ?thesis using 1 by (auto simp: then_do_def s_then_def)
  next
    case (Return x)
    have w1: "ambient w1 = Some s1" "fresh_marks w1 s1" "elsewhere (site w1) = others"
      using 1(2) w by (simp_all add: advances_ambient advances_site advances_fresh)
    obtain r2 w2 s2 where 2: "B x w1 = (r2, w2)" "advances w1 s1 w2 s2" "E x (view_of w1 s1) = (r2, view_of w2 s2)"
      by (rule implementsE[OF B w1])
    have "advances w s w2 s2" by (rule advances_trans[OF 1(2) 2(2)])
    then show ?thesis using 1 2 Return by (auto simp: then_do_def s_then_def)
  qed
qed

lemma impl_caught [tx_impl]:
  fixes A :: "('d, 'c, 'e, 'a) action"
  assumes A: "implements others A D"
  shows "implements others (caught A) (s_caught D)"
proof (rule implementsI)
  fix w :: "('d, 'c) tx_world" and s assume w: "ambient w = Some s" "fresh_marks w s" "elsewhere (site w) = others"
  obtain r w1 s1 where "A w = (r, w1)" "advances w s w1 s1" "D (view_of w s) = (r, view_of w1 s1)"
    by (rule implementsE[OF A w])
  then show "\<exists>r w' s'. caught A w = (r, w') \<and> advances w s w' s' \<and> s_caught D (view_of w s) = (r, view_of w' s')"
    by (auto simp: caught_def s_caught_def)
qed

lemma advances_store:
  "advances w s w' s' \<Longrightarrow> advances (w\<lparr>store := a\<rparr>) s (w'\<lparr>store := b\<rparr>) s'"
  "advances (w\<lparr>store := a\<rparr>) s w' s' \<Longrightarrow> advances w s (w'\<lparr>store := b\<rparr>) s'"
  by (simp_all add: advances_def)

lemma view_of_store: "(view_of w s)\<lparr>v_store := st\<rparr> = view_of (w\<lparr>store := st\<rparr>) s"
  by (simp add: view_of_def)

lemma impl_with:
  fixes A :: "('d, 'c, 'e, 'a) action"
  assumes A: "implements others A D"
  shows "implements others (run_with st A) (s_with st D)"
proof (rule implementsI)
  fix w :: "('d, 'c) tx_world" and s assume w: "ambient w = Some s" "fresh_marks w s" "elsewhere (site w) = others"
  then have w': "ambient (w\<lparr>store := st\<rparr>) = Some s" "fresh_marks (w\<lparr>store := st\<rparr>) s"
    "elsewhere (site (w\<lparr>store := st\<rparr>)) = others" by (simp_all add: fresh_marks_def)
  obtain r w1 s1 where 1: "A (w\<lparr>store := st\<rparr>) = (r, w1)" "advances (w\<lparr>store := st\<rparr>) s w1 s1"
      "D (view_of (w\<lparr>store := st\<rparr>) s) = (r, view_of w1 s1)"
    by (rule implementsE[OF A w'])
  have "advances w s (w1\<lparr>store := store w\<rparr>) s1" by (rule advances_store(2)[OF 1(2)])
  moreover have "v_store (view_of w s) = store w" by (simp add: view_of_def)
  ultimately show "\<exists>r w' s'. run_with st A w = (r, w') \<and> advances w s w' s' \<and>
      s_with st D (view_of w s) = (r, view_of w' s')"
    using 1 by (auto simp: run_with_def s_with_def view_of_store)
qed

lemma impl_finally [tx_impl]:
  fixes A :: "('d, 'c, 'e, 'a) action"
  assumes A: "implements others A D" and L: "implements others lst L"
  shows "implements others (finally_do A lst) (s_finally D L)"
proof (rule implementsI)
  fix w :: "('d, 'c) tx_world" and s assume w: "ambient w = Some s" "fresh_marks w s" "elsewhere (site w) = others"
  obtain r w1 s1 where 1: "A w = (r, w1)" "advances w s w1 s1" "D (view_of w s) = (r, view_of w1 s1)"
    by (rule implementsE[OF A w])
  have w1: "ambient w1 = Some s1" "fresh_marks w1 s1" "elsewhere (site w1) = others"
    using 1(2) w by (simp_all add: advances_ambient advances_site advances_fresh)
  obtain r2 w2 s2 where 2: "lst w1 = (r2, w2)" "advances w1 s1 w2 s2" "L (view_of w1 s1) = (r2, view_of w2 s2)"
    by (rule implementsE[OF L w1])
  have "advances w s w2 s2" by (rule advances_trans[OF 1(2) 2(2)])
  then show "\<exists>r w' s'. finally_do A lst w = (r, w') \<and> advances w s w' s' \<and>
      s_finally D L (view_of w s) = (r, view_of w' s')"
    using 1 2 by (cases r2) (auto simp: finally_do_def s_finally_def)
qed

lemma impl_statement [tx_impl]: "implements others (statement q) (s_statement q)"
  by (rule implementsI)
    (auto simp: statement_def s_statement_def view_of_def advances_def split: option.splits)

lemma impl_config [tx_impl]: "implements others (setTransactionConfig k x) (s_config k x)"
  by (rule implementsI) (auto simp: setTransactionConfig_def s_config_def view_of_def advances_def)

lemma impl_store_tenant:
  "implements others (\<lambda>u. (Return (), u\<lparr>store := (store u)\<lparr>tenantId := Some t\<rparr>\<rparr>))
     (\<lambda>v. (Return (), v\<lparr>v_store := (v_store v)\<lparr>tenantId := Some t\<rparr>\<rparr>))"
  by (rule implementsI) (auto simp: view_of_def advances_def)

lemma impl_cong:
  fixes A :: "('d, 'c, 'e, 'a) action"
  assumes "implements others A D" and "\<And>w. getTx w \<Longrightarrow> A' w = A w"
  shows "implements others A' D"
proof (rule implementsI)
  fix w :: "('d, 'c) tx_world" and s assume w: "ambient w = Some s" "fresh_marks w s" "elsewhere (site w) = others"
  then have "A' w = A w" using assms(2) by (simp add: getTx_def)
  then show "\<exists>r w' s'. A' w = (r, w') \<and> advances w s w' s' \<and> D (view_of w s) = (r, view_of w' s')"
    using implementsE[OF assms(1) w] by metis
qed

lemma impl_local:
  fixes A :: "cls_store \<Rightarrow> ('d, 'c, 'e, 'a) action"
  assumes "\<And>st. implements others (A st) (D st)"
    and "\<And>w. getTx w \<Longrightarrow> A' w = A (store w) w" and "\<And>v. D' v = D (v_store v) v"
  shows "implements others A' D'"
proof (rule implementsI)
  fix w :: "('d, 'c) tx_world" and s assume w: "ambient w = Some s" "fresh_marks w s" "elsewhere (site w) = others"
  then have "A' w = A (store w) w" using assms(2) by (simp add: getTx_def)
  moreover have "D' (view_of w s) = D (store w) (view_of w s)" by (simp add: assms(3) view_of_def)
  ultimately show "\<exists>r w' s'. A' w = (r, w') \<and> advances w s w' s' \<and> D' (view_of w s) = (r, view_of w' s')"
    using implementsE[OF assms(1)[of "store w"] w] by metis
qed

lemma impl_tenant [tx_impl]: "implements others (setTenantContext t) (s_tenant t)"
  unfolding s_tenant_def
  by (rule impl_cong, rule impl_then, rule impl_config, rule impl_store_tenant)
    (simp add: setTenantContext_def)

lemma impl_in_tenant [tx_impl]:
  assumes "implements others A D"
  shows "implements others (withTenantScope t A) (s_in_tenant t D)"
proof (rule impl_local)
  let ?prev = "\<lambda>st :: cls_store. case tenantId st of Some p \<Rightarrow> p | None \<Rightarrow> []"
  show "implements others (then_do (setTenantContext t) (\<lambda>_. finally_do A (setTenantContext (?prev st))))
          (s_then (s_tenant t) (\<lambda>_. s_finally D (s_tenant (?prev st))))" for st
    by (intro impl_then impl_tenant impl_finally assms)
qed (simp_all add: withTenantScope_def s_in_tenant_def Let_def)

lemma impl_in_system [tx_impl]:
  assumes "implements others A D"
  shows "implements others (withSystemScope A) (s_in_system D)"
proof (rule impl_local)
  show "implements others
      (run_with (st\<lparr>systemScope := True\<rparr>)
         (then_do (setTransactionConfig ''app.system_scope'' (scope_text True))
           (\<lambda>_. finally_do A (setTransactionConfig ''app.system_scope'' (scope_text (systemScope st))))))
      (s_with (st\<lparr>systemScope := True\<rparr>)
         (s_then (s_config ''app.system_scope'' (scope_text True))
           (\<lambda>_. s_finally D (s_config ''app.system_scope'' (scope_text (systemScope st))))))" for st
    by (intro impl_with impl_then impl_config impl_finally assms)
qed (simp_all add: withSystemScope_def s_in_system_def)

lemma impl_defer [tx_impl]: "implements others (runAfterCommit c) (s_defer c)"
  by (rule implementsI) (auto simp: runAfterCommit_def s_defer_def getTx_def view_of_def advances_def)

lemma impl_emit [tx_impl]: "implements others (emitAfterCommit e) (s_emit e)"
proof (cases e)
  case (Emitted c)
  then show ?thesis by (auto simp: fun_eq_iff intro!: impl_cong[OF impl_defer])
next
  case (Mutated tenant row)
  show ?thesis
  proof (cases tenant)
    case None
    show ?thesis using Mutated None
      by (auto simp: recordAuditMutation_def intro!: impl_cong[OF impl_in_system[OF impl_statement]])
  next
    case (Some t)
    show ?thesis using Mutated Some
      by (auto simp: recordAuditMutation_def intro!: impl_cong[OF impl_statement])
  qed
qed

lemma impl_take:
  fixes A :: "('d, 'c, 'e, 'a) action"
  assumes "implements others A D" "ambient w = Some s" "fresh_marks w s" "elsewhere (site w) = others"
  shows "\<exists>r w' s'. A (w\<lparr>ambient := Some (take_lock k s)\<rparr>) = (r, w') \<and> advances w s w' s' \<and>
           D (s_take k (view_of w s)) = (r, view_of w' s')"
proof -
  let ?w = "w\<lparr>ambient := Some (take_lock k s)\<rparr>"
  have v: "view_of ?w (take_lock k s) = s_take k (view_of w s)"
    by (simp add: view_of_def take_lock_def s_take_def)
  have pre: "ambient ?w = Some (take_lock k s)" "fresh_marks ?w (take_lock k s)" "elsewhere (site ?w) = others"
    using assms by (simp_all add: fresh_marks_def take_lock_def)
  obtain r w1 s1 where 1: "A ?w = (r, w1)" "advances ?w (take_lock k s) w1 s1"
      "D (view_of ?w (take_lock k s)) = (r, view_of w1 s1)"
    by (rule implementsE[OF assms(1) pre])
  have "advances w s w1 s1" using 1(2) by (simp add: advances_def take_lock_def)
  then show ?thesis using 1 v by auto
qed

lemma impl_lock [tx_impl]:
  fixes A :: "('d, 'c, 'e, 'a) action"
  assumes A: "implements others A D"
  shows "implements others (withAdvisoryLock k A) (s_lock others k D)"
proof (rule implementsI)
  fix w :: "('d, 'c) tx_world" and s assume w: "ambient w = Some s" "fresh_marks w s" "elsewhere (site w) = others"
  show "\<exists>r w' s'. withAdvisoryLock k A w = (r, w') \<and> advances w s w' s' \<and>
      s_lock others k D (view_of w s) = (r, view_of w' s')"
  proof (cases "broken s \<or> k \<in> others")
    case True
    then show ?thesis using w by (auto simp: withAdvisoryLock_def s_lock_def view_of_def advances_def)
  next
    case False
    then show ?thesis using impl_take[OF A w, of k] w
      by (simp add: withAdvisoryLock_def s_lock_def view_of_def[of w s])
  qed
qed

lemma impl_trylock [tx_impl]:
  fixes A :: "('d, 'c, 'e, 'a) action"
  assumes A: "implements others A D"
  shows "implements others (tryAdvisoryLock k A) (s_trylock others k D)"
proof (rule implementsI)
  fix w :: "('d, 'c) tx_world" and s assume w: "ambient w = Some s" "fresh_marks w s" "elsewhere (site w) = others"
  have A': "implements others (then_do A (\<lambda>v. yields (Some v))) (s_then D (\<lambda>x u. (Return (Some x), u)))"
    by (intro impl_then A impl_yields)
  show "\<exists>r w' s'. tryAdvisoryLock k A w = (r, w') \<and> advances w s w' s' \<and>
      s_trylock others k D (view_of w s) = (r, view_of w' s')"
  proof (cases "broken s \<or> k \<in> others")
    case True
    then show ?thesis using w by (auto simp: tryAdvisoryLock_def s_trylock_def view_of_def advances_def)
  next
    case False
    then show ?thesis using impl_take[OF A' w, of k] w
      by (simp add: tryAdvisoryLock_def s_trylock_def view_of_def[of w s])
  qed
qed


section \<open>Savepoints\<close>

text \<open>The world after \<open>SAVEPOINT\<close>, before the nested unit runs.\<close>

definition marked :: "('d, 'c) tx_world \<Rightarrow> 'd tx_session \<Rightarrow> ('d, 'c) tx_world" where
  "marked w s = w\<lparr>uuid := Suc (uuid w), ambient := Some (s\<lparr>marks := (uuid w, present s) # marks s\<rparr>)\<rparr>"

definition marked_session :: "('d, 'c) tx_world \<Rightarrow> 'd tx_session \<Rightarrow> 'd tx_session" where
  "marked_session w s = s\<lparr>marks := (uuid w, present s) # marks s\<rparr>"

lemma marked_ready:
  assumes "ambient w = Some s" "fresh_marks w s"
  shows "ambient (marked w s) = Some (marked_session w s)" "fresh_marks (marked w s) (marked_session w s)"
    "view_of (marked w s) (marked_session w s) = view_of w s" "site (marked w s) = site w"
  using assms by (auto simp: marked_def marked_session_def fresh_marks_def view_of_def)

lemma savepoint_marks:
  assumes "ambient w = Some s" "\<not> broken s"
  shows "runTxCommand (SAVEPOINT (uuid w)) (snd (nextSavepointName w)) = (Return (), marked w s)"
  using assms by (simp add: runTxCommand_def nextSavepointName_def marked_def)

lemma drop_to_mark:
  fixes n :: nat
  assumes "\<forall>m\<in>set later_marks. n < fst m"
  shows "dropWhile (\<lambda>m. fst m \<noteq> n) (later_marks @ (n, p) # ms) = (n, p) # ms"
  using assms by (induction later_marks) auto

text \<open>Back to the savepoint of a unit that started in \<open>w\<close> and came to \<open>u\<close>.\<close>

definition restored :: "('d, 'c) tx_world \<Rightarrow> 'd tx_session \<Rightarrow> ('d, 'c) tx_world \<Rightarrow> 'd tx_session \<Rightarrow> ('d, 'c) tx_world" where
  "restored w s u t = u\<lparr>ambient := Some (t\<lparr>present := present s, broken := False, marks := (uuid w, present s) # marks s\<rparr>),
                       afterCommit := afterCommit w\<rparr>"

lemma unit_marks:
  assumes "advances (marked w s) (marked_session w s) u t"
  obtains later_marks where "marks t = later_marks @ (uuid w, present s) # marks s" "\<forall>m\<in>set later_marks. uuid w < fst m"
  using assms by (auto simp: advances_def marked_def marked_session_def Suc_le_eq)

lemma rollback_restores:
  assumes a: "advances (marked w s) (marked_session w s) u t"
  shows "runTxCommand (ROLLBACK_TO_SAVEPOINT (uuid w)) u =
           (Return (), u\<lparr>ambient := Some (t\<lparr>present := present s, broken := False,
                                           marks := (uuid w, present s) # marks s\<rparr>)\<rparr>)"
proof -
  obtain later_marks where "marks t = later_marks @ (uuid w, present s) # marks s" "\<forall>m\<in>set later_marks. uuid w < fst m"
    by (rule unit_marks[OF a])
  then show ?thesis using advances_ambient[OF a] by (simp add: runTxCommand_def drop_to_mark)
qed

lemma discard_restores:
  assumes a: "advances (marked w s) (marked_session w s) u t"
  shows "discardAfterCommitSince (length (afterCommit w)) (u\<lparr>ambient := x\<rparr>) =
           u\<lparr>ambient := x, afterCommit := afterCommit w\<rparr>"
  using a by (auto simp: advances_def marked_def discardAfterCommitSince_def)

lemma failing_restores:
  assumes a: "advances (marked w s) (marked_session w s) u t"
  shows "discardAfterCommitSince (length (afterCommit w)) (safeRollbackToSavepoint (uuid w) u) = restored w s u t"
  by (simp add: safeRollbackToSavepoint_def restored_def discard_restores[OF a] rollback_restores[OF a])

lemma restored_advances:
  assumes "ambient w = Some s" "\<not> broken s" and a: "advances (marked w s) (marked_session w s) u t"
  shows "\<exists>s'. advances w s (restored w s u t) s' \<and>
              view_of (restored w s u t) s' = undone (view_of w s) (view_of u t)"
  using assms by (auto simp: advances_def restored_def marked_def view_of_def undone_def)

lemma release_run:
  assumes a: "advances (marked w s) (marked_session w s) u t" and ok: "\<not> broken t"
  shows "runTxCommand (RELEASE_SAVEPOINT (uuid w)) u = (Return (), u\<lparr>ambient := Some (t\<lparr>marks := marks s\<rparr>)\<rparr>)"
proof -
  obtain ms where "marks t = ms @ (uuid w, present s) # marks s" "\<forall>m\<in>set ms. uuid w < fst m"
    by (rule unit_marks[OF a])
  then show ?thesis using advances_ambient[OF a] ok by (simp add: runTxCommand_def drop_to_mark)
qed

lemma release_advances:
  assumes a: "advances (marked w s) (marked_session w s) u t"
  shows "advances w s (u\<lparr>ambient := Some (t\<lparr>marks := marks s\<rparr>)\<rparr>) (t\<lparr>marks := marks s\<rparr>)"
    and "view_of (u\<lparr>ambient := Some (t\<lparr>marks := marks s\<rparr>)\<rparr>) (t\<lparr>marks := marks s\<rparr>) = view_of u t"
  using a by (auto simp: advances_def marked_def view_of_def)

lemma release_refused:
  assumes "advances (marked w s) (marked_session w s) u t" "broken t"
  shows "runTxCommand (RELEASE_SAVEPOINT n) u = (Throw OtherError, u)"
  using assms by (simp add: runTxCommand_def advances_def)

text \<open>In a broken transaction the savepoint is refused, and so is the rollback to it.\<close>

lemma broken_marks:
  assumes "ambient w = Some s" "broken s"
  shows "runTxCommand (SAVEPOINT n) (w\<lparr>uuid := k\<rparr>) = (Throw OtherError :: (unit, 'e) outcome, w\<lparr>uuid := k\<rparr>)"
  using assms by (simp add: runTxCommand_def)

lemma broken_refuses:
  assumes "ambient w = Some s" "fresh_marks w s" "broken s"
  shows "discardAfterCommitSince (length (afterCommit w)) (safeRollbackToSavepoint (uuid w) (w\<lparr>uuid := k\<rparr>)) =
           w\<lparr>uuid := k\<rparr>"
proof -
  have none: "dropWhile (\<lambda>m. fst m \<noteq> uuid w) (marks s) = []"
    using assms(2) by (auto simp: fresh_marks_def dropWhile_eq_Nil_conv)
  have "s\<lparr>broken := True\<rparr> = s" using assms(3) by simp
  then show ?thesis
    using assms by (simp add: safeRollbackToSavepoint_def runTxCommand_def discardAfterCommitSince_def none
        del: dropWhile_eq_Nil_conv)
qed

lemma impl_savepointResult [tx_impl]:
  fixes A :: "('d, 'c, 'e, ('v, 'e) tx_result) action"
  assumes A: "implements others A D"
  shows "implements others (withSavepointResult A) (s_unit D)"
proof (rule implementsI)
  fix w :: "('d, 'c) tx_world" and s assume w: "ambient w = Some s" "fresh_marks w s" "elsewhere (site w) = others"
  let ?goal = "\<exists>r w' s'. withSavepointResult A w = (r, w') \<and> advances w s w' s' \<and>
      s_unit D (view_of w s) = (r, view_of w' s')"
  note start = nextSavepointName_def afterCommitCheckpoint_def Let_def
  show ?goal
  proof (cases "broken s")
    case True
    have "withSavepointResult A w = (Return (Inl TRANSACTION_FAILED), w\<lparr>uuid := Suc (uuid w)\<rparr>)"
      by (simp add: withSavepointResult_def start broken_marks[OF w(1) True] broken_refuses[OF w(1,2) True])
    then show ?thesis using True w by (auto simp: s_unit_def view_of_def advances_def)
  next
    case False
    obtain r u t where 1: "A (marked w s) = (r, u)" "advances (marked w s) (marked_session w s) u t"
        "D (view_of w s) = (r, view_of u t)"
      using implementsE[OF A marked_ready(1,2)[OF w(1,2)]] marked_ready(3,4)[OF w(1,2)] w(3) by metis
    obtain s' where rest: "advances w s (restored w s u t) s'"
        "view_of (restored w s u t) s' = undone (view_of w s) (view_of u t)"
      using restored_advances[OF w(1) False 1(2)] by blast
    have cp: "afterCommit (w\<lparr>uuid := Suc (uuid w)\<rparr>) = afterCommit w" by simp
    have sp: "runTxCommand (SAVEPOINT (uuid w)) (w\<lparr>uuid := Suc (uuid w)\<rparr>) = (Return (), marked w s)"
      using savepoint_marks[OF w(1) False] by (simp add: nextSavepointName_def)
    note run = withSavepointResult_def start cp sp 1(1) 1(3) failing_restores[OF 1(2)]
    have vb: "v_broken (view_of w s) = False" "v_broken (view_of u t) = broken t"
      using False by (simp_all add: view_of_def)
    consider x where "r = Throw x" | e where "r = Return (Inl e)"
      | v where "r = Return (Inr v)" "broken t" | v where "r = Return (Inr v)" "\<not> broken t"
      by (metis outcome.exhaust sum.exhaust)
    then show ?goal
    proof cases
      case 1
      then show ?thesis using rest by (auto simp: run s_unit_def vb)
    next
      case (2 e)
      have "discardAfterCommitSince (length (afterCommit w)) (u\<lparr>ambient := Some (t\<lparr>present := present s,
          broken := False, marks := (uuid w, present s) # marks s\<rparr>)\<rparr>) = restored w s u t"
        using discard_restores[OF \<open>advances (marked w s) (marked_session w s) u t\<close>] by (simp add: restored_def)
      then show ?thesis using 2 rest
        by (auto simp: run s_unit_def vb rollback_restores[OF \<open>advances (marked w s) (marked_session w s) u t\<close>])
    next
      case (3 v)
      then show ?thesis using rest
        by (auto simp: run s_unit_def vb release_refused[OF \<open>advances (marked w s) (marked_session w s) u t\<close>])
    next
      case (4 v)
      then show ?thesis using release_advances[OF \<open>advances (marked w s) (marked_session w s) u t\<close>]
        by (auto simp: run s_unit_def vb release_run[OF \<open>advances (marked w s) (marked_session w s) u t\<close>])
    qed
  qed
qed


lemma impl_savepoint:
  fixes A :: "('d, 'c, 'e, 'a) action"
  assumes A: "implements others A D"
  shows "implements others (withSavepoint A) (s_savepoint D)"
proof (rule implementsI)
  fix w :: "('d, 'c) tx_world" and s assume w: "ambient w = Some s" "fresh_marks w s" "elsewhere (site w) = others"
  let ?goal = "\<exists>r w' s'. withSavepoint A w = (r, w') \<and> advances w s w' s' \<and>
      s_savepoint D (view_of w s) = (r, view_of w' s')"
  note start = nextSavepointName_def afterCommitCheckpoint_def Let_def
  show ?goal
  proof (cases "broken s")
    case True
    have "withSavepoint A w = (Throw OtherError, w\<lparr>uuid := Suc (uuid w)\<rparr>)"
      by (simp add: withSavepoint_def start broken_marks[OF w(1) True])
    then show ?thesis using True w by (auto simp: s_savepoint_def view_of_def advances_def)
  next
    case False
    obtain r u t where 1: "A (marked w s) = (r, u)" "advances (marked w s) (marked_session w s) u t"
        "D (view_of w s) = (r, view_of u t)"
      using implementsE[OF A marked_ready(1,2)[OF w(1,2)]] marked_ready(3,4)[OF w(1,2)] w(3) by metis
    obtain s' where rest: "advances w s (restored w s u t) s'"
        "view_of (restored w s u t) s' = undone (view_of w s) (view_of u t)"
      using restored_advances[OF w(1) False 1(2)] by blast
    have cp: "afterCommit (w\<lparr>uuid := Suc (uuid w)\<rparr>) = afterCommit w" by simp
    have sp: "runTxCommand (SAVEPOINT (uuid w)) (w\<lparr>uuid := Suc (uuid w)\<rparr>) = (Return (), marked w s)"
      using savepoint_marks[OF w(1) False] by (simp add: nextSavepointName_def)
    note run = withSavepoint_def start cp sp 1(1) 1(3) failing_restores[OF 1(2)]
    have vb: "v_broken (view_of w s) = False" "v_broken (view_of u t) = broken t"
      using False by (simp_all add: view_of_def)
    consider x where "r = Throw x" | v where "r = Return v" "broken t" | v where "r = Return v" "\<not> broken t"
      by (metis outcome.exhaust)
    then show ?goal
    proof cases
      case 1
      then show ?thesis using rest by (auto simp: run s_savepoint_def vb)
    next
      case (2 v)
      then show ?thesis using rest
        by (auto simp: run s_savepoint_def vb release_refused[OF \<open>advances (marked w s) (marked_session w s) u t\<close>])
    next
      case (3 v)
      then show ?thesis using release_advances[OF \<open>advances (marked w s) (marked_session w s) u t\<close>]
        by (auto simp: run s_savepoint_def vb release_run[OF \<open>advances (marked w s) (marked_session w s) u t\<close>])
    qed
  qed
qed

lemma impl_runTransaction [tx_impl]:
  "implements others A D \<Longrightarrow> implements others (runTransaction A) (s_savepoint D)"
  by (rule impl_cong[OF impl_savepoint]) (simp_all add: runTransaction_def)

lemma impl_service_savepoint [tx_impl]:
  "implements others A D \<Longrightarrow> implements others (service_withSavepoint A) (s_savepoint D)"
  by (rule impl_cong[OF impl_savepoint]) (simp_all add: service_withSavepoint_def)

lemma impl_withResultTransaction [tx_impl]:
  "implements others A D \<Longrightarrow> implements others (withResultTransaction A) (s_unit D)"
  by (rule impl_cong[OF impl_savepointResult]) (simp_all add: withResultTransaction_def)

lemma impl_withTransaction [tx_impl]:
  fixes A :: "('d, 'c, 'e, 'a) action"
  assumes A: "implements others A D"
  shows "implements others (withTransaction A) (s_transaction D)"
proof (rule implementsI)
  fix w :: "('d, 'c) tx_world" and s assume w: "ambient w = Some s" "fresh_marks w s" "elsewhere (site w) = others"
  obtain r w1 s1 where "runTransaction A w = (r, w1)" "advances w s w1 s1"
      "s_savepoint D (view_of w s) = (r, view_of w1 s1)"
    by (rule implementsE[OF impl_runTransaction[OF A] w])
  then show "\<exists>r w' s'. withTransaction A w = (r, w') \<and> advances w s w' s' \<and>
      s_transaction D (view_of w s) = (r, view_of w' s')"
    by (cases r) (auto simp: withTransaction_def s_transaction_def)
qed

section \<open>Programs\<close>

text \<open>
  What code inside a unit of work can do: statements whose answers it reads, callbacks and
  audit rows, errors caught and thrown, and every scope of the service, nested at will. The
  argument after the nested program is the rest of the program, which reads the outcome.
\<close>

datatype ('d, 'v, 'c, 'e) program =
    Finish "('v, 'e) tx_result"
  | Raise "'e thrown"
  | Query "('d, 'v) query" "'v \<Rightarrow> ('d, 'v, 'c, 'e) program"
  | Emit "('d, 'c) emission" "('d, 'v, 'c, 'e) program"
  | Attempt "('d, 'v, 'c, 'e) program" "(('v, 'e) tx_result, 'e) outcome \<Rightarrow> ('d, 'v, 'c, 'e) program"
  | Unit "('d, 'v, 'c, 'e) program" "('v, 'e) tx_result \<Rightarrow> ('d, 'v, 'c, 'e) program"
  | Transaction "('d, 'v, 'c, 'e) program" "('v, 'e) tx_result \<Rightarrow> ('d, 'v, 'c, 'e) program"
  | Enter_tenant string "('d, 'v, 'c, 'e) program"
  | In_tenant string "('d, 'v, 'c, 'e) program" "('v, 'e) tx_result \<Rightarrow> ('d, 'v, 'c, 'e) program"
  | In_system "('d, 'v, 'c, 'e) program" "('v, 'e) tx_result \<Rightarrow> ('d, 'v, 'c, 'e) program"
  | Locked string "('d, 'v, 'c, 'e) program" "('v, 'e) tx_result \<Rightarrow> ('d, 'v, 'c, 'e) program"
  | Try_locked string "('d, 'v, 'c, 'e) program" "('v, 'e) tx_result option \<Rightarrow> ('d, 'v, 'c, 'e) program"

primrec execute :: "('d, 'v, 'c, 'e) program \<Rightarrow> ('d, 'c, 'e, ('v, 'e) tx_result) action" where
  "execute (Finish r) = yields r"
| "execute (Raise x) = raises x"
| "execute (Query q k) = then_do (statement q) (\<lambda>v. execute (k v))"
| "execute (Emit e k) = then_do (emitAfterCommit e) (\<lambda>_. execute k)"
| "execute (Attempt p k) = then_do (caught (execute p)) (\<lambda>r. execute (k r))"
| "execute (Unit p k) = then_do (withResultTransaction (execute p)) (\<lambda>r. execute (k r))"
| "execute (Transaction p k) = then_do (runTransaction (execute p)) (\<lambda>r. execute (k r))"
| "execute (Enter_tenant t k) = then_do (setTenantContext t) (\<lambda>_. execute k)"
| "execute (In_tenant t p k) = then_do (withTenantScope t (execute p)) (\<lambda>r. execute (k r))"
| "execute (In_system p k) = then_do (withSystemScope (execute p)) (\<lambda>r. execute (k r))"
| "execute (Locked l p k) = then_do (withAdvisoryLock l (execute p)) (\<lambda>r. execute (k r))"
| "execute (Try_locked l p k) = then_do (tryAdvisoryLock l (execute p)) (\<lambda>r. execute (k r))"

primrec meaning ::
  "string set \<Rightarrow> ('d, 'v, 'c, 'e) program \<Rightarrow> ('d, 'c, 'e, ('v, 'e) tx_result) effect_spec" where
  "meaning others (Finish r) = (\<lambda>v. (Return r, v))"
| "meaning others (Raise x) = (\<lambda>v. (Throw x, v))"
| "meaning others (Query q k) = s_then (s_statement q) (\<lambda>v. meaning others (k v))"
| "meaning others (Emit e k) = s_then (s_emit e) (\<lambda>_. meaning others k)"
| "meaning others (Attempt p k) = s_then (s_caught (meaning others p)) (\<lambda>r. meaning others (k r))"
| "meaning others (Unit p k) = s_then (s_unit (meaning others p)) (\<lambda>r. meaning others (k r))"
| "meaning others (Transaction p k) = s_then (s_savepoint (meaning others p)) (\<lambda>r. meaning others (k r))"
| "meaning others (Enter_tenant t k) = s_then (s_tenant t) (\<lambda>_. meaning others k)"
| "meaning others (In_tenant t p k) = s_then (s_in_tenant t (meaning others p)) (\<lambda>r. meaning others (k r))"
| "meaning others (In_system p k) = s_then (s_in_system (meaning others p)) (\<lambda>r. meaning others (k r))"
| "meaning others (Locked l p k) = s_then (s_lock others l (meaning others p)) (\<lambda>r. meaning others (k r))"
| "meaning others (Try_locked l p k) = s_then (s_trylock others l (meaning others p)) (\<lambda>r. meaning others (k r))"

lemma execute_implements: "implements others (execute p) (meaning others p)"
  by (induction p) (simp_all, (intro tx_impl; blast)+)


section \<open>The outermost unit\<close>

definition start_view :: "('d, 'c) tx_world \<Rightarrow> ('d, 'c) view" where
  "start_view w = \<lparr>v_now = \<lparr>visible = durable w, setting = configureTransactionContext (site w) (store w),
                            advisory = {}\<rparr>,
                   v_broken = False, v_todo = [], v_store = store w\<rparr>"

text \<open>
  What the outermost unit makes of the end of its program: the result it returns, the rows
  it commits (\<open>None\<close>: it rolls back) and the callbacks it runs.
\<close>

fun settle ::
  "('d \<Rightarrow> bool) \<Rightarrow> (('v, 'e) tx_result, 'e) outcome \<Rightarrow> ('d, 'c) view \<Rightarrow>
     ('v, 'e) tx_result \<times> 'd option \<times> 'c list" where
  "settle okay (Return (Inl e)) v = (Inl e, None, [])"
| "settle okay (Throw (ErrorObject e)) v = (Inl e, None, [])"
| "settle okay (Throw OtherError) v = (Inl TRANSACTION_FAILED, None, [])"
| "settle okay (Return (Inr x)) v =
     (if v_broken v then (Inr x, None, v_todo v)
      else if okay (visible (v_now v)) then (Inr x, Some (visible (v_now v)), v_todo v)
      else (Inl TRANSACTION_FAILED, None, []))"

definition after_unit :: "('d, 'c) tx_world \<Rightarrow> 'd option \<Rightarrow> 'c list \<Rightarrow> nat \<Rightarrow> ('d, 'c) tx_world" where
  "after_unit w d cs n =
     w\<lparr>durable := (case d of Some x \<Rightarrow> x | None \<Rightarrow> durable w), ran := ran w @ cs, uuid := n\<rparr>"

lemma drain_appends: "drainAfterCommit cs w = w\<lparr>ran := ran w @ cs\<rparr>"
  unfolding drainAfterCommit_def
proof (induction cs arbitrary: w)
  case (Cons c cs)
  show ?case by (simp add: Cons.IH)
qed simp

lemma opened_ready:
  fixes w :: "('d, 'c) tx_world"
  obtains s where "ambient (opened w) = Some s" "fresh_marks (opened w) s"
    "view_of (opened w) s = start_view w" "site (opened w) = site w"
  by (rule that[of "the (ambient (opened w))"])
    (simp_all add: opened_def fresh_marks_def view_of_def start_view_def)

lemma closed_after:
  fixes w :: "('d, 'c) tx_world"
  assumes "ambient w = None" "advances (opened w) s w' s'"
  shows "closed_in w w' = after_unit w None [] (uuid w')"
    and "(closed_in w (w'\<lparr>durable := d\<rparr>))\<lparr>ran := ran w @ cs\<rparr> = after_unit w (Some d) cs (uuid w')"
    and "(closed_in w w')\<lparr>ran := ran w @ cs\<rparr> = after_unit w None cs (uuid w')"
    and "ran w' = ran w" "ran (closed_in w w') = ran w" "ran (closed_in w (w'\<lparr>durable := d\<rparr>)) = ran w"
    "site w' = site w" "ambient w' = Some s'"
  using assms by (auto simp: closed_in_def after_unit_def advances_def opened_def)

lemma after_unit_ran:
  "(after_unit w d [] n)\<lparr>ran := ran (after_unit w d [] n) @ cs\<rparr> = after_unit w d cs n"
  by (simp add: after_unit_def)

lemma outermost_unit:
  fixes A :: "('d, 'c, 'e, ('v, 'e) tx_result) action"
  assumes A: "implements (elsewhere (site w)) A D" and none: "ambient w = None"
    and D: "D (start_view w) = (r, v)" and d: "settle (commits (site w)) r v = (x, d, cs)"
  shows "\<exists>n. withResultTransaction A w = (Return x, after_unit w d cs n)"
proof -
  obtain s where s: "ambient (opened w) = Some s" "fresh_marks (opened w) s"
    "view_of (opened w) s = start_view w" "site (opened w) = site w" by (rule opened_ready)
  have A': "implements (elsewhere (site (opened w))) A D" using A s(4) by simp
  obtain r' w' s' where 1: "A (opened w) = (r', w')" "advances (opened w) s w' s'"
      "D (view_of (opened w) s) = (r', view_of w' s')"
    by (rule implementsE[OF A' s(1,2) refl])
  have r: "r' = r" "v = view_of w' s'" using 1(3) D s(3) by simp_all
  note run = withResultTransaction_def openTransaction_def unwrapped_def then_do_def getTx_def none 1(1) r
    raises_def yields_def drain_appends closed_after[OF none 1(2)]
  consider e where "r = Return (Inl e)" | e where "r = Throw (ErrorObject e)" | "r = Throw OtherError"
    | y where "r = Return (Inr y)"
    by (metis outcome.exhaust sum.exhaust thrown.exhaust)
  then show ?thesis
  proof cases
    case (1 e)
    then show ?thesis using d by (auto simp: run)
  next
    case (2 e)
    then show ?thesis using d by (auto simp: run)
  next
    case 3
    then show ?thesis using d by (auto simp: run)
  next
    case (4 y)
    have v: "v_broken v = broken s'" "v_now v = present s'" "v_todo v = afterCommit w'"
      by (simp_all add: r view_of_def)
    consider "broken s'" | "\<not> broken s'" "commits (site w) (visible (present s'))"
      | "\<not> broken s'" "\<not> commits (site w) (visible (present s'))" by blast
    then show ?thesis
    proof cases
      case 1
      then show ?thesis using d 4 by (auto simp: run v[unfolded r] after_unit_ran)
    next
      case 2
      then show ?thesis using d 4 by (auto simp: run v[unfolded r])
    next
      case 3
      then show ?thesis using d 4 by (auto simp: run v[unfolded r])
    qed
  qed
qed


section \<open>The properties\<close>


definition demo_cls :: cls_store where
  "demo_cls = \<lparr>tenantMode = ''multi'', tenantId = Some ''t1'', userId = ''u1'', userEmail = ''u@x'',
               systemScope = False\<rparr>"

definition demo_site :: "nat list tx_site" where
  "demo_site = \<lparr>commits = (\<lambda>_. True), elsewhere = {}, statementTimeout = ''30000'',
                lockTimeout = ''5000'', idleTimeout = ''30000''\<rparr>"

definition idle_world :: "(nat list, nat) tx_world" where
  "idle_world = \<lparr>durable = [], ambient = None, afterCommit = [], store = demo_cls, uuid = 0, ran = [],
                 site = demo_site\<rparr>"

definition insert_number :: "nat \<Rightarrow> (nat list, nat) query" where
  "insert_number n cfg d = (if n \<in> set d then None else Some (d @ [n], n))"

text \<open>Two rows and two callbacks; between them a nested unit that fails on a duplicate.\<close>

definition demo_nested :: "(nat list, nat, nat, nat) program" where
  "demo_nested =
     Query (insert_number 1) (\<lambda>_. Emit (Emitted 10)
       (Unit (Query (insert_number 5) (\<lambda>_. Emit (Emitted 50) (Query (insert_number 1) (\<lambda>_. Finish (Inr 0)))))
          (\<lambda>_. Query (insert_number 2) (\<lambda>_. Emit (Emitted 20) (Finish (Inr 7))))))"

lemmas spec_simps = s_then_def s_statement_def s_defer_def s_unit_def undone_def s_caught_def
  s_tenant_def s_in_tenant_def s_config_def s_finally_def

lemma demo_nested_meaning:
  "meaning (elsewhere (site idle_world)) demo_nested (start_view idle_world) =
     (Return (Inr 7),
      (start_view idle_world)\<lparr>v_now := (v_now (start_view idle_world))\<lparr>visible := [1, 2]\<rparr>, v_todo := [10, 20]\<rparr>)"
  by (simp add: demo_nested_def spec_simps start_view_def idle_world_def insert_number_def)


text \<open>
  C19. A nested unit that fails leaves no trace in a transaction: when \<open>withResultTransaction\<close>
  inside one answers with an error, the rows, the settings, the advisory locks and the queue
  of callbacks are those of its start and the transaction can go on. It never throws.
\<close>

theorem nested_failure_invisible:
  fixes w :: "('d, 'c) tx_world" and p :: "('d, 'v, 'c, 'e) program"
  assumes "ambient w = Some s" and "fresh_marks w s" and "\<not> broken s"
    and "withResultTransaction (execute p) w = (r, w')"
  shows "(\<exists>x s'. r = Return (Inr x) \<and> ambient w' = Some s' \<and> \<not> broken s') \<or>
         (\<exists>e s'. r = Return (Inl e) \<and> ambient w' = Some s' \<and> \<not> broken s' \<and>
            present s' = present s \<and> afterCommit w' = afterCommit w \<and>
            durable w' = durable w \<and> ran w' = ran w)"
proof -
  obtain r1 w1 s1 where 1: "withResultTransaction (execute p) w = (r1, w1)" "advances w s w1 s1"
      "s_unit (meaning (elsewhere (site w)) p) (view_of w s) = (r1, view_of w1 s1)"
    by (rule implementsE[OF impl_withResultTransaction[OF execute_implements] assms(1,2) refl])
  then have eqs: "r1 = r" "w1 = w'" using assms(4) by simp_all
  have amb: "ambient w' = Some s1" "durable w' = durable w" "ran w' = ran w"
    using 1(2) eqs by (simp_all add: advances_def)
  obtain q v where D: "meaning (elsewhere (site w)) p (view_of w s) = (q, v)" by (rule prod.exhaust)
  have unit: "s_unit (meaning (elsewhere (site w)) p) (view_of w s) = (r, view_of w' s1)"
    using 1(3) eqs by simp
  have vb: "\<not> v_broken (view_of w s)" using assms(3) by (simp add: view_of_def)
  have back_to: "view_of w' s1 = undone (view_of w s) v \<Longrightarrow>
      present s1 = present s \<and> \<not> broken s1 \<and> afterCommit w' = afterCommit w"
    using assms(3) by (simp add: view_of_def undone_def)
  consider "r = Return (Inl TRANSACTION_FAILED)" "view_of w' s1 = undone (view_of w s) v"
    | e where "r = Return (Inl e)" "view_of w' s1 = undone (view_of w s) v"
    | x where "r = Return (Inr x)" "\<not> v_broken (view_of w' s1)"
    using unit vb unfolding s_unit_def D by (auto split: outcome.splits sum.splits if_splits)
  then show ?thesis
  proof cases
    case (3 x)
    then show ?thesis using amb by (simp add: view_of_def)
  qed (use amb back_to in simp_all)
qed

definition demo_failing :: "(nat list, nat, nat, nat) program" where
  "demo_failing = Query (insert_number 5) (\<lambda>_. Emit (Emitted 50) (Raise OtherError))"

definition demo_open :: "(nat list, nat) tx_world" where
  "demo_open = (opened idle_world)\<lparr>afterCommit := [9]\<rparr>"

lemma demo_open_ready:
  obtains s where "ambient demo_open = Some s" "fresh_marks demo_open s" "\<not> broken s"
    "visible (present s) = []"
  by (rule that[of "the (ambient demo_open)"])
    (simp_all add: demo_open_def opened_def idle_world_def fresh_marks_def)

lemma demo_failing_fails:
  "fst (withResultTransaction (execute demo_failing) demo_open) = Return (Inl TRANSACTION_FAILED)"
proof -
  obtain s where s: "ambient demo_open = Some s" "fresh_marks demo_open s" "\<not> broken s"
    "visible (present s) = []" by (rule demo_open_ready)
  obtain r w' s' where 1: "withResultTransaction (execute demo_failing) demo_open = (r, w')"
      "s_unit (meaning (elsewhere (site demo_open)) demo_failing) (view_of demo_open s) = (r, view_of w' s')"
    by (rule implementsE[OF impl_withResultTransaction[OF execute_implements] s(1,2) refl])
  have "\<not> v_broken (view_of demo_open s)" "visible (v_now (view_of demo_open s)) = []"
    using s by (simp_all add: view_of_def)
  then have "fst (s_unit (meaning (elsewhere (site demo_open)) demo_failing) (view_of demo_open s)) =
      Return (Inl TRANSACTION_FAILED)"
    by (simp add: demo_failing_def spec_simps insert_number_def)
  then show ?thesis using 1 by simp
qed

theorem nested_failure_invisible_witness:
  "afterCommit (snd (withResultTransaction (execute demo_failing) demo_open)) = [9]"
proof -
  obtain s where s: "ambient demo_open = Some s" "fresh_marks demo_open s" "\<not> broken s"
    by (rule demo_open_ready)
  have run: "withResultTransaction (execute demo_failing) demo_open =
      (Return (Inl TRANSACTION_FAILED), snd (withResultTransaction (execute demo_failing) demo_open))"
    using demo_failing_fails by (metis prod.collapse)
  have "afterCommit demo_open = [9]" by (simp add: demo_open_def)
  then show ?thesis using nested_failure_invisible[OF s run] by auto
qed


definition tenant_text :: "cls_store \<Rightarrow> string" where
  "tenant_text st = (case tenantId st of Some t \<Rightarrow> t | None \<Rightarrow> [])"

lemma s_tenant_healthy:
  assumes "s_tenant t v = (q, u)" "\<not> v_broken u"
  shows "setting (v_now u) ''app.current_tenant'' = t \<and> tenantId (v_store u) = Some t"
  using assms by (auto simp: s_tenant_def s_then_def s_config_def split: if_splits)

lemma s_in_tenant_healthy:
  fixes D :: "('d, 'c, 'e, 'a) effect_spec"
  assumes "s_in_tenant t D v = (r, v')" "\<not> v_broken v'"
  shows "setting (v_now v') ''app.current_tenant'' = tenant_text (v_store v) \<and>
         tenantId (v_store v') = Some (tenant_text (v_store v))"
proof (cases "s_tenant t v :: (unit, 'e) outcome \<times> ('d, 'c) view")
  case (Pair o1 v1)
  show ?thesis
  proof (cases o1)
    case (Throw x)
    then have "v_broken v'"
      using assms(1) Pair by (auto simp: s_in_tenant_def s_tenant_def s_config_def s_then_def split: if_splits)
    then show ?thesis using assms(2) by simp
  next
    case (Return y)
    obtain q u where D: "D v1 = (q, u)" by (rule prod.exhaust)
    have fin: "(r, v') = (case s_tenant (tenant_text (v_store v)) u of
        (Return _ :: (unit, 'e) outcome, v2) \<Rightarrow> (q, v2) | (Throw x, v2) \<Rightarrow> (Throw x, v2))"
      using assms(1) Pair Return D by (simp add: s_in_tenant_def s_then_def s_finally_def tenant_text_def)
    obtain q2 v2 where T: "s_tenant (tenant_text (v_store v)) u = (q2 :: (unit, 'e) outcome, v2)"
      by (rule prod.exhaust)
    then have "v' = v2" using fin by (cases q2) simp_all
    then show ?thesis using s_tenant_healthy[OF T] assms(2) by simp
  qed
qed

lemma s_config_healthy:
  "\<not> v_broken (snd (s_config k x v)) \<Longrightarrow> setting (v_now (snd (s_config k x v))) k = x"
  by (auto simp: s_config_def split: if_splits)

lemma s_in_system_healthy:
  fixes D :: "('d, 'c, 'e, 'a) effect_spec"
  assumes "s_in_system D v = (r, v')" "\<not> v_broken v'"
  shows "setting (v_now v') ''app.system_scope'' = scope_text (systemScope (v_store v)) \<and>
         v_store v' = v_store v"
proof -
  let ?st = "(v_store v)\<lparr>systemScope := True\<rparr>"
  let ?close = "s_config ''app.system_scope'' (scope_text (systemScope (v_store v)))"
  obtain o1 v1 where 1: "s_config ''app.system_scope'' (scope_text True) (v\<lparr>v_store := ?st\<rparr>) =
      (o1 :: (unit, 'e) outcome, v1)"
    by (rule prod.exhaust)
  show ?thesis
  proof (cases o1)
    case (Throw x)
    then have "v_broken v'"
      using assms(1) 1 by (auto simp: s_in_system_def s_with_def s_config_def s_then_def split: if_splits)
    then show ?thesis using assms(2) by simp
  next
    case (Return y)
    obtain q u where D: "D v1 = (q, u)" by (rule prod.exhaust)
    have "v' = (snd (?close u :: (unit, 'e) outcome \<times> ('d, 'c) view))\<lparr>v_store := v_store v\<rparr>"
      using assms(1) 1 Return D
      by (auto simp: s_in_system_def s_with_def s_then_def s_finally_def split: prod.splits outcome.splits)
    then show ?thesis using s_config_healthy[of "''app.system_scope''" _ u] assms(2) by simp
  qed
qed

lemma tenant_scope_restored:
  fixes w :: "('d, 'c) tx_world" and p :: "('d, 'v, 'c, 'e) program"
  assumes w: "ambient w = Some s" "fresh_marks w s"
    and run: "withTenantScope t (execute p) w = (r, w')" "ambient w' = Some s'" "\<not> broken s'"
  shows "setting (present s') ''app.current_tenant'' = tenant_text (store w) \<and>
         tenantId (store w') = Some (tenant_text (store w))"
proof -
  obtain r1 w1 s1 where 1: "withTenantScope t (execute p) w = (r1, w1)" "advances w s w1 s1"
      "s_in_tenant t (meaning (elsewhere (site w)) p) (view_of w s) = (r1, view_of w1 s1)"
    by (rule implementsE[OF impl_in_tenant[OF execute_implements] w refl])
  then have "s1 = s'" using run advances_ambient[OF 1(2)] by simp
  then show ?thesis using s_in_tenant_healthy[OF 1(3)] run 1(1) by (simp add: view_of_def)
qed

lemma system_scope_restored:
  fixes w :: "('d, 'c) tx_world" and p :: "('d, 'v, 'c, 'e) program"
  assumes w: "ambient w = Some s" "fresh_marks w s"
    and run: "withSystemScope (execute p) w = (r, w')" "ambient w' = Some s'" "\<not> broken s'"
  shows "setting (present s') ''app.system_scope'' = scope_text (systemScope (store w)) \<and>
         store w' = store w"
proof -
  obtain r1 w1 s1 where 1: "withSystemScope (execute p) w = (r1, w1)" "advances w s w1 s1"
      "s_in_system (meaning (elsewhere (site w)) p) (view_of w s) = (r1, view_of w1 s1)"
    by (rule implementsE[OF impl_in_system[OF execute_implements] w refl])
  then have "s1 = s'" using run advances_ambient[OF 1(2)] by simp
  then show ?thesis using s_in_system_healthy[OF 1(3)] run 1(1) by (simp add: view_of_def)
qed


definition demo_raising :: "(nat list, nat, nat, nat) program" where
  "demo_raising = Enter_tenant ''t3'' (Raise (ErrorObject (Business 4)))"


section \<open>Where the promises end\<close>

text \<open>
  A statement fails, its error is caught, and no savepoint lies between: PostgreSQL answers
  the commit by rolling back, without an error. The unit reports success and its callbacks
  run, but nothing was stored.
\<close>

definition demo_swallowed :: "(nat list, nat, nat, nat) program" where
  "demo_swallowed =
     Query (insert_number 1) (\<lambda>_. Emit (Emitted 10)
       (Attempt (Query (insert_number 1) (\<lambda>_. Finish (Inr 0))) (\<lambda>_. Finish (Inr 7))))"

lemma swallowed_failure_reports_success:
  "\<exists>n. withResultTransaction (execute demo_swallowed) idle_world =
     (Return (Inr 7), after_unit idle_world None [10] n)"
proof (rule outermost_unit[OF execute_implements])
  show "meaning (elsewhere (site idle_world)) demo_swallowed (start_view idle_world) =
     (Return (Inr 7),
      (start_view idle_world)\<lparr>v_now := (v_now (start_view idle_world))\<lparr>visible := [1]\<rparr>,
        v_broken := True, v_todo := [10]\<rparr>)"
    by (simp add: demo_swallowed_def spec_simps start_view_def idle_world_def insert_number_def)
qed (simp_all add: idle_world_def start_view_def)

text \<open>
  A statement fails in \<open>withTenantScope\<close>, and a unit around the scope repairs the
  transaction. The rollback restores the tenant of the database; the store keeps the tenant
  of the scope, because the \<open>finally\<close> that should restore it ran while every statement failed.
\<close>

definition demo_left_scope :: "(nat list, nat, nat, nat) program" where
  "demo_left_scope =
     Unit (In_tenant ''t2'' (Query (\<lambda>_ _. None) (\<lambda>_. Finish (Inr 0))) Finish) (\<lambda>_. Finish (Inr 7))"

lemma tenant_scope_left_behind:
  "\<exists>v. meaning {} demo_left_scope (start_view idle_world) = (Return (Inr 7), v) \<and> \<not> v_broken v \<and>
     setting (v_now v) ''app.current_tenant'' = ''t1'' \<and> tenantId (v_store v) = Some ''t2''"
  by (simp add: demo_left_scope_def spec_simps start_view_def idle_world_def demo_cls_def
      configureTransactionContext_def)

end
