(* ===== verification/ReadCommitted.thy ===== *)
theory ReadCommitted
  imports Prelude
begin

text \<open>
  Concurrent transactions at PostgreSQL's default isolation level. A command is a script:
  what it does between two statements is decided, a statement is a question to the tables as
  they are at that moment. A statement sees the rows committed so far and the changes of its
  own transaction. A transaction that changed a row keeps it locked until its end; a
  statement that would change a row another open transaction changed waits. Advisory locks
  are kept until the end as well. A transaction whose answer is an error, one that fails and
  one that loses its connection leave nothing behind; otherwise its changes appear at once.

  The locale \<open>tx_client\<close> is the interface for a module on top: it names the obligations of its
  commands one step at a time and gives the invariant of all interleavings in return.
\<close>

section \<open>Scripts\<close>

datatype ('k, 'r, 'a) script =
    Answer 'a
  | Lock string "('k, 'r, 'a) script"
  | Ask "int \<Rightarrow> ('k, 'r) jmap \<Rightarrow> (('k \<times> 'r option) list \<times> ('k, 'r, 'a) script) option"

type_synonym ('k, 'r, 'v) sql = "int \<Rightarrow> ('k, 'r) jmap \<Rightarrow> (('k \<times> 'r option) list \<times> 'v) option"

text \<open>One statement: the rows it writes and its answer, or \<open>None\<close> when a constraint refuses it.\<close>

definition ask :: "('k, 'r, 'v) sql \<Rightarrow> ('v \<Rightarrow> ('k, 'r, 'a) script) \<Rightarrow> ('k, 'r, 'a) script" where
  "ask q k = Ask (\<lambda>now db. map_option (\<lambda>(ws, v). (ws, k v)) (q now db))"

section \<open>The system of open transactions\<close>

text \<open>A change: the row, its committed version when it was written, its new version.\<close>

type_synonym ('k, 'r) change = "'k \<times> 'r option \<times> 'r option"

record ('c, 'k, 'r, 'a) rc_proc =
  rc_cmd :: 'c
  todo :: "('k, 'r, 'a) script"
  changes :: "('k, 'r) change list"
  locks :: "string list"

record ('c, 'k, 'r, 'a) rc_sys =
  clock :: int
  committed :: "('k, 'r) jmap"
  active :: "(nat, ('c, 'k, 'r, 'a) rc_proc) jmap"
  finished :: "('c \<times> 'a) list"

fun put_row :: "'k \<times> 'r option \<Rightarrow> ('k, 'r) jmap \<Rightarrow> ('k, 'r) jmap" where
  "put_row (k, Some r) db = jm_set k r db"
| "put_row (k, None) db = jm_delete k db"

definition visible_rows :: "('k, 'r) jmap \<Rightarrow> ('k, 'r) change list \<Rightarrow> ('k, 'r) jmap" where
  "visible_rows db cs = fold (\<lambda>(k, _, a). put_row (k, a)) cs db"

definition changed_keys :: "('c, 'k, 'r, 'a) rc_proc \<Rightarrow> 'k set" where
  "changed_keys pr = fst ` set (changes pr)"

definition others :: "nat \<Rightarrow> ('c, 'k, 'r, 'a) rc_sys \<Rightarrow> ('c, 'k, 'r, 'a) rc_proc list" where
  "others p s = map snd (filter (\<lambda>(q, _). q \<noteq> p) (active s))"

definition row_free :: "nat \<Rightarrow> ('c, 'k, 'r, 'a) rc_sys \<Rightarrow> 'k \<Rightarrow> bool" where
  "row_free p s k \<longleftrightarrow> list_all (\<lambda>q. k \<notin> changed_keys q) (others p s)"

definition lock_free :: "nat \<Rightarrow> ('c, 'k, 'r, 'a) rc_sys \<Rightarrow> string \<Rightarrow> bool" where
  "lock_free p s key \<longleftrightarrow> list_all (\<lambda>q. key \<notin> set (locks q)) (others p s)"

definition entered :: "('c \<Rightarrow> ('k, 'r, 'a) script) \<Rightarrow> 'c \<Rightarrow> ('c, 'k, 'r, 'a) rc_proc" where
  "entered code c = \<lparr>rc_cmd = c, todo = code c, changes = [], locks = []\<rparr>"

definition locked_by :: "string \<Rightarrow> ('k, 'r, 'a) script \<Rightarrow> ('c, 'k, 'r, 'a) rc_proc \<Rightarrow> ('c, 'k, 'r, 'a) rc_proc" where
  "locked_by key k pr = pr\<lparr>todo := k, locks := key # locks pr\<rparr>"

definition asked :: "('k, 'r) jmap \<Rightarrow> ('k \<times> 'r option) list \<Rightarrow> ('k, 'r, 'a) script \<Rightarrow>
    ('c, 'k, 'r, 'a) rc_proc \<Rightarrow> ('c, 'k, 'r, 'a) rc_proc" where
  "asked db ws k pr = pr\<lparr>todo := k, changes := changes pr @ map (\<lambda>(x, a). (x, jm_get db x, a)) ws\<rparr>"

definition leave :: "nat \<Rightarrow> ('c \<times> 'a) list \<Rightarrow> ('c, 'k, 'r, 'a) rc_sys \<Rightarrow> ('c, 'k, 'r, 'a) rc_sys" where
  "leave p log s = s\<lparr>active := jm_delete p (active s), finished := finished s @ log\<rparr>"

datatype 'c rc_event = Begin nat 'c | Advance nat | Crash nat | Tick nat

fun rc_step ::
  "('c \<Rightarrow> ('k, 'r, 'e + 'x) script) \<Rightarrow> 'e \<Rightarrow> ('c, 'k, 'r, 'e + 'x) rc_sys \<Rightarrow> 'c rc_event \<Rightarrow>
     ('c, 'k, 'r, 'e + 'x) rc_sys" where
  "rc_step code failed s (Begin p c) =
     (if jm_has (active s) p then s else s\<lparr>active := jm_set p (entered code c) (active s)\<rparr>)"
| "rc_step code failed s (Advance p) =
     (case jm_get (active s) p of
        None \<Rightarrow> s
      | Some pr \<Rightarrow>
          (case todo pr of
             Answer (Inl e) \<Rightarrow> leave p [(rc_cmd pr, Inl e)] s
           | Answer (Inr v) \<Rightarrow>
               (leave p [(rc_cmd pr, Inr v)] s)\<lparr>committed := visible_rows (committed s) (changes pr)\<rparr>
           | Lock key k \<Rightarrow>
               if lock_free p s key then s\<lparr>active := jm_set p (locked_by key k pr) (active s)\<rparr> else s
           | Ask f \<Rightarrow>
               (case f (clock s) (visible_rows (committed s) (changes pr)) of
                  None \<Rightarrow> leave p [(rc_cmd pr, Inl failed)] s
                | Some (ws, k) \<Rightarrow>
                    if list_all (\<lambda>(x, _). row_free p s x) ws
                    then s\<lparr>active := jm_set p (asked (committed s) ws k pr) (active s)\<rparr> else s)))"
| "rc_step code failed s (Crash p) = leave p [] s"
| "rc_step code failed s (Tick d) = s\<lparr>clock := clock s + int d\<rparr>"

definition rc_empty :: "('c, 'k, 'r, 'a) rc_sys" where
  "rc_empty = \<lparr>clock = 0, committed = [], active = [], finished = []\<rparr>"

definition rc_run where
  "rc_run code failed s evs = foldl (rc_step code failed) s evs"

text \<open>
  New ids are random, so they collide with no id before: \<open>mints c\<close> is the set of ids that
  \<open>c\<close> draws. \<open>allowed\<close> restricts which commands are started, given what has finished.
\<close>

definition fresh_ids :: "('c \<Rightarrow> string set) \<Rightarrow> ('c, 'k, 'r, 'a) rc_sys \<Rightarrow> 'c \<Rightarrow> bool" where
  "fresh_ids mints s c \<longleftrightarrow>
     list_all (\<lambda>(_, pr). mints c \<inter> mints (rc_cmd pr) = {}) (active s) \<and>
     list_all (\<lambda>(d, _). mints c \<inter> mints d = {}) (finished s)"

fun admissible ::
  "('c \<Rightarrow> string set) \<Rightarrow> (('c \<times> 'a) list \<Rightarrow> 'c \<Rightarrow> bool) \<Rightarrow> ('c, 'k, 'r, 'a) rc_sys \<Rightarrow> 'c rc_event \<Rightarrow> bool" where
  "admissible mints allowed s (Begin p c) \<longleftrightarrow> allowed (finished s) c \<and> fresh_ids mints s c"
| "admissible mints allowed s _ \<longleftrightarrow> True"

inductive rc_reach ::
  "('c \<Rightarrow> ('k, 'r, 'e + 'x) script) \<Rightarrow> 'e \<Rightarrow> ('c \<Rightarrow> string set) \<Rightarrow>
     (('c \<times> ('e + 'x)) list \<Rightarrow> 'c \<Rightarrow> bool) \<Rightarrow> ('c, 'k, 'r, 'e + 'x) rc_sys \<Rightarrow> bool"
  for code failed mints allowed where
  start: "rc_reach code failed mints allowed rc_empty"
| move: "rc_reach code failed mints allowed s \<Longrightarrow> admissible mints allowed s ev \<Longrightarrow>
           rc_reach code failed mints allowed (rc_step code failed s ev)"

fun run_admissible ::
  "('c \<Rightarrow> ('k, 'r, 'e + 'x) script) \<Rightarrow> 'e \<Rightarrow> ('c \<Rightarrow> string set) \<Rightarrow> (('c \<times> ('e + 'x)) list \<Rightarrow> 'c \<Rightarrow> bool) \<Rightarrow>
     ('c, 'k, 'r, 'e + 'x) rc_sys \<Rightarrow> 'c rc_event list \<Rightarrow> bool" where
  "run_admissible code failed mints allowed s [] \<longleftrightarrow> True"
| "run_admissible code failed mints allowed s (ev # evs) \<longleftrightarrow>
     admissible mints allowed s ev \<and> run_admissible code failed mints allowed (rc_step code failed s ev) evs"

lemma reach_run:
  "rc_reach code failed mints allowed s \<Longrightarrow> run_admissible code failed mints allowed s evs \<Longrightarrow>
     rc_reach code failed mints allowed (rc_run code failed s evs)"
  unfolding rc_run_def by (induction evs arbitrary: s) (auto intro: rc_reach.move)

section \<open>Rows of a transaction\<close>

lemma jm_ok_put [simp]: "jm_ok db \<Longrightarrow> jm_ok (put_row x db)"
  by (cases x; cases "snd x") auto

lemma jm_get_put: "jm_get (put_row (k, a) db) x = (if x = k then a else jm_get db x)"
  by (cases a) (simp_all add: jmap_laws)

lemma visible_Nil [simp]: "visible_rows db [] = db"
  by (simp add: visible_rows_def)

lemma visible_ok [simp]: "jm_ok db \<Longrightarrow> jm_ok (visible_rows db cs)"
  unfolding visible_rows_def by (induction cs arbitrary: db) auto

lemma visible_append: "visible_rows db (cs @ ds) = visible_rows (visible_rows db cs) ds"
  by (simp add: visible_rows_def)

lemma visible_unchanged: "k \<notin> fst ` set cs \<Longrightarrow> jm_get (visible_rows db cs) k = jm_get db k"
  unfolding visible_rows_def by (induction cs arbitrary: db) (auto simp: jm_get_put)

lemma visible_changed:
  "k \<in> fst ` set cs \<Longrightarrow> \<exists>b a. (k, b, a) \<in> set cs \<and> jm_get (visible_rows db cs) k = a"
proof (induction cs rule: rev_induct)
  case (snoc c cs)
  obtain x b a where c: "c = (x, b, a)" by (cases c)
  have "jm_get (visible_rows db (cs @ [c])) k = (if k = x then a else jm_get (visible_rows db cs) k)"
    by (simp add: visible_rows_def c jm_get_put)
  then show ?case using snoc c by (cases "k = x") auto
qed simp

lemma asked_fields [simp]:
  "todo (asked db ws k pr) = k" "locks (asked db ws k pr) = locks pr" "rc_cmd (asked db ws k pr) = rc_cmd pr"
  by (simp_all add: asked_def)

lemma entered_fields [simp]:
  "rc_cmd (entered code c) = c" "todo (entered code c) = code c" "changes (entered code c) = []"
  "locks (entered code c) = []"
  by (simp_all add: entered_def)

lemma locked_fields [simp]:
  "rc_cmd (locked_by key k pr) = rc_cmd pr" "todo (locked_by key k pr) = k"
  "changes (locked_by key k pr) = changes pr" "locks (locked_by key k pr) = key # locks pr"
  by (simp_all add: locked_by_def)

lemma asked_keys: "changed_keys (asked db ws k pr) = changed_keys pr \<union> fst ` set ws"
  by (force simp: changed_keys_def asked_def image_iff)

lemma asked_visible: "visible_rows db (changes (asked db ws k pr)) = fold put_row ws (visible_rows db (changes pr))"
proof -
  have "fold (\<lambda>(k, _, a). put_row (k, a)) (map (\<lambda>(x, a). (x, jm_get db x, a)) ws) d = fold put_row ws d" for d
    by (induction ws arbitrary: d) auto
  then show ?thesis by (simp add: asked_def visible_rows_def)
qed

lemma in_others: "jm_ok (active s) \<Longrightarrow> q \<in> set (others p s) \<longleftrightarrow> (\<exists>x. x \<noteq> p \<and> jm_get (active s) x = Some q)"
  by (auto simp: others_def jm_get_iff_in_set image_iff)

section \<open>What a script may write\<close>

text \<open>
  Every statement of the script, asked of tables that satisfy \<open>T\<close>, writes rows that satisfy
  \<open>Q\<close>, whatever the answers before it were.
\<close>

inductive only_writes ::
  "(('k, 'r) jmap \<Rightarrow> bool) \<Rightarrow> (('k, 'r) jmap \<Rightarrow> ('k \<times> 'r option) list \<Rightarrow> bool) \<Rightarrow> ('k, 'r, 'a) script \<Rightarrow> bool"
  for T Q where
  answer: "only_writes T Q (Answer r)"
| lock: "only_writes T Q k \<Longrightarrow> only_writes T Q (Lock key k)"
| question: "(\<And>now db ws k. T db \<Longrightarrow> f now db = Some (ws, k) \<Longrightarrow> only_writes T Q k) \<Longrightarrow>
             (\<And>now db ws k. T db \<Longrightarrow> f now db = Some (ws, k) \<Longrightarrow> Q db ws) \<Longrightarrow> only_writes T Q (Ask f)"

inductive_cases only_writes_lockE: "only_writes T Q (Lock key k)"
inductive_cases only_writes_askE: "only_writes T Q (Ask f)"

lemma only_writes_ask:
  assumes "\<And>now db ws v. T db \<Longrightarrow> q now db = Some (ws, v) \<Longrightarrow> only_writes T Q (k v)"
    and "\<And>now db ws v. T db \<Longrightarrow> q now db = Some (ws, v) \<Longrightarrow> Q db ws"
  shows "only_writes T Q (ask q k)"
  unfolding ask_def by (rule only_writes.question) (use assms in auto)

lemma only_writes_askD:
  assumes "only_writes T Q (Ask f)" "T db" "f now db = Some (ws, k)"
  shows "only_writes T Q k" "Q db ws"
  using assms by (blast elim: only_writes_askE)+

section \<open>The interface of a client\<close>

text \<open>
  Two open transactions: different rows, different locks, different new ids. A change
  remembers the committed version of its row, which nobody else can have replaced since.
\<close>

definition apart :: "('c \<Rightarrow> string set) \<Rightarrow> ('c, 'k, 'r, 'a) rc_proc \<Rightarrow> ('c, 'k, 'r, 'a) rc_proc \<Rightarrow> bool" where
  "apart mints p q \<longleftrightarrow> changed_keys p \<inter> changed_keys q = {} \<and> set (locks p) \<inter> set (locks q) = {} \<and>
     mints (rc_cmd p) \<inter> mints (rc_cmd q) = {}"

definition based :: "('k, 'r) jmap \<Rightarrow> ('c, 'k, 'r, 'a) rc_proc \<Rightarrow> bool" where
  "based db pr \<longleftrightarrow> (\<forall>(k, b, a)\<in>set (changes pr). jm_get db k = b)"

definition unminted :: "('c \<Rightarrow> string set) \<Rightarrow> ('c \<times> 'a) list \<Rightarrow> 'c \<Rightarrow> bool" where
  "unminted mints log c \<longleftrightarrow> (\<forall>(d, _)\<in>set log. mints c \<inter> mints d = {})"

lemma apart_sym: "apart mints p q \<Longrightarrow> apart mints q p"
  by (auto simp: apart_def)

lemma based_visible: "based db pr \<Longrightarrow> changed_keys pr \<inter> fst ` set cs = {} \<Longrightarrow> based (visible_rows db cs) pr"
  unfolding based_def changed_keys_def by (auto simp: visible_unchanged disjoint_iff rev_image_eqI)

lemma based_asked: "based db pr \<Longrightarrow> based db (asked db ws k pr)"
  by (auto simp: based_def asked_def)

locale tx_client =
  fixes code :: "'c \<Rightarrow> ('k, 'r, 'e + 'x) script"
    and failed :: 'e
    and mints :: "'c \<Rightarrow> string set"
    and allowed :: "('c \<times> ('e + 'x)) list \<Rightarrow> 'c \<Rightarrow> bool"
    and G :: "('k, 'r) jmap \<Rightarrow> ('c \<times> ('e + 'x)) list \<Rightarrow> bool"
    and P :: "('k, 'r) jmap \<Rightarrow> ('c \<times> ('e + 'x)) list \<Rightarrow> ('c, 'k, 'r, 'e + 'x) rc_proc \<Rightarrow> bool"
  assumes start_G: "G [] []"
    and enter_P: "jm_ok db \<Longrightarrow> G db log \<Longrightarrow> allowed log c \<Longrightarrow> unminted mints log c \<Longrightarrow> P db log (entered code c)"
    and lock_P: "jm_ok db \<Longrightarrow> G db log \<Longrightarrow> P db log pr \<Longrightarrow> todo pr = Lock key k \<Longrightarrow> P db log (locked_by key k pr)"
    and ask_P: "jm_ok db \<Longrightarrow> G db log \<Longrightarrow> P db log pr \<Longrightarrow> based db pr \<Longrightarrow> unminted mints log (rc_cmd pr) \<Longrightarrow> todo pr = Ask f \<Longrightarrow>
                  f now (visible_rows db (changes pr)) = Some (ws, k) \<Longrightarrow> P db log (asked db ws k pr)"
    and commit_G: "jm_ok db \<Longrightarrow> G db log \<Longrightarrow> P db log pr \<Longrightarrow> based db pr \<Longrightarrow> unminted mints log (rc_cmd pr) \<Longrightarrow>
                     todo pr = Answer (Inr v) \<Longrightarrow>
                     G (visible_rows db (changes pr)) (log @ [(rc_cmd pr, Inr v)])"
    and commit_P: "jm_ok db \<Longrightarrow> G db log \<Longrightarrow> P db log pr \<Longrightarrow> P db log q \<Longrightarrow> based db pr \<Longrightarrow> based db q \<Longrightarrow>
                     apart mints pr q \<Longrightarrow> unminted mints log (rc_cmd pr) \<Longrightarrow> unminted mints log (rc_cmd q) \<Longrightarrow>
                     todo pr = Answer (Inr v) \<Longrightarrow>
                     P (visible_rows db (changes pr)) (log @ [(rc_cmd pr, Inr v)]) q"
    and refuse_G: "G db log \<Longrightarrow> G db (log @ [(c, Inl err)])"
    and refuse_P: "P db log q \<Longrightarrow> P db (log @ [(c, Inl err)]) q"
begin

definition inv :: "('c, 'k, 'r, 'e + 'x) rc_sys \<Rightarrow> bool" where
  "inv s \<longleftrightarrow>
     jm_ok (committed s) \<and> jm_ok (active s) \<and> G (committed s) (finished s) \<and>
     (\<forall>p pr. jm_get (active s) p = Some pr \<longrightarrow>
        P (committed s) (finished s) pr \<and> based (committed s) pr \<and> unminted mints (finished s) (rc_cmd pr)) \<and>
     (\<forall>p q pr qr. p \<noteq> q \<longrightarrow> jm_get (active s) p = Some pr \<longrightarrow> jm_get (active s) q = Some qr \<longrightarrow>
        apart mints pr qr)"

lemma invD:
  assumes "inv s"
  shows "jm_ok (committed s)" "jm_ok (active s)" "G (committed s) (finished s)"
    and "jm_get (active s) p = Some pr \<Longrightarrow> P (committed s) (finished s) pr"
    and "jm_get (active s) p = Some pr \<Longrightarrow> based (committed s) pr"
    and "jm_get (active s) p = Some pr \<Longrightarrow> unminted mints (finished s) (rc_cmd pr)"
    and "jm_get (active s) p = Some pr \<Longrightarrow> jm_get (active s) q = Some qr \<Longrightarrow> p \<noteq> q \<Longrightarrow> apart mints pr qr"
  using assms unfolding inv_def by blast+

lemma invI:
  assumes "jm_ok (committed s)" "jm_ok (active s)" "G (committed s) (finished s)"
    and "\<And>p pr. jm_get (active s) p = Some pr \<Longrightarrow>
          P (committed s) (finished s) pr \<and> based (committed s) pr \<and> unminted mints (finished s) (rc_cmd pr)"
    and "\<And>p q pr qr. p \<noteq> q \<Longrightarrow> jm_get (active s) p = Some pr \<Longrightarrow> jm_get (active s) q = Some qr \<Longrightarrow>
          apart mints pr qr"
  shows "inv s"
  using assms unfolding inv_def by blast

lemma inv_empty: "inv rc_empty"
  by (rule invI) (simp_all add: rc_empty_def start_G)

text \<open>A process moves by itself: the tables stay, the others stay.\<close>

lemma inv_local:
  assumes s: "inv s" and "jm_get (active s) p = Some pr"
    and "P (committed s) (finished s) pr'" "based (committed s) pr'" "rc_cmd pr' = rc_cmd pr"
    and ap: "\<And>q qr. q \<noteq> p \<Longrightarrow> jm_get (active s) q = Some qr \<Longrightarrow> apart mints pr' qr"
  shows "inv (s\<lparr>active := jm_set p pr' (active s)\<rparr>)" (is "inv ?t")
proof -
  have look: "jm_get (active ?t) q = Some qr \<Longrightarrow>
      (q = p \<and> qr = pr') \<or> (q \<noteq> p \<and> jm_get (active s) q = Some qr)" for q qr
    by (auto simp: jm_get_set split: if_splits)
  show ?thesis
  proof (rule invI)
    fix x xr assume "jm_get (active ?t) x = Some xr"
    from look[OF this] show "P (committed ?t) (finished ?t) xr \<and> based (committed ?t) xr \<and>
        unminted mints (finished ?t) (rc_cmd xr)"
    proof (elim disjE conjE)
      assume "x = p" "xr = pr'"
      then show ?thesis using assms(3-5) invD(6)[OF s assms(2)] by simp
    next
      assume "x \<noteq> p" "jm_get (active s) x = Some xr"
      then show ?thesis using invD(4-6)[OF s, of x xr] by simp
    qed
  next
    fix x y xr yr assume xy: "x \<noteq> y" "jm_get (active ?t) x = Some xr" "jm_get (active ?t) y = Some yr"
    from look[OF xy(2)] look[OF xy(3)] show "apart mints xr yr"
    proof (elim disjE conjE)
      assume "x = p" "xr = pr'" "y \<noteq> p" "jm_get (active s) y = Some yr"
      then show ?thesis using ap[of y yr] by simp
    next
      assume "y = p" "yr = pr'" "x \<noteq> p" "jm_get (active s) x = Some xr"
      then show ?thesis using ap[of x xr] by (simp add: apart_sym)
    next
      assume "jm_get (active s) x = Some xr" "jm_get (active s) y = Some yr"
      then show ?thesis using invD(7)[OF s _ _ xy(1)] by simp
    qed (use xy in simp_all)
  qed (use invD(1-3)[OF s] in simp_all)
qed

lemma inv_leave:
  assumes s: "inv s" and "log = [] \<or> (\<exists>c e. log = [(c, Inl e)] \<and> (\<exists>p pr. jm_get (active s) p = Some pr \<and> rc_cmd pr = c \<and> p = x))"
  shows "inv (leave x log s)"
proof -
  have gone: "jm_get (active (leave x log s)) p = Some pr \<Longrightarrow> jm_get (active s) p = Some pr \<and> p \<noteq> x" for p pr
    by (auto simp: leave_def jm_get_delete split: if_splits)
  have fin: "finished (leave x log s) = finished s @ log" "committed (leave x log s) = committed s"
    by (simp_all add: leave_def)
  show ?thesis
  proof (rule invI)
    show "jm_ok (active (leave x log s))" using invD(2)[OF s] by (simp add: leave_def)
    show "G (committed (leave x log s)) (finished (leave x log s))"
      using assms(2) refuse_G invD(3)[OF s] by (auto simp: fin)
    fix p pr assume "jm_get (active (leave x log s)) p = Some pr"
    then have old: "jm_get (active s) p = Some pr" "p \<noteq> x" using gone by blast+
    have "unminted mints (finished s @ log) (rc_cmd pr)"
    proof (cases "log = []")
      case True
      then show ?thesis using invD(6)[OF s old(1)] by simp
    next
      case False
      then obtain e xr where x: "log = [(rc_cmd xr, Inl e)]" "jm_get (active s) x = Some xr"
        using assms(2) by auto
      have "mints (rc_cmd pr) \<inter> mints (rc_cmd xr) = {}"
        using invD(7)[OF s old(1) x(2) old(2)] by (simp add: apart_def)
      then show ?thesis using invD(6)[OF s old(1)] x(1) by (simp add: unminted_def)
    qed
    then show "P (committed (leave x log s)) (finished (leave x log s)) pr \<and>
        based (committed (leave x log s)) pr \<and> unminted mints (finished (leave x log s)) (rc_cmd pr)"
      using assms(2) refuse_P invD(4,5)[OF s old(1)] by (auto simp: fin)
  next
    fix p q pr qr assume "p \<noteq> q" "jm_get (active (leave x log s)) p = Some pr" "jm_get (active (leave x log s)) q = Some qr"
    then show "apart mints pr qr" using gone invD(7)[OF s] by blast
  qed (simp add: fin invD(1)[OF s])
qed

lemma inv_commit:
  assumes s: "inv s" and pr: "jm_get (active s) x = Some pr" and v: "todo pr = Answer (Inr v)"
  shows "inv ((leave x [(rc_cmd pr, Inr v)] s)\<lparr>committed := visible_rows (committed s) (changes pr)\<rparr>)" (is "inv ?t")
proof -
  have gone: "jm_get (active ?t) p = Some qr \<Longrightarrow> jm_get (active s) p = Some qr \<and> p \<noteq> x" for p qr
    by (auto simp: leave_def jm_get_delete split: if_splits)
  have fin: "finished ?t = finished s @ [(rc_cmd pr, Inr v)]" "committed ?t = visible_rows (committed s) (changes pr)"
    by (simp_all add: leave_def)
  note base = invD(1,3)[OF s] invD(4,5,6)[OF s pr]
  show ?thesis
  proof (rule invI)
    show "jm_ok (active ?t)" using invD(2)[OF s] by (simp add: leave_def)
    show "jm_ok (committed ?t)" using invD(1)[OF s] by (simp add: fin)
    show "G (committed ?t) (finished ?t)" unfolding fin by (rule commit_G[OF base v])
    fix p qr assume "jm_get (active ?t) p = Some qr"
    then have old: "jm_get (active s) p = Some qr" "p \<noteq> x" using gone by blast+
    have ap: "apart mints pr qr" using invD(7)[OF s pr old(1)] old(2) by blast
    have "based (committed ?t) qr"
      unfolding fin using invD(5)[OF s old(1)] ap
      by (intro based_visible) (auto simp: apart_def changed_keys_def)
    moreover have "unminted mints (finished ?t) (rc_cmd qr)"
      unfolding fin using invD(6)[OF s old(1)] ap by (auto simp: unminted_def apart_def)
    moreover have "P (committed ?t) (finished ?t) qr"
      unfolding fin
      by (rule commit_P[OF base(1,2,3) invD(4)[OF s old(1)] base(4) invD(5)[OF s old(1)] ap base(5)
            invD(6)[OF s old(1)] v])
    ultimately show "P (committed ?t) (finished ?t) qr \<and> based (committed ?t) qr \<and>
        unminted mints (finished ?t) (rc_cmd qr)" by blast
  next
    fix p q qr qr' assume "p \<noteq> q" "jm_get (active ?t) p = Some qr" "jm_get (active ?t) q = Some qr'"
    then show "apart mints qr qr'" using gone invD(7)[OF s] by blast
  qed
qed

lemma inv_begin:
  assumes s: "inv s" and new: "\<not> jm_has (active s) p" and may: "allowed (finished s) c" "fresh_ids mints s c"
  shows "inv (s\<lparr>active := jm_set p (entered code c) (active s)\<rparr>)" (is "inv ?t")
proof -
  have un: "unminted mints (finished s) c"
    using may(2) by (auto simp: fresh_ids_def unminted_def list_all_iff)
  have P: "P (committed s) (finished s) (entered code c)"
    by (rule enter_P[OF invD(1,3)[OF s] may(1) un])
  have ap: "apart mints (entered code c) qr" if "jm_get (active s) q = Some qr" for q qr
    using may(2) jm_get_in_set[OF that]
    by (auto simp: apart_def entered_def changed_keys_def fresh_ids_def list_all_iff)
  have look: "jm_get (active ?t) q = Some qr \<Longrightarrow>
      (q = p \<and> qr = entered code c) \<or> (q \<noteq> p \<and> jm_get (active s) q = Some qr)" for q qr
    by (auto simp: jm_get_set split: if_splits)
  show ?thesis
  proof (rule invI)
    fix q qr assume "jm_get (active ?t) q = Some qr"
    from look[OF this] show "P (committed ?t) (finished ?t) qr \<and> based (committed ?t) qr \<and>
        unminted mints (finished ?t) (rc_cmd qr)"
    proof (elim disjE conjE)
      assume "q = p" "qr = entered code c"
      then show ?thesis using P un by (simp add: entered_def based_def)
    next
      assume "q \<noteq> p" "jm_get (active s) q = Some qr"
      then show ?thesis using invD(4-6)[OF s, of q qr] by simp
    qed
  next
    fix q r qr rr assume "q \<noteq> r" "jm_get (active ?t) q = Some qr" "jm_get (active ?t) r = Some rr"
    then show "apart mints qr rr" using look[of q qr] look[of r rr] ap apart_sym invD(7)[OF s] by blast
  qed (use invD[OF s] in simp_all)
qed

lemma inv_advance:
  assumes s: "inv s"
  shows "inv (rc_step code failed s (Advance p))"
proof (cases "jm_get (active s) p")
  case None
  then show ?thesis using s by simp
next
  case (Some pr)
  note base = invD(1,3)[OF s] invD(4)[OF s Some]
  note ap = invD(7)[OF s Some]
  show ?thesis
  proof (cases "todo pr")
    case (Answer a)
    then show ?thesis using s Some inv_leave[OF s, of "[(rc_cmd pr, a)]" p] inv_commit[OF s Some]
      by (cases a) auto
  next
    case (Lock key k)
    have "apart mints (locked_by key k pr) qr" if "lock_free p s key" "q \<noteq> p" "jm_get (active s) q = Some qr" for q qr
    proof -
      have "qr \<in> set (others p s)" using in_others[OF invD(2)[OF s]] that(2,3) by blast
      then have "key \<notin> set (locks qr)" using that(1) by (simp add: lock_free_def list_all_iff)
      then show ?thesis using ap[OF that(3)] that(2)
        by (auto simp: apart_def locked_by_def changed_keys_def)
    qed
    moreover have "based (committed s) (locked_by key k pr)"
      using invD(5)[OF s Some] by (simp add: based_def locked_by_def)
    ultimately have "lock_free p s key \<Longrightarrow> inv (s\<lparr>active := jm_set p (locked_by key k pr) (active s)\<rparr>)"
      by (intro inv_local[OF s Some] lock_P[OF base Lock]) (auto simp: locked_by_def)
    then show ?thesis using s Some Lock by simp
  next
    case (Ask f)
    show ?thesis
    proof (cases "f (clock s) (visible_rows (committed s) (changes pr))")
      case None
      then show ?thesis using s Some Ask inv_leave[OF s, of "[(rc_cmd pr, Inl failed)]" p] by auto
    next
      case (Some wk)
      obtain ws k where wk: "wk = (ws, k)" by (cases wk)
      have pr': "P (committed s) (finished s) (asked (committed s) ws k pr)"
        using ask_P[OF base invD(5,6)[OF s \<open>jm_get (active s) p = Some pr\<close>] Ask] Some wk by blast
      have "apart mints (asked (committed s) ws k pr) qr"
        if free: "\<forall>(y, _)\<in>set ws. row_free p s y" and q: "q \<noteq> p" "jm_get (active s) q = Some qr" for q qr
      proof -
        have "fst ` set ws \<inter> changed_keys qr = {}"
          using free q invD(2)[OF s] by (fastforce simp: row_free_def list_all_iff in_others)
        then show ?thesis using ap[OF q(2)] q(1)
          by (auto simp: apart_def asked_keys)
      qed
      then have "list_all (\<lambda>(y, _). row_free p s y) ws \<Longrightarrow>
          inv (s\<lparr>active := jm_set p (asked (committed s) ws k pr) (active s)\<rparr>)"
        using invD(5)[OF s \<open>jm_get (active s) p = Some pr\<close>]
        by (intro inv_local[OF s \<open>jm_get (active s) p = Some pr\<close> pr'])
          (auto simp: list_all_iff based_asked)
      then show ?thesis using s \<open>jm_get (active s) p = Some pr\<close> Ask Some wk by simp
    qed
  qed
qed

lemma reach_inv: "rc_reach code failed mints allowed s \<Longrightarrow> inv s"
proof (induction rule: rc_reach.induct)
  case start
  show ?case by (rule inv_empty)
next
  case (move s ev)
  show ?case
  proof (cases ev)
    case (Begin p c)
    then show ?thesis using move inv_begin by auto
  next
    case (Advance p)
    then show ?thesis using move inv_advance by simp
  next
    case (Crash p)
    then show ?thesis using move inv_leave by simp
  next
    case (Tick d)
    then show ?thesis using move by (simp add: inv_def)
  qed
qed

lemma reach_global: "rc_reach code failed mints allowed s \<Longrightarrow> G (committed s) (finished s)"
  using invD(3)[OF reach_inv] .

end

end
