(* ===== verification/Tenancy.thy ===== *)
theory Tenancy
  imports ReadCommitted
begin

text \<open>
  The tenancy module (\<open>modules/tenancy\<close>): organizations, memberships and invitations, the
  statements of their repositories and the commands over them, each as a script of
  statements that other transactions can interleave (theory \<open>ReadCommitted\<close>).

  The tables are one map. The key of a membership is the pair on which its unique index
  stands; a live organization also holds an entry for its slug, as in the partial unique
  index. Membership caches are written but never read, so they are left out.
\<close>

section \<open>Rows\<close>

datatype tenant_role = OWNER | ADMIN | MEMBER

datatype invitable_role = AS_ADMIN | AS_MEMBER

fun granted_role :: "invitable_role \<Rightarrow> tenant_role" where
  "granted_role AS_ADMIN = ADMIN"
| "granted_role AS_MEMBER = MEMBER"

datatype invitation_status = Pending | Accepted | Revoked

record organization =
  og_id :: string
  og_name :: string
  og_slug :: string
  og_createdBy :: string
  og_createdAt :: int
  og_updatedAt :: int
  og_deletedAt :: "int option"

record membership =
  ms_id :: string
  ms_tenantId :: string
  ms_userId :: string
  ms_userEmail :: string
  ms_userName :: string
  ms_role :: tenant_role
  ms_createdAt :: int
  ms_updatedAt :: int

record invitation =
  iv_id :: string
  iv_tenantId :: string
  iv_email :: string
  iv_role :: invitable_role
  iv_tokenHash :: string
  iv_invitedBy :: string
  iv_status :: invitation_status
  iv_expiresAt :: int
  iv_acceptedBy :: "string option"
  iv_acceptedAt :: "int option"
  iv_createdAt :: int
  iv_updatedAt :: int

record invitation_created =
  ic_tenantId :: string
  ic_organizationName :: string
  ic_email :: string
  ic_role :: invitable_role
  ic_token :: string

datatype tn_key = OrgKey string | SlugKey string | MemberKey string string | InviteKey string | EventKey string

datatype tn_row = OrgRow organization | SlugRow string | MemberRow membership | InviteRow invitation
  | EventRow invitation_created

type_synonym tn_db = "(tn_key, tn_row) jmap"
type_synonym 'v tn_sql = "(tn_key, tn_row, 'v) sql"

fun member_row :: "tn_key \<times> tn_row \<Rightarrow> membership option" where
  "member_row (_, MemberRow m) = Some m"
| "member_row _ = None"

fun invite_row :: "tn_key \<times> tn_row \<Rightarrow> invitation option" where
  "invite_row (_, InviteRow i) = Some i"
| "invite_row _ = None"

fun org_row :: "tn_key \<times> tn_row \<Rightarrow> organization option" where
  "org_row (_, OrgRow x) = Some x"
| "org_row _ = None"

definition memberships_of :: "tn_db \<Rightarrow> membership list" where
  "memberships_of db = List.map_filter member_row db"

definition invitations_of :: "tn_db \<Rightarrow> invitation list" where
  "invitations_of db = List.map_filter invite_row db"

definition organizations_of :: "tn_db \<Rightarrow> organization list" where
  "organizations_of db = List.map_filter org_row db"

definition member_key :: "membership \<Rightarrow> tn_key" where
  "member_key m = MemberKey (ms_tenantId m) (ms_userId m)"

definition first_row :: "'a list \<Rightarrow> 'a option" where
  "first_row xs = (case xs of [] \<Rightarrow> None | x # _ \<Rightarrow> Some x)"

text \<open>A statement that only reads.\<close>

definition reading :: "(int \<Rightarrow> tn_db \<Rightarrow> 'v) \<Rightarrow> 'v tn_sql" where
  "reading f now db = Some ([], f now db)"

section \<open>Statements on memberships\<close>

definition findMembership :: "string \<Rightarrow> string \<Rightarrow> membership option tn_sql" where
  "findMembership t u = reading (\<lambda>_ db.
     first_row (filter (\<lambda>m. ms_tenantId m = t \<and> ms_userId m = u) (memberships_of db)))"

definition findMemberByEmail :: "string \<Rightarrow> string \<Rightarrow> membership option tn_sql" where
  "findMemberByEmail t email = reading (\<lambda>_ db.
     first_row (filter (\<lambda>m. ms_tenantId m = t \<and> ms_userEmail m = email) (memberships_of db)))"

definition countOwners :: "string \<Rightarrow> nat tn_sql" where
  "countOwners t = reading (\<lambda>_ db.
     length (filter (\<lambda>m. ms_tenantId m = t \<and> ms_role m = OWNER) (memberships_of db)))"

definition hasOwnerMembership :: "string \<Rightarrow> bool tn_sql" where
  "hasOwnerMembership u = reading (\<lambda>_ db.
     0 < length (filter (\<lambda>m. ms_userId m = u \<and> ms_role m = OWNER) (memberships_of db)))"

text \<open>Refused by the unique index, by the primary key, and by the reference to the organization.\<close>

definition memberships_create ::
  "string \<Rightarrow> string \<Rightarrow> string \<Rightarrow> string \<Rightarrow> string \<Rightarrow> tenant_role \<Rightarrow> membership tn_sql" where
  "memberships_create mid t u email name r now db =
     (if jm_has db (MemberKey t u) \<or> list_ex (\<lambda>m. ms_id m = mid) (memberships_of db) \<or>
         \<not> jm_has db (OrgKey t) then None
      else let m = \<lparr>ms_id = mid, ms_tenantId = t, ms_userId = u, ms_userEmail = email, ms_userName = name,
                    ms_role = r, ms_createdAt = now, ms_updatedAt = now\<rparr>
           in Some ([(MemberKey t u, Some (MemberRow m))], m))"

definition update_members :: "(membership \<Rightarrow> bool) \<Rightarrow> (membership \<Rightarrow> membership) \<Rightarrow> membership list tn_sql" where
  "update_members p f now db =
     (let ms = map (\<lambda>m. (f m)\<lparr>ms_updatedAt := now\<rparr>) (filter p (memberships_of db))
      in Some (map (\<lambda>m. (member_key m, Some (MemberRow m))) ms, ms))"

definition delete_members :: "(membership \<Rightarrow> bool) \<Rightarrow> nat tn_sql" where
  "delete_members p now db =
     (let ms = filter p (memberships_of db)
      in Some (map (\<lambda>m. (member_key m, None)) ms, length ms))"

definition updateRole :: "string \<Rightarrow> string \<Rightarrow> tenant_role \<Rightarrow> membership list tn_sql" where
  "updateRole t u r = update_members (\<lambda>m. ms_tenantId m = t \<and> ms_userId m = u) (\<lambda>m. m\<lparr>ms_role := r\<rparr>)"

definition removeUser :: "string \<Rightarrow> nat tn_sql" where
  "removeUser u = delete_members (\<lambda>m. ms_userId m = u)"

definition memberships_deleteByTenant :: "string \<Rightarrow> nat tn_sql" where
  "memberships_deleteByTenant t = delete_members (\<lambda>m. ms_tenantId m = t)"

section \<open>Statements on invitations\<close>

definition findPending :: "string \<Rightarrow> string \<Rightarrow> invitation option tn_sql" where
  "findPending t email = reading (\<lambda>now db.
     first_row (filter (\<lambda>i. iv_tenantId i = t \<and> iv_email i = email \<and> iv_status i = Pending \<and> now < iv_expiresAt i)
                  (invitations_of db)))"

definition update_invites :: "(int \<Rightarrow> invitation \<Rightarrow> bool) \<Rightarrow> (int \<Rightarrow> invitation \<Rightarrow> invitation) \<Rightarrow> invitation list tn_sql" where
  "update_invites p f now db =
     (let is = map (\<lambda>i. (f now i)\<lparr>iv_updatedAt := now\<rparr>) (filter (p now) (invitations_of db))
      in Some (map (\<lambda>i. (InviteKey (iv_id i), Some (InviteRow i))) is, is))"

definition delete_invites :: "(invitation \<Rightarrow> bool) \<Rightarrow> nat tn_sql" where
  "delete_invites p now db =
     (let is = filter p (invitations_of db)
      in Some (map (\<lambda>i. (InviteKey (iv_id i), None)) is, length is))"

definition revokeExpired :: "string \<Rightarrow> string \<Rightarrow> invitation list tn_sql" where
  "revokeExpired t email =
     update_invites (\<lambda>now i. iv_tenantId i = t \<and> iv_email i = email \<and> iv_status i = Pending \<and> iv_expiresAt i \<le> now)
       (\<lambda>_ i. i\<lparr>iv_status := Revoked\<rparr>)"

definition invitations_deleteByEmail :: "string \<Rightarrow> nat tn_sql" where
  "invitations_deleteByEmail email = delete_invites (\<lambda>i. iv_email i = email)"

definition invitations_deleteByTenant :: "string \<Rightarrow> nat tn_sql" where
  "invitations_deleteByTenant t = delete_invites (\<lambda>i. iv_tenantId i = t)"

definition settled_before :: "int \<Rightarrow> invitation \<Rightarrow> bool" where
  "settled_before cutoff i \<longleftrightarrow> iv_updatedAt i < cutoff \<and> (iv_status i \<noteq> Pending \<or> iv_expiresAt i < cutoff)"

definition select_settled :: "int \<Rightarrow> nat \<Rightarrow> string list tn_sql" where
  "select_settled cutoff limit = reading (\<lambda>_ db.
     take limit (map iv_id (filter (settled_before cutoff) (invitations_of db))))"

definition findByTokenHash :: "string \<Rightarrow> invitation option tn_sql" where
  "findByTokenHash h = reading (\<lambda>now db.
     first_row (filter (\<lambda>i. iv_tokenHash i = h \<and> iv_status i = Pending \<and> now < iv_expiresAt i) (invitations_of db)))"

definition markAccepted :: "string \<Rightarrow> string \<Rightarrow> invitation list tn_sql" where
  "markAccepted iid u =
     update_invites (\<lambda>now i. iv_id i = iid \<and> iv_status i = Pending \<and> now < iv_expiresAt i)
       (\<lambda>now i. i\<lparr>iv_status := Accepted, iv_acceptedBy := Some u, iv_acceptedAt := Some now\<rparr>)"

definition INVITATION_TTL_DAYS :: int where
  "INVITATION_TTL_DAYS = 7"

definition MILLISECONDS_PER_DAY :: int where
  "MILLISECONDS_PER_DAY = 86400000"

definition invitations_create ::
  "string \<Rightarrow> string \<Rightarrow> string \<Rightarrow> invitable_role \<Rightarrow> string \<Rightarrow> string \<Rightarrow> invitation tn_sql" where
  "invitations_create iid t email r h by_user now db =
     (if jm_has db (InviteKey iid) \<or> \<not> jm_has db (OrgKey t) then None
      else let i = \<lparr>iv_id = iid, iv_tenantId = t, iv_email = email, iv_role = r, iv_tokenHash = h,
                    iv_invitedBy = by_user, iv_status = Pending,
                    iv_expiresAt = now + INVITATION_TTL_DAYS * MILLISECONDS_PER_DAY,
                    iv_acceptedBy = None, iv_acceptedAt = None, iv_createdAt = now, iv_updatedAt = now\<rparr>
           in Some ([(InviteKey iid, Some (InviteRow i))], i))"

section \<open>Statements on organizations\<close>

definition findBySlug :: "string \<Rightarrow> organization option tn_sql" where
  "findBySlug slug = reading (\<lambda>_ db.
     first_row (filter (\<lambda>g. og_slug g = slug \<and> og_deletedAt g = None) (organizations_of db)))"

definition findOrganization :: "string \<Rightarrow> organization option tn_sql" where
  "findOrganization t = reading (\<lambda>_ db.
     first_row (filter (\<lambda>g. og_id g = t \<and> og_deletedAt g = None) (organizations_of db)))"

definition organizations_create :: "string \<Rightarrow> string \<Rightarrow> string \<Rightarrow> string \<Rightarrow> organization tn_sql" where
  "organizations_create oid name slug by_user now db =
     (if jm_has db (OrgKey oid) \<or> jm_has db (SlugKey slug) then None
      else let g = \<lparr>og_id = oid, og_name = name, og_slug = slug, og_createdBy = by_user, og_createdAt = now,
                    og_updatedAt = now, og_deletedAt = None\<rparr>
           in Some ([(OrgKey oid, Some (OrgRow g)), (SlugKey slug, Some (SlugRow oid))], g))"

definition organizations_softDelete :: "string \<Rightarrow> organization list tn_sql" where
  "organizations_softDelete t now db =
     (let gs = filter (\<lambda>g. og_id g = t \<and> og_deletedAt g = None) (organizations_of db)
      in Some (concat (map (\<lambda>g. [(OrgKey t, Some (OrgRow (g\<lparr>og_deletedAt := Some now, og_updatedAt := now\<rparr>))),
                                 (SlugKey (og_slug g), None)]) gs), gs))"

text \<open>The row goes with its memberships and invitations (\<open>onDelete: cascade\<close>).\<close>

definition organizations_delete :: "string \<Rightarrow> bool tn_sql" where
  "organizations_delete t now db =
     (let gs = filter (\<lambda>g. og_id g = t) (organizations_of db);
          ms = filter (\<lambda>m. ms_tenantId m = t) (memberships_of db);
          is = filter (\<lambda>i. iv_tenantId i = t) (invitations_of db)
      in if gs = [] then Some ([], False)
         else Some (map (\<lambda>m. (member_key m, None)) ms @ map (\<lambda>i. (InviteKey (iv_id i), None)) is @
                    map (\<lambda>g. (SlugKey (og_slug g), None)) (filter (\<lambda>g. og_deletedAt g = None) gs) @
                    [(OrgKey t, None)], True))"


section \<open>Errors, requests and results\<close>

datatype tenancy_error = ORGANIZATION_SLUG_TAKEN | TENANT_REQUIRED | MEMBERSHIP_NOT_FOUND
  | MEMBERSHIP_ALREADY_EXISTS | INVITATION_ALREADY_EXISTS | INVITATION_INVALID | INVITATION_EMAIL_MISMATCH
  | TENANT_FORBIDDEN | LAST_OWNER | TENANCY_OPERATION_FAILED | TENANCY_EVENT_DISPATCH_FAILED

datatype tenancy_value = Created organization membership | Joined membership | Invited invitation
  | Done | Purged nat

type_synonym tn_script = "(tn_key, tn_row, tenancy_error + tenancy_value) script"

text \<open>The signed-in user, and the tenant that the guard resolved for the request.\<close>

record tn_actor =
  ac_sub :: string
  ac_email :: string
  ac_name :: "string option"

record tn_request =
  tr_tenantId :: "string option"
  tr_role :: "tenant_role option"

text \<open>What is not in the sources: SHA-256 as hexadecimal text, and whether the outbox takes an event.\<close>

record tn_env =
  te_sha256 :: "string \<Rightarrow> string"
  te_dispatch :: "invitation_created \<Rightarrow> bool"

definition display_name :: "tn_actor \<Rightarrow> string" where
  "display_name a = (case ac_name a of Some n \<Rightarrow> n | None \<Rightarrow> ac_email a)"

section \<open>Slugs\<close>

definition MAX_SLUG_LENGTH :: nat where
  "MAX_SLUG_LENGTH = 50"

definition slug_char :: "char \<Rightarrow> bool" where
  "slug_char c \<longleftrightarrow> c \<in> set ''abcdefghijklmnopqrstuvwxyz0123456789''"

text \<open>\<open>replace(/[^a-z0-9]+/g, "-")\<close>: every run of other characters becomes one dash.\<close>

function dash_runs :: "string \<Rightarrow> string" where
  "dash_runs [] = []"
| "dash_runs (c # s) =
     (if slug_char c then c # dash_runs s
      else CHR ''-'' # dash_runs (dropWhile (\<lambda>x. \<not> slug_char x) s))"
  by pat_completeness auto

termination dash_runs
  by (relation "measure length") (auto simp: less_Suc_eq_le length_dropWhile_le)

text \<open>\<open>replace(/^-|-$/g, "")\<close>\<close>

definition strip_dashes :: "string \<Rightarrow> string" where
  "strip_dashes s =
     (let t = (case s of c # r \<Rightarrow> if c = CHR ''-'' then r else s | [] \<Rightarrow> [])
      in if t \<noteq> [] \<and> last t = CHR ''-'' then butlast t else t)"

definition createSlug :: "string \<Rightarrow> string" where
  "createSlug name =
     (let normalized = take MAX_SLUG_LENGTH (strip_dashes (dash_runs (to_lower (js_trim name))))
      in if 3 \<le> length normalized then normalized
         else take MAX_SLUG_LENGTH ((if normalized = [] then ''organization'' else normalized) @ ''-org''))"

section \<open>Commands\<close>

abbreviation refuse :: "tenancy_error \<Rightarrow> tn_script" where
  "refuse e \<equiv> Answer (Inl e)"

text \<open>The ids drawn by \<open>randomUUID\<close> are arguments.\<close>

definition create_persist :: "string \<Rightarrow> string \<Rightarrow> tn_actor \<Rightarrow> string \<Rightarrow> string \<Rightarrow> tn_script" where
  "create_persist name slug actor oid mid =
     ask (organizations_create oid name slug (ac_sub actor)) (\<lambda>g.
     ask (memberships_create mid (og_id g) (ac_sub actor) (ac_email actor) (display_name actor) OWNER) (\<lambda>m.
     Answer (Inr (Created g m))))"

definition CreateOrganizationCommand ::
  "string \<Rightarrow> string option \<Rightarrow> tn_actor \<Rightarrow> string \<Rightarrow> string \<Rightarrow> tn_script" where
  "CreateOrganizationCommand name given actor oid mid =
     (let slug = (case given of Some s \<Rightarrow> s | None \<Rightarrow> createSlug name)
      in ask (findBySlug slug) (\<lambda>existing.
           if existing \<noteq> None then refuse ORGANIZATION_SLUG_TAKEN
           else create_persist name slug actor oid mid))"

definition AcceptInvitationCommand :: "tn_env \<Rightarrow> string \<Rightarrow> tn_actor \<Rightarrow> string \<Rightarrow> tn_script" where
  "AcceptInvitationCommand E token actor mid =
     ask (findByTokenHash (te_sha256 E token)) (\<lambda>found.
       case found of
         None \<Rightarrow> refuse INVITATION_INVALID
       | Some i \<Rightarrow>
           if iv_email i \<noteq> to_lower (ac_email actor) then refuse INVITATION_EMAIL_MISMATCH
           else ask (findMembership (iv_tenantId i) (ac_sub actor)) (\<lambda>existing.
             if existing \<noteq> None then refuse MEMBERSHIP_ALREADY_EXISTS
             else ask (memberships_create mid (iv_tenantId i) (ac_sub actor) (to_lower (ac_email actor))
                         (display_name actor) (granted_role (iv_role i))) (\<lambda>m.
               ask (markAccepted (iv_id i) (ac_sub actor)) (\<lambda>accepted.
                 if accepted = [] then refuse INVITATION_INVALID else Answer (Inr (Joined m))))))"

definition invite_store :: "tn_env \<Rightarrow> string \<Rightarrow> string \<Rightarrow> invitable_role \<Rightarrow> tn_actor \<Rightarrow> string \<Rightarrow> string \<Rightarrow> organization \<Rightarrow> tn_script" where
  "invite_store E t email role actor token iid g =
     ask (invitations_create iid t email role (te_sha256 E token) (ac_sub actor)) (\<lambda>i.
       let event = \<lparr>ic_tenantId = t, ic_organizationName = og_name g, ic_email = email, ic_role = role,
                    ic_token = token\<rparr>
       in if te_dispatch E event
          then ask (\<lambda>_ _. Some ([(EventKey iid, Some (EventRow event))], ())) (\<lambda>_. Answer (Inr (Invited i)))
          else refuse TENANCY_EVENT_DISPATCH_FAILED)"

definition InviteMemberCommand ::
  "tn_env \<Rightarrow> tn_request \<Rightarrow> string \<Rightarrow> invitable_role \<Rightarrow> tn_actor \<Rightarrow> string \<Rightarrow> string \<Rightarrow> tn_script" where
  "InviteMemberCommand E req address role actor token iid =
     (case tr_tenantId req of
        None \<Rightarrow> refuse TENANT_REQUIRED
      | Some t \<Rightarrow>
          if tr_role req \<noteq> Some OWNER \<and> tr_role req \<noteq> Some ADMIN then refuse TENANT_FORBIDDEN
          else let email = to_lower address
               in ask (findMemberByEmail t email) (\<lambda>member.
                    if member \<noteq> None then refuse MEMBERSHIP_ALREADY_EXISTS
                    else ask (revokeExpired t email) (\<lambda>_.
                      ask (findPending t email) (\<lambda>waiting.
                        if waiting \<noteq> None then refuse INVITATION_ALREADY_EXISTS
                        else ask (findOrganization t) (\<lambda>found.
                          case found of
                            None \<Rightarrow> refuse TENANT_REQUIRED
                          | Some g \<Rightarrow> invite_store E t email role actor token iid g)))))"

definition owners_key :: "string \<Rightarrow> string" where
  "owners_key t = ''tenancy:owners:'' @ t"

definition canChangeRole :: "tenant_role option \<Rightarrow> tenant_role \<Rightarrow> tenant_role \<Rightarrow> bool" where
  "canChangeRole actorRole currentRole nextRole \<longleftrightarrow>
     actorRole = Some OWNER \<or> (actorRole = Some ADMIN \<and> currentRole \<noteq> OWNER \<and> nextRole \<noteq> OWNER)"

text \<open>\<open>if (owners.value <= 1) return err(LAST_OWNER)\<close>, on the branch that takes an owner away.\<close>

definition keeping_an_owner :: "string \<Rightarrow> bool \<Rightarrow> tn_script \<Rightarrow> tn_script" where
  "keeping_an_owner t loses k =
     (if loses then ask (countOwners t) (\<lambda>n. if n \<le> 1 then refuse LAST_OWNER else k) else k)"

definition updatePersisted :: "string \<Rightarrow> string \<Rightarrow> tenant_role \<Rightarrow> tenant_role option \<Rightarrow> tn_script" where
  "updatePersisted t u role actorRole =
     ask (findMembership t u) (\<lambda>target.
       case target of
         None \<Rightarrow> refuse MEMBERSHIP_NOT_FOUND
       | Some m \<Rightarrow>
           if \<not> canChangeRole actorRole (ms_role m) role then refuse TENANT_FORBIDDEN
           else keeping_an_owner t (ms_role m = OWNER \<and> role \<noteq> OWNER)
             (ask (updateRole t u role) (\<lambda>updated.
               case updated of [] \<Rightarrow> refuse MEMBERSHIP_NOT_FOUND | m # _ \<Rightarrow> Answer (Inr (Joined m)))))"

definition UpdateMemberCommand :: "tn_request \<Rightarrow> string \<Rightarrow> tenant_role \<Rightarrow> tn_script" where
  "UpdateMemberCommand req u role =
     (case tr_tenantId req of
        None \<Rightarrow> refuse TENANT_REQUIRED
      | Some t \<Rightarrow> Lock (owners_key t) (updatePersisted t u role (tr_role req)))"

text \<open>The repository's \<open>remove\<close>: it finds the row again and deletes it by its id.\<close>

definition memberships_remove :: "string \<Rightarrow> string \<Rightarrow> tn_script \<Rightarrow> tn_script \<Rightarrow> tn_script" where
  "memberships_remove t u gone missing =
     ask (findMembership t u) (\<lambda>found.
       case found of
         None \<Rightarrow> missing
       | Some m \<Rightarrow> ask (delete_members (\<lambda>x. ms_id x = ms_id m)) (\<lambda>n. if 0 < n then gone else missing))"

definition removePersisted :: "string \<Rightarrow> string \<Rightarrow> tenant_role option \<Rightarrow> tn_script" where
  "removePersisted t u actorRole =
     ask (findMembership t u) (\<lambda>target.
       case target of
         None \<Rightarrow> refuse MEMBERSHIP_NOT_FOUND
       | Some m \<Rightarrow>
           if ms_role m = OWNER \<and> actorRole \<noteq> Some OWNER then refuse TENANT_FORBIDDEN
           else if actorRole \<noteq> Some OWNER \<and> actorRole \<noteq> Some ADMIN then refuse TENANT_FORBIDDEN
           else keeping_an_owner t (ms_role m = OWNER)
             (memberships_remove t u (Answer (Inr Done)) (refuse MEMBERSHIP_NOT_FOUND)))"

definition RemoveMemberCommand :: "tn_request \<Rightarrow> string \<Rightarrow> tn_script" where
  "RemoveMemberCommand req u =
     (case tr_tenantId req of
        None \<Rightarrow> refuse TENANT_REQUIRED
      | Some t \<Rightarrow> Lock (owners_key t) (removePersisted t u (tr_role req)))"

definition DeleteOrganizationDataCommand :: "string \<Rightarrow> tn_script" where
  "DeleteOrganizationDataCommand t =
     ask (memberships_deleteByTenant t) (\<lambda>_.
     ask (invitations_deleteByTenant t) (\<lambda>_.
     ask (organizations_softDelete t) (\<lambda>_. Answer (Inr Done))))"

definition HardDeleteOrganizationCommand :: "string \<Rightarrow> tn_script" where
  "HardDeleteOrganizationCommand t = ask (organizations_delete t) (\<lambda>_. Answer (Inr Done))"

definition PurgeUserTenancyDataCommand :: "string \<Rightarrow> string \<Rightarrow> tn_script" where
  "PurgeUserTenancyDataCommand u email =
     ask (removeUser u) (\<lambda>_. ask (invitations_deleteByEmail email) (\<lambda>_. Answer (Inr Done)))"

definition PURGE_BATCH_SIZE :: nat where
  "PURGE_BATCH_SIZE = 500"

definition MAX_PURGE_BATCHES :: nat where
  "MAX_PURGE_BATCHES = 10"

definition deleteSettledBefore :: "int \<Rightarrow> nat \<Rightarrow> (nat \<Rightarrow> tn_script) \<Rightarrow> tn_script" where
  "deleteSettledBefore cutoff limit k =
     ask (select_settled cutoff limit) (\<lambda>stale.
       if stale = [] then k 0
       else ask (delete_invites (\<lambda>i. iv_id i \<in> set stale)) (\<lambda>_. k (length stale)))"

text \<open>The loop over batches; \<open>aborted i\<close>: the signal is set before batch \<open>i\<close>.\<close>

primrec purge_batches :: "(nat \<Rightarrow> bool) \<Rightarrow> int \<Rightarrow> nat \<Rightarrow> nat \<Rightarrow> tn_script" where
  "purge_batches aborted cutoff 0 purged = Answer (Inr (Purged purged))"
| "purge_batches aborted cutoff (Suc n) purged =
     (if aborted (MAX_PURGE_BATCHES - Suc n) then Answer (Inr (Purged purged))
      else deleteSettledBefore cutoff PURGE_BATCH_SIZE (\<lambda>deleted.
             if deleted < PURGE_BATCH_SIZE then Answer (Inr (Purged (purged + deleted)))
             else purge_batches aborted cutoff n (purged + deleted)))"

definition PurgeExpiredInvitationsCommand :: "(nat \<Rightarrow> bool) \<Rightarrow> int \<Rightarrow> int \<Rightarrow> tn_script" where
  "PurgeExpiredInvitationsCommand aborted now retentionDays =
     purge_batches aborted (now - retentionDays * MILLISECONDS_PER_DAY) MAX_PURGE_BATCHES 0"

section \<open>Listeners and queries\<close>

definition updateUserSnapshot :: "string \<Rightarrow> string option \<Rightarrow> string option \<Rightarrow> tn_script" where
  "updateUserSnapshot u email name =
     (let put = (\<lambda>m. m\<lparr>ms_userEmail := (case email of Some e \<Rightarrow> if e = [] then ms_userEmail m else e | None \<Rightarrow> ms_userEmail m),
                       ms_userName := (case name of Some n \<Rightarrow> if n = [] then ms_userName m else n | None \<Rightarrow> ms_userName m)\<rparr>)
      in if email \<in> {None, Some []} \<and> name \<in> {None, Some []} then Answer (Inr Done)
         else ask (update_members (\<lambda>m. ms_userId m = u) put) (\<lambda>_. Answer (Inr Done)))"

definition removeMemberships :: "string \<Rightarrow> tn_script" where
  "removeMemberships u = ask (removeUser u) (\<lambda>_. Answer (Inr Done))"

definition CanDeleteUserQuery :: "bool \<Rightarrow> string \<Rightarrow> int \<Rightarrow> tn_db \<Rightarrow> bool" where
  "CanDeleteUserQuery single u now db \<longleftrightarrow>
     single \<or> (case hasOwnerMembership u now db of Some (_, owns) \<Rightarrow> \<not> owns | None \<Rightarrow> False)"

definition ResolveTenantAccessQuery ::
  "bool \<Rightarrow> string \<Rightarrow> string option \<Rightarrow> int \<Rightarrow> tn_db \<Rightarrow> tenancy_error + tn_request" where
  "ResolveTenantAccessQuery single u tenant now db =
     (if single then Inr \<lparr>tr_tenantId = None, tr_role = None\<rparr>
      else case tenant of
             None \<Rightarrow> Inl TENANT_REQUIRED
           | Some t \<Rightarrow>
               if t = [] then Inl TENANT_REQUIRED
               else (case findMembership t u now db of
                       Some (_, Some m) \<Rightarrow> Inr \<lparr>tr_tenantId = Some t, tr_role = Some (ms_role m)\<rparr>
                     | _ \<Rightarrow> Inl MEMBERSHIP_NOT_FOUND))"

section \<open>The module\<close>

datatype tn_command =
    CreateOrganization string "string option" tn_actor string string
  | AcceptInvitation string tn_actor string
  | InviteMember tn_request string invitable_role tn_actor string string
  | RemoveMember tn_request string
  | UpdateMember tn_request string tenant_role
  | DeleteOrganizationData string
  | HardDeleteOrganization string
  | PurgeUserTenancyData string string
  | PurgeExpiredInvitations "nat option" int int
  | UserUpdated string "string option" "string option"
  | UserDeleted string

fun tn_code :: "tn_env \<Rightarrow> tn_command \<Rightarrow> tn_script" where
  "tn_code E (CreateOrganization name slug actor oid mid) = CreateOrganizationCommand name slug actor oid mid"
| "tn_code E (AcceptInvitation token actor mid) = AcceptInvitationCommand E token actor mid"
| "tn_code E (InviteMember req email role actor token iid) = InviteMemberCommand E req email role actor token iid"
| "tn_code E (RemoveMember req u) = RemoveMemberCommand req u"
| "tn_code E (UpdateMember req u role) = UpdateMemberCommand req u role"
| "tn_code E (DeleteOrganizationData t) = DeleteOrganizationDataCommand t"
| "tn_code E (HardDeleteOrganization t) = HardDeleteOrganizationCommand t"
| "tn_code E (PurgeUserTenancyData u email) = PurgeUserTenancyDataCommand u email"
| "tn_code E (PurgeExpiredInvitations stop now days) =
     PurgeExpiredInvitationsCommand (\<lambda>i. case stop of Some n \<Rightarrow> n \<le> i | None \<Rightarrow> False) now days"
| "tn_code E (UserUpdated u email name) = updateUserSnapshot u email name"
| "tn_code E (UserDeleted u) = removeMemberships u"

type_synonym tn_result = "tenancy_error + tenancy_value"
type_synonym tn_log = "(tn_command \<times> tn_result) list"
type_synonym tn_sys = "(tn_command, tn_key, tn_row, tn_result) rc_sys"
type_synonym tn_proc = "(tn_command, tn_key, tn_row, tn_result) rc_proc"

definition tn_run :: "tn_env \<Rightarrow> tn_sys \<Rightarrow> tn_command rc_event list \<Rightarrow> tn_sys" where
  "tn_run E = rc_run (tn_code E) TENANCY_OPERATION_FAILED"

text \<open>The random ids and token hashes a command draws.\<close>

fun tn_mints :: "tn_env \<Rightarrow> tn_command \<Rightarrow> string set" where
  "tn_mints E (CreateOrganization name slug actor oid mid) = {''org:'' @ oid, ''mem:'' @ mid}"
| "tn_mints E (AcceptInvitation token actor mid) = {''mem:'' @ mid}"
| "tn_mints E (InviteMember req email role actor token iid) = {''inv:'' @ iid, ''tok:'' @ te_sha256 E token}"
| "tn_mints E _ = {}"

end
