(* ===== verification/TenancyRows.thy ===== *)
theory TenancyRows
  imports Tenancy
begin

text \<open>
  The tables of the tenancy module stay well-formed under every interleaving of all its
  commands: a row lies in its table under its own key, and the id of a membership belongs to
  one row only. The theory interprets \<open>tx_client\<close> for this invariant and gives the facts about
  well-formed tables on which the other invariants of the module rest.
\<close>

named_theorems tn_sql "statements of the tenancy module"

lemmas [tn_sql] = reading_def findMembership_def findMemberByEmail_def countOwners_def memberships_create_def
  update_members_def delete_members_def updateRole_def removeUser_def memberships_deleteByTenant_def
  findPending_def update_invites_def delete_invites_def revokeExpired_def invitations_deleteByEmail_def
  invitations_deleteByTenant_def select_settled_def findByTokenHash_def markAccepted_def invitations_create_def
  findBySlug_def findOrganization_def organizations_create_def organizations_softDelete_def organizations_delete_def

section \<open>Well-formed tables\<close>

fun fits :: "tn_key \<Rightarrow> tn_row \<Rightarrow> bool" where
  "fits (OrgKey t) (OrgRow g) \<longleftrightarrow> og_id g = t"
| "fits (SlugKey _) (SlugRow _) \<longleftrightarrow> True"
| "fits (MemberKey t u) (MemberRow m) \<longleftrightarrow> ms_tenantId m = t \<and> ms_userId m = u"
| "fits (InviteKey i) (InviteRow r) \<longleftrightarrow> iv_id r = i"
| "fits (EventKey _) (EventRow _) \<longleftrightarrow> True"
| "fits _ _ \<longleftrightarrow> False"

definition fits_version :: "tn_key \<Rightarrow> tn_row option \<Rightarrow> bool" where
  "fits_version k a \<longleftrightarrow> (\<forall>r. a = Some r \<longrightarrow> fits k r)"

definition tables_typed :: "tn_db \<Rightarrow> bool" where
  "tables_typed db \<longleftrightarrow> (\<forall>k r. jm_get db k = Some r \<longrightarrow> fits k r)"

definition member_at :: "tn_db \<Rightarrow> tn_key \<Rightarrow> membership \<Rightarrow> bool" where
  "member_at db k m \<longleftrightarrow> jm_get db k = Some (MemberRow m)"

definition ids_unique :: "tn_db \<Rightarrow> bool" where
  "ids_unique db \<longleftrightarrow> (\<forall>k l m n. member_at db k m \<longrightarrow> member_at db l n \<longrightarrow> ms_id m = ms_id n \<longrightarrow> k = l)"

definition tables_ok :: "tn_db \<Rightarrow> bool" where
  "tables_ok db \<longleftrightarrow> jm_ok db \<and> tables_typed db \<and> ids_unique db"

lemma tables_okD: "tables_ok db \<Longrightarrow> jm_ok db" "tables_ok db \<Longrightarrow> tables_typed db" "tables_ok db \<Longrightarrow> ids_unique db"
  by (simp_all add: tables_ok_def)

lemma fits_MemberRow: "fits k (MemberRow m) \<longleftrightarrow> k = member_key m"
  by (cases k) (auto simp: member_key_def)

lemma fits_InviteRow: "fits k (InviteRow i) \<longleftrightarrow> k = InviteKey (iv_id i)"
  by (cases k) auto

lemma fits_OrgRow: "fits k (OrgRow g) \<longleftrightarrow> k = OrgKey (og_id g)"
  by (cases k) auto

lemma row_kinds:
  "member_row x = Some m \<longleftrightarrow> snd x = MemberRow m" "invite_row x = Some i \<longleftrightarrow> snd x = InviteRow i"
  "org_row x = Some g \<longleftrightarrow> snd x = OrgRow g"
  by (cases x; cases "snd x"; auto)+

lemma in_map_filter: "y \<in> set (List.map_filter f xs) \<longleftrightarrow> (\<exists>x\<in>set xs. f x = Some y)"
  by (force simp: List.map_filter_def)

lemma in_memberships: "m \<in> set (memberships_of db) \<longleftrightarrow> (\<exists>k. (k, MemberRow m) \<in> set db)"
  by (auto simp: memberships_of_def in_map_filter row_kinds Bex_def)

lemma in_invitations: "i \<in> set (invitations_of db) \<longleftrightarrow> (\<exists>k. (k, InviteRow i) \<in> set db)"
  by (auto simp: invitations_of_def in_map_filter row_kinds Bex_def)

lemma in_organizations: "g \<in> set (organizations_of db) \<longleftrightarrow> (\<exists>k. (k, OrgRow g) \<in> set db)"
  by (auto simp: organizations_of_def in_map_filter row_kinds Bex_def)

lemma tables_row: "tables_ok db \<Longrightarrow> (k, r) \<in> set db \<longleftrightarrow> jm_get db k = Some r"
  by (simp add: tables_ok_def jm_get_iff_in_set)

lemma tables_fit: "tables_ok db \<Longrightarrow> jm_get db k = Some r \<Longrightarrow> fits k r"
  by (simp add: tables_ok_def tables_typed_def)

lemma member_at_key: "tables_ok db \<Longrightarrow> member_at db k m \<Longrightarrow> k = member_key m"
  using tables_fit[of db k "MemberRow m"] by (simp add: member_at_def fits_MemberRow)

lemma members_at: "tables_ok db \<Longrightarrow> m \<in> set (memberships_of db) \<longleftrightarrow> member_at db (member_key m) m"
  using member_at_key by (auto simp: in_memberships tables_row member_at_def)

lemma invites_at: "tables_ok db \<Longrightarrow> i \<in> set (invitations_of db) \<longleftrightarrow> jm_get db (InviteKey (iv_id i)) = Some (InviteRow i)"
  using tables_fit[of db _ "InviteRow i"] by (auto simp: in_invitations tables_row fits_InviteRow)

lemma orgs_at: "tables_ok db \<Longrightarrow> g \<in> set (organizations_of db) \<longleftrightarrow> jm_get db (OrgKey (og_id g)) = Some (OrgRow g)"
  using tables_fit[of db _ "OrgRow g"] by (auto simp: in_organizations tables_row fits_OrgRow)

lemma first_row_Some: "first_row xs = Some x \<Longrightarrow> x \<in> set xs"
  by (cases xs) (auto simp: first_row_def)

lemma first_row_None: "first_row xs = None \<longleftrightarrow> xs = []"
  by (cases xs) (auto simp: first_row_def)

section \<open>Rows that a transaction writes\<close>

text \<open>
  \<open>M\<close>: the ids drawn by the command. A membership is written over one with the same id, or
  with an id just drawn that no visible row has.
\<close>

definition id_version :: "string set \<Rightarrow> tn_row option \<Rightarrow> tn_row option \<Rightarrow> bool" where
  "id_version M b a \<longleftrightarrow>
     (\<forall>m. a = Some (MemberRow m) \<longrightarrow> (\<exists>n. b = Some (MemberRow n) \<and> ms_id n = ms_id m) \<or> ''mem:'' @ ms_id m \<in> M)"

definition row_write :: "string set \<Rightarrow> tn_db \<Rightarrow> tn_key \<Rightarrow> tn_row option \<Rightarrow> bool" where
  "row_write M db k a \<longleftrightarrow>
     fits_version k a \<and>
     (\<forall>m. a = Some (MemberRow m) \<longrightarrow>
        (\<exists>n. jm_get db k = Some (MemberRow n) \<and> ms_id n = ms_id m) \<or>
        (''mem:'' @ ms_id m \<in> M \<and> (\<forall>l n. member_at db l n \<longrightarrow> ms_id n \<noteq> ms_id m)))"

lemma row_write_None [simp]: "row_write M db k None"
  by (simp add: row_write_def fits_version_def)

lemma update_members_row:
  assumes "tables_ok db" "update_members p f now db = Some (ws, v)" "(x, a) \<in> set ws"
    and "\<And>m. ms_id (f m) = ms_id m" "\<And>m. ms_tenantId (f m) = ms_tenantId m" "\<And>m. ms_userId (f m) = ms_userId m"
  shows "\<exists>m. member_at db (member_key m) m \<and> x = member_key m \<and> p m \<and>
             a = Some (MemberRow ((f m)\<lparr>ms_updatedAt := now\<rparr>))"
  using assms by (auto simp: update_members_def Let_def members_at member_key_def)

lemma update_members_write:
  assumes "tables_ok db" "update_members p f now db = Some (ws, v)" "(x, a) \<in> set ws"
    and "\<And>m. ms_id (f m) = ms_id m" "\<And>m. ms_tenantId (f m) = ms_tenantId m" "\<And>m. ms_userId (f m) = ms_userId m"
  shows "row_write M db x a"
  using update_members_row[OF assms] assms(4-6)
  by (auto simp: row_write_def fits_version_def fits_MemberRow member_at_def member_key_def)

lemma delete_members_row:
  assumes "tables_ok db" "delete_members p now db = Some (ws, v)" "(x, a) \<in> set ws"
  shows "\<exists>m. member_at db (member_key m) m \<and> x = member_key m \<and> p m \<and> a = None"
  using assms by (auto simp: delete_members_def Let_def members_at)

lemma update_invites_row:
  assumes "tables_ok db" "update_invites p f now db = Some (ws, v)" "(x, a) \<in> set ws" "\<And>n i. iv_id (f n i) = iv_id i"
  shows "\<exists>i. jm_get db (InviteKey (iv_id i)) = Some (InviteRow i) \<and> x = InviteKey (iv_id i) \<and> p now i \<and>
             a = Some (InviteRow ((f now i)\<lparr>iv_updatedAt := now\<rparr>))"
  using assms by (auto simp: update_invites_def Let_def invites_at)

lemma delete_invites_row:
  assumes "tables_ok db" "delete_invites p now db = Some (ws, v)" "(x, a) \<in> set ws"
  shows "\<exists>i. x = InviteKey i \<and> a = None"
  using assms by (auto simp: delete_invites_def Let_def)

lemma memberships_create_row:
  assumes "tables_ok db" "memberships_create mid t u email name r now db = Some (ws, v)" "(x, a) \<in> set ws"
  shows "x = MemberKey t u \<and> a = Some (MemberRow v) \<and> ms_id v = mid \<and> ms_tenantId v = t \<and> ms_userId v = u \<and>
         ms_role v = r \<and> jm_get db x = None \<and> jm_has db (OrgKey t) \<and> (\<forall>l n. member_at db l n \<longrightarrow> ms_id n \<noteq> mid)"
proof -
  have "\<forall>l n. member_at db l n \<longrightarrow> n \<in> set (memberships_of db)"
    using assms(1) members_at member_at_key by blast
  then show ?thesis using assms
    by (auto simp: memberships_create_def Let_def jm_has_def list_ex_iff split: if_splits)
qed

lemma reading_Some: "reading f now db = Some (ws, v) \<longleftrightarrow> ws = [] \<and> v = f now db"
  by (auto simp: reading_def)

lemma only_writes_reading:
  "(\<And>db. Q db []) \<Longrightarrow> (\<And>v. only_writes T Q (k v)) \<Longrightarrow> only_writes T Q (ask (reading f) k)"
  by (rule only_writes_ask) (auto simp: reading_Some)


section \<open>Scripts of the module\<close>

text \<open>
  The shape of each command for any condition \<open>Q\<close> on written rows: what its statements may
  write is all that is left to show.
\<close>

lemma only_writes_refuse [simp]: "only_writes T Q (Answer r)"
  by (rule only_writes.answer)

lemma only_writes_if: "(b \<Longrightarrow> only_writes T Q k) \<Longrightarrow> (\<not> b \<Longrightarrow> only_writes T Q l) \<Longrightarrow> only_writes T Q (if b then k else l)"
  by simp

lemma accept_writes:
  assumes nil: "\<And>db. Q db []" and "\<And>db t r now ws v. tables_ok db \<Longrightarrow>
      memberships_create mid t (ac_sub actor) (to_lower (ac_email actor)) (display_name actor) (granted_role r) now db
        = Some (ws, v) \<Longrightarrow> Q db ws"
    and "\<And>db i u now ws v. tables_ok db \<Longrightarrow> markAccepted i u now db = Some (ws, v) \<Longrightarrow> Q db ws"
  shows "only_writes tables_ok Q (AcceptInvitationCommand E token actor mid)"
  unfolding AcceptInvitationCommand_def
  by (auto simp: findByTokenHash_def findMembership_def split: option.split
      intro!: only_writes_reading nil only_writes_ask[where q = "memberships_create mid t u e n r" for t u e n r]
        only_writes_ask[where q = "markAccepted i u" for i u])
      (rule assms(2-), assumption+)+

lemma invite_writes:
  assumes nil: "\<And>db. Q db []" and "\<And>db t e now ws v. tables_ok db \<Longrightarrow> revokeExpired t e now db = Some (ws, v) \<Longrightarrow> Q db ws"
    and "\<And>db t now ws v. tables_ok db \<Longrightarrow> tr_tenantId req = Some t \<Longrightarrow> tr_role req = Some OWNER \<or> tr_role req = Some ADMIN \<Longrightarrow>
      invitations_create iid t (to_lower address) role (te_sha256 E token) (ac_sub actor) now db = Some (ws, v) \<Longrightarrow> Q db ws"
    and "\<And>db event. tables_ok db \<Longrightarrow> Q db [(EventKey iid, Some (EventRow event))]"
  shows "only_writes tables_ok Q (InviteMemberCommand E req address role actor token iid)"
  unfolding InviteMemberCommand_def invite_store_def Let_def
  by (auto simp: findMemberByEmail_def findPending_def findOrganization_def split: option.split
      intro!: only_writes_reading nil only_writes_ask[where q = "revokeExpired t e" for t e]
        only_writes_ask[where q = "invitations_create iid t e r h u" for t e r h u]
        only_writes_ask[where q = "\<lambda>_ _. Some ([(EventKey iid, Some (EventRow event))], ())" for event])
      (blast intro: assms(2-))+

lemma keeping_writes: "(\<And>db. Q db []) \<Longrightarrow> only_writes T Q k \<Longrightarrow> only_writes T Q (keeping_an_owner t b k)"
  by (auto simp: keeping_an_owner_def countOwners_def intro!: only_writes_reading)

lemma update_writes:
  assumes nil: "\<And>db. Q db []" and "\<And>db now ws v. tables_ok db \<Longrightarrow> updateRole t u role now db = Some (ws, v) \<Longrightarrow> Q db ws"
  shows "only_writes tables_ok Q (updatePersisted t u role actorRole)"
  unfolding updatePersisted_def
  by (auto simp: findMembership_def split: option.split list.split
      intro!: only_writes_reading nil keeping_writes only_writes_ask[where q = "updateRole t u role"])
      (rule assms(2-), assumption+)+

lemma remove_writes:
  assumes nil: "\<And>db. Q db []" and "\<And>db p now ws v. tables_ok db \<Longrightarrow> delete_members p now db = Some (ws, v) \<Longrightarrow> Q db ws"
  shows "only_writes tables_ok Q (removePersisted t u actorRole)"
  unfolding removePersisted_def memberships_remove_def
  by (auto simp: findMembership_def split: option.split
      intro!: only_writes_reading nil keeping_writes only_writes_ask[where q = "delete_members p" for p])
      (rule assms(2-), assumption+)+

lemma purge_batches_writes:
  assumes nil: "\<And>db. Q db []" and "\<And>db p now ws v. tables_ok db \<Longrightarrow> delete_invites p now db = Some (ws, v) \<Longrightarrow> Q db ws"
  shows "only_writes tables_ok Q (purge_batches aborted cutoff n purged)"
proof (induction n arbitrary: purged)
  case (Suc n)
  then show ?case
    by (auto simp: deleteSettledBefore_def select_settled_def
        intro!: only_writes_reading nil only_writes_ask[where q = "delete_invites p" for p])
      (rule assms(2-), assumption+)+
qed simp

lemma snapshot_writes:
  assumes nil: "\<And>db. Q db []" and "\<And>db f now ws v. tables_ok db \<Longrightarrow> (\<And>m. ms_id (f m) = ms_id m \<and> ms_tenantId (f m) = ms_tenantId m \<and>
        ms_userId (f m) = ms_userId m \<and> ms_role (f m) = ms_role m) \<Longrightarrow>
      update_members (\<lambda>m. ms_userId m = u) f now db = Some (ws, v) \<Longrightarrow> Q db ws"
  shows "only_writes tables_ok Q (updateUserSnapshot u email name)"
  unfolding updateUserSnapshot_def Let_def
  by (auto intro!: only_writes_ask[where q = "update_members p f" for p f]
      intro: assms(2)[where f = "\<lambda>m. m\<lparr>ms_userEmail := g m, ms_userName := h m\<rparr>" for g h])

text \<open>The invitation that a successful invite command stores.\<close>

fun issued :: "tn_env \<Rightarrow> tn_command \<Rightarrow> invitation \<Rightarrow> bool" where
  "issued E (InviteMember req address role actor token iid) i \<longleftrightarrow>
     tr_tenantId req = Some (iv_tenantId i) \<and> (tr_role req = Some OWNER \<or> tr_role req = Some ADMIN) \<and>
     iv_email i = to_lower address \<and> iv_role i = role \<and> iv_tokenHash i = te_sha256 E token \<and> iv_id i = iid"
| "issued E _ i \<longleftrightarrow> False"

definition same_invite :: "invitation \<Rightarrow> invitation \<Rightarrow> bool" where
  "same_invite i j \<longleftrightarrow> iv_id i = iv_id j \<and> iv_tenantId i = iv_tenantId j \<and> iv_email i = iv_email j \<and>
     iv_role i = iv_role j \<and> iv_tokenHash i = iv_tokenHash j"

text \<open>What all statements of the module satisfy, all commands satisfy.\<close>

lemma code_writes:
  assumes nil: "\<And>db. Q db []"
    and members: "\<And>db p f now ws v. tables_ok db \<Longrightarrow> update_members p f now db = Some (ws, v) \<Longrightarrow>
      (\<And>m. ms_id (f m) = ms_id m) \<Longrightarrow> (\<And>m. ms_tenantId (f m) = ms_tenantId m) \<Longrightarrow> (\<And>m. ms_userId (f m) = ms_userId m) \<Longrightarrow> Q db ws"
    and gone: "\<And>db p now ws v. tables_ok db \<Longrightarrow> delete_members p now db = Some (ws, v) \<Longrightarrow> Q db ws"
      "\<And>db p now ws v. tables_ok db \<Longrightarrow> delete_invites p now db = Some (ws, v) \<Longrightarrow> Q db ws"
    and member: "\<And>db mid t u e n r now ws v. tables_ok db \<Longrightarrow> ''mem:'' @ mid \<in> tn_mints E c \<Longrightarrow>
      memberships_create mid t u e n r now db = Some (ws, v) \<Longrightarrow> Q db ws"
    and org: "\<And>db oid n s u now ws v. tables_ok db \<Longrightarrow> organizations_create oid n s u now db = Some (ws, v) \<Longrightarrow> Q db ws"
      "\<And>db t now ws v. tables_ok db \<Longrightarrow> organizations_softDelete t now db = Some (ws, v) \<Longrightarrow> Q db ws"
      "\<And>db t now ws v. tables_ok db \<Longrightarrow> organizations_delete t now db = Some (ws, v) \<Longrightarrow> Q db ws"
    and settle: "\<And>db p f now ws v. tables_ok db \<Longrightarrow> update_invites p f now db = Some (ws, v) \<Longrightarrow>
      (\<And>n i. same_invite (f n i) i) \<Longrightarrow> (\<And>n i. iv_status (f n i) \<noteq> Pending) \<Longrightarrow> Q db ws"
    and invite: "\<And>db iid t e r h u now ws v. tables_ok db \<Longrightarrow>
      invitations_create iid t e r h u now db = Some (ws, v) \<Longrightarrow> issued E c v \<Longrightarrow> Q db ws"
    and event: "\<And>db i ev. tables_ok db \<Longrightarrow> Q db [(EventKey i, Some (EventRow ev))]"
  shows "only_writes tables_ok Q (tn_code E c)"
proof (cases c)
  case (CreateOrganization name given actor oid mid)
  then show ?thesis
    by (auto simp: CreateOrganizationCommand_def create_persist_def findBySlug_def Let_def
        intro!: only_writes_reading nil only_writes_ask[where q = "organizations_create oid n s u" for n s u]
          only_writes_ask[where q = "memberships_create mid t u e n r" for t u e n r])
      (erule (1) member[rotated 2], simp add: CreateOrganization, erule (1) org(1)[rotated])
next
  case (AcceptInvitation token actor mid)
  have "Q db ws" if "tables_ok db" "markAccepted i u now db = Some (ws, v)" for db i u now ws v
    by (rule settle[OF that(1) that(2)[unfolded markAccepted_def]]) (simp_all add: same_invite_def)
  then show ?thesis unfolding AcceptInvitation tn_code.simps
    by (intro accept_writes nil) (auto intro: member simp: AcceptInvitation)
next
  case (InviteMember req email role actor token iid)
  have "Q db ws" if "tables_ok db" "revokeExpired t e now db = Some (ws, v)" for db t e now ws v
    by (rule settle[OF that(1) that(2)[unfolded revokeExpired_def]]) (simp_all add: same_invite_def)
  moreover have "Q db ws"
    if "tr_tenantId req = Some t" "tr_role req = Some OWNER \<or> tr_role req = Some ADMIN" "tables_ok db"
      "invitations_create iid t (to_lower email) role (te_sha256 E token) u now db = Some (ws, v)" for t u db now ws v
  proof (rule invite[OF that(3,4)])
    show "issued E c v" using that InviteMember by (auto simp: invitations_create_def Let_def split: if_splits)
  qed
  ultimately show ?thesis unfolding InviteMember tn_code.simps
    by (intro invite_writes nil event) auto
next
  case (RemoveMember req u)
  then show ?thesis
    by (auto simp: RemoveMemberCommand_def split: option.split intro!: only_writes.lock remove_writes nil intro: gone)
next
  case (UpdateMember req u role)
  then show ?thesis
    by (auto simp: UpdateMemberCommand_def updateRole_def split: option.split intro!: only_writes.lock update_writes nil
        intro: members)
next
  case (DeleteOrganizationData t)
  then show ?thesis
    by (auto simp: DeleteOrganizationDataCommand_def memberships_deleteByTenant_def invitations_deleteByTenant_def
        intro!: only_writes_ask[where q = "delete_members p" for p] only_writes_ask[where q = "delete_invites p" for p]
          only_writes_ask[where q = "organizations_softDelete t"] intro: gone org)
next
  case (HardDeleteOrganization t)
  then show ?thesis
    by (auto simp: HardDeleteOrganizationCommand_def intro!: only_writes_ask[where q = "organizations_delete t"] intro: org)
next
  case (PurgeUserTenancyData u email)
  then show ?thesis
    by (auto simp: PurgeUserTenancyDataCommand_def removeUser_def invitations_deleteByEmail_def
        intro!: only_writes_ask[where q = "delete_members p" for p] only_writes_ask[where q = "delete_invites p" for p]
        intro: gone)
next
  case (PurgeExpiredInvitations stop now days)
  then show ?thesis
    by (auto simp: PurgeExpiredInvitationsCommand_def intro!: purge_batches_writes nil intro: gone)
next
  case (UserUpdated u email name)
  then show ?thesis by (auto intro!: snapshot_writes nil intro: members)
next
  case (UserDeleted u)
  then show ?thesis
    by (auto simp: removeMemberships_def removeUser_def intro!: only_writes_ask[where q = "delete_members p" for p]
        intro: gone)
qed


section \<open>The invariant of the tables\<close>

definition rows_written :: "string set \<Rightarrow> tn_db \<Rightarrow> (tn_key \<times> tn_row option) list \<Rightarrow> bool" where
  "rows_written M db ws \<longleftrightarrow>
     (\<forall>(x, a)\<in>set ws. row_write M db x a) \<and>
     (\<forall>x y m n. (x, Some (MemberRow m)) \<in> set ws \<longrightarrow> (y, Some (MemberRow n)) \<in> set ws \<longrightarrow> ms_id m = ms_id n \<longrightarrow> x = y)"

definition minted_members :: "tn_env \<Rightarrow> tn_db \<Rightarrow> tn_log \<Rightarrow> bool" where
  "minted_members E db log \<longleftrightarrow>
     (\<forall>k m. member_at db k m \<longrightarrow> (\<exists>(c, _)\<in>set log. ''mem:'' @ ms_id m \<in> tn_mints E c))"

definition rows_G :: "tn_env \<Rightarrow> tn_db \<Rightarrow> tn_log \<Rightarrow> bool" where
  "rows_G E db log \<longleftrightarrow> tables_typed db \<and> ids_unique db \<and> minted_members E db log"

definition one_minted :: "string set \<Rightarrow> tn_db \<Rightarrow> bool" where
  "one_minted M V \<longleftrightarrow>
     (\<forall>k l m n. member_at V k m \<longrightarrow> member_at V l n \<longrightarrow> ms_id m = ms_id n \<longrightarrow> ''mem:'' @ ms_id m \<in> M \<longrightarrow> k = l)"

definition changes_ok :: "string set \<Rightarrow> (tn_key, tn_row) change list \<Rightarrow> bool" where
  "changes_ok M cs \<longleftrightarrow> (\<forall>(x, b, a)\<in>set cs. fits_version x a \<and> id_version M b a)"

definition rows_P :: "tn_env \<Rightarrow> tn_db \<Rightarrow> tn_log \<Rightarrow> tn_proc \<Rightarrow> bool" where
  "rows_P E db log pr \<longleftrightarrow>
     only_writes tables_ok (rows_written (tn_mints E (rc_cmd pr))) (todo pr) \<and>
     changes_ok (tn_mints E (rc_cmd pr)) (changes pr) \<and>
     one_minted (tn_mints E (rc_cmd pr)) (visible_rows db (changes pr))"

lemma visible_member:
  assumes "member_at (visible_rows db cs) k m"
  shows "(k \<notin> fst ` set cs \<and> member_at db k m) \<or> (k \<in> fst ` set cs \<and> (\<exists>b. (k, b, Some (MemberRow m)) \<in> set cs))"
proof (cases "k \<in> fst ` set cs")
  case True
  then obtain b a where "(k, b, a) \<in> set cs" "jm_get (visible_rows db cs) k = a" using visible_changed[OF True, of db] by blast
  then have "(k, b, Some (MemberRow m)) \<in> set cs" using assms unfolding member_at_def by simp
  then show ?thesis using True by blast
next
  case False
  then show ?thesis using assms by (simp add: member_at_def visible_unchanged)
qed

lemma visible_same: "k \<in> fst ` set cs \<Longrightarrow> jm_get (visible_rows db cs) k = jm_get (visible_rows db2 cs) k"
proof (induction cs rule: rev_induct)
  case (snoc c cs)
  obtain x b a where c: "c = (x, b, a)" by (cases c)
  have step: "jm_get (visible_rows d (cs @ [c])) k = (if k = x then a else jm_get (visible_rows d cs) k)" for d
    by (simp add: visible_rows_def c jm_get_put)
  show ?case
  proof (cases "k = x")
    case False
    then have "k \<in> fst ` set cs" using snoc.prems c by simp
    then show ?thesis using snoc.IH False by (simp add: step)
  next
    case True
    then show ?thesis unfolding step by simp
  qed
qed simp

lemma basedD: "based db pr \<Longrightarrow> (k, b, a) \<in> set (changes pr) \<Longrightarrow> jm_get db k = b"
  by (auto simp: based_def)

text \<open>A visible membership has the id of the committed row under its key, or one just drawn.\<close>

lemma visible_id:
  assumes "changes_ok M (changes pr)" "based db pr" "member_at (visible_rows db (changes pr)) k m"
  shows "(\<exists>n. member_at db k n \<and> ms_id n = ms_id m) \<or> ''mem:'' @ ms_id m \<in> M"
  using visible_member[OF assms(3)]
proof (elim disjE conjE exE)
  fix b assume c: "(k, b, Some (MemberRow m)) \<in> set (changes pr)"
  then have "id_version M b (Some (MemberRow m))" using assms(1) by (auto simp: changes_ok_def)
  then show ?thesis using basedD[OF assms(2) c] by (auto simp: id_version_def member_at_def)
qed blast

lemma visible_typed:
  assumes "tables_typed db" "changes_ok M cs"
  shows "tables_typed (visible_rows db cs)"
  unfolding tables_typed_def
proof (intro allI impI)
  fix k r assume r: "jm_get (visible_rows db cs) k = Some r"
  show "fits k r"
  proof (cases "k \<in> fst ` set cs")
    case True
    then obtain b where "(k, b, Some r) \<in> set cs" using visible_changed[OF True, of db] r by auto
    then show ?thesis using assms(2) by (auto simp: changes_ok_def fits_version_def)
  next
    case False
    then show ?thesis using assms(1) r by (simp add: visible_unchanged tables_typed_def)
  qed
qed

lemma visible_unique:
  assumes "ids_unique db" "changes_ok M (changes pr)" "based db pr" "one_minted M (visible_rows db (changes pr))"
  shows "ids_unique (visible_rows db (changes pr))"
  unfolding ids_unique_def
proof (intro allI impI)
  fix k l m n
  assume k: "member_at (visible_rows db (changes pr)) k m" and l: "member_at (visible_rows db (changes pr)) l n"
    and id: "ms_id m = ms_id n"
  show "k = l"
  proof (cases "''mem:'' @ ms_id m \<in> M")
    case True
    then show ?thesis using assms(4) k l id by (auto simp: one_minted_def)
  next
    case False
    then show ?thesis using visible_id[OF assms(2,3) k] visible_id[OF assms(2,3) l] id assms(1)
      by (auto simp: ids_unique_def)
  qed
qed

lemma visible_tables:
  assumes "jm_ok db" "rows_G E db log" "rows_P E db log pr" "based db pr"
  shows "tables_ok (visible_rows db (changes pr))"
  using assms visible_typed visible_unique by (auto simp: tables_ok_def rows_G_def rows_P_def)

lemma committed_tables: "jm_ok db \<Longrightarrow> rows_G E db log \<Longrightarrow> tables_ok db"
  by (simp add: tables_ok_def rows_G_def)

lemma fold_put_get:
  "jm_get (fold put_row ws V) k = (if k \<in> fst ` set ws then jm_get (fold put_row ws V) k else jm_get V k)"
proof -
  have "k \<notin> fst ` set ws \<Longrightarrow> jm_get (fold put_row ws V) k = jm_get V k"
    by (induction ws arbitrary: V) (auto simp: jm_get_put)
  then show ?thesis by simp
qed

lemma fold_put_some:
  "jm_get (fold put_row ws V) k = Some r \<Longrightarrow> (k, Some r) \<in> set ws \<or> (k \<notin> fst ` set ws \<and> jm_get V k = Some r)"
proof (induction ws rule: rev_induct)
  case (snoc w ws)
  obtain x a where "w = (x, a)" by (cases w)
  then show ?case using snoc by (cases "k = x") (auto simp: jm_get_put)
qed simp

lemma ask_one_minted:
  assumes "one_minted M V" "rows_written M V ws"
  shows "one_minted M (fold put_row ws V)"
  unfolding one_minted_def
proof (intro allI impI)
  fix k l m n
  assume k: "member_at (fold put_row ws V) k m" and l: "member_at (fold put_row ws V) l n"
    and id: "ms_id m = ms_id n" and M: "''mem:'' @ ms_id m \<in> M"
  have was: "(\<exists>m'. member_at V x m' \<and> ms_id m' = ms_id y) \<or>
      ((x, Some (MemberRow y)) \<in> set ws \<and> (\<forall>z v. member_at V z v \<longrightarrow> ms_id v \<noteq> ms_id y))"
    if here: "member_at (fold put_row ws V) x y" for x y
  proof -
    consider "(x, Some (MemberRow y)) \<in> set ws" | "member_at V x y"
      using fold_put_some[of ws V x "MemberRow y"] here unfolding member_at_def by blast
    then show ?thesis
    proof cases
      case 1
      then have "row_write M V x (Some (MemberRow y))" using assms(2) by (auto simp: rows_written_def)
      then show ?thesis using 1 by (auto simp: row_write_def member_at_def)
    qed blast
  qed
  from was[OF k] was[OF l] show "k = l"
  proof (elim disjE exE conjE)
    fix a b assume "member_at V k a" "ms_id a = ms_id m" "member_at V l b" "ms_id b = ms_id n"
    then show ?thesis using assms(1) M id unfolding one_minted_def by metis
  next
    assume "(k, Some (MemberRow m)) \<in> set ws" "(l, Some (MemberRow n)) \<in> set ws"
    then show ?thesis using assms(2) id by (auto simp: rows_written_def)
  qed (use id in metis)+
qed

lemma asked_changes_ok:
  assumes "changes_ok M (changes pr)" "based db pr" "rows_written M (visible_rows db (changes pr)) ws"
  shows "changes_ok M (changes (asked db ws k pr))"
  unfolding changes_ok_def
proof (intro ballI, clarify)
  fix x b a assume "(x, b, a) \<in> set (changes (asked db ws k pr))"
  then consider "(x, b, a) \<in> set (changes pr)" | "(x, a) \<in> set ws" "b = jm_get db x"
    by (auto simp: asked_def)
  then show "fits_version x a \<and> id_version M b a"
  proof cases
    case 1
    then show ?thesis using assms(1) by (auto simp: changes_ok_def)
  next
    case 2
    then have w: "row_write M (visible_rows db (changes pr)) x a" using assms(3) by (auto simp: rows_written_def)
    have "id_version M b a"
      unfolding id_version_def
    proof (intro allI impI)
      fix m assume m: "a = Some (MemberRow m)"
      show "(\<exists>n. b = Some (MemberRow n) \<and> ms_id n = ms_id m) \<or> ''mem:'' @ ms_id m \<in> M"
      proof (cases "''mem:'' @ ms_id m \<in> M")
        case False
        then obtain n where n: "member_at (visible_rows db (changes pr)) x n" "ms_id n = ms_id m"
          using w m by (auto simp: row_write_def member_at_def)
        then show ?thesis using visible_id[OF assms(1,2) n(1)] 2(2) False by (auto simp: member_at_def)
      qed simp
    qed
    then show ?thesis using w by (simp add: row_write_def)
  qed
qed


section \<open>All commands keep the tables well-formed\<close>

lemma rows_written_Nil [simp]: "rows_written M db []"
  by (simp add: rows_written_def)

lemma kept_rows:
  assumes "\<forall>(x, a)\<in>set ws. row_write M db x a"
    and "\<And>x m. (x, Some (MemberRow m)) \<in> set ws \<Longrightarrow> x = member_key m \<and> (\<exists>n. member_at db x n \<and> ms_id n = ms_id m)"
    and "tables_ok db"
  shows "rows_written M db ws"
proof -
  have "x = y" if "(x, Some (MemberRow m)) \<in> set ws" "(y, Some (MemberRow n)) \<in> set ws" "ms_id m = ms_id n" for x y m n
    using assms(2)[OF that(1)] assms(2)[OF that(2)] that(3) assms(3) unfolding tables_ok_def ids_unique_def by metis
  then show ?thesis using assms(1) unfolding rows_written_def by blast
qed

lemma update_members_rows:
  assumes "tables_ok db" "update_members p f now db = Some (ws, v)"
    and "\<And>m. ms_id (f m) = ms_id m" "\<And>m. ms_tenantId (f m) = ms_tenantId m" "\<And>m. ms_userId (f m) = ms_userId m"
  shows "rows_written M db ws"
proof (rule kept_rows[OF _ _ assms(1)])
  show "\<forall>(x, a)\<in>set ws. row_write M db x a"
    using update_members_write[OF assms(1,2) _ assms(3-5)] by blast
  fix x m assume "(x, Some (MemberRow m)) \<in> set ws"
  from update_members_row[OF assms(1,2) this assms(3-5)]
  show "x = member_key m \<and> (\<exists>n. member_at db x n \<and> ms_id n = ms_id m)"
    using assms(3-5) by (auto simp: member_key_def)
qed

lemma plain_rows:
  assumes "\<And>x a. (x, a) \<in> set ws \<Longrightarrow> fits_version x a \<and> (\<forall>m. a \<noteq> Some (MemberRow m))"
  shows "rows_written M db ws"
  using assms unfolding rows_written_def row_write_def by fast

lemma deletes_rows: "(\<And>x a. (x, a) \<in> set ws \<Longrightarrow> a = None) \<Longrightarrow> rows_written M db ws"
  by (rule plain_rows) (auto simp: fits_version_def)

lemma create_member_rows:
  assumes "tables_ok db" "memberships_create mid t u email name r now db = Some (ws, v)" "''mem:'' @ mid \<in> M"
  shows "rows_written M db ws"
proof -
  have "row_write M db x a" if "(x, a) \<in> set ws" for x a
    using memberships_create_row[OF assms(1,2) that] assms(3) by (auto simp: row_write_def fits_version_def)
  moreover have "x = y" if "(x, Some (MemberRow m)) \<in> set ws" "(y, Some (MemberRow n)) \<in> set ws" for x y m n
    using memberships_create_row[OF assms(1,2) that(1)] memberships_create_row[OF assms(1,2) that(2)] by simp
  ultimately show ?thesis unfolding rows_written_def by blast
qed

lemma update_invites_rows:
  "tables_ok db \<Longrightarrow> update_invites p f now db = Some (ws, v) \<Longrightarrow> (\<And>n i. iv_id (f n i) = iv_id i) \<Longrightarrow>
     rows_written M db ws"
  by (rule plain_rows) (auto dest!: update_invites_row simp: fits_version_def)

lemma delete_invites_rows: "tables_ok db \<Longrightarrow> delete_invites p now db = Some (ws, v) \<Longrightarrow> rows_written M db ws"
  by (rule deletes_rows) (auto dest!: delete_invites_row)

lemma delete_members_rows: "tables_ok db \<Longrightarrow> delete_members p now db = Some (ws, v) \<Longrightarrow> rows_written M db ws"
  by (rule deletes_rows) (auto dest!: delete_members_row)

lemma create_org_rows: "organizations_create oid name slug u now db = Some (ws, v) \<Longrightarrow> rows_written M db ws"
  by (rule plain_rows) (auto simp: organizations_create_def Let_def fits_version_def split: if_splits)

lemma soft_delete_rows: "organizations_softDelete t now db = Some (ws, v) \<Longrightarrow> rows_written M db ws"
  by (rule plain_rows) (auto simp: organizations_softDelete_def Let_def fits_version_def)

lemma hard_delete_rows: "organizations_delete t now db = Some (ws, v) \<Longrightarrow> rows_written M db ws"
  by (rule deletes_rows) (auto simp: organizations_delete_def Let_def split: if_splits)

lemma create_invite_rows: "invitations_create iid t e r h u now db = Some (ws, v) \<Longrightarrow> rows_written M db ws"
  by (rule plain_rows) (auto simp: invitations_create_def Let_def fits_version_def split: if_splits)

lemmas statement_rows = delete_members_rows delete_invites_rows create_org_rows soft_delete_rows hard_delete_rows
  create_invite_rows

lemma code_rows: "only_writes tables_ok (rows_written (tn_mints E c)) (tn_code E c)"
  by (rule code_writes)
    (auto intro: update_members_rows statement_rows create_member_rows plain_rows update_invites_rows
      simp: same_invite_def fits_version_def)


lemma rows_ask:
  assumes "jm_ok db" "rows_G E db log" "rows_P E db log pr" "based db pr" "todo pr = Ask f"
    and "f now (visible_rows db (changes pr)) = Some (ws, k)"
  shows "rows_P E db log (asked db ws k pr)"
proof -
  have V: "tables_ok (visible_rows db (changes pr))" by (rule visible_tables[OF assms(1-4)])
  have Q: "only_writes tables_ok (rows_written (tn_mints E (rc_cmd pr))) (Ask f)"
    using assms(3,5) by (simp add: rows_P_def)
  note now = only_writes_askD[OF Q V assms(6)]
  show ?thesis
    using now asked_changes_ok[OF _ assms(4) now(2)] ask_one_minted[OF _ now(2)] assms(3)
    by (simp add: rows_P_def asked_visible)
qed

lemma rows_commit_G:
  assumes "jm_ok db" "rows_G E db log" "rows_P E db log pr" "based db pr"
  shows "rows_G E (visible_rows db (changes pr)) (log @ [(rc_cmd pr, r)])"
proof -
  have M: "changes_ok (tn_mints E (rc_cmd pr)) (changes pr)" using assms(3) by (simp add: rows_P_def)
  have "minted_members E (visible_rows db (changes pr)) (log @ [(rc_cmd pr, r)])"
    unfolding minted_members_def
  proof (intro allI impI)
    fix k m assume "member_at (visible_rows db (changes pr)) k m"
    from visible_id[OF M assms(4) this]
    show "\<exists>(c, _)\<in>set (log @ [(rc_cmd pr, r)]). ''mem:'' @ ms_id m \<in> tn_mints E c"
    proof (elim disjE exE conjE)
      fix n assume "member_at db k n" "ms_id n = ms_id m"
      then show ?thesis using assms(2) unfolding rows_G_def minted_members_def by fastforce
    qed simp
  qed
  then show ?thesis using visible_tables[OF assms] by (simp add: rows_G_def tables_ok_def)
qed

lemma rows_commit_P:
  assumes "jm_ok db" "rows_G E db log" "rows_P E db log pr" "rows_P E db log q" "based db pr"
    and "apart (tn_mints E) pr q" "unminted (tn_mints E) log (rc_cmd q)"
  shows "rows_P E (visible_rows db (changes pr)) (log @ [(rc_cmd pr, r)]) q"
proof -
  let ?d = "visible_rows db (changes pr)" and ?M = "tn_mints E (rc_cmd q)"
  have G: "minted_members E ?d (log @ [(rc_cmd pr, r)])"
    using rows_commit_G[OF assms(1-3,5)] by (simp add: rows_G_def)
  have own: "member_at (visible_rows db (changes q)) k m"
    if m: "member_at (visible_rows ?d (changes q)) k m" "''mem:'' @ ms_id m \<in> ?M" for k m
  proof (cases "k \<in> fst ` set (changes q)")
    case True
    then show ?thesis using m(1) visible_same[OF True, of ?d db] by (simp add: member_at_def)
  next
    case False
    then have "member_at ?d k m" using m(1) by (simp add: member_at_def visible_unchanged)
    then obtain c x where "(c, x) \<in> set (log @ [(rc_cmd pr, r)])" "''mem:'' @ ms_id m \<in> tn_mints E c"
      using G by (fastforce simp: minted_members_def)
    then show ?thesis using m(2) assms(6,7) by (auto simp: unminted_def apart_def)
  qed
  have "one_minted ?M (visible_rows ?d (changes q))"
    using assms(4) own unfolding rows_P_def one_minted_def by metis
  then show ?thesis using assms(4) by (simp add: rows_P_def)
qed

lemma rows_G_log: "rows_G E db log \<Longrightarrow> rows_G E db (log @ [x])"
  by (auto simp: rows_G_def minted_members_def)

lemma rows_enter: "rows_G E db log \<Longrightarrow> unminted (tn_mints E) log c \<Longrightarrow> rows_P E db log (entered (tn_code E) c)"
proof -
  assume G: "rows_G E db log" and un: "unminted (tn_mints E) log c"
  have "one_minted (tn_mints E c) db"
    unfolding one_minted_def
  proof (intro allI impI)
    fix k l m n assume "member_at db k m" "''mem:'' @ ms_id m \<in> tn_mints E c"
    then show "k = l" using G un by (fastforce simp: rows_G_def minted_members_def unminted_def)
  qed
  then show ?thesis by (simp add: rows_P_def code_rows changes_ok_def)
qed

lemma rows_lock: "rows_P E db log pr \<Longrightarrow> todo pr = Lock key k \<Longrightarrow> rows_P E db log (locked_by key k pr)"
  by (auto simp: rows_P_def elim: only_writes_lockE)

lemma rows_P_log: "rows_P E db log q \<Longrightarrow> rows_P E db (log @ [x]) q"
  by (simp add: rows_P_def)

lemma rows_G_start: "rows_G E [] []"
  by (simp add: rows_G_def tables_typed_def ids_unique_def minted_members_def member_at_def)

interpretation rows: tx_client "tn_code E" TENANCY_OPERATION_FAILED "tn_mints E" "\<lambda>_ _. True" "rows_G E" "rows_P E"
  for E
  by unfold_locales
    (rule rows_G_start, rule rows_enter, assumption+, rule rows_lock, assumption+, rule rows_ask, assumption+,
     rule rows_commit_G, assumption+, rule rows_commit_P, assumption+, rule rows_G_log, assumption,
     rule rows_P_log, assumption)

definition tn_reach :: "tn_env \<Rightarrow> tn_sys \<Rightarrow> bool" where
  "tn_reach E = rc_reach (tn_code E) TENANCY_OPERATION_FAILED (tn_mints E) (\<lambda>_ _. True)"

end
