(* ===== verification/TenancyOwners.thy ===== *)
theory TenancyOwners
  imports TenancyRows
begin

text \<open>
  No organization loses its last owner. The commands that change roles hold a lock of the
  organization from before they read until their transaction ends; \<open>careful\<close> says what such a
  command may write given what it has read under the lock, and the lock keeps what it has
  read true. Other commands leave owners alone, found an organization with its owner, or end
  the organization. The theory interprets \<open>tx_client\<close> for this argument.
\<close>

section \<open>Owners\<close>

definition owner_version :: "tn_row option \<Rightarrow> bool" where
  "owner_version a \<longleftrightarrow> (\<exists>m. a = Some (MemberRow m) \<and> ms_role m = OWNER)"

definition is_owner :: "tn_db \<Rightarrow> string \<Rightarrow> string \<Rightarrow> bool" where
  "is_owner db t u \<longleftrightarrow> owner_version (jm_get db (MemberKey t u))"

definition live_version :: "tn_row option \<Rightarrow> bool" where
  "live_version a \<longleftrightarrow> (\<exists>g. a = Some (OrgRow g) \<and> og_deletedAt g = None)"

definition live :: "tn_db \<Rightarrow> string \<Rightarrow> bool" where
  "live db t \<longleftrightarrow> live_version (jm_get db (OrgKey t))"

fun founds :: "string \<Rightarrow> tn_command \<times> tn_result \<Rightarrow> bool" where
  "founds t (CreateOrganization _ _ _ oid _, Inr _) \<longleftrightarrow> oid = t"
| "founds t _ \<longleftrightarrow> False"

definition tenant_known :: "tn_log \<Rightarrow> string \<Rightarrow> bool" where
  "tenant_known log t \<longleftrightarrow> list_ex (founds t) log"

text \<open>
  The requests a running system makes: the tenant of a request was resolved from a
  membership, and erasure names an organization that was founded. Removing the data of a user
  is left out: see the findings below.
\<close>

fun owners_allowed :: "tn_log \<Rightarrow> tn_command \<Rightarrow> bool" where
  "owners_allowed log (RemoveMember req u) \<longleftrightarrow> (\<forall>t\<in>set_option (tr_tenantId req). tenant_known log t)"
| "owners_allowed log (UpdateMember req u r) \<longleftrightarrow> (\<forall>t\<in>set_option (tr_tenantId req). tenant_known log t)"
| "owners_allowed log (DeleteOrganizationData t) \<longleftrightarrow> tenant_known log t"
| "owners_allowed log (HardDeleteOrganization t) \<longleftrightarrow> tenant_known log t"
| "owners_allowed log (PurgeUserTenancyData u e) \<longleftrightarrow> False"
| "owners_allowed log (UserDeleted u) \<longleftrightarrow> False"
| "owners_allowed log _ \<longleftrightarrow> True"

lemma known_log: "tenant_known log t \<Longrightarrow> tenant_known (log @ xs) t"
  by (simp add: tenant_known_def)

lemma distinct_members: "jm_ok db \<Longrightarrow> tables_typed db \<Longrightarrow> distinct (map member_key (memberships_of db))"
proof (induction db)
  case Nil
  then show ?case by (simp add: memberships_of_def List.map_filter_def)
next
  case (Cons x db)
  obtain k r where x: "x = (k, r)" by (cases x)
  have ok: "jm_ok db" "k \<notin> set (jm_keys db)" using Cons.prems(1) x by (auto simp: jm_ok_def jm_keys_def)
  have typed: "tables_typed db"
    unfolding tables_typed_def
  proof (intro allI impI)
    fix l q assume "jm_get db l = Some q"
    then have "jm_get (x # db) l = Some q" using ok(2) x jm_get_None_iff[of db k] by (auto simp: jm_get_def)
    then show "fits l q" using Cons.prems(2) by (simp add: tables_typed_def)
  qed
  have kr: "fits k r" using Cons.prems(2) x by (auto simp: tables_typed_def jm_get_def)
  have keys: "member_key m \<in> set (jm_keys db)" if here: "m \<in> set (memberships_of db)" for m
  proof -
    obtain l where l: "(l, MemberRow m) \<in> set db" using here in_memberships[of m db] by blast
    then have "jm_get db l = Some (MemberRow m)" using ok(1) by (simp add: jm_get_iff_in_set)
    then have "l = member_key m" using typed by (auto simp: tables_typed_def fits_MemberRow dest!: spec)
    then show ?thesis using l by (force simp: jm_keys_def)
  qed
  have "memberships_of (x # db) = (case r of MemberRow m \<Rightarrow> m # memberships_of db | _ \<Rightarrow> memberships_of db)"
    using x by (cases r) (simp_all add: memberships_of_def List.map_filter_def)
  then show ?case using Cons.IH[OF ok(1) typed] keys ok(2) kr by (cases r) (auto simp: fits_MemberRow)
qed

lemma another_owner:
  assumes "tables_ok db" "\<not> length (filter (\<lambda>m. ms_tenantId m = t \<and> ms_role m = OWNER) (memberships_of db)) \<le> 1"
  shows "\<exists>v. v \<noteq> u \<and> is_owner db t v"
proof -
  let ?xs = "filter (\<lambda>m. ms_tenantId m = t \<and> ms_role m = OWNER) (memberships_of db)"
  have d: "distinct (map member_key (memberships_of db))"
    using distinct_members assms(1) by (simp add: tables_ok_def)
  have "distinct (map member_key ?xs)" by (rule distinct_map_filter[OF d])
  moreover obtain a b rest where xs: "?xs = a # b # rest"
    using assms(2) by (cases ?xs; cases "tl ?xs") auto
  ultimately have ab: "member_key a \<noteq> member_key b" by simp
  have owns: "is_owner db t (ms_userId m) \<and> ms_tenantId m = t" if "m \<in> set ?xs" for m
    using that members_at[OF assms(1)] by (auto simp: is_owner_def owner_version_def member_at_def member_key_def)
  have "is_owner db t (ms_userId a) \<and> ms_tenantId a = t" "is_owner db t (ms_userId b) \<and> ms_tenantId b = t"
    using owns xs by (metis list.set_intros(1), metis list.set_intros(1,2))
  then show ?thesis using ab by (metis member_key_def)
qed

section \<open>What a command under the lock may do\<close>

text \<open>
  \<open>K u\<close>: what the command knows of user \<open>u\<close>, an owner or not. \<open>I\<close>: ids of memberships it has
  read, with the key under which the row of that id lies as long as there is one.
\<close>

definition agrees :: "string \<Rightarrow> (string \<Rightarrow> bool option) \<Rightarrow> tn_db \<Rightarrow> bool" where
  "agrees t K db \<longleftrightarrow> (\<forall>u b. K u = Some b \<longrightarrow> is_owner db t u = b)"

definition located :: "(string \<times> tn_key) set \<Rightarrow> tn_db \<Rightarrow> bool" where
  "located I db \<longleftrightarrow> (\<forall>(i, k)\<in>I. \<forall>l m. member_at db l m \<longrightarrow> ms_id m = i \<longrightarrow> l = k)"

definition seen :: "(string \<times> tn_key) set \<Rightarrow> tn_db \<Rightarrow> (string \<times> tn_key) set" where
  "seen I db = I \<union> {(ms_id m, k) |m k. member_at db k m}"

definition spares :: "string \<Rightarrow> tn_db \<Rightarrow> (tn_key \<times> tn_row option) list \<Rightarrow> bool" where
  "spares t db ws \<longleftrightarrow>
     (\<forall>(x, a)\<in>set ws. owner_version (jm_get db x) \<longrightarrow> owner_version a) \<or>
     (\<exists>v. is_owner db t v \<and> MemberKey t v \<notin> fst ` set ws)"

definition in_tenant_rows :: "string \<Rightarrow> (tn_key \<times> tn_row option) list \<Rightarrow> bool" where
  "in_tenant_rows t ws \<longleftrightarrow> fst ` set ws \<subseteq> range (MemberKey t)"

inductive careful ::
  "string \<Rightarrow> bool \<Rightarrow> (string \<Rightarrow> bool option) \<Rightarrow> (string \<times> tn_key) set \<Rightarrow> tn_script \<Rightarrow> bool"
  for t strict where
  answer: "careful t strict K I (Answer r)"
| question: "(\<And>now db ws k. tables_ok db \<Longrightarrow> located I db \<Longrightarrow> (strict \<longrightarrow> agrees t K db) \<Longrightarrow> f now db = Some (ws, k) \<Longrightarrow>
               (ws = [] \<and> (\<exists>K' I'. (strict \<longrightarrow> agrees t K' db) \<and> I' \<subseteq> seen I db \<and> careful t strict K' I' k)) \<or>
               ((\<exists>r. k = Answer r) \<and> in_tenant_rows t ws \<and> (strict \<longrightarrow> spares t db ws))) \<Longrightarrow>
             careful t strict K I (Ask f)"

inductive_cases careful_askE: "careful t strict K I (Ask f)"
inductive_cases careful_lockE: "careful t strict K I (Lock key k)"

lemma careful_ask:
  assumes "\<And>now db ws v. tables_ok db \<Longrightarrow> located I db \<Longrightarrow> (strict \<longrightarrow> agrees t K db) \<Longrightarrow> q now db = Some (ws, v) \<Longrightarrow>
      (\<exists>r. k v = Answer r) \<and> in_tenant_rows t ws \<and> (strict \<longrightarrow> spares t db ws)"
  shows "careful t strict K I (ask q k)"
  unfolding ask_def by (rule careful.question) (use assms in fastforce)

lemma careful_read:
  assumes "\<And>now db. tables_ok db \<Longrightarrow> (strict \<longrightarrow> agrees t K db) \<Longrightarrow>
      \<exists>K' I'. (strict \<longrightarrow> agrees t K' db) \<and> I' \<subseteq> seen I db \<and> careful t strict K' I' (k (f now db))"
  shows "careful t strict K I (ask (reading f) k)"
  unfolding ask_def
proof (rule careful.question, rule disjI1)
  fix now db ws l
  assume db: "tables_ok db" "strict \<longrightarrow> agrees t K db"
    and r: "map_option (\<lambda>(ws, v). (ws, k v)) (reading f now db) = Some (ws, l)"
  have "ws = []" "l = k (f now db)" using r by (auto simp: reading_def)
  then show "ws = [] \<and> (\<exists>K' I'. (strict \<longrightarrow> agrees t K' db) \<and> I' \<subseteq> seen I db \<and> careful t strict K' I' l)"
    using assms[OF db, of now] by simp
qed

lemma careful_askD:
  assumes "careful t strict K I (Ask f)" "tables_ok db" "located I db" "strict \<longrightarrow> agrees t K db" "f now db = Some (ws, k)"
  shows "(ws = [] \<and> (\<exists>K' I'. (strict \<longrightarrow> agrees t K' db) \<and> I' \<subseteq> seen I db \<and> careful t strict K' I' k)) \<or>
         ((\<exists>r. k = Answer r) \<and> in_tenant_rows t ws \<and> (strict \<longrightarrow> spares t db ws))"
  apply (rule careful_askE[OF assms(1)])
  subgoal premises p using p assms(2-5) by presburger
  done

lemma agrees_learn: "agrees t K db \<Longrightarrow> agrees t (K(u \<mapsto> is_owner db t u)) db"
  by (simp add: agrees_def)

text \<open>Finding a membership tells whether the user is an owner and where the id lies.\<close>

lemma careful_find:
  assumes "careful t strict K I (k None)"
    and "\<And>m. ms_tenantId m = t \<Longrightarrow> ms_userId m = u \<Longrightarrow> (strict \<longrightarrow> K u \<in> {None, Some (ms_role m = OWNER)}) \<Longrightarrow>
        careful t strict (K(u \<mapsto> (ms_role m = OWNER))) (insert (ms_id m, MemberKey t u) I) (k (Some m))"
  shows "careful t strict K I (ask (findMembership t u) k)"
  unfolding findMembership_def
proof (rule careful_read)
  fix now db assume db: "tables_ok db" "strict \<longrightarrow> agrees t K db"
  let ?found = "first_row (filter (\<lambda>m. ms_tenantId m = t \<and> ms_userId m = u) (memberships_of db))"
  show "\<exists>K' I'. (strict \<longrightarrow> agrees t K' db) \<and> I' \<subseteq> seen I db \<and> careful t strict K' I' (k ?found)"
  proof (cases ?found)
    case None
    have "I \<subseteq> seen I db" by (auto simp: seen_def)
    then show ?thesis using assms(1) db(2) None by auto
  next
    case (Some m)
    then have m: "m \<in> set (memberships_of db)" "ms_tenantId m = t" "ms_userId m = u"
      using first_row_Some[OF Some] by auto
    then have at: "member_at db (MemberKey t u) m"
      using members_at[OF db(1), of m] by (simp add: member_key_def)
    then have own: "is_owner db t u = (ms_role m = OWNER)"
      by (auto simp: is_owner_def owner_version_def member_at_def)
    have "strict \<longrightarrow> K u \<in> {None, Some (ms_role m = OWNER)}"
      using db(2) own by (cases "K u") (auto simp: agrees_def)
    from assms(2)[OF m(2,3) this]
    have "careful t strict (K(u \<mapsto> (ms_role m = OWNER))) (insert (ms_id m, MemberKey t u) I) (k ?found)"
      unfolding Some .
    moreover have "strict \<longrightarrow> agrees t (K(u \<mapsto> (ms_role m = OWNER))) db"
      using agrees_learn[of t K db u] db(2) own by simp
    moreover have "insert (ms_id m, MemberKey t u) I \<subseteq> seen I db" using at unfolding seen_def by blast
    ultimately show ?thesis by blast
  qed
qed

lemma careful_count:
  assumes "loses \<Longrightarrow> \<forall>v. v \<noteq> u \<longrightarrow> careful t strict (K(v \<mapsto> True)) I k" and "\<not> loses \<Longrightarrow> careful t strict K I k"
  shows "careful t strict K I (keeping_an_owner t loses k)"
proof (cases loses)
  case True
  have sub: "I \<subseteq> seen I db" for db by (auto simp: seen_def)
  have "careful t strict K I (ask (countOwners t) (\<lambda>n. if n \<le> 1 then refuse LAST_OWNER else k))"
    unfolding countOwners_def
  proof (rule careful_read)
    fix now db assume db: "tables_ok db" "strict \<longrightarrow> agrees t K db"
    let ?n = "length (filter (\<lambda>m. ms_tenantId m = t \<and> ms_role m = OWNER) (memberships_of db))"
    show "\<exists>K' I'. (strict \<longrightarrow> agrees t K' db) \<and> I' \<subseteq> seen I db \<and>
        careful t strict K' I' (if ?n \<le> 1 then refuse LAST_OWNER else k)"
    proof (cases "?n \<le> 1")
      case False
      then obtain v where v: "v \<noteq> u" "is_owner db t v" using another_owner[OF db(1) False] by blast
      then have "strict \<longrightarrow> agrees t (K(v \<mapsto> True)) db" using agrees_learn[of t K db v] db(2) by simp
      moreover have "careful t strict (K(v \<mapsto> True)) I (if ?n \<le> 1 then refuse LAST_OWNER else k)"
        using assms(1)[OF True] v(1) False by simp
      ultimately show ?thesis using sub by blast
    next
      case True
      then show ?thesis using db(2) sub by (auto intro: careful.answer)
    qed
  qed
  then show ?thesis using True by (simp add: keeping_an_owner_def)
next
  case False
  then show ?thesis using assms(2) by (simp add: keeping_an_owner_def)
qed

lemma updatePersisted_careful: "careful t strict K I (updatePersisted t u role actorRole)"
  unfolding updatePersisted_def
proof (rule careful_find)
  fix m :: membership
  assume m: "ms_tenantId m = t" "ms_userId m = u"
  let ?K = "K(u \<mapsto> (ms_role m = OWNER))" and ?I = "insert (ms_id m, MemberKey t u) I"
  let ?k = "\<lambda>updated. case updated of [] \<Rightarrow> refuse MEMBERSHIP_NOT_FOUND | m # _ \<Rightarrow> Answer (Inr (Joined m))"
  have last_step: "careful t strict L ?I (ask (updateRole t u role) ?k)"
    if L: "\<And>db. agrees t L db \<Longrightarrow> (is_owner db t u \<longrightarrow> role = OWNER) \<or> (\<exists>v. v \<noteq> u \<and> is_owner db t v)" for L
  proof (rule careful_ask)
    fix now db ws v assume db: "tables_ok db" "strict \<longrightarrow> agrees t L db" "updateRole t u role now db = Some (ws, v)"
    have w: "x = MemberKey t u \<and> owner_version a = (role = OWNER)" if "(x, a) \<in> set ws" for x a
      using update_members_row[OF db(1) db(3)[unfolded updateRole_def] that]
      by (auto simp: member_key_def owner_version_def)
    have "spares t db ws" if "agrees t L db"
      using L[OF that] w unfolding spares_def is_owner_def by fastforce
    moreover have "\<exists>r. ?k v = Answer r" by (cases v) auto
    moreover have "in_tenant_rows t ws" using w unfolding in_tenant_rows_def by fastforce
    ultimately show "(\<exists>r. ?k v = Answer r) \<and> in_tenant_rows t ws \<and> (strict \<longrightarrow> spares t db ws)"
      using db(2) by simp
  qed
  have "careful t strict ?K ?I (keeping_an_owner t (ms_role m = OWNER \<and> role \<noteq> OWNER) (ask (updateRole t u role) ?k))"
  proof (rule careful_count[where u = u])
    show "\<forall>v. v \<noteq> u \<longrightarrow> careful t strict (?K(v \<mapsto> True)) ?I (ask (updateRole t u role) ?k)"
      by (intro allI impI last_step) (auto simp: agrees_def)
    assume "\<not> (ms_role m = OWNER \<and> role \<noteq> OWNER)"
    then show "careful t strict ?K ?I (ask (updateRole t u role) ?k)"
      by (intro last_step) (auto simp: agrees_def)
  qed
  then show "careful t strict ?K ?I (case Some m of None \<Rightarrow> refuse MEMBERSHIP_NOT_FOUND
      | Some m \<Rightarrow> if \<not> canChangeRole actorRole (ms_role m) role then refuse TENANT_FORBIDDEN
          else keeping_an_owner t (ms_role m = OWNER \<and> role \<noteq> OWNER) (ask (updateRole t u role) ?k))"
    by (simp add: careful.answer)
qed (simp add: careful.answer)

lemma memberships_remove_careful:
  assumes L: "\<And>db b. b \<in> {True, False} \<Longrightarrow> L u \<in> {None, Some b} \<Longrightarrow> agrees t (L(u \<mapsto> b)) db \<Longrightarrow>
      \<not> is_owner db t u \<or> (\<exists>v. v \<noteq> u \<and> is_owner db t v)"
  shows "careful t strict L I (memberships_remove t u (Answer x) (Answer y))"
  unfolding memberships_remove_def
proof (rule careful_find)
  fix n :: membership
  assume n: "strict \<longrightarrow> L u \<in> {None, Some (ms_role n = OWNER)}"
  let ?L = "L(u \<mapsto> (ms_role n = OWNER))" and ?I = "insert (ms_id n, MemberKey t u) I"
  have "careful t strict ?L ?I (ask (delete_members (\<lambda>x. ms_id x = ms_id n)) (\<lambda>c. if 0 < c then Answer x else Answer y))"
  proof (rule careful_ask)
    fix now db ws v assume db: "tables_ok db" "located ?I db" "strict \<longrightarrow> agrees t ?L db"
      "delete_members (\<lambda>x. ms_id x = ms_id n) now db = Some (ws, v)"
    have w: "x = MemberKey t u" if xa: "(x, a) \<in> set ws" for x a
      using delete_members_row[OF db(1,4) xa] db(2) by (auto simp: located_def)
    have "spares t db ws" if "strict"
      using L[of "ms_role n = OWNER" db] n db(3) that w unfolding spares_def is_owner_def by fastforce
    moreover have "in_tenant_rows t ws" using w unfolding in_tenant_rows_def by fastforce
    ultimately show "(\<exists>r. (if 0 < v then Answer x else Answer y) = Answer r) \<and> in_tenant_rows t ws \<and> (strict \<longrightarrow> spares t db ws)"
      by simp
  qed
  then show "careful t strict ?L ?I (case Some n of None \<Rightarrow> Answer y
      | Some m \<Rightarrow> ask (delete_members (\<lambda>x. ms_id x = ms_id m)) (\<lambda>c. if 0 < c then Answer x else Answer y))"
    by simp
qed (simp add: careful.answer)

lemma removePersisted_careful: "careful t strict K I (removePersisted t u actorRole)"
  unfolding removePersisted_def
proof (rule careful_find)
  fix m :: membership
  let ?K = "K(u \<mapsto> (ms_role m = OWNER))" and ?I = "insert (ms_id m, MemberKey t u) I"
  let ?k = "memberships_remove t u (Answer (Inr Done)) (refuse MEMBERSHIP_NOT_FOUND)"
  have "careful t strict ?K ?I (keeping_an_owner t (ms_role m = OWNER) ?k)"
  proof (rule careful_count[where u = u])
    show "\<forall>v. v \<noteq> u \<longrightarrow> careful t strict (?K(v \<mapsto> True)) ?I ?k"
      by (intro allI impI memberships_remove_careful) (auto simp: agrees_def)
    assume "\<not> ms_role m = OWNER"
    then show "careful t strict ?K ?I ?k"
      by (intro memberships_remove_careful) (auto simp: agrees_def)
  qed
  then show "careful t strict ?K ?I (case Some m of None \<Rightarrow> refuse MEMBERSHIP_NOT_FOUND
      | Some m \<Rightarrow> if ms_role m = OWNER \<and> actorRole \<noteq> Some OWNER then refuse TENANT_FORBIDDEN
          else if actorRole \<noteq> Some OWNER \<and> actorRole \<noteq> Some ADMIN then refuse TENANT_FORBIDDEN
          else keeping_an_owner t (ms_role m = OWNER) ?k)"
    by (simp add: careful.answer)
qed (simp add: careful.answer)


section \<open>Commands that leave owners alone\<close>

definition gentle_write :: "tn_db \<Rightarrow> tn_key \<Rightarrow> tn_row option \<Rightarrow> bool" where
  "gentle_write db x a \<longleftrightarrow>
     (\<forall>t u. x = MemberKey t u \<longrightarrow> owner_version (jm_get db x) = owner_version a \<and>
        (a \<noteq> None \<longrightarrow> jm_has db (OrgKey t) \<or> jm_has db x)) \<and> (\<forall>t. x \<noteq> OrgKey t)"

definition quiet_writes :: "tn_db \<Rightarrow> (tn_key \<times> tn_row option) list \<Rightarrow> bool" where
  "quiet_writes db ws \<longleftrightarrow> (\<forall>(x, a)\<in>set ws. gentle_write db x a)"

lemma quiet_Nil [simp]: "quiet_writes db []"
  by (simp add: quiet_writes_def)

lemma quiet_elsewhere: "(\<And>x a. (x, a) \<in> set ws \<Longrightarrow> (\<exists>i. x = InviteKey i) \<or> (\<exists>i. x = EventKey i)) \<Longrightarrow> quiet_writes db ws"
  unfolding quiet_writes_def gentle_write_def by fastforce

lemma quiet_create:
  assumes "tables_ok db" "memberships_create mid t u e n (granted_role r) now db = Some (ws, v)"
  shows "quiet_writes db ws"
proof -
  have "gentle_write db x a" if "(x, a) \<in> set ws" for x a
    using memberships_create_row[OF assms that]
    by (cases r) (auto simp: gentle_write_def owner_version_def)
  then show ?thesis unfolding quiet_writes_def by blast
qed

lemma quiet_update_invites: "tables_ok db \<Longrightarrow> update_invites p f now db = Some (ws, v) \<Longrightarrow>
    (\<And>n i. iv_id (f n i) = iv_id i) \<Longrightarrow> quiet_writes db ws"
  by (rule quiet_elsewhere) (auto dest!: update_invites_row)

lemma quiet_delete_invites: "tables_ok db \<Longrightarrow> delete_invites p now db = Some (ws, v) \<Longrightarrow> quiet_writes db ws"
  by (rule quiet_elsewhere) (auto dest!: delete_invites_row)

lemma quiet_create_invite: "invitations_create iid t e r h u now db = Some (ws, v) \<Longrightarrow> quiet_writes db ws"
  by (rule quiet_elsewhere) (auto simp: invitations_create_def Let_def split: if_splits)

lemma quiet_update_members:
  assumes "tables_ok db" "update_members p f now db = Some (ws, v)"
    and "\<And>m. ms_id (f m) = ms_id m \<and> ms_tenantId (f m) = ms_tenantId m \<and> ms_userId (f m) = ms_userId m \<and> ms_role (f m) = ms_role m"
  shows "quiet_writes db ws"
proof -
  have "gentle_write db x a" if "(x, a) \<in> set ws" for x a
    using update_members_row[OF assms(1,2) that] assms(3)
    by (auto simp: gentle_write_def owner_version_def member_at_def member_key_def jm_has_def)
  then show ?thesis unfolding quiet_writes_def by blast
qed

definition gentle_change :: "tn_log \<Rightarrow> tn_key \<Rightarrow> tn_row option \<Rightarrow> tn_row option \<Rightarrow> bool" where
  "gentle_change log x b a \<longleftrightarrow>
     (\<forall>t u. x = MemberKey t u \<longrightarrow> owner_version b = owner_version a \<and> (a \<noteq> None \<longrightarrow> tenant_known log t)) \<and>
     (\<forall>t. x \<noteq> OrgKey t)"

definition quiet_P :: "tn_log \<Rightarrow> tn_proc \<Rightarrow> bool" where
  "quiet_P log pr \<longleftrightarrow> only_writes tables_ok quiet_writes (todo pr) \<and>
     (\<forall>(x, b, a)\<in>set (changes pr). gentle_change log x b a)"

section \<open>Commands that end an organization\<close>

definition ending_write :: "string \<Rightarrow> tn_key \<Rightarrow> tn_row option \<Rightarrow> bool" where
  "ending_write t x a \<longleftrightarrow>
     (\<forall>s u. x = MemberKey s u \<longrightarrow> s = t \<and> a = None) \<and> (\<forall>s. x = OrgKey s \<longrightarrow> s = t \<and> \<not> live_version a)"

inductive ending :: "string \<Rightarrow> bool \<Rightarrow> tn_script \<Rightarrow> bool" for t where
  refused: "ending t b (Answer (Inl e))"
| gone: "ending t True (Answer (Inr v))"
| question: "(\<And>now db ws k. tables_ok db \<Longrightarrow> f now db = Some (ws, k) \<Longrightarrow>
               (\<forall>(x, a)\<in>set ws. ending_write t x a) \<and>
               (ending t False k \<or> (ending t True k \<and> \<not> live (fold put_row ws db) t))) \<Longrightarrow> ending t b (Ask f)"

inductive_cases ending_askE: "ending t b (Ask f)"
inductive_cases ending_answerE: "ending t b (Answer (Inr v))"
inductive_cases ending_lockE: "ending t b (Lock key k)"

lemma ending_askD:
  assumes "ending t b (Ask f)" "tables_ok db" "f now db = Some (ws, k)"
  shows "(\<forall>(x, a)\<in>set ws. ending_write t x a) \<and> (ending t False k \<or> (ending t True k \<and> \<not> live (fold put_row ws db) t))"
  apply (rule ending_askE[OF assms(1)])
  subgoal premises p using p assms(2-3) by presburger
  done

lemma ending_ask:
  assumes "\<And>now db ws v. tables_ok db \<Longrightarrow> q now db = Some (ws, v) \<Longrightarrow> (\<forall>(x, a)\<in>set ws. ending_write t x a) \<and>
      (ending t False (k v) \<or> (ending t True (k v) \<and> \<not> live (fold put_row ws db) t))"
  shows "ending t b (ask q k)"
  unfolding ask_def by (rule ending.question) (use assms in fastforce)

lemma soft_delete_ends:
  assumes "tables_ok db" "organizations_softDelete t now db = Some (ws, v)"
  shows "(\<forall>(x, a)\<in>set ws. ending_write t x a) \<and> \<not> live (fold put_row ws db) t"
proof -
  let ?gs = "filter (\<lambda>g. og_id g = t \<and> og_deletedAt g = None) (organizations_of db)"
  have ws: "ws = concat (map (\<lambda>g. [(OrgKey t, Some (OrgRow (g\<lparr>og_deletedAt := Some now, og_updatedAt := now\<rparr>))),
      (SlugKey (og_slug g), None)]) ?gs)"
    using assms(2) unfolding organizations_softDelete_def Let_def by auto
  have "\<forall>(x, a)\<in>set ws. ending_write t x a" by (auto simp: ws ending_write_def live_version_def)
  moreover have "\<not> live (fold put_row ws db) t"
  proof
    assume "live (fold put_row ws db) t"
    then obtain g where g: "jm_get (fold put_row ws db) (OrgKey t) = Some (OrgRow g)" "og_deletedAt g = None"
      by (auto simp: live_def live_version_def)
    from fold_put_some[OF g(1)] show False
    proof (elim disjE conjE)
      assume "(OrgKey t, Some (OrgRow g)) \<in> set ws"
      then show False using g(2) by (auto simp: ws)
    next
      assume none: "OrgKey t \<notin> fst ` set ws" and "jm_get db (OrgKey t) = Some (OrgRow g)"
      then have "g \<in> set ?gs" using orgs_at[OF assms(1), of g] tables_fit[OF assms(1)] g(2) by fastforce
      then show False using none by (force simp: ws)
    qed
  qed
  ultimately show ?thesis by blast
qed

lemma hard_delete_ends:
  assumes "tables_ok db" "organizations_delete t now db = Some (ws, v)"
  shows "(\<forall>(x, a)\<in>set ws. ending_write t x a) \<and> \<not> live (fold put_row ws db) t"
proof -
  have w: "\<forall>(x, a)\<in>set ws. ending_write t x a"
    using assms(2) by (auto simp: organizations_delete_def Let_def ending_write_def live_version_def member_key_def split: if_splits)
  moreover have "\<not> live (fold put_row ws db) t"
  proof
    assume "live (fold put_row ws db) t"
    then obtain g where g: "jm_get (fold put_row ws db) (OrgKey t) = Some (OrgRow g)"
      by (auto simp: live_def live_version_def)
    from fold_put_some[OF g] show False
    proof (elim disjE conjE)
      assume "(OrgKey t, Some (OrgRow g)) \<in> set ws"
      then show False using assms(2) by (auto simp: organizations_delete_def Let_def split: if_splits)
    next
      assume none: "OrgKey t \<notin> fst ` set ws" and at: "jm_get db (OrgKey t) = Some (OrgRow g)"
      have "og_id g = t" using tables_fit[OF assms(1) at] by simp
      then have "g \<in> set (filter (\<lambda>g. og_id g = t) (organizations_of db))" using orgs_at[OF assms(1), of g] at by simp
      then have "filter (\<lambda>g. og_id g = t) (organizations_of db) \<noteq> []" by force
      then have "(OrgKey t, None) \<in> set ws" using assms(2) by (auto simp: organizations_delete_def Let_def split: if_splits)
      then show False using none by force
    qed
  qed
  ultimately show ?thesis by blast
qed

lemma delete_data_ending: "ending t False (DeleteOrganizationDataCommand t)"
  unfolding DeleteOrganizationDataCommand_def
proof (rule ending_ask)
  fix now db ws v assume 1: "tables_ok db" "memberships_deleteByTenant t now db = Some (ws, v)"
  have w1: "\<forall>(x, a)\<in>set ws. ending_write t x a"
    using delete_members_row[OF 1(1) 1(2)[unfolded memberships_deleteByTenant_def]]
    by (fastforce simp: ending_write_def member_key_def)
  have "ending t False (ask (organizations_softDelete t) (\<lambda>_. Answer (Inr Done)))"
    by (rule ending_ask) (use soft_delete_ends in \<open>blast intro: ending.gone\<close>)
  moreover have "\<forall>(x, a)\<in>set ws'. ending_write t x a" if "tables_ok db'" "invitations_deleteByTenant t now' db' = Some (ws', v')"
    for now' db' ws' v'
    using delete_invites_row[OF that(1) that(2)[unfolded invitations_deleteByTenant_def]] by (fastforce simp: ending_write_def)
  ultimately have "ending t False (ask (invitations_deleteByTenant t) (\<lambda>_. ask (organizations_softDelete t) (\<lambda>_. Answer (Inr Done))))"
    by (intro ending_ask) blast
  then show "(\<forall>(x, a)\<in>set ws. ending_write t x a) \<and>
      (ending t False (ask (invitations_deleteByTenant t) (\<lambda>_. ask (organizations_softDelete t) (\<lambda>_. Answer (Inr Done)))) \<or>
       (ending t True (ask (invitations_deleteByTenant t) (\<lambda>_. ask (organizations_softDelete t) (\<lambda>_. Answer (Inr Done)))) \<and>
        \<not> live (fold put_row ws db) t))" using w1 by blast
qed

lemma hard_delete_ending: "ending t False (HardDeleteOrganizationCommand t)"
  unfolding HardDeleteOrganizationCommand_def
  by (rule ending_ask) (use hard_delete_ends in \<open>blast intro: ending.gone\<close>)


section \<open>Commands that found an organization\<close>

definition founder_script :: "tn_actor \<Rightarrow> string \<Rightarrow> organization \<Rightarrow> tn_script" where
  "founder_script actor mid g =
     ask (memberships_create mid (og_id g) (ac_sub actor) (ac_email actor) (display_name actor) OWNER) (\<lambda>m.
     Answer (Inr (Created g m)))"

inductive founding :: "string \<Rightarrow> tn_script \<Rightarrow> (tn_key, tn_row) change list \<Rightarrow> bool" for t where
  begins: "founding t (CreateOrganizationCommand name given actor t mid) []"
| checked: "founding t (create_persist name slug actor t mid) []"
| refused: "founding t (Answer (Inl e)) cs"
| opened: "og_id g = t \<Longrightarrow> founding t (founder_script actor mid g)
             [(OrgKey t, b, Some (OrgRow g)), (SlugKey slug, c, Some (SlugRow t))]"
| founded: "ms_role m = OWNER \<Longrightarrow> founding t (Answer (Inr v))
              [(OrgKey t, b, Some (OrgRow g)), (SlugKey slug, c, Some (SlugRow t)), (MemberKey t u, d, Some (MemberRow m))]"

inductive_cases founding_answerE: "founding t (Answer (Inr v)) cs"

lemma founding_ask:
  assumes "founding t s cs" and "s = Ask f" "f now (visible_rows db cs) = Some (ws, k)"
  shows "founding t k (cs @ map (\<lambda>(x, a). (x, jm_get db x, a)) ws)"
  using assms
proof cases
  case (begins name given actor mid)
  then have "ws = [] \<and> (k = refuse ORGANIZATION_SLUG_TAKEN \<or> (\<exists>slug. k = create_persist name slug actor t mid))"
    using assms(2,3) by (auto simp: CreateOrganizationCommand_def Let_def ask_def findBySlug_def reading_Some split: if_splits)
  then show ?thesis using begins(2) by (auto intro: founding.intros)
next
  case (checked name slug actor mid)
  then have "\<exists>g. og_id g = t \<and> ws = [(OrgKey t, Some (OrgRow g)), (SlugKey slug, Some (SlugRow t))] \<and>
      k = founder_script actor mid g"
    using assms(2,3)
    by (auto simp: create_persist_def founder_script_def ask_def organizations_create_def Let_def split: if_splits)
  then show ?thesis using checked(2) by (auto intro: founding.intros)
next
  case (opened g actor mid b slug c)
  then obtain m where m: "memberships_create mid t (ac_sub actor) (ac_email actor) (display_name actor) OWNER now
      (visible_rows db cs) = Some (ws, m)" and k: "k = Answer (Inr (Created g m))"
    using assms(2,3) by (auto simp: founder_script_def ask_def)
  then have "ws = [(MemberKey t (ac_sub actor), Some (MemberRow m))]" "ms_role m = OWNER"
    by (auto simp: memberships_create_def Let_def split: if_splits)
  then show ?thesis using opened(2) k by (auto intro: founding.founded)
qed auto


section \<open>The obligations of each command\<close>

definition minted_id :: "tn_env \<Rightarrow> tn_log \<Rightarrow> string \<Rightarrow> bool" where
  "minted_id E log i \<longleftrightarrow> (\<exists>(c, _)\<in>set log. ''mem:'' @ i \<in> tn_mints E c)"

definition remembers :: "tn_env \<Rightarrow> tn_db \<Rightarrow> tn_log \<Rightarrow> (string \<times> tn_key) set \<Rightarrow> bool" where
  "remembers E db log I \<longleftrightarrow> located I db \<and> (\<forall>(i, k)\<in>I. minted_id E log i)"

definition spared :: "string \<Rightarrow> tn_db \<Rightarrow> (tn_key, tn_row) change list \<Rightarrow> bool" where
  "spared t db cs \<longleftrightarrow>
     (\<forall>(x, b, a)\<in>set cs. owner_version b \<longrightarrow> owner_version a) \<or>
     (\<exists>v. is_owner db t v \<and> MemberKey t v \<notin> fst ` set cs)"

definition guard_P :: "tn_env \<Rightarrow> string \<Rightarrow> tn_db \<Rightarrow> tn_log \<Rightarrow> tn_proc \<Rightarrow> bool" where
  "guard_P E t db log pr \<longleftrightarrow> tenant_known log t \<and>
     ((changes pr = [] \<and> (\<exists>s. todo pr = Lock (owners_key t) s \<and> (\<forall>strict K. careful t strict K {} s))) \<or>
      (owners_key t \<in> set (locks pr) \<and> changes pr = [] \<and>
         (\<exists>K I. remembers E db log I \<and> careful t False K I (todo pr)) \<and>
         (live db t \<longrightarrow> (\<exists>K I. remembers E db log I \<and> agrees t K db \<and> careful t True K I (todo pr)))) \<or>
      (owners_key t \<in> set (locks pr) \<and> (\<exists>r. todo pr = Answer r) \<and> fst ` set (changes pr) \<subseteq> range (MemberKey t) \<and>
         (live db t \<longrightarrow> spared t db (changes pr))))"

definition ending_P :: "string \<Rightarrow> tn_db \<Rightarrow> tn_log \<Rightarrow> tn_proc \<Rightarrow> bool" where
  "ending_P t db log pr \<longleftrightarrow> tenant_known log t \<and> (\<forall>(x, b, a)\<in>set (changes pr). ending_write t x a) \<and>
     (ending t False (todo pr) \<or> (ending t True (todo pr) \<and> \<not> live (visible_rows db (changes pr)) t))"

datatype tn_duty = Quiet | Guarding string | Ending string | Founding string

definition guard_of :: "string option \<Rightarrow> tn_duty" where
  "guard_of t = (case t of None \<Rightarrow> Quiet | Some t \<Rightarrow> Guarding t)"

fun duty_of :: "tn_command \<Rightarrow> tn_duty" where
  "duty_of (CreateOrganization name given actor oid mid) = Founding oid"
| "duty_of (RemoveMember req u) = guard_of (tr_tenantId req)"
| "duty_of (UpdateMember req u r) = guard_of (tr_tenantId req)"
| "duty_of (DeleteOrganizationData t) = Ending t"
| "duty_of (HardDeleteOrganization t) = Ending t"
| "duty_of c = Quiet"

definition duty_P :: "tn_env \<Rightarrow> tn_db \<Rightarrow> tn_log \<Rightarrow> tn_proc \<Rightarrow> tn_duty \<Rightarrow> bool" where
  "duty_P E db log pr d = (case d of Quiet \<Rightarrow> quiet_P log pr | Guarding t \<Rightarrow> guard_P E t db log pr
     | Ending t \<Rightarrow> ending_P t db log pr | Founding t \<Rightarrow> founding t (todo pr) (changes pr))"

definition owner_P :: "tn_env \<Rightarrow> tn_db \<Rightarrow> tn_log \<Rightarrow> tn_proc \<Rightarrow> bool" where
  "owner_P E db log pr \<longleftrightarrow> rows_P E db log pr \<and> duty_P E db log pr (duty_of (rc_cmd pr))"

definition known_rows :: "tn_db \<Rightarrow> tn_log \<Rightarrow> bool" where
  "known_rows db log \<longleftrightarrow> (\<forall>t. jm_has db (OrgKey t) \<longrightarrow> tenant_known log t) \<and>
     (\<forall>t u. jm_has db (MemberKey t u) \<longrightarrow> tenant_known log t)"

definition owner_G :: "tn_env \<Rightarrow> tn_db \<Rightarrow> tn_log \<Rightarrow> bool" where
  "owner_G E db log \<longleftrightarrow> rows_G E db log \<and> (\<forall>t. live db t \<longrightarrow> (\<exists>u. is_owner db t u)) \<and> known_rows db log"

lemma quiet_code:
  assumes "duty_of c = Quiet" "owners_allowed log c"
  shows "only_writes tables_ok quiet_writes (tn_code E c)"
proof (cases c)
  case (AcceptInvitation token actor mid)
  then show ?thesis
    by (auto simp: markAccepted_def intro!: accept_writes intro: quiet_create quiet_update_invites)
next
  case (InviteMember req email role actor token iid)
  then show ?thesis
    by (auto simp: revokeExpired_def intro!: invite_writes quiet_elsewhere[of "[(EventKey iid, Some (EventRow ev))]" for ev]
        intro: quiet_create_invite quiet_update_invites)
next
  case (PurgeExpiredInvitations stop now days)
  then show ?thesis
    by (auto simp: PurgeExpiredInvitationsCommand_def intro!: purge_batches_writes intro: quiet_delete_invites)
next
  case (UserUpdated u email name)
  then show ?thesis by (auto intro!: snapshot_writes intro: quiet_update_members)
qed (use assms in \<open>auto simp: guard_of_def RemoveMemberCommand_def UpdateMemberCommand_def split: option.splits\<close>)

lemma entered_duty:
  assumes "owners_allowed log c"
  shows "duty_P E db log (entered (tn_code E) c) (duty_of c)"
proof (cases "duty_of c")
  case Quiet
  then show ?thesis using quiet_code[OF _ assms] by (simp add: duty_P_def quiet_P_def)
next
  case (Guarding t)
  have "tenant_known log t \<and> (\<exists>s. tn_code E c = Lock (owners_key t) s \<and> (\<forall>strict K. careful t strict K {} s))"
    using Guarding assms updatePersisted_careful removePersisted_careful
    by (cases c) (auto simp: guard_of_def RemoveMemberCommand_def UpdateMemberCommand_def split: option.splits)
  then show ?thesis using Guarding by (simp add: duty_P_def guard_P_def)
next
  case (Ending t)
  have "tenant_known log t \<and> ending t False (tn_code E c)"
    using Ending assms delete_data_ending hard_delete_ending by (cases c) (auto simp: guard_of_def split: option.splits)
  then show ?thesis using Ending by (simp add: duty_P_def ending_P_def)
next
  case (Founding t)
  then show ?thesis
    by (cases c) (auto simp: duty_P_def guard_of_def split: option.splits intro: founding.begins)
qed

lemma locked_duty:
  assumes "duty_P E db log pr d" "todo pr = Lock key k"
  shows "duty_P E db log (locked_by key k pr) d"
proof (cases d)
  case Quiet
  then show ?thesis using assms by (auto simp: duty_P_def quiet_P_def elim: only_writes_lockE)
next
  case (Guarding t)
  have "\<not> careful t strict K I (Lock key k)" for strict K I by (auto elim: careful_lockE)
  then have "key = owners_key t" "changes pr = []" "\<forall>strict K. careful t strict K {} k" "tenant_known log t"
    using assms Guarding by (auto simp: duty_P_def guard_P_def)
  moreover have "agrees t (\<lambda>_. None) db" "remembers E db log {}"
    by (auto simp: agrees_def remembers_def located_def)
  ultimately show ?thesis using Guarding by (auto simp: duty_P_def guard_P_def)
next
  case (Ending t)
  then show ?thesis using assms by (auto simp: duty_P_def ending_P_def elim: ending_lockE)
next
  case (Founding t)
  have "\<not> founding t (Lock key k) cs" for cs
    by (auto elim: founding.cases simp: CreateOrganizationCommand_def create_persist_def founder_script_def ask_def Let_def)
  then show ?thesis using assms Founding by (simp add: duty_P_def)
qed

text \<open>The visible version of a row: the last change of the transaction, or the committed one.\<close>

lemma visible_kept:
  assumes "based db pr" "\<And>x b a. (x, b, a) \<in> set (changes pr) \<Longrightarrow> x = k \<Longrightarrow> f a = f b"
  shows "f (jm_get (visible_rows db (changes pr)) k) = f (jm_get db k)"
proof (cases "k \<in> fst ` set (changes pr)")
  case True
  obtain b a where c: "(k, b, a) \<in> set (changes pr)" "jm_get (visible_rows db (changes pr)) k = a"
    using visible_changed[OF True, of db] by blast
  then show ?thesis using assms(2)[OF c(1) refl] basedD[OF assms(1) c(1)] by simp
qed (simp add: visible_unchanged)

lemma jm_has_get: "jm_has db k \<longleftrightarrow> jm_get db k \<noteq> None"
  by (simp add: jm_has_def)

lemma quiet_owner: "based db pr \<Longrightarrow> quiet_P log pr \<Longrightarrow>
    owner_version (jm_get (visible_rows db (changes pr)) (MemberKey t u)) = owner_version (jm_get db (MemberKey t u))"
  by (rule visible_kept) (auto simp: quiet_P_def gentle_change_def)

lemma quiet_ask:
  assumes P: "quiet_P log pr" and b: "based db pr" and known: "known_rows db log"
    and V: "tables_ok (visible_rows db (changes pr))"
    and f: "todo pr = Ask f" "f now (visible_rows db (changes pr)) = Some (ws, k)"
  shows "quiet_P log (asked db ws k pr)"
proof -
  let ?V = "visible_rows db (changes pr)"
  have Q: "only_writes tables_ok quiet_writes (Ask f)" using P f(1) by (simp add: quiet_P_def)
  note now = only_writes_askD[OF Q V f(2)]
  have no_org: "jm_get ?V (OrgKey t) = jm_get db (OrgKey t)" for t
    using P by (intro visible_unchanged) (fastforce simp: quiet_P_def gentle_change_def)
  have vis_known: "tenant_known log t" if h: "jm_has ?V (MemberKey t u)" for t u
  proof (cases "MemberKey t u \<in> fst ` set (changes pr)")
    case True
    obtain b a where "(MemberKey t u, b, a) \<in> set (changes pr)" "jm_get ?V (MemberKey t u) = a"
      using visible_changed[OF True, of db] by blast
    then show ?thesis using P h by (auto simp: quiet_P_def gentle_change_def jm_has_get)
  next
    case False
    then have "jm_has db (MemberKey t u)" using h by (simp add: visible_unchanged jm_has_get)
    then show ?thesis using known unfolding known_rows_def by blast
  qed
  have "gentle_change log x (jm_get db x) a" if "(x, a) \<in> set ws" for x a
  proof -
    have w: "gentle_write ?V x a" using now(2) that by (auto simp: quiet_writes_def)
    have "tenant_known log t" if "x = MemberKey t u" "a \<noteq> None" for t u
      using w that vis_known known no_org by (auto simp: gentle_write_def jm_has_get known_rows_def)
    then show ?thesis using w quiet_owner[OF b P] by (auto simp: gentle_change_def gentle_write_def)
  qed
  then show ?thesis using P now(1) by (auto simp: quiet_P_def asked_def)
qed

lemma seen_remembered:
  assumes "remembers E db log I" "I' \<subseteq> seen I db" "tables_ok db" "minted_members E db log"
  shows "remembers E db log I'"
proof -
  have "(\<forall>l n. member_at db l n \<longrightarrow> ms_id n = i \<longrightarrow> l = k) \<and> minted_id E log i" if "(i, k) \<in> I'" for i k
  proof -
    have "(i, k) \<in> I \<or> (\<exists>m. i = ms_id m \<and> member_at db k m)" using assms(2) that by (auto simp: seen_def)
    then show ?thesis
    proof
      assume "(i, k) \<in> I"
      then show ?thesis using assms(1) by (auto simp: remembers_def located_def)
    next
      assume "\<exists>m. i = ms_id m \<and> member_at db k m"
      then obtain m where "i = ms_id m" "member_at db k m" by blast
      then show ?thesis using tables_okD(3)[OF assms(3)] assms(4)
        unfolding ids_unique_def minted_members_def minted_id_def by metis
    qed
  qed
  then show ?thesis by (auto simp: remembers_def located_def)
qed

lemma guard_ask:
  assumes P: "guard_P E t db log pr" and db: "tables_ok db" "minted_members E db log"
    and f: "todo pr = Ask f" "f now (visible_rows db (changes pr)) = Some (ws, k)"
  shows "guard_P E t db log (asked db ws k pr)"
proof -
  obtain K I where none: "changes pr = []" "owners_key t \<in> set (locks pr)" "tenant_known log t"
      and K: "remembers E db log I" "careful t False K I (Ask f)"
      and strict: "live db t \<Longrightarrow> \<exists>K I. remembers E db log I \<and> agrees t K db \<and> careful t True K I (Ask f)"
    using P f(1) by (auto simp: guard_P_def)
  have f': "f now db = Some (ws, k)" using f(2) none(1) by simp
  have "(ws = [] \<and> (\<exists>K' I'. remembers E db log I' \<and> careful t False K' I' k)) \<or> ((\<exists>r. k = Answer r) \<and> in_tenant_rows t ws)"
  proof -
    have "located I db" using K(1) by (simp add: remembers_def)
    from careful_askD[OF K(2) db(1) this _ f'] show ?thesis using seen_remembered[OF K(1) _ db] by blast
  qed
  moreover have "(ws = [] \<and> (\<exists>K' I'. remembers E db log I' \<and> agrees t K' db \<and> careful t True K' I' k)) \<or>
      ((\<exists>r. k = Answer r) \<and> spares t db ws)" if l: "live db t"
  proof -
    obtain K' I' where K': "remembers E db log I'" "agrees t K' db" "careful t True K' I' (Ask f)" using strict[OF l] by blast
    have "located I' db" "True \<longrightarrow> agrees t K' db" using K'(1,2) by (simp_all add: remembers_def)
    from careful_askD[OF K'(3) db(1) this f'] show ?thesis using seen_remembered[OF K'(1) _ db] by blast
  qed
  ultimately have both: "(ws = [] \<and> (\<exists>K' I'. remembers E db log I' \<and> careful t False K' I' k)) \<or> ((\<exists>r. k = Answer r) \<and> in_tenant_rows t ws)"
    "live db t \<Longrightarrow> (ws = [] \<and> (\<exists>K' I'. remembers E db log I' \<and> agrees t K' db \<and> careful t True K' I' k)) \<or>
      ((\<exists>r. k = Answer r) \<and> spares t db ws)" by blast+
  show ?thesis
  proof (cases "\<exists>r. k = Answer r")
    case True
    have "fst ` set (changes (asked db ws k pr)) \<subseteq> range (MemberKey t)"
      using both(1) none(1) by (auto simp: asked_def in_tenant_rows_def)
    moreover have "live db t \<longrightarrow> spared t db (changes (asked db ws k pr))"
    proof
      assume "live db t"
      from both(2)[OF this] have "spares t db ws" by (auto simp: spares_def)
      then show "spared t db (changes (asked db ws k pr))"
        using none(1) by (force simp: spares_def spared_def asked_def)
    qed
    ultimately show ?thesis using True none(2,3) by (simp add: guard_P_def)
  next
    case False
    then show ?thesis using both none by (simp add: guard_P_def asked_def)
  qed
qed


lemma ending_step:
  assumes P: "ending_P t db log pr" and V: "tables_ok (visible_rows db (changes pr))"
    and f: "todo pr = Ask f" "f now (visible_rows db (changes pr)) = Some (ws, k)"
  shows "ending_P t db log (asked db ws k pr)"
proof -
  have "ending t False (Ask f) \<or> ending t True (Ask f)" using P f(1) by (auto simp: ending_P_def)
  then have "(\<forall>(x, a)\<in>set ws. ending_write t x a) \<and>
      (ending t False k \<or> (ending t True k \<and> \<not> live (fold put_row ws (visible_rows db (changes pr))) t))"
    using ending_askD[where f = f, OF _ V f(2)] by blast
  then show ?thesis using P by (auto simp: ending_P_def asked_visible) (auto simp: asked_def)
qed

lemma duty_ask:
  assumes "duty_P E db log pr d" "based db pr" "known_rows db log" "tables_ok db" "minted_members E db log"
    and "tables_ok (visible_rows db (changes pr))" "todo pr = Ask f" "f now (visible_rows db (changes pr)) = Some (ws, k)"
  shows "duty_P E db log (asked db ws k pr) d"
proof (cases d)
  case Quiet
  then show ?thesis using quiet_ask[OF _ assms(2,3,6-8)] assms(1) by (simp add: duty_P_def)
next
  case (Guarding t)
  then show ?thesis using guard_ask[OF _ assms(4,5,7,8)] assms(1) by (simp add: duty_P_def)
next
  case (Ending t)
  then show ?thesis using ending_step[OF _ assms(6-8)] assms(1) by (simp add: duty_P_def)
next
  case (Founding t)
  then have "founding t k (changes pr @ map (\<lambda>(x, a). (x, jm_get db x, a)) ws)"
    using founding_ask[OF _ assms(7,8)] assms(1) by (simp add: duty_P_def)
  then show ?thesis using Founding by (simp add: duty_P_def asked_def)
qed


section \<open>What a commit does to an organization\<close>

definition same_tenant :: "tn_db \<Rightarrow> tn_db \<Rightarrow> string \<Rightarrow> bool" where
  "same_tenant db db' t \<longleftrightarrow> live db' t = live db t \<and> (\<forall>u. is_owner db' t u = is_owner db t u)"

definition owned :: "tn_db \<Rightarrow> string \<Rightarrow> bool" where
  "owned db t \<longleftrightarrow> (\<exists>u. is_owner db t u)"

lemma same_tenantI:
  assumes "based db pr" "\<And>b a. (OrgKey t, b, a) \<in> set (changes pr) \<Longrightarrow> live_version a = live_version b"
    and "\<And>u b a. (MemberKey t u, b, a) \<in> set (changes pr) \<Longrightarrow> owner_version a = owner_version b"
  shows "same_tenant db (visible_rows db (changes pr)) t"
  unfolding same_tenant_def live_def is_owner_def
  using visible_kept[OF assms(1), of "OrgKey t" live_version] visible_kept[OF assms(1), of "MemberKey t u" owner_version for u]
    assms(2,3) by metis

lemma same_owned: "same_tenant db db' t \<Longrightarrow> owned db' t = owned db t"
  by (simp add: same_tenant_def owned_def)

lemma quiet_effect: "quiet_P log pr \<Longrightarrow> based db pr \<Longrightarrow> same_tenant db (visible_rows db (changes pr)) t"
  by (rule same_tenantI) (fastforce simp: quiet_P_def gentle_change_def)+

lemma guard_answer:
  assumes "guard_P E t db log pr" "todo pr = Answer r"
  shows "changes pr = [] \<or>
    (owners_key t \<in> set (locks pr) \<and> fst ` set (changes pr) \<subseteq> range (MemberKey t) \<and> (live db t \<longrightarrow> spared t db (changes pr)))"
  using assms by (auto simp: guard_P_def)

lemma guard_effect:
  assumes "guard_P E t db log pr" "based db pr" "todo pr = Answer r" "live db t \<Longrightarrow> owned db t"
  shows "s \<noteq> t \<Longrightarrow> same_tenant db (visible_rows db (changes pr)) s"
    and "live (visible_rows db (changes pr)) t = live db t"
    and "live db t \<Longrightarrow> owned (visible_rows db (changes pr)) t"
proof -
  let ?V = "visible_rows db (changes pr)"
  have keys: "x \<in> range (MemberKey t)" if "(x, b, a) \<in> set (changes pr)" for x b a
    using guard_answer[OF assms(1,3)] that by force
  show "s \<noteq> t \<Longrightarrow> same_tenant db ?V s" by (rule same_tenantI[OF assms(2)]) (use keys in fastforce)+
  have "OrgKey t \<notin> fst ` set (changes pr)" using keys by fastforce
  then show "live ?V t = live db t" by (simp add: live_def visible_unchanged)
  assume l: "live db t"
  consider "changes pr = []" | "spared t db (changes pr)" using guard_answer[OF assms(1,3)] l by blast
  then show "owned ?V t"
  proof cases
    case 2
    then consider "\<forall>(x, b, a)\<in>set (changes pr). owner_version b \<longrightarrow> owner_version a"
      | v where "is_owner db t v" "MemberKey t v \<notin> fst ` set (changes pr)"
      unfolding spared_def by blast
    then show ?thesis
    proof cases
      case 1
      obtain u where u: "is_owner db t u" using assms(4)[OF l] by (auto simp: owned_def)
      have "is_owner ?V t u"
      proof (cases "MemberKey t u \<in> fst ` set (changes pr)")
        case True
        obtain b a where c: "(MemberKey t u, b, a) \<in> set (changes pr)" "jm_get ?V (MemberKey t u) = a"
          using visible_changed[OF True, of db] by blast
        have "owner_version b" using u basedD[OF assms(2) c(1)] by (simp add: is_owner_def)
        then show ?thesis using 1 c by (auto simp: is_owner_def)
      next
        case False
        then show ?thesis using u by (simp add: is_owner_def visible_unchanged)
      qed
      then show ?thesis by (auto simp: owned_def)
    next
      case 2
      then have "is_owner ?V t v" by (simp add: is_owner_def visible_unchanged)
      then show ?thesis by (auto simp: owned_def)
    qed
  qed (use assms(4)[OF l] in simp)
qed

lemma ending_effect:
  assumes "ending_P t db log pr" "based db pr" "todo pr = Answer (Inr v)"
  shows "s \<noteq> t \<Longrightarrow> same_tenant db (visible_rows db (changes pr)) s"
    and "\<not> live (visible_rows db (changes pr)) t"
proof -
  show "s \<noteq> t \<Longrightarrow> same_tenant db (visible_rows db (changes pr)) s"
    by (rule same_tenantI[OF assms(2)]) (use assms(1) in \<open>fastforce simp: ending_P_def ending_write_def\<close>)+
  show "\<not> live (visible_rows db (changes pr)) t"
    using assms(1,3) by (auto simp: ending_P_def elim: ending_answerE)
qed

lemma founding_effect:
  assumes "founding t (todo pr) (changes pr)" "based db pr" "todo pr = Answer (Inr v)"
  shows "s \<noteq> t \<Longrightarrow> same_tenant db (visible_rows db (changes pr)) s"
    and "owned (visible_rows db (changes pr)) t"
proof -
  obtain m u g b c slug d where cs: "ms_role m = OWNER" "changes pr =
      [(OrgKey t, b, Some (OrgRow g)), (SlugKey slug, c, Some (SlugRow t)), (MemberKey t u, d, Some (MemberRow m))]"
    using assms(1,3)
    by (auto elim!: founding_answerE simp: CreateOrganizationCommand_def create_persist_def founder_script_def ask_def Let_def)
  show "s \<noteq> t \<Longrightarrow> same_tenant db (visible_rows db (changes pr)) s"
    by (rule same_tenantI[OF assms(2)]) (auto simp: cs(2))
  have "jm_get (visible_rows db (changes pr)) (MemberKey t u) = Some (MemberRow m)"
    by (simp add: cs(2) visible_rows_def jmap_laws)
  then show "owned (visible_rows db (changes pr)) t" using cs(1) by (auto simp: owned_def is_owner_def owner_version_def)
qed


section \<open>Every command keeps the obligations of all\<close>

lemma founding_command: "duty_of c = Founding t \<Longrightarrow> founds t (c, Inr v) \<and> ''org:'' @ t \<in> tn_mints E c"
  by (cases c) (auto simp: guard_of_def split: option.splits)

lemma founds_mints: "founds t x \<Longrightarrow> ''org:'' @ t \<in> tn_mints E (fst x)"
  by (induction t x rule: founds.induct) auto

lemma founder_unknown: "unminted (tn_mints E) log c \<Longrightarrow> duty_of c = Founding t \<Longrightarrow> \<not> tenant_known log t"
  using founding_command[of c t _ E] founds_mints[of t _ E]
  by (fastforce simp: tenant_known_def list_ex_iff unminted_def)

text \<open>The tenant to which a change belongs is known once the transaction has committed.\<close>

lemma changes_known:
  assumes "duty_P E db log pr (duty_of (rc_cmd pr))" "todo pr = Answer (Inr v)" "(x, b, Some r) \<in> set (changes pr)"
    and "x = OrgKey s \<or> (\<exists>u. x = MemberKey s u)"
  shows "tenant_known (log @ [(rc_cmd pr, Inr v)]) s"
proof (cases "duty_of (rc_cmd pr)")
  case Quiet
  then have "gentle_change log x b (Some r)" using assms(1,3) by (auto simp: duty_P_def quiet_P_def)
  then show ?thesis using assms(4) by (auto simp: gentle_change_def known_log)
next
  case (Guarding t)
  then have P: "guard_P E t db log pr" using assms(1) by (simp add: duty_P_def)
  then have "x \<in> range (MemberKey t)" using guard_answer[OF P assms(2)] assms(3) by force
  then have "s = t" using assms(4) by auto
  then show ?thesis using P by (simp add: guard_P_def known_log)
next
  case (Ending t)
  then have P: "ending_P t db log pr" using assms(1) by (simp add: duty_P_def)
  then have "s = t" using assms(3,4) by (auto simp: ending_P_def ending_write_def)
  then show ?thesis using P by (simp add: ending_P_def known_log)
next
  case (Founding t)
  then have "founding t (Answer (Inr v)) (changes pr)" using assms(1,2) by (simp add: duty_P_def)
  then have "s = t" using assms(3,4)
    by (auto elim!: founding_answerE simp: CreateOrganizationCommand_def create_persist_def founder_script_def ask_def Let_def)
  then show ?thesis using founding_command[OF Founding, of v] by (simp add: tenant_known_def)
qed

lemma commit_known:
  assumes "known_rows db log" "duty_P E db log pr (duty_of (rc_cmd pr))" "todo pr = Answer (Inr v)"
  shows "known_rows (visible_rows db (changes pr)) (log @ [(rc_cmd pr, Inr v)])"
proof -
  have "tenant_known (log @ [(rc_cmd pr, Inr v)]) s"
    if x: "x = OrgKey s \<or> (\<exists>u. x = MemberKey s u)" and h: "jm_has (visible_rows db (changes pr)) x" for x s
  proof (cases "x \<in> fst ` set (changes pr)")
    case True
    obtain b a where c: "(x, b, a) \<in> set (changes pr)" "jm_get (visible_rows db (changes pr)) x = a"
      using visible_changed[OF True, of db] by blast
    then obtain r where "a = Some r" using h by (auto simp: jm_has_get)
    then show ?thesis using changes_known[OF assms(2,3) _ x] c(1) by blast
  next
    case False
    then have "jm_has db x" using h by (simp add: jm_has_get visible_unchanged)
    then show ?thesis using assms(1) x known_log unfolding known_rows_def by blast
  qed
  then show ?thesis unfolding known_rows_def by blast
qed

lemma owner_commit_G:
  assumes "jm_ok db" "owner_G E db log" "owner_P E db log pr" "based db pr" "todo pr = Answer (Inr v)"
  shows "owner_G E (visible_rows db (changes pr)) (log @ [(rc_cmd pr, Inr v)])"
proof -
  let ?V = "visible_rows db (changes pr)"
  have G: "rows_G E db log" "\<And>t. live db t \<Longrightarrow> owned db t" "known_rows db log"
    using assms(2) by (auto simp: owner_G_def owned_def)
  have P: "rows_P E db log pr" "duty_P E db log pr (duty_of (rc_cmd pr))"
    using assms(3) by (simp_all add: owner_P_def)
  have same: "owned ?V t" if "live ?V t" "same_tenant db ?V t" for t
    using that G(2) same_owned by (auto simp: same_tenant_def)
  have "owned ?V s" if l: "live ?V s" for s
  proof (cases "duty_of (rc_cmd pr)")
    case Quiet
    then show ?thesis using quiet_effect[OF _ assms(4)] P(2) same[OF l] by (simp add: duty_P_def)
  next
    case (Guarding t)
    then have "guard_P E t db log pr" using P(2) by (simp add: duty_P_def)
    note effect = guard_effect[OF this assms(4,5) G(2)]
    show ?thesis using effect(1)[of s] effect(2,3) same[OF l] l by (cases "s = t") auto
  next
    case (Ending t)
    then have "ending_P t db log pr" using P(2) by (simp add: duty_P_def)
    note effect = ending_effect[OF this assms(4,5)]
    show ?thesis using effect(1)[of s] effect(2) same[OF l] l by (cases "s = t") auto
  next
    case (Founding t)
    then have "founding t (todo pr) (changes pr)" using P(2) by (simp add: duty_P_def)
    note effect = founding_effect[OF this assms(4,5)]
    show ?thesis using effect(1)[of s] effect(2) same[OF l] by (cases "s = t") auto
  qed
  then show ?thesis
    using rows_commit_G[OF assms(1) G(1) P(1) assms(4)] commit_known[OF G(3) P(2) assms(5)]
    by (simp add: owner_G_def owned_def)
qed


lemma commit_tenant:
  assumes "owner_P E db log pr" "based db pr" "unminted (tn_mints E) log (rc_cmd pr)" "todo pr = Answer (Inr v)"
    and "tenant_known log t"
  shows "same_tenant db (visible_rows db (changes pr)) t \<or> \<not> live (visible_rows db (changes pr)) t \<or>
    (owners_key t \<in> set (locks pr) \<and> live (visible_rows db (changes pr)) t = live db t)"
proof -
  let ?V = "visible_rows db (changes pr)"
  have P: "duty_P E db log pr (duty_of (rc_cmd pr))" using assms(1) by (simp add: owner_P_def)
  show ?thesis
  proof (cases "duty_of (rc_cmd pr)")
    case Quiet
    then show ?thesis using quiet_effect[OF _ assms(2)] P by (simp add: duty_P_def)
  next
    case (Guarding s)
    then have g: "guard_P E s db log pr" using P by (simp add: duty_P_def)
    have keys: "x \<in> range (MemberKey s)" if "(x, b, a) \<in> set (changes pr)" for x b a
      using guard_answer[OF g assms(4)] that by force
    have "OrgKey t \<notin> fst ` set (changes pr)" using keys by fastforce
    then have l: "live ?V t = live db t" by (simp add: live_def visible_unchanged)
    show ?thesis
    proof (cases "s = t \<and> changes pr \<noteq> []")
      case True
      then show ?thesis using guard_answer[OF g assms(4)] l by simp
    next
      case False
      then have "same_tenant db ?V t" by (intro same_tenantI[OF assms(2)]) (use keys in fastforce)+
      then show ?thesis by simp
    qed
  next
    case (Ending s)
    then have "ending_P s db log pr" using P by (simp add: duty_P_def)
    note effect = ending_effect[OF this assms(2,4)]
    show ?thesis using effect(1)[of t] effect(2) by (cases "t = s") auto
  next
    case (Founding s)
    then have f: "founding s (todo pr) (changes pr)" using P by (simp add: duty_P_def)
    have "t \<noteq> s" using founder_unknown[OF assms(3) Founding] assms(5) by blast
    then show ?thesis using founding_effect(1)[OF f assms(2,4)] by simp
  qed
qed

text \<open>A row that a command has read keeps its place: a new row has a new id.\<close>

lemma commit_remembers:
  assumes "remembers E db log I" "rows_P E db log pr" "based db pr" "unminted (tn_mints E) log (rc_cmd pr)"
  shows "remembers E (visible_rows db (changes pr)) (log @ [x]) I"
proof -
  have cs: "changes_ok (tn_mints E (rc_cmd pr)) (changes pr)" using assms(2) by (simp add: rows_P_def)
  have "l = k" if h: "(i, k) \<in> I" "member_at (visible_rows db (changes pr)) l m" "ms_id m = i" for i k l m
  proof -
    have "minted_id E log i" using assms(1) h(1) by (auto simp: remembers_def)
    then have "''mem:'' @ ms_id m \<notin> tn_mints E (rc_cmd pr)"
      using assms(4) h(3) by (fastforce simp: minted_id_def unminted_def)
    then obtain n where "member_at db l n" "ms_id n = ms_id m" using visible_id[OF cs assms(3) h(2)] by blast
    then show ?thesis using assms(1) h(1,3) by (fastforce simp: remembers_def located_def)
  qed
  moreover have "minted_id E (log @ [x]) i" if "(i, k) \<in> I" for i k
    using assms(1) that by (fastforce simp: remembers_def minted_id_def)
  ultimately show ?thesis unfolding remembers_def located_def by blast
qed

lemma remembers_log: "remembers E db log I \<Longrightarrow> remembers E db (log @ [x]) I"
  by (fastforce simp: remembers_def minted_id_def)

lemma guard_commit:
  assumes q: "guard_P E t db log q" and pr: "owner_P E db log pr" "based db pr" "unminted (tn_mints E) log (rc_cmd pr)"
    and v: "todo pr = Answer (Inr v)" and ap: "apart (tn_mints E) pr q"
  shows "guard_P E t (visible_rows db (changes pr)) (log @ [(rc_cmd pr, Inr v)]) q"
proof -
  let ?V = "visible_rows db (changes pr)" and ?log = "log @ [(rc_cmd pr, Inr v)]"
  have known: "tenant_known log t" using q by (simp add: guard_P_def)
  have rows: "rows_P E db log pr" using pr(1) by (simp add: owner_P_def)
  note kept = commit_remembers[OF _ rows pr(2,3), of _ "(rc_cmd pr, Inr v)"]
  have same: "live db t \<and> (\<forall>u. is_owner ?V t u = is_owner db t u)" if "owners_key t \<in> set (locks q)" "live ?V t"
    using commit_tenant[OF pr v known] that ap unfolding same_tenant_def apart_def by blast
  consider "changes q = []" "\<exists>s. todo q = Lock (owners_key t) s \<and> (\<forall>strict K. careful t strict K {} s)"
    | "owners_key t \<in> set (locks q)" "changes q = []" "\<exists>K I. remembers E db log I \<and> careful t False K I (todo q)"
      "live db t \<longrightarrow> (\<exists>K I. remembers E db log I \<and> agrees t K db \<and> careful t True K I (todo q))"
    | "owners_key t \<in> set (locks q)" "\<exists>r. todo q = Answer r" "fst ` set (changes q) \<subseteq> range (MemberKey t)"
      "live db t \<longrightarrow> spared t db (changes q)"
    using q unfolding guard_P_def by blast
  then show ?thesis
  proof cases
    case 1
    then show ?thesis using known_log[OF known] by (simp add: guard_P_def)
  next
    case 2
    have "\<exists>K I. remembers E ?V ?log I \<and> careful t False K I (todo q)" using 2(3) kept by blast
    moreover have "\<exists>K I. remembers E ?V ?log I \<and> agrees t K ?V \<and> careful t True K I (todo q)" if l: "live ?V t"
    proof -
      obtain K I where "remembers E db log I" "agrees t K db" "careful t True K I (todo q)"
        using 2(4) same[OF 2(1) l] by blast
      moreover from this(2) have "agrees t K ?V" using same[OF 2(1) l] by (simp add: agrees_def)
      ultimately show ?thesis using kept by blast
    qed
    ultimately show ?thesis using 2(1,2) known_log[OF known] unfolding guard_P_def by blast
  next
    case 3
    have "spared t ?V (changes q)" if l: "live ?V t"
      using 3(4) same[OF 3(1) l] by (auto simp: spared_def)
    then show ?thesis using 3(1-3) known_log[OF known] unfolding guard_P_def by blast
  qed
qed

lemma ending_commit:
  assumes q: "ending_P t db log q" and pr: "owner_P E db log pr" "based db pr" "unminted (tn_mints E) log (rc_cmd pr)"
    and v: "todo pr = Answer (Inr v)"
  shows "ending_P t (visible_rows db (changes pr)) (log @ [(rc_cmd pr, Inr v)]) q"
proof -
  let ?V = "visible_rows db (changes pr)"
  have known: "tenant_known log t" using q by (simp add: ending_P_def)
  have "\<not> live (visible_rows ?V (changes q)) t" if dead: "\<not> live (visible_rows db (changes q)) t"
  proof (cases "OrgKey t \<in> fst ` set (changes q)")
    case True
    then show ?thesis using dead visible_same[OF True, of ?V db] by (simp add: live_def)
  next
    case False
    then have "\<not> live db t" using dead by (simp add: live_def visible_unchanged)
    then have "\<not> live ?V t" using commit_tenant[OF pr v known] unfolding same_tenant_def by blast
    then show ?thesis using False by (simp add: live_def visible_unchanged)
  qed
  then show ?thesis using q known_log[OF known] unfolding ending_P_def by blast
qed

lemma quiet_log: "quiet_P log q \<Longrightarrow> quiet_P (log @ [x]) q"
  by (fastforce simp: quiet_P_def gentle_change_def known_log)

lemma owner_commit_P:
  assumes "jm_ok db" "owner_G E db log" "owner_P E db log pr" "owner_P E db log q" "based db pr" "based db q"
    and "apart (tn_mints E) pr q" "unminted (tn_mints E) log (rc_cmd pr)" "unminted (tn_mints E) log (rc_cmd q)"
    and "todo pr = Answer (Inr v)"
  shows "owner_P E (visible_rows db (changes pr)) (log @ [(rc_cmd pr, Inr v)]) q"
proof -
  have Q: "rows_P E db log q" "duty_P E db log q (duty_of (rc_cmd q))" using assms(4) by (simp_all add: owner_P_def)
  have "rows_G E db log" "rows_P E db log pr" using assms(2,3) by (simp_all add: owner_G_def owner_P_def)
  note rows = rows_commit_P[OF assms(1) this Q(1) assms(5,7,9)]
  have "duty_P E (visible_rows db (changes pr)) (log @ [(rc_cmd pr, Inr v)]) q (duty_of (rc_cmd q))"
    using Q(2) quiet_log guard_commit[OF _ assms(3,5,8,10,7)] ending_commit[OF _ assms(3,5,8,10)]
    by (auto simp: duty_P_def split: tn_duty.splits)
  then show ?thesis using rows by (simp add: owner_P_def)
qed

lemma owner_ask:
  assumes "jm_ok db" "owner_G E db log" "owner_P E db log pr" "based db pr" "unminted (tn_mints E) log (rc_cmd pr)"
    and "todo pr = Ask f" "f now (visible_rows db (changes pr)) = Some (ws, k)"
  shows "owner_P E db log (asked db ws k pr)"
proof -
  have G: "rows_G E db log" "known_rows db log" using assms(2) by (simp_all add: owner_G_def)
  have P: "rows_P E db log pr" "duty_P E db log pr (duty_of (rc_cmd pr))" using assms(3) by (simp_all add: owner_P_def)
  have "minted_members E db log" using G(1) by (simp add: rows_G_def)
  from duty_ask[OF P(2) assms(4) G(2) committed_tables[OF assms(1) G(1)] this visible_tables[OF assms(1) G(1) P(1) assms(4)] assms(6,7)]
  show ?thesis using rows_ask[OF assms(1) G(1) P(1) assms(4,6,7)] by (simp add: owner_P_def)
qed

lemma owner_enter: "owner_G E db log \<Longrightarrow> owners_allowed log c \<Longrightarrow> unminted (tn_mints E) log c \<Longrightarrow>
    owner_P E db log (entered (tn_code E) c)"
  using rows_enter[of E db log c] entered_duty[of log c E db] by (simp add: owner_P_def owner_G_def)

lemma owner_lock: "owner_P E db log pr \<Longrightarrow> todo pr = Lock key k \<Longrightarrow> owner_P E db log (locked_by key k pr)"
  using rows_lock locked_duty by (auto simp: owner_P_def)

lemma owner_G_log: "owner_G E db log \<Longrightarrow> owner_G E db (log @ [x])"
  by (simp add: owner_G_def rows_G_log known_rows_def known_log)

lemma guard_log: "guard_P E t db log q \<Longrightarrow> guard_P E t db (log @ [x]) q"
  unfolding guard_P_def using known_log remembers_log by metis

lemma owner_P_log: "owner_P E db log q \<Longrightarrow> owner_P E db (log @ [x]) q"
  by (auto simp: owner_P_def duty_P_def rows_P_log quiet_log guard_log ending_P_def known_log split: tn_duty.splits)

lemma owner_start: "owner_G E [] []"
  by (simp add: owner_G_def rows_G_start live_def live_version_def known_rows_def jm_has_def)

interpretation owners: tx_client "tn_code E" TENANCY_OPERATION_FAILED "tn_mints E" owners_allowed "owner_G E" "owner_P E"
  for E
  by unfold_locales
    (rule owner_start, rule owner_enter, assumption+, rule owner_lock, assumption+, rule owner_ask, assumption+,
     rule owner_commit_G, assumption+, rule owner_commit_P, assumption+, rule owner_G_log, assumption,
     rule owner_P_log, assumption)

lemma owner_of_live:
  "rc_reach (tn_code E) TENANCY_OPERATION_FAILED (tn_mints E) owners_allowed s \<Longrightarrow> live (committed s) t \<Longrightarrow>
     \<exists>u. is_owner (committed s) t u"
  using owners.reach_global[of E s] by (auto simp: owner_G_def)

end
