(* ===== verification/TenancyInvitations.thy ===== *)
theory TenancyInvitations
  imports TenancyRows
begin

text \<open>
  Invitations: every stored invitation was issued by a successful invite command, every
  acceptance is backed by one, and a token is accepted once. The acceptance holds the row of
  its invitation from the statement that marks it until the commit, so a second one finds it
  settled. The theory interprets \<open>tx_client\<close> for this argument.
\<close>

section \<open>Invitations and the commands that issued them\<close>

definition on_record :: "tn_env \<Rightarrow> tn_log \<Rightarrow> invitation \<Rightarrow> bool" where
  "on_record E log i \<longleftrightarrow> (\<exists>c v. (c, Inr v) \<in> set log \<and> issued E c i)"

text \<open>\<open>b\<close> before, \<open>a\<close> after: the same invitation, and nothing becomes pending again.\<close>

definition tame :: "tn_row option \<Rightarrow> tn_row option \<Rightarrow> bool" where
  "tame b a \<longleftrightarrow> (\<forall>i. a = Some (InviteRow i) \<longrightarrow>
     (\<exists>j. b = Some (InviteRow j) \<and> same_invite i j \<and> (iv_status i = Pending \<longrightarrow> iv_status j = Pending)))"

definition tame_or_issued :: "tn_env \<Rightarrow> tn_command \<Rightarrow> tn_row option \<Rightarrow> tn_row option \<Rightarrow> bool" where
  "tame_or_issued E c b a \<longleftrightarrow> tame b a \<or> (\<exists>i. a = Some (InviteRow i) \<and> issued E c i)"

definition invite_ws :: "tn_env \<Rightarrow> tn_command \<Rightarrow> tn_db \<Rightarrow> (tn_key \<times> tn_row option) list \<Rightarrow> bool" where
  "invite_ws E c db ws \<longleftrightarrow> (\<forall>(x, a)\<in>set ws. tame_or_issued E c (jm_get db x) a)"

lemma same_invite_trans: "same_invite i j \<Longrightarrow> same_invite j k \<Longrightarrow> same_invite i k"
  by (simp add: same_invite_def)

lemma same_invite_issued: "same_invite i j \<Longrightarrow> issued E c j \<Longrightarrow> issued E c i"
  by (cases c) (auto simp: same_invite_def)

lemma tame_refl [simp]: "tame a a"
  by (simp add: tame_def same_invite_def)

lemma tame_step: "tame_or_issued E c b a \<Longrightarrow> tame_or_issued E c a a' \<Longrightarrow> tame_or_issued E c b a'"
proof -
  assume b: "tame_or_issued E c b a" and a: "tame_or_issued E c a a'"
  show "tame_or_issued E c b a'"
  proof (cases "tame a a'")
    case True
    show ?thesis
    proof (cases "tame b a")
      case True
      then have "tame b a'" using \<open>tame a a'\<close> same_invite_trans unfolding tame_def by metis
      then show ?thesis by (simp add: tame_or_issued_def)
    next
      case False
      then obtain i where "a = Some (InviteRow i)" "issued E c i" using b by (auto simp: tame_or_issued_def)
      then show ?thesis using True same_invite_issued by (auto simp: tame_or_issued_def tame_def)
    qed
  next
    case False
    then show ?thesis using a by (simp add: tame_or_issued_def)
  qed
qed

lemma on_record_log: "on_record E log i \<Longrightarrow> on_record E (log @ xs) i"
  by (auto simp: on_record_def)

lemma on_record_same: "same_invite i j \<Longrightarrow> on_record E log j \<Longrightarrow> on_record E log i"
  unfolding on_record_def using same_invite_issued by blast

lemma issued_mints: "issued E c i \<Longrightarrow> {''inv:'' @ iv_id i, ''tok:'' @ iv_tokenHash i} \<subseteq> tn_mints E c"
  by (cases c) auto

section \<open>What each command writes to invitations\<close>

lemma invite_ws_Nil [simp]: "invite_ws E c db []"
  by (simp add: invite_ws_def)

lemma no_invites: "(\<And>x a. (x, a) \<in> set ws \<Longrightarrow> \<forall>i. a \<noteq> Some (InviteRow i)) \<Longrightarrow> invite_ws E c db ws"
  unfolding invite_ws_def tame_or_issued_def tame_def by fast

lemma ws_update_members: "tables_ok db \<Longrightarrow> update_members p f now db = Some (ws, v) \<Longrightarrow> invite_ws E c db ws"
  by (rule no_invites) (auto simp: update_members_def Let_def)

lemma ws_delete_members: "delete_members p now db = Some (ws, v) \<Longrightarrow> invite_ws E c db ws"
  by (rule no_invites) (auto simp: delete_members_def Let_def)

lemma ws_delete_invites: "delete_invites p now db = Some (ws, v) \<Longrightarrow> invite_ws E c db ws"
  by (rule no_invites) (auto simp: delete_invites_def Let_def)

lemma ws_create_member: "memberships_create mid t u e n r now db = Some (ws, v) \<Longrightarrow> invite_ws E c db ws"
  by (rule no_invites) (auto simp: memberships_create_def Let_def split: if_splits)

lemma ws_create_org: "organizations_create oid name slug u now db = Some (ws, v) \<Longrightarrow> invite_ws E c db ws"
  by (rule no_invites) (auto simp: organizations_create_def Let_def split: if_splits)

lemma ws_soft_delete: "organizations_softDelete t now db = Some (ws, v) \<Longrightarrow> invite_ws E c db ws"
  by (rule no_invites) (auto simp: organizations_softDelete_def Let_def)

lemma ws_hard_delete: "organizations_delete t now db = Some (ws, v) \<Longrightarrow> invite_ws E c db ws"
  by (rule no_invites) (auto simp: organizations_delete_def Let_def split: if_splits)

lemmas ws_statements = ws_update_members ws_delete_members ws_delete_invites ws_create_member ws_create_org
  ws_soft_delete ws_hard_delete

lemma ws_update_invites:
  assumes "tables_ok db" "update_invites p f now db = Some (ws, v)"
    and "\<And>n i. same_invite (f n i) i" "\<And>n i. iv_status (f n i) \<noteq> Pending"
  shows "invite_ws E c db ws"
proof -
  have id: "iv_id (f n i) = iv_id i" for n i using assms(3) by (simp add: same_invite_def)
  have "tame_or_issued E c (jm_get db x) a" if "(x, a) \<in> set ws" for x a
    using update_invites_row[OF assms(1,2) that id] assms(3,4)
    by (auto simp: tame_or_issued_def tame_def same_invite_def)
  then show ?thesis unfolding invite_ws_def by blast
qed

lemma ws_create_invite:
  assumes "invitations_create iid t e role h u now db = Some (ws, v)" "issued E c v"
  shows "invite_ws E c db ws"
  using assms by (auto simp: invitations_create_def Let_def invite_ws_def tame_or_issued_def split: if_splits)

lemma code_ws: "only_writes tables_ok (invite_ws E c) (tn_code E c)"
  by (rule code_writes) (auto intro: ws_statements ws_update_invites ws_create_invite no_invites)


section \<open>An acceptance, statement by statement\<close>

definition fits_invite :: "tn_env \<Rightarrow> string \<Rightarrow> tn_actor \<Rightarrow> invitation \<Rightarrow> bool" where
  "fits_invite E token actor i \<longleftrightarrow> iv_tokenHash i = te_sha256 E token \<and> iv_email i = to_lower (ac_email actor)"

definition admits :: "tn_actor \<Rightarrow> invitation \<Rightarrow> membership \<Rightarrow> bool" where
  "admits actor i m \<longleftrightarrow> ms_tenantId m = iv_tenantId i \<and> ms_userId m = ac_sub actor \<and> ms_role m = granted_role (iv_role i)"

definition mark_script :: "invitation \<Rightarrow> tn_actor \<Rightarrow> membership \<Rightarrow> tn_script" where
  "mark_script i actor m = ask (markAccepted (iv_id i) (ac_sub actor)) (\<lambda>accepted.
     if accepted = [] then refuse INVITATION_INVALID else Answer (Inr (Joined m)))"

definition join_script :: "invitation \<Rightarrow> tn_actor \<Rightarrow> string \<Rightarrow> tn_script" where
  "join_script i actor mid = ask (memberships_create mid (iv_tenantId i) (ac_sub actor) (to_lower (ac_email actor))
     (display_name actor) (granted_role (iv_role i))) (mark_script i actor)"

definition check_script :: "invitation \<Rightarrow> tn_actor \<Rightarrow> string \<Rightarrow> tn_script" where
  "check_script i actor mid = ask (findMembership (iv_tenantId i) (ac_sub actor)) (\<lambda>existing.
     if existing \<noteq> None then refuse MEMBERSHIP_ALREADY_EXISTS else join_script i actor mid)"

lemma AcceptInvitation_steps:
  "AcceptInvitationCommand E token actor mid =
     ask (findByTokenHash (te_sha256 E token)) (\<lambda>found. case found of None \<Rightarrow> refuse INVITATION_INVALID
       | Some i \<Rightarrow> if iv_email i \<noteq> to_lower (ac_email actor) then refuse INVITATION_EMAIL_MISMATCH
                   else check_script i actor mid)"
  unfolding AcceptInvitationCommand_def check_script_def join_script_def mark_script_def[abs_def] by (rule refl)

text \<open>The acceptance has marked the invitation \<open>j\<close>, pending until then, and nothing else.\<close>

definition marked :: "invitation \<Rightarrow> (tn_key, tn_row) change list \<Rightarrow> bool" where
  "marked j cs \<longleftrightarrow> iv_status j = Pending \<and> (\<exists>a. (InviteKey (iv_id j), Some (InviteRow j), a) \<in> set cs) \<and>
     (\<forall>x b i. (x, b, Some (InviteRow i)) \<in> set cs \<longrightarrow> iv_status i \<noteq> Pending)"

inductive accepting :: "tn_env \<Rightarrow> tn_log \<Rightarrow> string \<Rightarrow> tn_actor \<Rightarrow> tn_script \<Rightarrow> (tn_key, tn_row) change list \<Rightarrow> bool"
  for E log token actor where
  begins: "accepting E log token actor (AcceptInvitationCommand E token actor mid) []"
| checks: "on_record E log i \<Longrightarrow> fits_invite E token actor i \<Longrightarrow> accepting E log token actor (check_script i actor mid) []"
| joins: "on_record E log i \<Longrightarrow> fits_invite E token actor i \<Longrightarrow> accepting E log token actor (join_script i actor mid) []"
| marks: "on_record E log i \<Longrightarrow> fits_invite E token actor i \<Longrightarrow> admits actor i m \<Longrightarrow>
    accepting E log token actor (mark_script i actor m) [(MemberKey t u, b, Some (MemberRow n))]"
| refused: "accepting E log token actor (Answer (Inl e)) cs"
| accepted: "on_record E log j \<Longrightarrow> fits_invite E token actor j \<Longrightarrow> admits actor j m \<Longrightarrow> marked j cs \<Longrightarrow>
    accepting E log token actor (Answer (Inr (Joined m))) cs"

inductive_cases accepting_doneE: "accepting E log token actor (Answer (Inr v)) cs"

lemma accepting_log: "accepting E log token actor s cs \<Longrightarrow> accepting E (log @ xs) token actor s cs"
  by (induction rule: accepting.induct) (auto intro: accepting.intros on_record_log)

lemmas acceptance_scripts = AcceptInvitation_steps check_script_def join_script_def mark_script_def

lemma accepting_lock: "\<not> accepting E log token actor (Lock key k) cs"
  by (auto elim: accepting.cases simp: acceptance_scripts ask_def)

lemma accepting_done:
  assumes "accepting E log token actor (Answer (Inr v)) cs"
  shows "\<exists>j m. v = Joined m \<and> on_record E log j \<and> fits_invite E token actor j \<and> admits actor j m \<and> marked j cs"
  using assms by (auto elim!: accepting_doneE simp: acceptance_scripts ask_def)

section \<open>The invariant\<close>

text \<open>Acceptances of a token hash in the log.\<close>

fun accepts :: "tn_env \<Rightarrow> string \<Rightarrow> tn_command \<times> tn_result \<Rightarrow> bool" where
  "accepts E h (AcceptInvitation token actor mid, Inr v) \<longleftrightarrow> te_sha256 E token = h"
| "accepts E h _ \<longleftrightarrow> False"

fun backed :: "tn_env \<Rightarrow> tn_log \<Rightarrow> tn_command \<times> tn_result \<Rightarrow> bool" where
  "backed E log (AcceptInvitation token actor mid, Inr v) \<longleftrightarrow>
     (\<exists>i m. v = Joined m \<and> on_record E log i \<and> fits_invite E token actor i \<and> admits actor i m)"
| "backed E log _ \<longleftrightarrow> True"

definition invites_recorded :: "tn_env \<Rightarrow> tn_db \<Rightarrow> tn_log \<Rightarrow> bool" where
  "invites_recorded E db log \<longleftrightarrow> (\<forall>x i. jm_get db x = Some (InviteRow i) \<longrightarrow> on_record E log i)"

definition log_apart :: "tn_env \<Rightarrow> tn_log \<Rightarrow> bool" where
  "log_apart E log \<longleftrightarrow> (\<forall>c v d w. (c, Inr v) \<in> set log \<longrightarrow> (d, Inr w) \<in> set log \<longrightarrow> c \<noteq> d \<longrightarrow>
     tn_mints E c \<inter> tn_mints E d = {})"

definition spent :: "tn_env \<Rightarrow> tn_db \<Rightarrow> string \<Rightarrow> bool" where
  "spent E db h \<longleftrightarrow> (\<forall>x i. jm_get db x = Some (InviteRow i) \<longrightarrow> iv_tokenHash i = h \<longrightarrow> iv_status i \<noteq> Pending)"

definition accepted_count :: "tn_env \<Rightarrow> string \<Rightarrow> tn_log \<Rightarrow> nat" where
  "accepted_count E h log = length (filter (accepts E h) log)"

definition once :: "tn_env \<Rightarrow> tn_db \<Rightarrow> tn_log \<Rightarrow> bool" where
  "once E db log \<longleftrightarrow> (\<forall>h. accepted_count E h log = 0 \<or> (accepted_count E h log = 1 \<and> spent E db h))"

definition invite_G :: "tn_env \<Rightarrow> tn_db \<Rightarrow> tn_log \<Rightarrow> bool" where
  "invite_G E db log \<longleftrightarrow> rows_G E db log \<and> invites_recorded E db log \<and> log_apart E log \<and>
     (\<forall>x\<in>set log. backed E log x) \<and> once E db log"

definition invite_P :: "tn_env \<Rightarrow> tn_db \<Rightarrow> tn_log \<Rightarrow> tn_proc \<Rightarrow> bool" where
  "invite_P E db log pr \<longleftrightarrow> rows_P E db log pr \<and>
     only_writes tables_ok (invite_ws E (rc_cmd pr)) (todo pr) \<and>
     (\<forall>(x, b, a)\<in>set (changes pr). tame_or_issued E (rc_cmd pr) b a) \<and>
     (\<forall>token actor mid. rc_cmd pr = AcceptInvitation token actor mid \<longrightarrow> accepting E log token actor (todo pr) (changes pr))"

lemma backed_log: "backed E log x \<Longrightarrow> backed E (log @ xs) x"
  by (induction E log x rule: backed.induct) (auto intro: on_record_log)

text \<open>One command draws both the id of an invitation and its token.\<close>

lemma record_unique:
  assumes "log_apart E log" "on_record E log i" "on_record E log j"
    and "iv_id i = iv_id j \<or> iv_tokenHash i = iv_tokenHash j"
  shows "same_invite i j"
proof -
  obtain c v d w where c: "(c, Inr v) \<in> set log" "issued E c i" and d: "(d, Inr w) \<in> set log" "issued E d j"
    using assms(2,3) by (auto simp: on_record_def)
  have "tn_mints E c \<inter> tn_mints E d \<noteq> {}" using issued_mints[OF c(2)] issued_mints[OF d(2)] assms(4) by auto
  then have "c = d" using assms(1) c(1) d(1) unfolding log_apart_def by blast
  then show ?thesis using c(2) d(2) by (cases c) (auto simp: same_invite_def)
qed


lemma invite_visible:
  assumes "invites_recorded E db log" "based db pr" "\<forall>(x, b, a)\<in>set (changes pr). tame_or_issued E (rc_cmd pr) b a"
    and "jm_get (visible_rows db (changes pr)) x = Some (InviteRow i)"
  shows "tame (jm_get db x) (Some (InviteRow i)) \<or> issued E (rc_cmd pr) i"
proof (cases "x \<in> fst ` set (changes pr)")
  case True
  obtain b a where c: "(x, b, a) \<in> set (changes pr)" "jm_get (visible_rows db (changes pr)) x = a"
    using visible_changed[OF True, of db] by blast
  then have "tame_or_issued E (rc_cmd pr) b (Some (InviteRow i))" using assms(3,4) by auto
  then show ?thesis using basedD[OF assms(2) c(1)] by (auto simp: tame_or_issued_def)
next
  case False
  then show ?thesis using assms(4) by (simp add: visible_unchanged)
qed

lemma asked_tame:
  assumes "\<forall>(x, b, a)\<in>set (changes pr). tame_or_issued E (rc_cmd pr) b a" "based db pr"
    and "invite_ws E (rc_cmd pr) (visible_rows db (changes pr)) ws"
  shows "\<forall>(x, b, a)\<in>set (changes (asked db ws k pr)). tame_or_issued E (rc_cmd pr) b a"
proof -
  have "tame_or_issued E (rc_cmd pr) (jm_get db x) a" if w: "(x, a) \<in> set ws" for x a
  proof -
    have new: "tame_or_issued E (rc_cmd pr) (jm_get (visible_rows db (changes pr)) x) a"
      using assms(3) w by (auto simp: invite_ws_def)
    show ?thesis
    proof (cases "x \<in> fst ` set (changes pr)")
      case True
      obtain b a' where c: "(x, b, a') \<in> set (changes pr)" "jm_get (visible_rows db (changes pr)) x = a'"
        using visible_changed[OF True, of db] by blast
      then have "tame_or_issued E (rc_cmd pr) b a'" using assms(1) by auto
      then show ?thesis using tame_step new c(2) basedD[OF assms(2) c(1)] by blast
    next
      case False
      then show ?thesis using new by (simp add: visible_unchanged)
    qed
  qed
  then show ?thesis using assms(1) by (auto simp: asked_def)
qed

text \<open>The row found by a token, and the row marked by the id of the one found.\<close>

lemma find_token:
  assumes "tables_ok db" "findByTokenHash h now db = Some (ws, Some i)"
  shows "jm_get db (InviteKey (iv_id i)) = Some (InviteRow i) \<and> iv_tokenHash i = h \<and> ws = []"
  using assms first_row_Some[of _ i] by (fastforce simp: findByTokenHash_def reading_Some invites_at[OF assms(1)])

lemma mark_row:
  assumes "tables_ok db" "markAccepted iid u now db = Some (ws, v)"
  shows "(x, a) \<in> set ws \<Longrightarrow> \<exists>j j'. jm_get db x = Some (InviteRow j) \<and> x = InviteKey (iv_id j) \<and> iv_id j = iid \<and>
      iv_status j = Pending \<and> a = Some (InviteRow j') \<and> iv_status j' = Accepted"
    and "v \<noteq> [] \<Longrightarrow> ws \<noteq> []"
proof -
  show "(x, a) \<in> set ws \<Longrightarrow> \<exists>j j'. jm_get db x = Some (InviteRow j) \<and> x = InviteKey (iv_id j) \<and> iv_id j = iid \<and>
      iv_status j = Pending \<and> a = Some (InviteRow j') \<and> iv_status j' = Accepted"
    using update_invites_row[OF assms(1) assms(2)[unfolded markAccepted_def]] by fastforce
  show "v \<noteq> [] \<Longrightarrow> ws \<noteq> []"
    using assms(2) by (auto simp: markAccepted_def update_invites_def Let_def)
qed

lemma accepting_ask:
  assumes acc: "accepting E log token actor (todo pr) (changes pr)" and G: "invites_recorded E db log" "log_apart E log"
    and b: "based db pr" and V: "tables_ok (visible_rows db (changes pr))"
    and f: "todo pr = Ask f" "f now (visible_rows db (changes pr)) = Some (ws, k)"
  shows "accepting E log token actor k (changes (asked db ws k pr))"
  using acc
proof cases
  case (begins mid)
  obtain found where q: "findByTokenHash (te_sha256 E token) now db = Some (ws, found)"
    and k: "k = (case found of None \<Rightarrow> refuse INVITATION_INVALID
       | Some i \<Rightarrow> if iv_email i \<noteq> to_lower (ac_email actor) then refuse INVITATION_EMAIL_MISMATCH
                   else check_script i actor mid)"
    using begins f by (auto simp: AcceptInvitation_steps ask_def)
  have none: "changes (asked db ws k pr) = []" using q begins by (simp add: asked_def findByTokenHash_def reading_Some)
  show ?thesis
  proof (cases found)
    case (Some i)
    have i: "jm_get db (InviteKey (iv_id i)) = Some (InviteRow i)" "iv_tokenHash i = te_sha256 E token"
      using find_token[of db _ now ws i] q Some V begins by auto
    then have "on_record E log i" using G(1) by (auto simp: invites_recorded_def)
    then show ?thesis using Some k none i(2) accepting.checks[of E log i token actor mid]
      by (auto simp: fits_invite_def intro: accepting.refused)
  qed (use k in \<open>simp add: accepting.refused\<close>)
next
  case (checks i mid)
  then have "ws = [] \<and> (k = refuse MEMBERSHIP_ALREADY_EXISTS \<or> k = join_script i actor mid)"
    using f by (auto simp: check_script_def ask_def findMembership_def reading_Some split: if_splits)
  then show ?thesis using checks by (auto simp: asked_def intro: accepting.intros)
next
  case (joins i mid)
  then obtain m where m: "memberships_create mid (iv_tenantId i) (ac_sub actor) (to_lower (ac_email actor))
     (display_name actor) (granted_role (iv_role i)) now db = Some (ws, m)" and k: "k = mark_script i actor m"
    using f by (auto simp: join_script_def ask_def)
  have "ws = [(MemberKey (iv_tenantId i) (ac_sub actor), Some (MemberRow m))]" "admits actor i m"
    using m by (auto simp: memberships_create_def Let_def admits_def split: if_splits)
  then show ?thesis using joins k by (auto simp: asked_def intro: accepting.marks)
next
  case (marks i m t u c n)
  then obtain v where q: "markAccepted (iv_id i) (ac_sub actor) now (visible_rows db (changes pr)) = Some (ws, v)"
    and k: "k = (if v = [] then refuse INVITATION_INVALID else Answer (Inr (Joined m)))"
    using f by (auto simp: mark_script_def ask_def)
  show ?thesis
  proof (cases "v = []")
    case False
    obtain x a where w: "(x, a) \<in> set ws" using mark_row(2)[OF V q False] by (cases ws) auto
    then obtain j where j: "jm_get (visible_rows db (changes pr)) x = Some (InviteRow j)" "x = InviteKey (iv_id j)"
      "iv_id j = iv_id i" "iv_status j = Pending" using mark_row(1)[OF V q w] by blast
    have "jm_get db x = Some (InviteRow j)" using j(1,2) marks by (simp add: visible_unchanged)
    then have "(InviteKey (iv_id j), Some (InviteRow j), a) \<in> set (changes (asked db ws k pr))"
      using w j(2) by (force simp: asked_def)
    moreover have rec: "on_record E log j" using G(1) \<open>jm_get db x = _\<close> by (auto simp: invites_recorded_def)
    moreover have "iv_status i' \<noteq> Pending" if "(y, d, Some (InviteRow i')) \<in> set (changes (asked db ws k pr))" for y d i'
      using that marks(2) mark_row(1)[OF V q, of y "Some (InviteRow i')"] by (auto simp: asked_def)
    ultimately have "marked j (changes (asked db ws k pr))" using j(4) unfolding marked_def by blast
    moreover have "same_invite j i" using record_unique[OF G(2) rec marks(3)] j(3) by blast
    then have "fits_invite E token actor j" "admits actor j m"
      using marks(4,5) by (auto simp: same_invite_def fits_invite_def admits_def)
    ultimately show ?thesis using k False rec by (auto intro: accepting.accepted)
  qed (use k in \<open>simp add: accepting.refused\<close>)
qed (use f in simp_all)


section \<open>Every command keeps the invariant\<close>

lemma accepted_unminted:
  assumes "\<forall>x\<in>set log. backed E log x" "accepted_count E h log \<noteq> 0" "unminted (tn_mints E) log c"
  shows "''tok:'' @ h \<notin> tn_mints E c"
proof -
  obtain x where x: "x \<in> set log" "accepts E h x"
    using assms(2) by (auto simp: accepted_count_def filter_empty_conv)
  then have "backed E log x" using assms(1) by blast
  moreover obtain token actor mid v where "x = (AcceptInvitation token actor mid, Inr v)" "te_sha256 E token = h"
    using x(2) by (cases "(E, h, x)" rule: accepts.cases) auto
  ultimately obtain i where "on_record E log i" "iv_tokenHash i = h" by (auto simp: fits_invite_def)
  then obtain d w where "(d, Inr w) \<in> set log" "''tok:'' @ h \<in> tn_mints E d"
    using issued_mints unfolding on_record_def by blast
  then show ?thesis using assms(3) unfolding unminted_def by fastforce
qed

lemma once_commit:
  assumes G: "invite_G E db log" and P: "invite_P E db log pr" and b: "based db pr"
    and un: "unminted (tn_mints E) log (rc_cmd pr)" and v: "todo pr = Answer (Inr v)" and db: "jm_ok db"
  shows "once E (visible_rows db (changes pr)) (log @ [(rc_cmd pr, Inr v)])"
  unfolding once_def
proof
  fix h
  let ?V = "visible_rows db (changes pr)" and ?log = "log @ [(rc_cmd pr, Inr v)]"
  have rec: "invites_recorded E db log" "log_apart E log" "\<forall>x\<in>set log. backed E log x" "tables_ok db"
    using G committed_tables[OF db] by (auto simp: invite_G_def)
  have tame: "\<forall>(x, b, a)\<in>set (changes pr). tame_or_issued E (rc_cmd pr) b a" using P by (simp add: invite_P_def)
  have now: "accepted_count E h log = 0 \<or> (accepted_count E h log = 1 \<and> spent E db h)"
    using G by (simp add: invite_G_def once_def)
  show "accepted_count E h ?log = 0 \<or> (accepted_count E h ?log = 1 \<and> spent E ?V h)"
  proof (cases "accepts E h (rc_cmd pr, Inr v)")
    case False
    have "spent E ?V h" if one: "accepted_count E h log = 1" "spent E db h"
      unfolding spent_def
    proof (intro allI impI)
      fix x i assume i: "jm_get ?V x = Some (InviteRow i)" "iv_tokenHash i = h"
      have "\<not> issued E (rc_cmd pr) i"
        using accepted_unminted[OF rec(3) _ un, of h] one(1) issued_mints[of E "rc_cmd pr" i] i(2) by fastforce
      then have "tame (jm_get db x) (Some (InviteRow i))" using invite_visible[OF rec(1) b tame i(1)] by blast
      then obtain k where "jm_get db x = Some (InviteRow k)" "iv_tokenHash k = h" "iv_status i = Pending \<longrightarrow> iv_status k = Pending"
        using i(2) by (auto simp: tame_def same_invite_def)
      then show "iv_status i \<noteq> Pending" using one(2) unfolding spent_def by blast
    qed
    then show ?thesis using False now by (auto simp: accepted_count_def)
  next
    case True
    then obtain token actor mid where c: "rc_cmd pr = AcceptInvitation token actor mid" and h: "te_sha256 E token = h"
      by (cases "(E, h, (rc_cmd pr, Inr v :: tn_result))" rule: accepts.cases) auto
    then have "accepting E log token actor (Answer (Inr v)) (changes pr)" using P v by (simp add: invite_P_def)
    from accepting_done[OF this] obtain j where j: "on_record E log j" "fits_invite E token actor j" "marked j (changes pr)"
      by blast
    have jh: "iv_tokenHash j = h" using j(2) h by (simp add: fits_invite_def)
    obtain a where a: "(InviteKey (iv_id j), Some (InviteRow j), a) \<in> set (changes pr)" "iv_status j = Pending"
      using j(3) by (auto simp: marked_def)
    have "\<not> spent E db h" using basedD[OF b a(1)] a(2) jh unfolding spent_def by blast
    then have none: "accepted_count E h log = 0" using now by blast
    have "spent E ?V h"
      unfolding spent_def
    proof (intro allI impI)
      fix x i assume i: "jm_get ?V x = Some (InviteRow i)" "iv_tokenHash i = h"
      show "iv_status i \<noteq> Pending"
      proof (cases "x \<in> fst ` set (changes pr)")
        case True
        obtain d where "(x, d, Some (InviteRow i)) \<in> set (changes pr)"
          using visible_changed[OF True, of db] i(1) by auto
        then show ?thesis using j(3) by (auto simp: marked_def)
      next
        case False
        then have at: "jm_get db x = Some (InviteRow i)" using i(1) by (simp add: visible_unchanged)
        then have "on_record E log i" using rec(1) by (auto simp: invites_recorded_def)
        then have "same_invite i j" by (rule record_unique[OF rec(2) _ j(1)]) (simp add: i(2) jh)
        then have "iv_id i = iv_id j" by (simp add: same_invite_def)
        then have "x = InviteKey (iv_id j)" using tables_fit[OF rec(4) at] by (simp add: fits_InviteRow)
        then have "x \<in> fst ` set (changes pr)" using image_eqI[OF _ a(1), of x fst] by simp
        then show ?thesis using False by contradiction
      qed
    qed
    then show ?thesis using none True by (simp add: accepted_count_def)
  qed
qed

lemma invite_commit_G:
  assumes "jm_ok db" "invite_G E db log" "invite_P E db log pr" "based db pr" "unminted (tn_mints E) log (rc_cmd pr)"
    and "todo pr = Answer (Inr v)"
  shows "invite_G E (visible_rows db (changes pr)) (log @ [(rc_cmd pr, Inr v)])"
proof -
  let ?V = "visible_rows db (changes pr)" and ?log = "log @ [(rc_cmd pr, Inr v)]"
  have G: "rows_G E db log" "invites_recorded E db log" "log_apart E log" "\<forall>x\<in>set log. backed E log x"
    using assms(2) by (simp_all add: invite_G_def)
  have P: "rows_P E db log pr" "\<forall>(x, b, a)\<in>set (changes pr). tame_or_issued E (rc_cmd pr) b a"
    using assms(3) by (simp_all add: invite_P_def)
  have "on_record E ?log i" if i: "jm_get ?V x = Some (InviteRow i)" for x i
    using invite_visible[OF G(2) assms(4) P(2) i]
  proof
    assume "tame (jm_get db x) (Some (InviteRow i))"
    then obtain j where "jm_get db x = Some (InviteRow j)" "same_invite i j" by (auto simp: tame_def)
    then show ?thesis using G(2) on_record_same on_record_log unfolding invites_recorded_def by blast
  qed (auto simp: on_record_def)
  moreover have "log_apart E ?log"
    using G(3) assms(5) unfolding log_apart_def unminted_def by fastforce
  moreover have "backed E ?log x" if "x \<in> set ?log" for x
  proof (cases "x \<in> set log")
    case True
    then show ?thesis using G(4) backed_log by blast
  next
    case False
    then have x: "x = (rc_cmd pr, Inr v)" using that by simp
    show ?thesis
    proof (cases "rc_cmd pr")
      case (AcceptInvitation token actor mid)
      then have "accepting E log token actor (Answer (Inr v)) (changes pr)" using assms(3,6) by (simp add: invite_P_def)
      from accepting_done[OF this] obtain j m where
        "v = Joined m" "on_record E ?log j" "fits_invite E token actor j" "admits actor j m"
        using on_record_log by blast
      then show ?thesis using x AcceptInvitation by auto
    qed (simp_all add: x)
  qed
  ultimately show ?thesis
    using once_commit[OF assms(2-6,1)] rows_commit_G[OF assms(1) G(1) P(1) assms(4)]
    by (simp add: invite_G_def invites_recorded_def)
qed

lemma invite_P_log: "invite_P E db log q \<Longrightarrow> invite_P E db (log @ [x]) q"
  by (auto simp: invite_P_def rows_P_log intro: accepting_log)

lemma invite_commit_P:
  assumes "jm_ok db" "invite_G E db log" "invite_P E db log pr" "invite_P E db log q" "based db pr"
    and "apart (tn_mints E) pr q" "unminted (tn_mints E) log (rc_cmd q)"
  shows "invite_P E (visible_rows db (changes pr)) (log @ [(rc_cmd pr, r)]) q"
proof -
  have rows: "rows_G E db log" "rows_P E db log pr" "rows_P E db log q"
    using assms(2-4) by (simp_all add: invite_G_def invite_P_def)
  show ?thesis using rows_commit_P[OF assms(1) rows assms(5-7)] assms(4) accepting_log by (auto simp: invite_P_def)
qed

lemma invite_ask:
  assumes "jm_ok db" "invite_G E db log" "invite_P E db log pr" "based db pr" "todo pr = Ask f"
    and "f now (visible_rows db (changes pr)) = Some (ws, k)"
  shows "invite_P E db log (asked db ws k pr)"
proof -
  have G: "rows_G E db log" "invites_recorded E db log" "log_apart E log" using assms(2) by (simp_all add: invite_G_def)
  have P: "rows_P E db log pr" "\<forall>(x, b, a)\<in>set (changes pr). tame_or_issued E (rc_cmd pr) b a"
    "only_writes tables_ok (invite_ws E (rc_cmd pr)) (Ask f)" using assms(3,5) by (simp_all add: invite_P_def)
  note V = visible_tables[OF assms(1) G(1) P(1) assms(4)]
  note ws = only_writes_askD[OF P(3) V assms(6)]
  have "accepting E log token actor k (changes (asked db ws k pr))"
    if "rc_cmd pr = AcceptInvitation token actor mid" for token actor mid
    using accepting_ask[OF _ G(2,3) assms(4) V assms(5,6)] assms(3) that by (simp add: invite_P_def)
  then show ?thesis
    using rows_ask[OF assms(1) G(1) P(1) assms(4-6)] ws(1) asked_tame[OF P(2) assms(4) ws(2)] by (simp add: invite_P_def)
qed

lemma invite_enter: "invite_G E db log \<Longrightarrow> unminted (tn_mints E) log c \<Longrightarrow> invite_P E db log (entered (tn_code E) c)"
  using rows_enter[of E db log c] code_ws by (auto simp: invite_P_def invite_G_def intro: accepting.begins)

lemma invite_lock: "invite_P E db log pr \<Longrightarrow> todo pr = Lock key k \<Longrightarrow> invite_P E db log (locked_by key k pr)"
  using rows_lock by (auto simp: invite_P_def accepting_lock elim: only_writes_lockE)

lemma invite_G_log: "invite_G E db log \<Longrightarrow> invite_G E db (log @ [(c, Inl e)])"
proof -
  assume G: "invite_G E db log"
  have "accepted_count E h (log @ [(c, Inl e)]) = accepted_count E h log" for h
    by (cases c) (simp_all add: accepted_count_def)
  moreover have "backed E (log @ [(c, Inl e)]) (c, Inl e)" by (cases c) simp_all
  moreover have "log_apart E (log @ [(c, Inl e)])" using G by (auto simp: invite_G_def log_apart_def)
  ultimately show ?thesis using G
    by (auto simp: invite_G_def invites_recorded_def once_def intro: rows_G_log on_record_log backed_log)
qed

lemma invite_start: "invite_G E [] []"
  by (simp add: invite_G_def rows_G_start invites_recorded_def log_apart_def once_def accepted_count_def)

interpretation invites: tx_client "tn_code E" TENANCY_OPERATION_FAILED "tn_mints E" "\<lambda>_ _. True" "invite_G E" "invite_P E"
  for E
  by unfold_locales
    (rule invite_start, rule invite_enter, assumption+, rule invite_lock, assumption+, rule invite_ask, assumption+,
     rule invite_commit_G, assumption+, rule invite_commit_P, assumption+, rule invite_G_log, assumption,
     rule invite_P_log, assumption)

end
