(* ===== verification/TenancyGuarantees.thy ===== *)
theory TenancyGuarantees
  imports TenancyOwners TenancyInvitations
begin

text \<open>
  What the tenancy module guarantees under every interleaving of its commands: well-formed
  tables in the eyes of every transaction, an owner for every organization that is not
  deleted, one acceptance for every invitation; and runs that show what it does not guarantee.
\<close>

section \<open>A run\<close>

definition plain_env :: tn_env where
  "plain_env = \<lparr>te_sha256 = (\<lambda>s. ''#'' @ s), te_dispatch = (\<lambda>_. True)\<rparr>"

definition person :: "string \<Rightarrow> string \<Rightarrow> tn_actor" where
  "person u email = \<lparr>ac_sub = u, ac_email = email, ac_name = None\<rparr>"

definition as_role :: "tenant_role \<Rightarrow> tn_request" where
  "as_role r = \<lparr>tr_tenantId = Some ''o1'', tr_role = Some r\<rparr>"

text \<open>A command alone, and two commands statement by statement in turns.\<close>

definition alone :: "nat \<Rightarrow> tn_command \<Rightarrow> nat \<Rightarrow> tn_command rc_event list" where
  "alone p c n = Begin p c # replicate n (Advance p)"

definition in_turns :: "tn_command \<Rightarrow> tn_command \<Rightarrow> nat \<Rightarrow> tn_command rc_event list" where
  "in_turns c d n = Begin 0 c # Begin 1 d # concat (replicate n [Advance 0, Advance 1])"

text \<open>Alice founds an organization and invites Bob, who accepts and becomes an owner.\<close>

definition two_owners :: "tn_command rc_event list" where
  "two_owners =
     alone 0 (CreateOrganization ''Acme'' (Some ''acme'') (person ''alice'' ''a@x'') ''o1'' ''m1'') 4 @
     alone 0 (InviteMember (as_role OWNER) ''B@x'' AS_MEMBER (person ''alice'' ''a@x'') ''secret'' ''i1'') 7 @
     alone 0 (AcceptInvitation ''secret'' (person ''bob'' ''b@X'') ''m2'') 5 @
     alone 0 (UpdateMember (as_role OWNER) ''bob'' OWNER) 4"

text \<open>Then each demotes the other.\<close>

definition mutual_demotion :: "tn_command rc_event list" where
  "mutual_demotion = two_owners @
     in_turns (UpdateMember (as_role OWNER) ''bob'' ADMIN) (UpdateMember (as_role OWNER) ''alice'' ADMIN) 10"

definition tn_state :: "tn_command rc_event list \<Rightarrow> tn_sys" where
  "tn_state evs = tn_run plain_env rc_empty evs"

lemma tn_state_reach:
  "run_admissible (tn_code plain_env) TENANCY_OPERATION_FAILED (tn_mints plain_env) allowed rc_empty evs \<Longrightarrow>
     rc_reach (tn_code plain_env) TENANCY_OPERATION_FAILED (tn_mints plain_env) allowed (tn_state evs)"
  unfolding tn_state_def tn_run_def by (rule reach_run) (rule rc_reach.start)

lemma mutual_demotion_admissible:
  "run_admissible (tn_code plain_env) TENANCY_OPERATION_FAILED (tn_mints plain_env) owners_allowed rc_empty mutual_demotion"
  by code_simp

definition two_accepts :: "tn_command rc_event list" where
  "two_accepts =
     alone 0 (CreateOrganization ''Acme'' (Some ''acme'') (person ''alice'' ''a@x'') ''o1'' ''m1'') 4 @
     alone 0 (InviteMember (as_role OWNER) ''B@x'' AS_ADMIN (person ''alice'' ''a@x'') ''secret'' ''i1'') 7 @
     in_turns (AcceptInvitation ''secret'' (person ''bob'' ''b@X'') ''m2'')
       (AcceptInvitation ''secret'' (person ''bobby'' ''B@x'') ''m3'') 6"

lemma two_accepts_admissible:
  "run_admissible (tn_code plain_env) TENANCY_OPERATION_FAILED (tn_mints plain_env) (\<lambda>_ _. True) rc_empty two_accepts"
  by code_simp

section \<open>Well-formed tables\<close>

text \<open>The tables as they are committed and as each open transaction sees them.\<close>

definition tn_views :: "tn_sys \<Rightarrow> tn_db list" where
  "tn_views s = committed s # map (\<lambda>(_, pr). visible_rows (committed s) (changes pr)) (active s)"

lemma tables_distinct:
  assumes "tables_ok db"
  shows "distinct (map member_key (memberships_of db))" "distinct (map ms_id (memberships_of db))"
proof -
  show d: "distinct (map member_key (memberships_of db))"
    using distinct_members assms by (simp add: tables_ok_def)
  have "inj_on ms_id (set (memberships_of db))"
  proof (rule inj_onI)
    fix m n assume mn: "m \<in> set (memberships_of db)" "n \<in> set (memberships_of db)" "ms_id m = ms_id n"
    have at: "member_at db (member_key m) m" "member_at db (member_key n) n"
      using mn(1,2) members_at[OF assms] by blast+
    then have "member_key m = member_key n"
      using tables_okD(3)[OF assms] mn(3) unfolding ids_unique_def by blast
    then show "m = n" using at by (simp add: member_at_def)
  qed
  then show "distinct (map ms_id (memberships_of db))" using d by (simp add: distinct_map)
qed



section \<open>Owners\<close>

text \<open>
  C3. An organization that is not deleted has an owner, whatever the interleaving of
  foundings, invitations, acceptances, role changes, removals, erasures of organizations and
  crashes, as long as no user is erased: owners who demote or remove each other at the same
  time cannot both succeed, because the commands count owners under the advisory lock of the
  organization, which they keep until their transaction ends.
\<close>

theorem last_owner_kept:
  assumes "rc_reach (tn_code E) TENANCY_OPERATION_FAILED (tn_mints E) owners_allowed s"
    and "g \<in> set (organizations_of (committed s))" "og_deletedAt g = None"
  shows "\<exists>m. m \<in> set (memberships_of (committed s)) \<and> ms_tenantId m = og_id g \<and> ms_role m = OWNER"
proof -
  have G: "owner_G E (committed s) (finished s)" using owners.reach_global[OF assms(1)] .
  have ok: "tables_ok (committed s)"
    using committed_tables owners.invD(1)[OF owners.reach_inv[OF assms(1)]] G by (auto simp: owner_G_def)
  have "live (committed s) (og_id g)"
    using orgs_at[OF ok, of g] assms(2,3) by (auto simp: live_def live_version_def)
  then obtain u where "is_owner (committed s) (og_id g) u" using owner_of_live[OF assms(1)] by blast
  then obtain m where m: "member_at (committed s) (MemberKey (og_id g) u) m" "ms_role m = OWNER"
    by (auto simp: is_owner_def owner_version_def member_at_def)
  have "MemberKey (og_id g) u = member_key m" using member_at_key[OF ok m(1)] .
  then have "ms_tenantId m = og_id g" "m \<in> set (memberships_of (committed s))"
    using m(1) members_at[OF ok, of m] by (simp_all add: member_key_def)
  then show ?thesis using m(2) by blast
qed

lemma last_owner_kept_witness:
  "(\<exists>m. m \<in> set (memberships_of (committed (tn_state mutual_demotion))) \<and> ms_tenantId m = ''o1'' \<and> ms_role m = OWNER) \<and>
   snd (last (finished (tn_state mutual_demotion))) = Inl LAST_OWNER"
proof -
  note reach = tn_state_reach[OF mutual_demotion_admissible]
  have g: "hd (organizations_of (committed (tn_state mutual_demotion))) \<in> set (organizations_of (committed (tn_state mutual_demotion)))
      \<and> og_deletedAt (hd (organizations_of (committed (tn_state mutual_demotion)))) = None
      \<and> og_id (hd (organizations_of (committed (tn_state mutual_demotion)))) = ''o1''"
    by code_simp
  moreover have "snd (last (finished (tn_state mutual_demotion))) = Inl LAST_OWNER" by code_simp
  ultimately show ?thesis using last_owner_kept[OF reach, of "hd (organizations_of (committed (tn_state mutual_demotion)))"]
    by simp
qed

section \<open>Invitations\<close>

text \<open>
  C6. An invitation admits one user, once: at most one acceptance succeeds for a token, and a
  successful one is backed by a successful invitation that an owner or an administrator of
  the organization sent to the e-mail address of the user; the membership is in that
  organization, for that user, with the role the invitation names, never that of an owner.
\<close>

theorem invitation_admits_one:
  assumes "tn_reach E s"
  shows "length (filter (accepts E h) (finished s)) \<le> 1 \<and>
    (\<forall>token actor mid v. (AcceptInvitation token actor mid, Inr v) \<in> set (finished s) \<longrightarrow>
      (\<exists>req address role inviter secret iid w m.
         (InviteMember req address role inviter secret iid, Inr w) \<in> set (finished s) \<and>
         te_sha256 E secret = te_sha256 E token \<and> to_lower address = to_lower (ac_email actor) \<and>
         (tr_role req = Some OWNER \<or> tr_role req = Some ADMIN) \<and>
         v = Joined m \<and> tr_tenantId req = Some (ms_tenantId m) \<and> ms_userId m = ac_sub actor \<and>
         ms_role m = granted_role role \<and> ms_role m \<noteq> OWNER))"
proof (intro conjI allI impI)
  have G: "invite_G E (committed s) (finished s)" using invites.reach_global assms by (simp add: tn_reach_def)
  then show "length (filter (accepts E h) (finished s)) \<le> 1"
    by (auto simp: invite_G_def once_def accepted_count_def dest!: spec[of _ h])
  fix token actor mid v assume "(AcceptInvitation token actor mid, Inr v) \<in> set (finished s)"
  then have "backed E (finished s) (AcceptInvitation token actor mid, Inr v)" using G unfolding invite_G_def by blast
  then obtain i m where im: "v = Joined m" "on_record E (finished s) i" "fits_invite E token actor i" "admits actor i m"
    by auto
  then obtain c w where c: "(c, Inr w) \<in> set (finished s)" "issued E c i" by (auto simp: on_record_def)
  have "granted_role r \<noteq> OWNER" for r by (cases r) simp_all
  then show "\<exists>req address role inviter secret iid w m.
         (InviteMember req address role inviter secret iid, Inr w) \<in> set (finished s) \<and>
         te_sha256 E secret = te_sha256 E token \<and> to_lower address = to_lower (ac_email actor) \<and>
         (tr_role req = Some OWNER \<or> tr_role req = Some ADMIN) \<and>
         v = Joined m \<and> tr_tenantId req = Some (ms_tenantId m) \<and> ms_userId m = ac_sub actor \<and>
         ms_role m = granted_role role \<and> ms_role m \<noteq> OWNER"
    using c im by (cases c) (fastforce simp: fits_invite_def admits_def)+
qed

lemma invitation_admits_one_witness:
  "length (filter (accepts plain_env ''#secret'') (finished (tn_state two_accepts))) \<le> 1 \<and>
   map snd (drop 3 (finished (tn_state two_accepts))) = [Inl INVITATION_INVALID]"
proof -
  have "tn_reach plain_env (tn_state two_accepts)"
    unfolding tn_reach_def by (rule tn_state_reach) (rule two_accepts_admissible)
  from invitation_admits_one[OF this, of "''#secret''"]
  have "length (filter (accepts plain_env ''#secret'') (finished (tn_state two_accepts))) \<le> 1" by (rule conjunct1)
  moreover have "map snd (drop 3 (finished (tn_state two_accepts))) = [Inl INVITATION_INVALID]" by code_simp
  ultimately show ?thesis by blast
qed

section \<open>Slugs\<close>

text \<open>The pattern of the contract for a given slug: \<open>^[a-z0-9]+(?:-[a-z0-9]+)*$\<close>, 3 to 50 characters.\<close>

definition dashed :: "string \<Rightarrow> bool" where
  "dashed s \<longleftrightarrow> list_all (\<lambda>c. slug_char c \<or> c = CHR ''-'') s \<and> successively (\<lambda>a b. slug_char a \<or> slug_char b) s"

definition slug_pattern :: "string \<Rightarrow> bool" where
  "slug_pattern s \<longleftrightarrow> s \<noteq> [] \<and> slug_char (hd s) \<and> slug_char (last s) \<and> dashed s"

definition slug_accepted :: "string \<Rightarrow> bool" where
  "slug_accepted s \<longleftrightarrow> slug_pattern s \<and> 3 \<le> length s \<and> length s \<le> 50"

definition cleaned :: "string \<Rightarrow> string" where
  "cleaned name = strip_dashes (dash_runs (to_lower (js_trim name)))"

lemma dash_no_slug [simp]: "\<not> slug_char CHR ''-''"
  by (simp add: slug_char_def)

lemma dash_runs_dashed: "dashed (dash_runs s)"
proof (induction s rule: dash_runs.induct)
  case (2 c s)
  have first: "slug_char (hd (dash_runs (dropWhile (\<lambda>x. \<not> slug_char x) s)))"
    if "dash_runs (dropWhile (\<lambda>x. \<not> slug_char x) s) \<noteq> []"
    using that hd_dropWhile[of "\<lambda>x. \<not> slug_char x" s]
    by (cases "dropWhile (\<lambda>x. \<not> slug_char x) s") auto
  show ?case
    using 2 first by (auto simp: dashed_def successively_Cons)
qed (simp add: dashed_def)

lemma dashed_tail: "dashed (c # s) \<Longrightarrow> dashed s" and dashed_butlast: "dashed s \<Longrightarrow> dashed (butlast s)"
proof -
  show "dashed (c # s) \<Longrightarrow> dashed s" by (cases s) (auto simp: dashed_def successively_Cons)
  show "dashed s \<Longrightarrow> dashed (butlast s)"
    by (cases s rule: rev_cases) (auto simp: dashed_def successively_append_iff)
qed

lemma strip_dashes_pattern:
  assumes "dashed s" "strip_dashes s \<noteq> []"
  shows "slug_pattern (strip_dashes s)"
proof -
  define t where "t = (case s of c # r \<Rightarrow> if c = CHR ''-'' then r else s | [] \<Rightarrow> [])"
  have t: "dashed t" "t \<noteq> [] \<Longrightarrow> slug_char (hd t)"
    using assms(1) by (cases s; cases "tl s"; auto simp: t_def dashed_def)+
  have strip: "strip_dashes s = (if t \<noteq> [] \<and> last t = CHR ''-'' then butlast t else t)"
    by (simp add: strip_dashes_def t_def Let_def)
  then have ne: "t \<noteq> []" using assms(2) by (auto split: if_splits)
  show ?thesis
  proof (cases "last t = CHR ''-''")
    case True
    then obtain xs where xs: "t = xs @ [CHR ''-'']" using ne by (metis append_butlast_last_id)
    then have "xs \<noteq> []" using strip assms(2) by simp
    then have "slug_char (last xs)" "slug_char (hd xs)" using t xs by (auto simp: dashed_def successively_append_iff)
    then show ?thesis using t(1) dashed_butlast[of t] xs strip \<open>xs \<noteq> []\<close> by (simp add: slug_pattern_def)
  next
    case False
    have "last t \<in> set t" using ne by simp
    then have "slug_char (last t)" using t(1) False by (auto simp: dashed_def list_all_iff)
    then show ?thesis using t ne strip False by (simp add: slug_pattern_def)
  qed
qed

lemma slug_org: "slug_pattern s \<Longrightarrow> slug_pattern (s @ ''-org'')"
  by (auto simp: slug_pattern_def dashed_def successively_append_iff) (simp_all add: slug_char_def)

text \<open>
  C40. The slug derived from the name of an organization is one that the contract would
  accept, unless the name is so long that the slug is cut: lower case letters and digits in
  groups with single dashes between them, 3 to 50 characters.
\<close>

theorem derived_slug_accepted:
  assumes "length (cleaned name) \<le> MAX_SLUG_LENGTH"
  shows "slug_accepted (createSlug name)"
proof -
  have slug: "createSlug name = (if 3 \<le> length (cleaned name) then cleaned name
      else (if cleaned name = [] then ''organization'' else cleaned name) @ ''-org'')"
    using assms by (auto simp: createSlug_def cleaned_def Let_def MAX_SLUG_LENGTH_def)
  have ok: "cleaned name \<noteq> [] \<Longrightarrow> slug_pattern (cleaned name)"
    unfolding cleaned_def by (rule strip_dashes_pattern[OF dash_runs_dashed])
  have org: "slug_pattern ''organization-org''" by code_simp
  show ?thesis
  proof (cases "3 \<le> length (cleaned name)")
    case True
    then have "cleaned name \<noteq> []" by auto
    then show ?thesis using slug ok True assms by (simp add: slug_accepted_def MAX_SLUG_LENGTH_def)
  next
    case False
    then show ?thesis using slug ok slug_org[of "cleaned name"] org
      by (cases "cleaned name = []") (auto simp: slug_accepted_def)
  qed
qed

lemma derived_slug_accepted_witness:
  "slug_accepted (createSlug '' Ada & Bob, Ltd. '') \<and> createSlug '' Ada & Bob, Ltd. '' = ''ada-bob-ltd''"
proof
  show "slug_accepted (createSlug '' Ada & Bob, Ltd. '')"
    by (rule derived_slug_accepted) code_simp
  show "createSlug '' Ada & Bob, Ltd. '' = ''ada-bob-ltd''" by code_simp
qed

section \<open>What is not guaranteed\<close>

text \<open>
  Erasing a user: the check that the user owns no organization passes, then the user becomes
  the only owner, then the erasure removes the membership. The organization has no owner.
\<close>

definition promoted_before_erasure :: "tn_command rc_event list" where
  "promoted_before_erasure = two_owners @
     alone 0 (UpdateMember (as_role OWNER) ''alice'' ADMIN) 5 @ alone 0 (PurgeUserTenancyData ''bob'' ''b@x'') 3"

lemma erasure_orphans_organization:
  "CanDeleteUserQuery False ''bob'' 0 (committed (tn_state (take 19 two_owners))) \<and>
   map (\<lambda>m. (ms_userId m, ms_role m)) (memberships_of (committed (tn_state promoted_before_erasure))) = [(''alice'', ADMIN)] \<and>
   map og_deletedAt (organizations_of (committed (tn_state promoted_before_erasure))) = [None]"
  by code_simp

text \<open>Two invitations of one address at the same time: each looks for a pending one first, both find none.\<close>

lemma concurrent_invitations:
  "map (\<lambda>i. (iv_email i, iv_status i)) (invitations_of (committed (tn_state
     (alone 0 (CreateOrganization ''Acme'' (Some ''acme'') (person ''alice'' ''a@x'') ''o1'' ''m1'') 4 @
      in_turns (InviteMember (as_role OWNER) ''b@x'' AS_ADMIN (person ''alice'' ''a@x'') ''s1'' ''i1'')
        (InviteMember (as_role OWNER) ''b@x'' AS_MEMBER (person ''alice'' ''a@x'') ''s2'' ''i2'') 7)))) =
   [(''b@x'', Pending), (''b@x'', Pending)]"
  by code_simp

text \<open>An acceptance that commits after an erasure has deleted the memberships leaves one behind.\<close>

lemma erasure_leaves_membership:
  "let s = committed (tn_state (take 14 two_owners @
      [Begin 1 (DeleteOrganizationData ''o1''), Begin 0 (AcceptInvitation ''secret'' (person ''bob'' ''b@x'') ''m2'')] @
      [Advance 1] @ replicate 5 (Advance 0) @ replicate 3 (Advance 1)))
   in map ms_userId (memberships_of s) = [''bob''] \<and> map og_deletedAt (organizations_of s) = [Some 0]"
  by code_simp


text \<open>A cut can leave a dash at the end, and all names without letters and digits share one slug.\<close>

lemma cut_slug_not_accepted: "\<not> slug_accepted (createSlug (replicate 49 (CHR ''a'') @ ''-b''))"
  by code_simp

lemma nameless_slugs_collide:
  assumes "list_all (\<lambda>c. \<not> slug_char c) (to_lower (js_trim name))"
  shows "createSlug name = ''organization-org''"
proof -
  have "dash_runs s \<in> {[], ''-''}" if none: "list_all (\<lambda>c. \<not> slug_char c) s" for s
  proof (cases s)
    case (Cons a r)
    have empty: "dropWhile (\<lambda>x. \<not> slug_char x) r = []" using none Cons by (simp add: list_all_iff)
    show ?thesis using none Cons by (simp add: empty)
  qed simp
  from this[OF assms] have "cleaned name = []"
    by (auto simp: cleaned_def strip_dashes_def Let_def)
  then show ?thesis by (simp add: createSlug_def cleaned_def[symmetric] MAX_SLUG_LENGTH_def)
qed

end
