(* ===== verification/Privacy.thy ===== *)
theory Privacy
  imports Tenancy Authentication
begin

text \<open>
  The privacy module (\<open>modules/privacy\<close>): requests for an export of one's data and for the
  erasure of an account or an organization, the statements of their repository, the commands
  and workers over them, and the registry of contributors that export and destroy the data of
  the other modules (\<open>infrastructure/lifecycle\<close>). A statement, and a transaction around
  statements on one row, is one function on the rows. Times are milliseconds.
\<close>

section \<open>Requests\<close>

datatype dsr_type = EXPORT | ACCOUNT_ERASURE | ORGANIZATION_ERASURE

datatype dsr_status = REQUESTED | PROCESSING | READY | PARTIAL | FULFILLED | EXPIRED | FAILED

record dsr =
  dq_id :: string
  dq_type :: dsr_type
  dq_status :: dsr_status
  dq_subjectUserId :: string
  dq_tenantId :: "string option"
  dq_payload :: "js option"
  dq_attempts :: nat
  dq_lockedAt :: "int option"
  dq_expiresAt :: "int option"
  dq_createdAt :: int
  dq_updatedAt :: int

datatype privacy_error = DSR_NOT_FOUND | DSR_EXPIRED | DSR_FORBIDDEN | INVALID_PASSWORD | INVALID_CONFIRMATION
  | ORG_ERASE_FORBIDDEN | ERASURE_ALREADY_REQUESTED | LAST_OWNER_BLOCKED | EXPORT_FAILED
  | EXPORT_ADMISSION_DISABLED | ERASURE_FAILED | PURGE_FAILED

datatype privacy_event = ExportRequested string string | ExportReady string string
  | AccountErasureRequested string string | AccountPurged string string
  | OrganizationErasureRequested string string string | OrganizationPurged string string

definition DSR_MAX_ATTEMPTS :: nat where
  "DSR_MAX_ATTEMPTS = 3"

definition ERASURE_LOCK_TIMEOUT_MINUTES :: int where
  "ERASURE_LOCK_TIMEOUT_MINUTES = 15"

definition isExpired :: "int \<Rightarrow> dsr \<Rightarrow> bool" where
  "isExpired now r \<longleftrightarrow> (case dq_expiresAt r of None \<Rightarrow> False | Some e \<Rightarrow> e \<le> now)"

text \<open>\<open>expires_at > NOW()\<close>, which no \<open>NULL\<close> satisfies.\<close>

definition unexpired :: "int \<Rightarrow> dsr \<Rightarrow> bool" where
  "unexpired now r \<longleftrightarrow> (case dq_expiresAt r of None \<Rightarrow> False | Some e \<Rightarrow> now < e)"

text \<open>The lease of a claim is over: \<open>locked_at < NOW() - 15 minutes\<close>.\<close>

definition lease_over :: "int \<Rightarrow> dsr \<Rightarrow> bool" where
  "lease_over now r \<longleftrightarrow>
     (case dq_lockedAt r of None \<Rightarrow> False | Some t \<Rightarrow> t < now - ERASURE_LOCK_TIMEOUT_MINUTES * 60000)"

section \<open>Statements\<close>

definition update_dsrs :: "(dsr \<Rightarrow> bool) \<Rightarrow> (dsr \<Rightarrow> dsr) \<Rightarrow> dsr list \<Rightarrow> dsr list" where
  "update_dsrs P f rows = map (\<lambda>r. if P r then f r else r) rows"

definition settle :: "int \<Rightarrow> dsr_status \<Rightarrow> dsr \<Rightarrow> dsr" where
  "settle now st r = r\<lparr>dq_status := st, dq_payload := None, dq_lockedAt := None, dq_updatedAt := now\<rparr>"

definition claimed :: "int \<Rightarrow> dsr \<Rightarrow> dsr" where
  "claimed now r =
     r\<lparr>dq_status := PROCESSING, dq_attempts := dq_attempts r + 1, dq_lockedAt := Some now, dq_updatedAt := now\<rparr>"

text \<open>
  The claim of a batch: one statement on one snapshot. Spent requests whose lease is over
  fail, the first \<open>limit\<close> candidates are claimed; \<open>busy\<close> are rows that another transaction has
  locked (\<open>SKIP LOCKED\<close>). Ties in the order are resolved in the order of the table.
\<close>

definition claim_batch ::
  "int \<Rightarrow> (dsr \<Rightarrow> bool) \<Rightarrow> (dsr \<Rightarrow> bool) \<Rightarrow> (dsr list \<Rightarrow> dsr list) \<Rightarrow> (dsr \<Rightarrow> bool) \<Rightarrow> nat \<Rightarrow> dsr list \<Rightarrow> dsr list \<times> dsr list" where
  "claim_batch now exhausted candidate ordered busy limit rows =
     (let ids = set (map dq_id (take limit (ordered (filter (\<lambda>r. candidate r \<and> \<not> busy r) rows))));
          rows' = map (\<lambda>r. if dq_id r \<in> ids then claimed now r
                           else if exhausted r then settle now FAILED r else r) rows
      in (filter (\<lambda>r. dq_id r \<in> ids) rows', rows'))"

definition export_exhausted :: "int \<Rightarrow> dsr \<Rightarrow> bool" where
  "export_exhausted now r \<longleftrightarrow> dq_type r = EXPORT \<and> dq_status r = PROCESSING \<and>
     DSR_MAX_ATTEMPTS \<le> dq_attempts r \<and> lease_over now r"

definition export_candidate :: "int \<Rightarrow> dsr \<Rightarrow> bool" where
  "export_candidate now r \<longleftrightarrow> dq_type r = EXPORT \<and>
     (dq_status r = REQUESTED \<or> (dq_status r = PROCESSING \<and> lease_over now r)) \<and>
     dq_attempts r < DSR_MAX_ATTEMPTS \<and> unexpired now r"

definition claimExportBatch :: "int \<Rightarrow> (dsr \<Rightarrow> bool) \<Rightarrow> nat \<Rightarrow> dsr list \<Rightarrow> dsr list \<times> dsr list" where
  "claimExportBatch now busy limit rows =
     claim_batch now (export_exhausted now) (export_candidate now) (sort_key dq_createdAt) busy limit rows"

definition is_erasure :: "dsr \<Rightarrow> bool" where
  "is_erasure r \<longleftrightarrow> dq_type r = ACCOUNT_ERASURE \<or> dq_type r = ORGANIZATION_ERASURE"

definition erasure_exhausted :: "int \<Rightarrow> dsr \<Rightarrow> bool" where
  "erasure_exhausted now r \<longleftrightarrow> is_erasure r \<and> dq_status r = PROCESSING \<and>
     DSR_MAX_ATTEMPTS \<le> dq_attempts r \<and> lease_over now r"

definition erasure_candidate :: "int \<Rightarrow> dsr \<Rightarrow> bool" where
  "erasure_candidate now r \<longleftrightarrow> is_erasure r \<and> isExpired now r \<and> dq_attempts r < DSR_MAX_ATTEMPTS \<and>
     (dq_status r = REQUESTED \<or> (dq_status r = PROCESSING \<and> lease_over now r))"

definition erasure_order :: "dsr list \<Rightarrow> dsr list" where
  "erasure_order rows = sort_key (\<lambda>r. the (dq_expiresAt r)) (sort_key dq_createdAt rows)"

definition claimExpiredErasureBatch :: "int \<Rightarrow> (dsr \<Rightarrow> bool) \<Rightarrow> nat \<Rightarrow> dsr list \<Rightarrow> dsr list \<times> dsr list" where
  "claimExpiredErasureBatch now busy limit rows =
     claim_batch now (erasure_exhausted now) (erasure_candidate now) erasure_order busy limit rows"

definition findPendingErasureForSubject :: "string \<Rightarrow> dsr list \<Rightarrow> dsr option" where
  "findPendingErasureForSubject u rows =
     find (\<lambda>r. dq_subjectUserId r = u \<and> dq_type r = ACCOUNT_ERASURE \<and> dq_status r = REQUESTED) rows"

definition active_export :: "int \<Rightarrow> string \<Rightarrow> dsr \<Rightarrow> bool" where
  "active_export now u r \<longleftrightarrow> dq_subjectUserId r = u \<and> dq_type r = EXPORT \<and>
     dq_status r \<in> {REQUESTED, PROCESSING, READY, PARTIAL} \<and> (dq_expiresAt r = None \<or> unexpired now r)"

definition findActiveExportForSubject :: "int \<Rightarrow> string \<Rightarrow> dsr list \<Rightarrow> dsr option" where
  "findActiveExportForSubject now u rows = find (active_export now u) rows"

definition expireAbandonedExports :: "int \<Rightarrow> dsr list \<Rightarrow> nat \<times> dsr list" where
  "expireAbandonedExports now rows =
     (let P = (\<lambda>r. dq_type r = EXPORT \<and> dq_status r \<in> {REQUESTED, PROCESSING} \<and> isExpired now r)
      in (length (filter P rows), update_dsrs P (settle now EXPIRED) rows))"

definition updateClaimed :: "int \<Rightarrow> string \<Rightarrow> nat \<Rightarrow> (dsr \<Rightarrow> dsr) \<Rightarrow> dsr list \<Rightarrow> dsr option \<times> dsr list" where
  "updateClaimed now rid attempts patch rows =
     (let P = (\<lambda>r. dq_id r = rid \<and> dq_status r = PROCESSING \<and> dq_attempts r = attempts \<and>
                   (dq_type r \<noteq> EXPORT \<or> unexpired now r));
          f = (\<lambda>r. (patch r)\<lparr>dq_updatedAt := now\<rparr>)
      in (map_option f (find P rows), update_dsrs P f rows))"

definition completeExport :: "int \<Rightarrow> string \<Rightarrow> nat \<Rightarrow> js \<Rightarrow> bool \<Rightarrow> int \<Rightarrow> dsr list \<Rightarrow> dsr option \<times> dsr list" where
  "completeExport now rid attempts payload truncated expiresAt =
     updateClaimed now rid attempts (\<lambda>r. r\<lparr>dq_status := if truncated then PARTIAL else READY,
       dq_payload := Some payload, dq_expiresAt := Some expiresAt, dq_lockedAt := None\<rparr>)"

definition markExportAttemptFailed :: "int \<Rightarrow> string \<Rightarrow> nat \<Rightarrow> bool \<Rightarrow> dsr list \<Rightarrow> dsr option \<times> dsr list" where
  "markExportAttemptFailed now rid attempts terminal =
     updateClaimed now rid attempts (settle now (if terminal then FAILED else REQUESTED))"

definition findExpiredExportBatch :: "int \<Rightarrow> nat \<Rightarrow> dsr list \<Rightarrow> dsr list" where
  "findExpiredExportBatch now limit rows =
     take limit (filter (\<lambda>r. dq_status r \<in> {READY, PARTIAL} \<and>
       (case dq_expiresAt r of None \<Rightarrow> False | Some e \<Rightarrow> e < now)) rows)"

definition dsr_updateById :: "int \<Rightarrow> string \<Rightarrow> (dsr \<Rightarrow> dsr) \<Rightarrow> dsr list \<Rightarrow> dsr option \<times> dsr list" where
  "dsr_updateById now rid patch rows =
     (let P = (\<lambda>r. dq_id r = rid); f = (\<lambda>r. (patch r)\<lparr>dq_updatedAt := now\<rparr>)
      in (map_option f (find P rows), update_dsrs P f rows))"

definition dsr_create ::
  "int \<Rightarrow> string \<Rightarrow> dsr_type \<Rightarrow> string \<Rightarrow> string option \<Rightarrow> js option \<Rightarrow> int \<Rightarrow> dsr list \<Rightarrow> dsr \<times> dsr list" where
  "dsr_create now rid ty u t payload expiresAt rows =
     (let r = \<lparr>dq_id = rid, dq_type = ty, dq_status = REQUESTED, dq_subjectUserId = u, dq_tenantId = t,
               dq_payload = payload, dq_attempts = 0, dq_lockedAt = None, dq_expiresAt = Some expiresAt,
               dq_createdAt = now, dq_updatedAt = now\<rparr>
      in (r, rows @ [r]))"


section \<open>Contributors of other modules\<close>

datatype lifecycle_failure = LIFECYCLE_CONTRIBUTOR_FAILED string

text \<open>A contributor works on the data of its module, part of a state \<open>'x\<close>.\<close>

record 'x contributor =
  lc_key :: string
  lc_exportSubject :: "(user \<Rightarrow> string list \<Rightarrow> 'x \<Rightarrow> lifecycle_failure + (js \<times> bool)) option"
  lc_purgeSubject :: "(string \<Rightarrow> string list \<Rightarrow> 'x \<Rightarrow> (lifecycle_failure + nat) \<times> 'x) option"
  lc_purgeTenant :: "(string \<Rightarrow> 'x \<Rightarrow> (lifecycle_failure + nat) \<times> 'x) option"

text \<open>\<open>None\<close>: the registration throws \<open>DUPLICATE_LIFECYCLE_CONTRIBUTOR\<close>.\<close>

definition lifecycle_register :: "'x contributor \<Rightarrow> 'x contributor list \<Rightarrow> 'x contributor list option" where
  "lifecycle_register c cs = (if lc_key c \<in> set (map lc_key cs) then None else Some (cs @ [c]))"

fun exportSubject_from ::
  "user \<Rightarrow> string list \<Rightarrow> 'x contributor list \<Rightarrow> (string \<times> js) list \<Rightarrow> bool \<Rightarrow> 'x \<Rightarrow> lifecycle_failure + (js \<times> bool)" where
  "exportSubject_from u ts [] acc truncated x = Inr (JObj acc, truncated)"
| "exportSubject_from u ts (c # cs) acc truncated x =
     (case lc_exportSubject c of
        None \<Rightarrow> exportSubject_from u ts cs acc truncated x
      | Some f \<Rightarrow>
          (case f u ts x of
             Inl e \<Rightarrow> Inl e
           | Inr (v, part) \<Rightarrow> exportSubject_from u ts cs (acc @ [(lc_key c, v)]) (truncated \<or> part) x))"

definition exportSubject :: "user \<Rightarrow> string list \<Rightarrow> 'x contributor list \<Rightarrow> 'x \<Rightarrow> lifecycle_failure + (js \<times> bool)" where
  "exportSubject u ts cs x = exportSubject_from u ts cs [] False x"

fun runPurge ::
  "('x contributor \<Rightarrow> ('x \<Rightarrow> (lifecycle_failure + nat) \<times> 'x) option) \<Rightarrow> 'x contributor list \<Rightarrow> nat \<Rightarrow> 'x
     \<Rightarrow> (lifecycle_failure + nat) \<times> 'x" where
  "runPurge operation [] deleted x = (Inr deleted, x)"
| "runPurge operation (c # cs) deleted x =
     (case operation c of
        None \<Rightarrow> runPurge operation cs deleted x
      | Some f \<Rightarrow>
          (case f x of
             (Inl e, x') \<Rightarrow> (Inl e, x')
           | (Inr n, x') \<Rightarrow> runPurge operation cs (deleted + n) x'))"

definition purgeSubject :: "string \<Rightarrow> string list \<Rightarrow> 'x contributor list \<Rightarrow> 'x \<Rightarrow> (lifecycle_failure + nat) \<times> 'x" where
  "purgeSubject u ts cs = runPurge (\<lambda>c. map_option (\<lambda>f. f u ts) (lc_purgeSubject c)) cs 0"

definition purgeTenant :: "string \<Rightarrow> 'x contributor list \<Rightarrow> 'x \<Rightarrow> (lifecycle_failure + nat) \<times> 'x" where
  "purgeTenant t cs = runPurge (\<lambda>c. map_option (\<lambda>f. f t) (lc_purgeTenant c)) cs 0"

section \<open>What the commands use of other modules\<close>

text \<open>
  A script of the tenancy module that runs to its end within the transaction of the caller:
  an error rolls back to the savepoint before it.
\<close>

primrec run_script :: "('k, 'r, 'a) script \<Rightarrow> int \<Rightarrow> ('k, 'r) jmap \<Rightarrow> 'a option \<times> ('k, 'r) jmap" where
  "run_script (Answer a) = (\<lambda>now db. (Some a, db))"
| "run_script (Lock key k) = run_script k"
| "run_script (Ask f) = (\<lambda>now db.
     (case map_option (map_prod id run_script) (f now db) of
        None \<Rightarrow> (None, db)
      | Some (ws, k) \<Rightarrow> k now (fold put_row ws db)))"

definition nested_script :: "tn_script \<Rightarrow> int \<Rightarrow> tn_db \<Rightarrow> (tenancy_error + tenancy_value) \<times> tn_db" where
  "nested_script s now db =
     (case run_script s now db of
        (None, _) \<Rightarrow> (Inl TENANCY_OPERATION_FAILED, db)
      | (Some (Inl e), _) \<Rightarrow> (Inl e, db)
      | (Some (Inr v), db') \<Rightarrow> (Inr v, db'))"

text \<open>A page of the memberships of a user, newest first; ties stay in the order of the table.\<close>

definition memberships_for_user :: "string \<Rightarrow> tn_db \<Rightarrow> membership list" where
  "memberships_for_user u db = sort_key (\<lambda>m. - ms_createdAt m) (filter (\<lambda>m. ms_userId m = u) (memberships_of db))"

definition page_count :: "nat \<Rightarrow> nat \<Rightarrow> nat" where
  "page_count n limit = max 1 ((n + limit - 1) div limit)"

definition findByIds :: "string list \<Rightarrow> tn_db \<Rightarrow> organization list" where
  "findByIds ids db = (if ids = [] then [] else filter (\<lambda>g. og_id g \<in> set ids) (organizations_of db))"

definition ListOrganizationsQuery :: "string \<Rightarrow> nat \<Rightarrow> nat \<Rightarrow> tn_db \<Rightarrow> (organization \<times> tenant_role) list \<times> nat" where
  "ListOrganizationsQuery u page limit db =
     (let all = memberships_for_user u db;
          items = take limit (drop ((page - 1) * limit) all);
          gs = findByIds (map ms_tenantId items) db
      in (List.map_filter (\<lambda>m. map_option (\<lambda>g. (g, ms_role m)) (find (\<lambda>g. og_id g = ms_tenantId m) gs)) items,
          page_count (length all) limit))"

definition EXPORT_PAGE_LIMIT :: nat where
  "EXPORT_PAGE_LIMIT = 100"

text \<open>The loop over the pages, on tables that stay as they are.\<close>

function collect_pages :: "string \<Rightarrow> tn_db \<Rightarrow> nat \<Rightarrow> (organization \<times> tenant_role) list" where
  "collect_pages u db page =
     (case ListOrganizationsQuery u page EXPORT_PAGE_LIMIT db of
        (items, totalPages) \<Rightarrow> items @ (if totalPages \<le> page then [] else collect_pages u db (page + 1)))"
  by pat_completeness auto

termination collect_pages
  by (relation "measure (\<lambda>(u, db, page). page_count (length (memberships_for_user u db)) EXPORT_PAGE_LIMIT - page)")
    (auto simp: ListOrganizationsQuery_def Let_def)

declare collect_pages.simps [simp del]

definition collectTenantIds :: "string \<Rightarrow> tn_db \<Rightarrow> string list" where
  "collectTenantIds u db = js_add_all (map (og_id \<circ> fst) (collect_pages u db 1)) []"

definition listInvitationsByEmail :: "string \<Rightarrow> nat \<Rightarrow> tn_db \<Rightarrow> invitation list" where
  "listInvitationsByEmail email limit db =
     take limit (sort_key (\<lambda>i. - iv_createdAt i) (filter (\<lambda>i. iv_email i = email) (invitations_of db)))"


text \<open>Commands of the users module on the table of accounts.\<close>

definition anonymizedEmail :: "string \<Rightarrow> string" where
  "anonymizedEmail u = ''deleted+'' @ u @ ''@deleted.local''"

definition ANONYMIZED_USER_NAME :: string where
  "ANONYMIZED_USER_NAME = ''Deleted User''"

definition anonymized :: "string \<Rightarrow> account \<Rightarrow> account" where
  "anonymized hash a =
     a\<lparr>ac_user := (ac_user a)\<lparr>us_email := anonymizedEmail (us_id (ac_user a)), us_name := ANONYMIZED_USER_NAME,
                              us_avatarFileId := None\<rparr>,
       ac_passwordHash := hash, ac_resetTokenHash := None, ac_resetExpiresAt := None,
       ac_verificationTokenHash := None, ac_verificationExpiresAt := None, ac_pendingEmail := None,
       ac_emailChangeTokenHash := None, ac_emailChangeExpiresAt := None\<rparr>"

text \<open>\<open>None\<close>: no such user, or the index \<open>users_email_unique\<close> refuses the statement.\<close>

definition AnonymizeUserCommand :: "string \<Rightarrow> string \<Rightarrow> account list \<Rightarrow> account list option" where
  "AnonymizeUserCommand u hash accounts =
     (if findById accounts u = None then None
      else (let accounts' = snd (update_accounts (\<lambda>a. us_id (ac_user a) = u \<and> \<not> ac_deleted a) (anonymized hash) accounts)
            in if distinct (live_emails accounts') then Some accounts' else None))"

datatype delete_user_error = UserNotFound | UserOwnsOrganization | UserEventDispatchFailed

definition DeleteUserCommand ::
  "bool \<Rightarrow> int \<Rightarrow> string \<Rightarrow> bool \<Rightarrow> tn_db \<Rightarrow> account list \<Rightarrow> (delete_user_error + unit) \<times> account list" where
  "DeleteUserCommand single now u dispatched db accounts =
     (if findById accounts u = None then (Inl UserNotFound, accounts)
      else if \<not> CanDeleteUserQuery single u now db then (Inl UserOwnsOrganization, accounts)
      else (case update_accounts (\<lambda>a. us_id (ac_user a) = u \<and> \<not> ac_deleted a) (\<lambda>a. a\<lparr>ac_deleted := True\<rparr>)
                   (snd (incrementAuthVersion u accounts)) of
              (None, _) \<Rightarrow> (Inl UserNotFound, accounts)
            | (Some _, accounts') \<Rightarrow>
                if dispatched then (Inr (), accounts') else (Inl UserEventDispatchFailed, accounts)))"

section \<open>The state and the environment of the commands\<close>

record ('x, 's) privacy_world =
  pw_requests :: "dsr list"
  pw_events :: "privacy_event list"
  pw_tenancy :: tn_db
  pw_accounts :: "account list"
  pw_sessions :: 's
  pw_modules :: 'x

text \<open>
  What the commands call: the registered contributors, whether the outbox takes an event, the
  size of a value as JSON, times as text, and the schema of a download.
\<close>

record ('x, 's) privacy_env =
  pe_single :: bool
  pe_contributors :: "'x contributor list"
  pe_dispatch :: "privacy_event \<Rightarrow> bool"
  pe_userDispatch :: "string \<Rightarrow> bool"
  pe_bytes :: "js \<Rightarrow> int"
  pe_iso :: "int \<Rightarrow> string"
  pe_parse :: "js \<Rightarrow> js option"
  pe_auth :: "'s auth_world"

type_synonym ('x, 's, 'a) privacy_run = "('x, 's) privacy_world \<Rightarrow> (privacy_error + 'a) \<times> ('x, 's) privacy_world"

text \<open>A unit of work: an error leaves nothing behind. What contributors did is not its concern.\<close>

definition in_unit :: "('x, 's, 'a) privacy_run \<Rightarrow> ('x, 's, 'a) privacy_run" where
  "in_unit f w = (case f w of (Inl e, w') \<Rightarrow> (Inl e, w) | (Inr v, w') \<Rightarrow> (Inr v, w'))"

definition dispatchGlobal :: "('x, 's) privacy_env \<Rightarrow> privacy_event \<Rightarrow> ('x, 's) privacy_world \<Rightarrow> ('x, 's) privacy_world option" where
  "dispatchGlobal E ev w = (if pe_dispatch E ev then Some (w\<lparr>pw_events := pw_events w @ [ev]\<rparr>) else None)"

section \<open>Exports\<close>

definition EXPORT_REQUEST_TTL_HOURS :: int where "EXPORT_REQUEST_TTL_HOURS = 24"
definition EXPORT_TTL_DAYS :: int where "EXPORT_TTL_DAYS = 7"
definition EXPORT_MAX_PAYLOAD_BYTES :: int where "EXPORT_MAX_PAYLOAD_BYTES = 5 * 1024 * 1024"
definition EXPORT_BATCH_SIZE :: nat where "EXPORT_BATCH_SIZE = 10"
definition MAX_INVITATIONS_PER_EMAIL :: nat where "MAX_INVITATIONS_PER_EMAIL = 100"

text \<open>
  \<open>enqueue\<close> in two parts, since other transactions can run between its statements: it looks for
  an active export, and without one creates the request.
\<close>

definition enqueue_create :: "('x, 's) privacy_env \<Rightarrow> int \<Rightarrow> string \<Rightarrow> string \<Rightarrow> ('x, 's, dsr) privacy_run" where
  "enqueue_create E now rid u w =
     (case dsr_create now rid EXPORT u None None (now + EXPORT_REQUEST_TTL_HOURS * 3600000) (pw_requests w) of
        (r, rows) \<Rightarrow>
          (case dispatchGlobal E (ExportRequested rid u) (w\<lparr>pw_requests := rows\<rparr>) of
             None \<Rightarrow> (Inl EXPORT_FAILED, w)
           | Some w' \<Rightarrow> (Inr r, w')))"

definition enqueue :: "('x, 's) privacy_env \<Rightarrow> int \<Rightarrow> string \<Rightarrow> string \<Rightarrow> ('x, 's, dsr) privacy_run" where
  "enqueue E now rid u w =
     (case findActiveExportForSubject now u (pw_requests w) of
        Some r \<Rightarrow> (Inr r, w)
      | None \<Rightarrow> enqueue_create E now rid u w)"

definition RequestExportCommand :: "('x, 's) privacy_env \<Rightarrow> bool \<Rightarrow> int \<Rightarrow> string \<Rightarrow> string \<Rightarrow> ('x, 's, dsr) privacy_run" where
  "RequestExportCommand E stopped now rid u w =
     (if stopped then (Inl EXPORT_ADMISSION_DISABLED, w) else in_unit (enqueue E now rid u) w)"

fun role_name :: "tenant_role \<Rightarrow> string" where
  "role_name OWNER = ''owner''" | "role_name ADMIN = ''admin''" | "role_name MEMBER = ''member''"

fun invitation_status_name :: "invitation_status \<Rightarrow> string" where
  "invitation_status_name Pending = ''pending''" | "invitation_status_name Accepted = ''accepted''"
| "invitation_status_name Revoked = ''revoked''"

text \<open>\<open>born\<close> and \<open>changed\<close>: the times of the account, which no other part of the model needs.\<close>

definition export_payload ::
  "('x, 's) privacy_env \<Rightarrow> int \<Rightarrow> int \<times> int \<Rightarrow> user \<Rightarrow> (organization \<times> tenant_role) list \<Rightarrow> invitation list \<Rightarrow> js \<times> bool \<Rightarrow> js" where
  "export_payload E now dates u accesses invites contributed =
     JObj [(''exportedAt'', JStr (pe_iso E now)), (''truncated'', JBool (snd contributed)),
       (''profile'', JObj [(''id'', JStr (us_id u)), (''email'', JStr (us_email u)), (''name'', JStr (us_name u)),
          (''role'', JStr (us_role u)), (''createdAt'', JStr (pe_iso E (fst dates))), (''updatedAt'', JStr (pe_iso E (snd dates)))]),
       (''memberships'', JArr (map (\<lambda>(g, r). JObj [(''organizationId'', JStr (og_id g)),
          (''organizationName'', JStr (og_name g)), (''role'', JStr (role_name r))]) accesses)),
       (''invitations'', JArr (map (\<lambda>i. JObj [(''organizationId'', JStr (iv_tenantId i)), (''email'', JStr (iv_email i)),
          (''role'', JStr (role_name (granted_role (iv_role i)))), (''status'', JStr (invitation_status_name (iv_status i)))]) invites)),
       (''modules'', fst contributed)]"

definition complete :: "('x, 's) privacy_env \<Rightarrow> int \<Rightarrow> dsr \<Rightarrow> js \<Rightarrow> bool \<Rightarrow> int \<Rightarrow> ('x, 's, dsr) privacy_run" where
  "complete E now r payload truncated expiresAt = in_unit (\<lambda>w.
     (case completeExport now (dq_id r) (dq_attempts r) payload truncated expiresAt (pw_requests w) of
        (None, _) \<Rightarrow> (Inl EXPORT_FAILED, w)
      | (Some r', rows) \<Rightarrow>
          (case dispatchGlobal E (ExportReady (dq_id r) (dq_subjectUserId r)) (w\<lparr>pw_requests := rows\<rparr>) of
             None \<Rightarrow> (Inl EXPORT_FAILED, w)
           | Some w' \<Rightarrow> (Inr r', w'))))"

definition process_export :: "('x, 's) privacy_env \<Rightarrow> int \<Rightarrow> int \<times> int \<Rightarrow> dsr \<Rightarrow> ('x, 's, dsr) privacy_run" where
  "process_export E now dates r w =
     (case findById (pw_accounts w) (dq_subjectUserId r) of
        None \<Rightarrow> (Inl EXPORT_FAILED, w)
      | Some u \<Rightarrow>
          (let accesses = collect_pages (us_id u) (pw_tenancy w) 1;
               tenantIds = js_add_all (map (og_id \<circ> fst) accesses) [];
               invites = listInvitationsByEmail (us_email u) MAX_INVITATIONS_PER_EMAIL (pw_tenancy w)
           in case exportSubject u tenantIds (pe_contributors E) (pw_modules w) of
                Inl _ \<Rightarrow> (Inl EXPORT_FAILED, w)
              | Inr contributed \<Rightarrow>
                  (let payload = export_payload E now dates u accesses invites contributed
                   in if EXPORT_MAX_PAYLOAD_BYTES < pe_bytes E payload then (Inl EXPORT_FAILED, w)
                      else complete E now r payload (snd contributed) (now + EXPORT_TTL_DAYS * 86400000) w)))"

definition processOne :: "('x, 's) privacy_env \<Rightarrow> int \<Rightarrow> int \<times> int \<Rightarrow> dsr \<Rightarrow> ('x, 's) privacy_world \<Rightarrow> ('x, 's) privacy_world" where
  "processOne E now dates r w =
     (case process_export E now dates r w of
        (Inr _, w') \<Rightarrow> w'
      | (Inl _, w') \<Rightarrow>
          w'\<lparr>pw_requests := snd (markExportAttemptFailed now (dq_id r) (dq_attempts r)
               (DSR_MAX_ATTEMPTS \<le> dq_attempts r) (pw_requests w'))\<rparr>)"

definition claim_exports :: "int \<Rightarrow> (dsr \<Rightarrow> bool) \<Rightarrow> ('x, 's) privacy_world \<Rightarrow> dsr list \<times> ('x, 's) privacy_world" where
  "claim_exports now busy w =
     (case claimExportBatch now busy EXPORT_BATCH_SIZE (snd (expireAbandonedExports now (pw_requests w))) of
        (batch, rows) \<Rightarrow> (batch, w\<lparr>pw_requests := rows\<rparr>))"

definition processBatch :: "('x, 's) privacy_env \<Rightarrow> int \<Rightarrow> (dsr \<Rightarrow> bool) \<Rightarrow> (string \<Rightarrow> int \<times> int) \<Rightarrow> ('x, 's) privacy_world \<Rightarrow> ('x, 's) privacy_world" where
  "processBatch E now busy dates w =
     (case claim_exports now busy w of
        (batch, w') \<Rightarrow> fold (\<lambda>r. processOne E now (dates (dq_subjectUserId r)) r) batch w')"

text \<open>A download. A zod schema is an argument: \<open>pe_parse\<close>.\<close>

definition DownloadExportQuery :: "('x, 's) privacy_env \<Rightarrow> int \<Rightarrow> string \<Rightarrow> string \<Rightarrow> ('x, 's, js) privacy_run" where
  "DownloadExportQuery E now rid u w =
     (case find (\<lambda>r. dq_id r = rid) (pw_requests w) of
        None \<Rightarrow> (Inl DSR_NOT_FOUND, w)
      | Some r \<Rightarrow>
          if dq_subjectUserId r \<noteq> u then (Inl DSR_FORBIDDEN, w)
          else if dq_type r \<noteq> EXPORT then (Inl DSR_NOT_FOUND, w)
          else (let downloadable = dq_status r = READY \<or> dq_status r = PARTIAL
                in if \<not> downloadable \<or> isExpired now r
                   then (Inl DSR_EXPIRED,
                         if downloadable
                         then w\<lparr>pw_requests := snd (dsr_updateById now rid (\<lambda>r. r\<lparr>dq_status := EXPIRED\<rparr>) (pw_requests w))\<rparr>
                         else w)
                   else (case dq_payload r of
                           None \<Rightarrow> (Inl DSR_EXPIRED, w)
                         | Some v \<Rightarrow> (case pe_parse E v of None \<Rightarrow> (Inl DSR_EXPIRED, w) | Some d \<Rightarrow> (Inr d, w)))))"


section \<open>Requests for erasure\<close>

definition GRACE_DAYS :: int where "GRACE_DAYS = 30"

definition erasure_plan :: "string list \<Rightarrow> js" where
  "erasure_plan ts = JObj [(''tenantIds'', JArr (map JStr ts))]"

definition account_erasure_persist ::
  "('x, 's) privacy_env \<Rightarrow> int \<Rightarrow> string \<Rightarrow> string \<Rightarrow> string \<Rightarrow> string \<Rightarrow> ('x, 's, dsr) privacy_run" where
  "account_erasure_persist E now rid u email hash w =
     (if findPendingErasureForSubject u (pw_requests w) \<noteq> None then (Inl ERASURE_ALREADY_REQUESTED, w)
      else if \<not> CanDeleteUserQuery (pe_single E) u now (pw_tenancy w) then (Inl LAST_OWNER_BLOCKED, w)
      else (let plan = collectTenantIds u (pw_tenancy w)
            in case incrementAuthVersion u (pw_accounts w) of
                 (None, _) \<Rightarrow> (Inl ERASURE_FAILED, w)
               | (Some _, accounts) \<Rightarrow>
                   (case AnonymizeUserCommand u hash accounts of
                      None \<Rightarrow> (Inl ERASURE_FAILED, w)
                    | Some accounts' \<Rightarrow>
                        (case nested_script (PurgeUserTenancyDataCommand u email) now (pw_tenancy w) of
                           (Inl _, _) \<Rightarrow> (Inl ERASURE_FAILED, w)
                         | (Inr _, tenancy) \<Rightarrow>
                             (case dsr_create now rid ACCOUNT_ERASURE u None (Some (erasure_plan plan))
                                     (now + GRACE_DAYS * 86400000) (pw_requests w) of
                                (r, rows) \<Rightarrow>
                                  (case dispatchGlobal E (AccountErasureRequested rid u)
                                          (w\<lparr>pw_accounts := accounts', pw_tenancy := tenancy, pw_requests := rows\<rparr>) of
                                     None \<Rightarrow> (Inl ERASURE_FAILED, w)
                                   | Some w' \<Rightarrow> (Inr r, w')))))))"

text \<open>\<open>t\<close>: the time of the session store, whose keys are read after the commit.\<close>

definition RequestAccountErasureCommand ::
  "('x, 's) privacy_env \<Rightarrow> int \<Rightarrow> int \<Rightarrow> string \<Rightarrow> string \<Rightarrow> string \<Rightarrow> string \<Rightarrow> ('x, 's, dsr) privacy_run" where
  "RequestAccountErasureCommand E t now rid hash u password w =
     (case findById (pw_accounts w) u of
        None \<Rightarrow> (Inl ERASURE_FAILED, w)
      | Some user \<Rightarrow>
          (case verify_user_credentials (pe_auth E) (pw_accounts w) (us_email user) password of
             None \<Rightarrow> (Inl INVALID_PASSWORD, w)
           | Some verified \<Rightarrow>
               if us_id verified \<noteq> u then (Inl INVALID_PASSWORD, w)
               else (case in_unit (account_erasure_persist E now rid u (us_email verified) hash) w of
                       (Inl e, w') \<Rightarrow> (Inl e, w')
                     | (Inr r, w') \<Rightarrow>
                         (Inr r, w'\<lparr>pw_sessions := revokeAllForUser (aw_db (pe_auth E)) (aw_connected (pe_auth E)) t u (pw_sessions w')\<rparr>))))"

text \<open>The search for the organization over the pages: the first match.\<close>

definition findAccess :: "string \<Rightarrow> string \<Rightarrow> tn_db \<Rightarrow> (organization \<times> tenant_role) option" where
  "findAccess u t db = find (\<lambda>(g, _). og_id g = t) (collect_pages u db 1)"

definition organization_erasure_persist ::
  "('x, 's) privacy_env \<Rightarrow> int \<Rightarrow> string \<Rightarrow> string \<Rightarrow> string \<Rightarrow> string \<Rightarrow> ('x, 's, dsr) privacy_run" where
  "organization_erasure_persist E now rid u t confirmationName w =
     (case findAccess u t (pw_tenancy w) of
        None \<Rightarrow> (Inl ORG_ERASE_FORBIDDEN, w)
      | Some (g, role) \<Rightarrow>
          if role \<noteq> OWNER then (Inl ORG_ERASE_FORBIDDEN, w)
          else if og_name g \<noteq> confirmationName then (Inl INVALID_CONFIRMATION, w)
          else (case nested_script (DeleteOrganizationDataCommand t) now (pw_tenancy w) of
                  (Inl _, _) \<Rightarrow> (Inl ERASURE_FAILED, w)
                | (Inr _, tenancy) \<Rightarrow>
                    (case dsr_create now rid ORGANIZATION_ERASURE u (Some t) None (now + GRACE_DAYS * 86400000) (pw_requests w) of
                       (r, rows) \<Rightarrow>
                         (case dispatchGlobal E (OrganizationErasureRequested rid t u)
                                 (w\<lparr>pw_tenancy := tenancy, pw_requests := rows\<rparr>) of
                            None \<Rightarrow> (Inl ERASURE_FAILED, w)
                          | Some w' \<Rightarrow> (Inr r, w')))))"

definition RequestOrganizationErasureCommand ::
  "('x, 's) privacy_env \<Rightarrow> int \<Rightarrow> string \<Rightarrow> string \<Rightarrow> string \<Rightarrow> string \<Rightarrow> ('x, 's, dsr) privacy_run" where
  "RequestOrganizationErasureCommand E now rid u t confirmationName w =
     in_unit (organization_erasure_persist E now rid u t confirmationName) w"

section \<open>Erasure after the grace period\<close>

definition PURGE_BATCH_LIMIT :: nat where "PURGE_BATCH_LIMIT = 100"

datatype purge_outcome = Fulfilled | Retry | Failed_request

definition plan_id :: "js \<Rightarrow> bool" where
  "plan_id v \<longleftrightarrow> (case v of JStr s \<Rightarrow> s \<noteq> [] | _ \<Rightarrow> False)"

definition readTenantPlan :: "js option \<Rightarrow> string list option" where
  "readTenantPlan payload =
     (case payload of
        Some (JObj fs) \<Rightarrow>
          (case js_get (JObj fs) ''tenantIds'' of
             JArr vs \<Rightarrow> if list_all plan_id vs then Some (js_add_all (List.map_filter js_string vs) []) else None
           | _ \<Rightarrow> None)
      | _ \<Rightarrow> None)"

definition markFailed :: "int \<Rightarrow> dsr \<Rightarrow> ('x, 's) privacy_world \<Rightarrow> ('x, 's) privacy_world" where
  "markFailed now r w =
     w\<lparr>pw_requests := snd (updateClaimed now (dq_id r) (dq_attempts r) (settle now FAILED) (pw_requests w))\<rparr>"

text \<open>The last transaction of an account: \<open>Inr False\<close> is \<open>ok("failed")\<close>.\<close>

definition finalize_account :: "('x, 's) privacy_env \<Rightarrow> int \<Rightarrow> dsr \<Rightarrow> ('x, 's, bool) privacy_run" where
  "finalize_account E now r w =
     (case DeleteUserCommand (pe_single E) now (dq_subjectUserId r) (pe_userDispatch E (dq_subjectUserId r))
             (pw_tenancy w) (pw_accounts w) of
        (Inl UserOwnsOrganization, _) \<Rightarrow> (Inr False, w)
      | (Inl UserEventDispatchFailed, _) \<Rightarrow> (Inl PURGE_FAILED, w)
      | (_, accounts) \<Rightarrow>
          (case updateClaimed now (dq_id r) (dq_attempts r) (settle now FULFILLED) (pw_requests w) of
             (None, _) \<Rightarrow> (Inl PURGE_FAILED, w)
           | (Some _, rows) \<Rightarrow>
               (case dispatchGlobal E (AccountPurged (dq_id r) (dq_subjectUserId r))
                       (w\<lparr>pw_accounts := accounts, pw_requests := rows\<rparr>) of
                  None \<Rightarrow> (Inl PURGE_FAILED, w)
                | Some w' \<Rightarrow> (Inr True, w'))))"

definition fulfillAccount :: "('x, 's) privacy_env \<Rightarrow> int \<Rightarrow> dsr \<Rightarrow> ('x, 's) privacy_world \<Rightarrow> purge_outcome \<times> ('x, 's) privacy_world" where
  "fulfillAccount E now r w =
     (case readTenantPlan (dq_payload r) of
        None \<Rightarrow> (Failed_request, w)
      | Some plan \<Rightarrow>
          (case purgeSubject (dq_subjectUserId r) plan (pe_contributors E) (pw_modules w) of
             (Inl _, x) \<Rightarrow> (Retry, w\<lparr>pw_modules := x\<rparr>)
           | (Inr _, x) \<Rightarrow>
               (case in_unit (finalize_account E now r) (w\<lparr>pw_modules := x\<rparr>) of
                  (Inl _, w') \<Rightarrow> (Retry, w')
                | (Inr done, w') \<Rightarrow> if done then (Fulfilled, w') else (Failed_request, markFailed now r w'))))"

definition finalize_organization :: "('x, 's) privacy_env \<Rightarrow> int \<Rightarrow> dsr \<Rightarrow> string \<Rightarrow> ('x, 's, unit) privacy_run" where
  "finalize_organization E now r t w =
     (case nested_script (HardDeleteOrganizationCommand t) now (pw_tenancy w) of
        (Inl _, _) \<Rightarrow> (Inl PURGE_FAILED, w)
      | (Inr _, tenancy) \<Rightarrow>
          (case updateClaimed now (dq_id r) (dq_attempts r) (settle now FULFILLED) (pw_requests w) of
             (None, _) \<Rightarrow> (Inl PURGE_FAILED, w)
           | (Some _, rows) \<Rightarrow>
               (case dispatchGlobal E (OrganizationPurged (dq_id r) t) (w\<lparr>pw_tenancy := tenancy, pw_requests := rows\<rparr>) of
                  None \<Rightarrow> (Inl PURGE_FAILED, w)
                | Some w' \<Rightarrow> (Inr (), w'))))"

definition fulfillOrganization ::
  "('x, 's) privacy_env \<Rightarrow> int \<Rightarrow> dsr \<Rightarrow> ('x, 's) privacy_world \<Rightarrow> purge_outcome \<times> ('x, 's) privacy_world" where
  "fulfillOrganization E now r w =
     (case dq_tenantId r of
        None \<Rightarrow> (Failed_request, markFailed now r w)
      | Some t \<Rightarrow>
          (case purgeTenant t (pe_contributors E) (pw_modules w) of
             (Inl _, x) \<Rightarrow> (Retry, w\<lparr>pw_modules := x\<rparr>)
           | (Inr _, x) \<Rightarrow>
               (case in_unit (finalize_organization E now r t) (w\<lparr>pw_modules := x\<rparr>) of
                  (Inl _, w') \<Rightarrow> (Retry, w')
                | (Inr _, w') \<Rightarrow> (Fulfilled, w'))))"

definition fulfillRequest ::
  "('x, 's) privacy_env \<Rightarrow> int \<Rightarrow> dsr \<Rightarrow> ('x, 's) privacy_world \<Rightarrow> purge_outcome \<times> ('x, 's) privacy_world" where
  "fulfillRequest E now r w =
     (if dq_type r = ACCOUNT_ERASURE
      then (case fulfillAccount E now r w of
              (Failed_request, w') \<Rightarrow> (Failed_request, markFailed now r w')
            | (out, w') \<Rightarrow> (out, w'))
      else if dq_type r = ORGANIZATION_ERASURE \<and> dq_tenantId r \<notin> {None, Some []} then fulfillOrganization E now r w
      else (Failed_request, markFailed now r w))"

text \<open>One round of the loop over the claimed batch.\<close>

definition purge_one :: "('x, 's) privacy_env \<Rightarrow> int \<Rightarrow> dsr \<Rightarrow> ('x, 's) privacy_world \<Rightarrow> ('x, 's) privacy_world" where
  "purge_one E now r w =
     (case fulfillRequest E now r w of
        (Retry, w') \<Rightarrow> if DSR_MAX_ATTEMPTS \<le> dq_attempts r then markFailed now r w' else w'
      | (_, w') \<Rightarrow> w')"

definition scrub_one :: "int \<Rightarrow> dsr \<Rightarrow> ('x, 's) privacy_world \<Rightarrow> ('x, 's) privacy_world" where
  "scrub_one now r w =
     w\<lparr>pw_requests := snd (dsr_updateById now (dq_id r) (\<lambda>r. r\<lparr>dq_status := EXPIRED, dq_payload := None\<rparr>) (pw_requests w))\<rparr>"

definition scrubExpiredExports :: "int \<Rightarrow> ('x, 's) privacy_world \<Rightarrow> ('x, 's) privacy_world" where
  "scrubExpiredExports now w = fold (scrub_one now) (findExpiredExportBatch now PURGE_BATCH_LIMIT (pw_requests w)) w"

definition claim_erasures :: "int \<Rightarrow> (dsr \<Rightarrow> bool) \<Rightarrow> ('x, 's) privacy_world \<Rightarrow> dsr list \<times> ('x, 's) privacy_world" where
  "claim_erasures now busy w =
     (case claimExpiredErasureBatch now busy PURGE_BATCH_LIMIT (pw_requests w) of
        (batch, rows) \<Rightarrow> (batch, w\<lparr>pw_requests := rows\<rparr>))"

definition PurgeExpiredErasuresCommand ::
  "('x, 's) privacy_env \<Rightarrow> int \<Rightarrow> (dsr \<Rightarrow> bool) \<Rightarrow> ('x, 's) privacy_world \<Rightarrow> ('x, 's) privacy_world" where
  "PurgeExpiredErasuresCommand E now busy w =
     (case claim_erasures now busy w of
        (batch, w') \<Rightarrow> scrubExpiredExports now (fold (purge_one E now) batch w'))"

end
