(* ===== verification/PrivacyRows.thy ===== *)
theory PrivacyRows
  imports Privacy
begin

text \<open>
  What a transaction of the privacy module may do to the table of requests and to the outbox:
  a relation on rows and events, and the proof that every command and worker stays within it.
  The properties of the module are proved for the relation.
\<close>

section \<open>Changes of one row\<close>

definition minor_step :: "int \<Rightarrow> dsr \<Rightarrow> dsr \<Rightarrow> bool" where
  "minor_step now r r' \<longleftrightarrow>
     r' = r \<or>
     ((export_candidate now r \<or> erasure_candidate now r) \<and> r' = claimed now r) \<or>
     (dq_status r = PROCESSING \<and> r' = settle now FAILED r) \<or>
     (dq_status r = PROCESSING \<and> dq_type r = EXPORT \<and> unexpired now r \<and> dq_attempts r < DSR_MAX_ATTEMPTS \<and>
        r' = settle now REQUESTED r) \<or>
     (dq_type r = EXPORT \<and> dq_status r \<in> {REQUESTED, PROCESSING} \<and> r' = settle now EXPIRED r) \<or>
     (dq_type r = EXPORT \<and> dq_status r \<in> {READY, PARTIAL, EXPIRED} \<and>
        (\<exists>p. r' = r\<lparr>dq_status := EXPIRED, dq_payload := p, dq_updatedAt := now\<rparr>))"

definition major_step :: "int \<Rightarrow> dsr \<Rightarrow> dsr \<Rightarrow> bool" where
  "major_step now r r' \<longleftrightarrow>
     dq_status r = PROCESSING \<and>
     ((dq_type r = EXPORT \<and> unexpired now r \<and>
        (\<exists>st p e. st \<in> {READY, PARTIAL} \<and>
           r' = r\<lparr>dq_status := st, dq_payload := p, dq_expiresAt := Some e, dq_lockedAt := None, dq_updatedAt := now\<rparr>)) \<or>
      (is_erasure r \<and> r' = settle now FULFILLED r))"

definition starts_request :: "int \<Rightarrow> dsr \<Rightarrow> bool" where
  "starts_request now r \<longleftrightarrow> dq_status r = REQUESTED \<and> dq_attempts r = 0 \<and> dq_lockedAt r = None \<and>
     dq_expiresAt r \<noteq> None \<and> dq_createdAt r = now"

fun completes :: "privacy_event \<Rightarrow> string option" where
  "completes (ExportReady i u) = Some i"
| "completes (AccountPurged i u) = Some i"
| "completes (OrganizationPurged i t) = Some i"
| "completes e = None"

definition completions :: "string \<Rightarrow> privacy_event list \<Rightarrow> nat" where
  "completions i evs = length (filter (\<lambda>e. completes e = Some i) evs)"

definition no_active :: "int \<Rightarrow> string \<Rightarrow> dsr list \<Rightarrow> bool" where
  "no_active now u rows \<longleftrightarrow> (\<forall>r\<in>set rows. \<not> active_export now u r)"

text \<open>\<open>U\<close> are the users for whom an export may be opened, as they hold the lock.\<close>

inductive dsr_trans :: "int \<Rightarrow> string set \<Rightarrow> dsr list \<times> privacy_event list \<Rightarrow> dsr list \<times> privacy_event list \<Rightarrow> bool" for now U where
  minor: "(\<And>r. r \<in> set rows \<Longrightarrow> minor_step now r (f r)) \<Longrightarrow> dsr_trans now U (rows, evs) (map f rows, evs)"
| major: "r \<in> set rows \<Longrightarrow> major_step now r r' \<Longrightarrow> completes e = Some (dq_id r) \<Longrightarrow>
            dsr_trans now U (rows, evs) (map (\<lambda>x. if dq_id x = dq_id r then r' else x) rows, evs @ [e])"
| opens: "dq_id r \<notin> dq_id ` set rows \<Longrightarrow> starts_request now r \<Longrightarrow>
            (dq_type r = EXPORT \<Longrightarrow> no_active now (dq_subjectUserId r) rows \<and> dq_subjectUserId r \<in> U) \<Longrightarrow> completes e = None \<Longrightarrow>
            dsr_trans now U (rows, evs) (rows @ [r], evs @ [e])"

abbreviation dsr_evolves :: "int \<Rightarrow> string set \<Rightarrow> dsr list \<times> privacy_event list \<Rightarrow> dsr list \<times> privacy_event list \<Rightarrow> bool" where
  "dsr_evolves now U \<equiv> (dsr_trans now U)\<^sup>*\<^sup>*"

definition stage :: "('x, 's) privacy_world \<Rightarrow> dsr list \<times> privacy_event list" where
  "stage w = (pw_requests w, pw_events w)"

definition ids_ok :: "dsr list \<Rightarrow> bool" where
  "ids_ok rows \<longleftrightarrow> distinct (map dq_id rows)"

text \<open>A claim held by a worker belongs to a row of the same type.\<close>

definition held :: "dsr \<Rightarrow> dsr list \<Rightarrow> bool" where
  "held r rows \<longleftrightarrow> (\<exists>x\<in>set rows. dq_id x = dq_id r \<and> dq_type x = dq_type r)"

lemma settle_fields [simp]:
  "dq_id (settle now st r) = dq_id r" "dq_type (settle now st r) = dq_type r" "dq_status (settle now st r) = st"
  "dq_attempts (settle now st r) = dq_attempts r" "dq_subjectUserId (settle now st r) = dq_subjectUserId r"
  "dq_expiresAt (settle now st r) = dq_expiresAt r" "dq_lockedAt (settle now st r) = None"
  "(settle now st r)\<lparr>dq_updatedAt := now\<rparr> = settle now st r"
  by (simp_all add: settle_def)

lemma claimed_fields [simp]:
  "dq_id (claimed now r) = dq_id r" "dq_type (claimed now r) = dq_type r" "dq_status (claimed now r) = PROCESSING"
  "dq_attempts (claimed now r) = Suc (dq_attempts r)" "dq_subjectUserId (claimed now r) = dq_subjectUserId r"
  "dq_expiresAt (claimed now r) = dq_expiresAt r" "dq_lockedAt (claimed now r) = Some now"
  by (simp_all add: claimed_def)

lemma minor_fields:
  "minor_step now r r' \<Longrightarrow> dq_id r' = dq_id r \<and> dq_type r' = dq_type r \<and> dq_subjectUserId r' = dq_subjectUserId r \<and>
     dq_expiresAt r' = dq_expiresAt r"
  by (auto simp: minor_step_def)

lemma major_fields: "major_step now r r' \<Longrightarrow> dq_id r' = dq_id r \<and> dq_type r' = dq_type r \<and> dq_subjectUserId r' = dq_subjectUserId r"
  by (auto simp: major_step_def)

lemma minor_refl [simp]: "minor_step now r r"
  by (simp add: minor_step_def)

lemma ids_inj: "ids_ok rows \<Longrightarrow> x \<in> set rows \<Longrightarrow> y \<in> set rows \<Longrightarrow> dq_id x = dq_id y \<Longrightarrow> x = y"
  unfolding ids_ok_def distinct_map by (blast dest: inj_onD)

lemma held_type: "held r rows \<Longrightarrow> ids_ok rows \<Longrightarrow> x \<in> set rows \<Longrightarrow> dq_id x = dq_id r \<Longrightarrow> dq_type x = dq_type r"
  using ids_inj unfolding held_def by metis

lemma trans_ids: "dsr_trans now U a b \<Longrightarrow> ids_ok (fst a) \<Longrightarrow> ids_ok (fst b)"
proof (induction rule: dsr_trans.induct)
  case (minor rows f evs)
  have "map dq_id (map f rows) = map dq_id rows" using minor_fields[OF minor.hyps] by simp
  then show ?case using minor.prems by (simp add: ids_ok_def del: map_map)
next
  case (major r rows r' e evs)
  have "map dq_id (map (\<lambda>x. if dq_id x = dq_id r then r' else x) rows) = map dq_id rows"
    using major_fields[OF major.hyps(2)] by simp
  then show ?case using major.prems by (simp add: ids_ok_def del: map_map)
qed (auto simp: ids_ok_def)

lemma trans_held: "dsr_trans now U a b \<Longrightarrow> ids_ok (fst a) \<Longrightarrow> held r (fst a) \<Longrightarrow> held r (fst b)"
proof (induction rule: dsr_trans.induct)
  case (minor rows f evs)
  then show ?case using minor_fields by (force simp: held_def)
next
  case (major x rows x' e evs)
  obtain y where y: "y \<in> set rows" "dq_id y = dq_id r" "dq_type y = dq_type r" using major.prems by (auto simp: held_def)
  show ?case
  proof (cases "dq_id y = dq_id x")
    case True
    then have "y = x" using ids_inj y(1) major.hyps(1) major.prems(1) by auto
    then have "dq_id x' = dq_id r" "dq_type x' = dq_type r" using major_fields[OF major.hyps(2)] y by simp_all
    moreover have "x' \<in> set (map (\<lambda>z. if dq_id z = dq_id x then x' else z) rows)" using y(1) True by force
    ultimately show ?thesis by (auto simp only: held_def fst_conv)
  next
    case False
    then show ?thesis using y by (auto simp: held_def)
  qed
qed (auto simp: held_def)

lemma evolves_ids: "dsr_evolves now U a b \<Longrightarrow> ids_ok (fst a) \<Longrightarrow> ids_ok (fst b)"
  by (induction rule: rtranclp_induct) (auto intro: trans_ids)

lemma evolves_held: "dsr_evolves now U a b \<Longrightarrow> ids_ok (fst a) \<Longrightarrow> held r (fst a) \<Longrightarrow> held r (fst b)"
  by (induction rule: rtranclp_induct) (auto intro: trans_held evolves_ids)

section \<open>Statements\<close>

lemma update_minor:
  assumes "\<And>r. r \<in> set rows \<Longrightarrow> P r \<Longrightarrow> minor_step now r (f r)"
  shows "dsr_trans now U (rows, evs) (update_dsrs P f rows, evs)"
  unfolding update_dsrs_def by (rule dsr_trans.minor) (use assms in auto)

lemma claim_trans:
  assumes "\<And>r. exhausted r \<Longrightarrow> dq_status r = PROCESSING"
    and "\<And>r. candidate r \<Longrightarrow> export_candidate now r \<or> erasure_candidate now r"
    and ord: "\<And>xs. set (ordered xs) \<subseteq> set xs" and ids: "ids_ok rows"
    and c: "claim_batch now exhausted candidate ordered busy limit rows = (batch, rows')"
  shows "dsr_trans now U (rows, evs) (rows', evs)" "\<forall>r\<in>set batch. r \<in> set rows'"
    "\<forall>r\<in>set batch. \<exists>x\<in>set rows. candidate x \<and> r = claimed now x"
proof -
  define I where "I = set (map dq_id (take limit (ordered (filter (\<lambda>r. candidate r \<and> \<not> busy r) rows))))"
  define f where "f = (\<lambda>r. if dq_id r \<in> I then claimed now r else if exhausted r then settle now FAILED r else r)"
  have "claim_batch now exhausted candidate ordered busy limit rows = (filter (\<lambda>r. dq_id r \<in> I) (map f rows), map f rows)"
    unfolding claim_batch_def Let_def I_def f_def by (rule refl)
  then have rows': "rows' = map f rows" and batch: "batch = filter (\<lambda>r. dq_id r \<in> I) rows'" using c by simp_all
  have cand: "candidate r" if r: "r \<in> set rows" "dq_id r \<in> I" for r
  proof -
    obtain x where "x \<in> set (filter (\<lambda>r. candidate r \<and> \<not> busy r) rows)" "dq_id x = dq_id r"
      using r(2) ord in_set_takeD unfolding I_def by force
    then show ?thesis using ids_inj[OF ids _ r(1)] by auto
  qed
  have "minor_step now r (f r)" if "r \<in> set rows" for r
    using assms(1)[of r] assms(2)[of r] cand[OF that] by (auto simp: f_def minor_step_def)
  then show "dsr_trans now U (rows, evs) (rows', evs)" unfolding rows' by (rule dsr_trans.minor)
  show "\<forall>r\<in>set batch. r \<in> set rows'" using batch by simp
  show "\<forall>r\<in>set batch. \<exists>x\<in>set rows. candidate x \<and> r = claimed now x"
  proof
    fix r assume "r \<in> set batch"
    then obtain x where x: "x \<in> set rows" "r = f x" "dq_id (f x) \<in> I" by (auto simp: batch rows')
    have "dq_id (f x) = dq_id x" by (simp add: f_def)
    then show "\<exists>x\<in>set rows. candidate x \<and> r = claimed now x" using x cand by (auto simp: f_def)
  qed
qed

lemma sort_key_subset: "set (sort_key f xs) \<subseteq> set xs"
  by simp

lemma erasure_order_subset: "set (erasure_order xs) \<subseteq> set xs"
  by (simp add: erasure_order_def)

lemma claimExport_trans:
  assumes "ids_ok rows" "claimExportBatch now busy limit rows = (batch, rows')"
  shows "dsr_trans now U (rows, evs) (rows', evs)" "\<forall>r\<in>set batch. r \<in> set rows' \<and> dq_type r = EXPORT"
  using claim_trans[OF _ _ sort_key_subset assms(1) assms(2)[unfolded claimExportBatch_def]]
  by (auto simp: export_exhausted_def export_candidate_def)

lemma claimErasure_trans:
  assumes "ids_ok rows" "claimExpiredErasureBatch now busy limit rows = (batch, rows')"
  shows "dsr_trans now U (rows, evs) (rows', evs)" "\<forall>r\<in>set batch. r \<in> set rows' \<and> is_erasure r"
  using claim_trans[OF _ _ erasure_order_subset assms(1) assms(2)[unfolded claimExpiredErasureBatch_def]]
  by (auto simp: erasure_exhausted_def erasure_candidate_def is_erasure_def)

lemma expire_trans: "dsr_trans now U (rows, evs) (snd (expireAbandonedExports now rows), evs)"
  unfolding expireAbandonedExports_def Let_def snd_conv by (rule update_minor) (auto simp: minor_step_def)

text \<open>A fenced update reaches at most the row of the claim.\<close>

lemma updateClaimed_trans:
  assumes "held r rows" "ids_ok rows"
    and "\<And>x. dq_id x = dq_id r \<Longrightarrow> dq_type x = dq_type r \<Longrightarrow> dq_status x = PROCESSING \<Longrightarrow> dq_attempts x = dq_attempts r \<Longrightarrow>
      (dq_type x = EXPORT \<Longrightarrow> unexpired now x) \<Longrightarrow> minor_step now x ((patch x)\<lparr>dq_updatedAt := now\<rparr>)"
  shows "dsr_trans now U (rows, evs) (snd (updateClaimed now (dq_id r) (dq_attempts r) patch rows), evs)"
  unfolding updateClaimed_def Let_def snd_conv
proof (rule update_minor)
  fix x assume x: "x \<in> set rows" "dq_id x = dq_id r \<and> dq_status x = PROCESSING \<and> dq_attempts x = dq_attempts r \<and>
      (dq_type x \<noteq> EXPORT \<or> unexpired now x)"
  then have "dq_type x = dq_type r" using held_type[OF assms(1,2) x(1)] by blast
  then show "minor_step now x ((patch x)\<lparr>dq_updatedAt := now\<rparr>)" using assms(3) x(2) by blast
qed

lemma updateClaimed_major:
  assumes "held r rows" "ids_ok rows" "updateClaimed now (dq_id r) (dq_attempts r) patch rows = (Some r', rows')"
    and "\<And>x. dq_id x = dq_id r \<Longrightarrow> dq_type x = dq_type r \<Longrightarrow> dq_status x = PROCESSING \<Longrightarrow>
      (dq_type x = EXPORT \<Longrightarrow> unexpired now x) \<Longrightarrow> major_step now x ((patch x)\<lparr>dq_updatedAt := now\<rparr>)"
    and "completes e = Some (dq_id r)"
  shows "dsr_trans now U (rows, evs) (rows', evs @ [e])"
proof -
  let ?P = "\<lambda>x. dq_id x = dq_id r \<and> dq_status x = PROCESSING \<and> dq_attempts x = dq_attempts r \<and>
      (dq_type x \<noteq> EXPORT \<or> unexpired now x)"
  let ?f = "\<lambda>x. (patch x)\<lparr>dq_updatedAt := now\<rparr>"
  obtain x where find: "find ?P rows = Some x" and rows': "rows' = update_dsrs ?P ?f rows"
    using assms(3) by (auto simp: updateClaimed_def Let_def)
  have x: "x \<in> set rows" "?P x" using find by (auto simp: find_Some_iff)
  have ty: "dq_type x = dq_type r" using held_type[OF assms(1,2) x(1)] x(2) by blast
  have "rows' = map (\<lambda>y. if dq_id y = dq_id x then ?f x else y) rows"
    unfolding rows' update_dsrs_def
  proof (rule map_cong[OF refl])
    fix y assume y: "y \<in> set rows"
    show "(if ?P y then ?f y else y) = (if dq_id y = dq_id x then ?f x else y)"
    proof (cases "dq_id y = dq_id x")
      case True
      then have "y = x" by (rule ids_inj[OF assms(2) y x(1)])
      then show ?thesis using x(2) by simp
    qed (use x(2) in simp)
  qed
  moreover have "major_step now x (?f x)" using assms(4)[of x] x(2) ty by blast
  ultimately show ?thesis using dsr_trans.major[OF x(1), where now = now and U = U and r' = "?f x" and e = e and evs = evs] assms(5) x(2) by simp
qed


section \<open>Well-formed requests\<close>

definition dsr_ok :: "int \<Rightarrow> dsr \<Rightarrow> bool" where
  "dsr_ok now r \<longleftrightarrow> dq_attempts r \<le> DSR_MAX_ATTEMPTS \<and>
     (dq_status r = PROCESSING \<longrightarrow> 0 < dq_attempts r \<and> (\<exists>t. dq_lockedAt r = Some t \<and> t \<le> now)) \<and>
     (dq_status r \<in> {READY, PARTIAL, EXPIRED} \<longrightarrow> dq_type r = EXPORT) \<and>
     (dq_status r = FULFILLED \<longrightarrow> is_erasure r) \<and>
     (is_erasure r \<longrightarrow> dq_status r = REQUESTED \<longrightarrow> dq_attempts r = 0) \<and> dq_expiresAt r \<noteq> None"

lemma is_erasure_iff: "is_erasure r \<longleftrightarrow> dq_type r \<noteq> EXPORT"
  by (cases "dq_type r") (simp_all add: is_erasure_def)

lemma minor_ok: "dsr_ok now r \<Longrightarrow> minor_step now r r' \<Longrightarrow> dsr_ok now r'"
  unfolding minor_step_def dsr_ok_def
  by (elim disjE conjE exE) (simp_all add: is_erasure_iff export_candidate_def erasure_candidate_def DSR_MAX_ATTEMPTS_def)

lemma major_ok: "dsr_ok now r \<Longrightarrow> major_step now r r' \<Longrightarrow> dsr_ok now r'"
  unfolding major_step_def dsr_ok_def
  by (elim disjE conjE exE) (auto simp: is_erasure_iff)


section \<open>Commands and workers\<close>

lemma stage_updates [simp]:
  "stage (w\<lparr>pw_modules := x\<rparr>) = stage w" "stage (w\<lparr>pw_tenancy := d\<rparr>) = stage w" "stage (w\<lparr>pw_accounts := a\<rparr>) = stage w"
  "stage (w\<lparr>pw_sessions := ss\<rparr>) = stage w" "stage (w\<lparr>pw_requests := rows\<rparr>) = (rows, pw_events w)"
  by (simp_all add: stage_def)

lemma fst_stage [simp]: "fst (stage w) = pw_requests w" "snd (stage w) = pw_events w"
  by (simp_all add: stage_def)

lemma in_unit_evolves:
  assumes "\<And>v w'. f w = (Inr v, w') \<Longrightarrow> dsr_evolves now U (stage w) (stage w')"
  shows "dsr_evolves now U (stage w) (stage (snd (in_unit f w)))"
  using assms by (auto simp: in_unit_def split: prod.split sum.split)

lemma dispatch_Some: "dispatchGlobal E ev w = Some w' \<Longrightarrow> w' = w\<lparr>pw_events := pw_events w @ [ev]\<rparr>"
  by (auto simp: dispatchGlobal_def split: if_splits)

lemma create_trans:
  assumes "rid \<notin> dq_id ` set rows" "ty = EXPORT \<Longrightarrow> no_active now u rows \<and> u \<in> U" "completes e = None"
    and "dsr_create now rid ty u t p exp rows = (r, rows')"
  shows "dsr_trans now U (rows, evs) (rows', evs @ [e])"
  using assms by (auto simp: dsr_create_def Let_def starts_request_def intro!: dsr_trans.opens)

lemma enqueue_create_evolves:
  assumes "rid \<notin> dq_id ` set (pw_requests w)" "no_active now u (pw_requests w)" "u \<in> U"
  shows "dsr_evolves now U (stage w) (stage (snd (enqueue_create E now rid u w)))"
  using assms
  by (auto simp: enqueue_create_def stage_def split: prod.split option.split dest!: dispatch_Some
      intro!: r_into_rtranclp create_trans)

lemma complete_evolves:
  assumes "held r (pw_requests w)" "ids_ok (pw_requests w)" "dq_type r = EXPORT"
  shows "dsr_evolves now U (stage w) (stage (snd (complete E now r payload truncated expiresAt w)))"
  unfolding complete_def
proof (rule in_unit_evolves)
  fix v w'
  assume "(case completeExport now (dq_id r) (dq_attempts r) payload truncated expiresAt (pw_requests w) of
        (None, _) \<Rightarrow> (Inl EXPORT_FAILED, w)
      | (Some r', rows) \<Rightarrow>
          (case dispatchGlobal E (ExportReady (dq_id r) (dq_subjectUserId r)) (w\<lparr>pw_requests := rows\<rparr>) of
             None \<Rightarrow> (Inl EXPORT_FAILED, w) | Some w' \<Rightarrow> (Inr r', w'))) = (Inr v, w')"
  then obtain r' rows where c: "completeExport now (dq_id r) (dq_attempts r) payload truncated expiresAt (pw_requests w) = (Some r', rows)"
    and w': "stage w' = (rows, pw_events w @ [ExportReady (dq_id r) (dq_subjectUserId r)])"
    by (auto simp: stage_def split: prod.splits option.splits dest!: dispatch_Some)
  have "dsr_trans now U (stage w) (stage w')"
    unfolding stage_def[of w] w'
    by (rule updateClaimed_major[OF assms(1,2) c[unfolded completeExport_def]]) (use assms(3) in \<open>auto simp: major_step_def\<close>)
  then show "dsr_evolves now U (stage w) (stage w')" by blast
qed

lemma process_evolves:
  assumes "held r (pw_requests w)" "ids_ok (pw_requests w)" "dq_type r = EXPORT"
  shows "dsr_evolves now U (stage w) (stage (snd (process_export E now dates r w)))"
  using complete_evolves[OF assms] by (auto simp: process_export_def Let_def split: option.split sum.split)

lemma updated_evolves:
  assumes "dsr_evolves now U (stage w) (stage w')" "held r (pw_requests w)" "ids_ok (pw_requests w)"
    and "\<And>rows evs. held r rows \<Longrightarrow> ids_ok rows \<Longrightarrow> dsr_trans now U (rows, evs) (snd (updateClaimed now (dq_id r) (dq_attempts r) patch rows), evs)"
  shows "dsr_evolves now U (stage w) (stage (w'\<lparr>pw_requests := snd (updateClaimed now (dq_id r) (dq_attempts r) patch (pw_requests w'))\<rparr>))"
proof -
  have "held r (pw_requests w')" "ids_ok (pw_requests w')"
    using evolves_held[OF assms(1)] evolves_ids[OF assms(1)] assms(2,3) by simp_all
  then have "dsr_trans now U (stage w') (stage (w'\<lparr>pw_requests := snd (updateClaimed now (dq_id r) (dq_attempts r) patch (pw_requests w'))\<rparr>))"
    using assms(4) by (simp add: stage_def)
  then show ?thesis using assms(1) by simp
qed

lemma failed_attempt_evolves:
  assumes "dsr_evolves now U (stage w) (stage w')" "held r (pw_requests w)" "ids_ok (pw_requests w)" "dq_type r = EXPORT"
  shows "dsr_evolves now U (stage w) (stage (w'\<lparr>pw_requests := snd (markExportAttemptFailed now (dq_id r) (dq_attempts r)
             (DSR_MAX_ATTEMPTS \<le> dq_attempts r) (pw_requests w'))\<rparr>))"
  unfolding markExportAttemptFailed_def
  by (rule updated_evolves[OF assms(1,2,3)], rule updateClaimed_trans, assumption+)
    (use assms(4) in \<open>auto simp: minor_step_def\<close>)

lemma processOne_evolves:
  assumes "held r (pw_requests w)" "ids_ok (pw_requests w)" "dq_type r = EXPORT"
  shows "dsr_evolves now U (stage w) (stage (processOne E now dates r w))"
proof -
  note p = process_evolves[OF assms, where E = E and now = now and U = U and dates = dates]
  show ?thesis using p failed_attempt_evolves[OF p assms]
    by (auto simp: processOne_def split: prod.split sum.split)
qed

lemma markFailed_evolves:
  assumes "dsr_evolves now U (stage w) (stage w')" "held r (pw_requests w)" "ids_ok (pw_requests w)"
  shows "dsr_evolves now U (stage w) (stage (markFailed now r w'))"
  unfolding markFailed_def
  by (rule updated_evolves[OF assms], rule updateClaimed_trans, assumption+) (simp add: minor_step_def)

lemma finalize_account_evolves:
  assumes "held r (pw_requests w)" "ids_ok (pw_requests w)" "is_erasure r" "finalize_account E now r w = (Inr v, w')"
  shows "dsr_evolves now U (stage w) (stage w')"
proof -
  have big: "dsr_trans now U (pw_requests w, pw_events w) (rows, pw_events w @ [AccountPurged (dq_id r) (dq_subjectUserId r)])"
    if "updateClaimed now (dq_id r) (dq_attempts r) (settle now FULFILLED) (pw_requests w) = (Some r', rows)" for r' rows
    by (rule updateClaimed_major[OF assms(1,2) that]) (use assms(3) in \<open>auto simp: major_step_def is_erasure_def\<close>)
  show ?thesis
    using assms(4) big
    by (auto simp: finalize_account_def stage_def split: prod.splits sum.splits option.splits delete_user_error.splits
        dest!: dispatch_Some)
qed

lemma finalize_organization_evolves:
  assumes "held r (pw_requests w)" "ids_ok (pw_requests w)" "is_erasure r" "finalize_organization E now r t w = (Inr v, w')"
  shows "dsr_evolves now U (stage w) (stage w')"
proof -
  have big: "dsr_trans now U (pw_requests w, pw_events w) (rows, pw_events w @ [OrganizationPurged (dq_id r) t])"
    if "updateClaimed now (dq_id r) (dq_attempts r) (settle now FULFILLED) (pw_requests w) = (Some r', rows)" for r' rows
    by (rule updateClaimed_major[OF assms(1,2) that]) (use assms(3) in \<open>auto simp: major_step_def is_erasure_def\<close>)
  show ?thesis
    using assms(4) big
    by (auto simp: finalize_organization_def stage_def split: prod.splits sum.splits option.splits dest!: dispatch_Some)
qed


lemma fulfillAccount_evolves:
  assumes "held r (pw_requests w)" "ids_ok (pw_requests w)" "is_erasure r"
  shows "dsr_evolves now U (stage w) (stage (snd (fulfillAccount E now r w)))"
proof -
  let ?fin = "\<lambda>x. in_unit (finalize_account E now r) (w\<lparr>pw_modules := x\<rparr>)"
  have fin: "dsr_evolves now U (stage w) (stage (snd (?fin x)))" for x
    using in_unit_evolves[of "finalize_account E now r" "w\<lparr>pw_modules := x\<rparr>" now U]
      finalize_account_evolves[of r "w\<lparr>pw_modules := x\<rparr>"] assms by simp
  have "dsr_evolves now U (stage w) (stage (markFailed now r (snd (?fin x))))" for x
    by (rule markFailed_evolves[OF fin assms(1,2)])
  then show ?thesis using fin
    by (auto simp: fulfillAccount_def split: option.split prod.split sum.split) (metis snd_conv)+
qed

lemma fulfillOrganization_evolves:
  assumes "held r (pw_requests w)" "ids_ok (pw_requests w)" "is_erasure r"
  shows "dsr_evolves now U (stage w) (stage (snd (fulfillOrganization E now r w)))"
proof -
  have fin: "dsr_evolves now U (stage w) (stage (snd (in_unit (finalize_organization E now r t) (w\<lparr>pw_modules := x\<rparr>))))" for t x
    using in_unit_evolves[of "finalize_organization E now r t" "w\<lparr>pw_modules := x\<rparr>" now U]
      finalize_organization_evolves[of r "w\<lparr>pw_modules := x\<rparr>"] assms by simp
  have "dsr_evolves now U (stage w) (stage (markFailed now r w))"
    by (rule markFailed_evolves[OF _ assms(1,2)]) simp
  then show ?thesis using fin
    by (auto simp: fulfillOrganization_def split: option.split prod.split sum.split) (metis snd_conv)+
qed

lemma fulfillRequest_evolves:
  assumes "held r (pw_requests w)" "ids_ok (pw_requests w)" "is_erasure r"
  shows "dsr_evolves now U (stage w) (stage (snd (fulfillRequest E now r w)))"
  using fulfillAccount_evolves[OF assms, where E = E and now = now and U = U]
    fulfillOrganization_evolves[OF assms, where E = E and now = now and U = U]
    markFailed_evolves[OF _ assms(1,2), of now U w] markFailed_evolves[OF _ assms(1,2), of now U "snd (fulfillAccount E now r w)"]
  by (auto simp: fulfillRequest_def split: prod.split purge_outcome.split)

lemma purge_one_evolves:
  assumes "held r (pw_requests w)" "ids_ok (pw_requests w)" "is_erasure r"
  shows "dsr_evolves now U (stage w) (stage (purge_one E now r w))"
  using fulfillRequest_evolves[OF assms, where E = E and now = now and U = U]
    markFailed_evolves[OF fulfillRequest_evolves[OF assms, where E = E and now = now and U = U] assms(1,2)]
  by (auto simp: purge_one_def split: prod.split purge_outcome.split)

text \<open>An export that was listed as stale, or found past its time, can only be expired again.\<close>

definition stale :: "dsr \<Rightarrow> dsr list \<Rightarrow> bool" where
  "stale r rows \<longleftrightarrow> (\<exists>x\<in>set rows. dq_id x = dq_id r \<and> dq_type x = EXPORT \<and> dq_status x \<in> {READY, PARTIAL, EXPIRED})"

lemma expire_by_id:
  assumes "stale r rows" "ids_ok rows" "\<And>x. \<exists>p. patch x = x\<lparr>dq_status := EXPIRED, dq_payload := p\<rparr>"
  shows "dsr_trans now U (rows, evs) (snd (dsr_updateById now (dq_id r) patch rows), evs)"
  unfolding dsr_updateById_def Let_def snd_conv
proof (rule update_minor)
  fix x assume x: "x \<in> set rows" "dq_id x = dq_id r"
  obtain y where y: "y \<in> set rows" "dq_id y = dq_id r" "dq_type y = EXPORT" "dq_status y \<in> {READY, PARTIAL, EXPIRED}"
    using assms(1) by (auto simp: stale_def)
  then have "x = y" using ids_inj[OF assms(2) x(1) y(1)] x(2) by simp
  moreover obtain p where "patch x = x\<lparr>dq_status := EXPIRED, dq_payload := p\<rparr>" using assms(3) by blast
  ultimately show "minor_step now x ((patch x)\<lparr>dq_updatedAt := now\<rparr>)"
    using y(3,4) unfolding minor_step_def by auto
qed

lemma scrub_evolves:
  assumes "stale r (pw_requests w)" "ids_ok (pw_requests w)"
  shows "dsr_trans now U (stage w) (stage (scrub_one now r w))"
  unfolding scrub_one_def stage_updates stage_def[of w] by (rule expire_by_id[OF assms]) blast

lemma download_evolves:
  assumes "ids_ok (pw_requests w)" "\<forall>r\<in>set (pw_requests w). dsr_ok now r"
  shows "dsr_evolves now U (stage w) (stage (snd (DownloadExportQuery E now rid u w)))"
proof (cases "find (\<lambda>r. dq_id r = rid) (pw_requests w)")
  case (Some r)
  then have r: "r \<in> set (pw_requests w)" "dq_id r = rid" by (auto simp: find_Some_iff)
  have "dsr_trans now U (pw_requests w, pw_events w)
      (snd (dsr_updateById now rid (\<lambda>r. r\<lparr>dq_status := EXPIRED\<rparr>) (pw_requests w)), pw_events w)"
    if "dq_status r = READY \<or> dq_status r = PARTIAL"
  proof -
    have "stale r (pw_requests w)" using r(1) that assms(2) by (auto simp: stale_def dsr_ok_def)
    then show ?thesis
      using expire_by_id[of r "pw_requests w" "\<lambda>r. r\<lparr>dq_status := EXPIRED\<rparr>" now U "pw_events w"] assms(1) r(2)
      by (metis (mono_tags, lifting) dsr.surjective dsr.update_convs(3,6))
  qed
  then show ?thesis using Some
    by (auto simp: DownloadExportQuery_def Let_def stage_def split: option.split)
qed (simp add: DownloadExportQuery_def)

lemma account_erasure_evolves:
  assumes "rid \<notin> dq_id ` set (pw_requests w)"
  shows "dsr_evolves now U (stage w) (stage (snd (RequestAccountErasureCommand E t now rid hash u password w)))"
proof -
  have "dsr_evolves now U (stage w) (stage (snd (in_unit (account_erasure_persist E now rid u email hash) w)))" for email
  proof (rule in_unit_evolves)
    fix v w' assume "account_erasure_persist E now rid u email hash w = (Inr v, w')"
    then show "dsr_evolves now U (stage w) (stage w')"
      using assms
      by (auto simp: account_erasure_persist_def Let_def stage_def split: prod.splits option.splits sum.splits if_splits
          dest!: dispatch_Some intro!: r_into_rtranclp create_trans)
  qed
  then show ?thesis
    by (auto simp: RequestAccountErasureCommand_def split: option.split prod.split sum.split) (metis snd_conv)+
qed

lemma organization_erasure_evolves:
  assumes "rid \<notin> dq_id ` set (pw_requests w)"
  shows "dsr_evolves now U (stage w) (stage (snd (RequestOrganizationErasureCommand E now rid u t nm w)))"
  unfolding RequestOrganizationErasureCommand_def
proof (rule in_unit_evolves)
  fix v w' assume "organization_erasure_persist E now rid u t nm w = (Inr v, w')"
  then show "dsr_evolves now U (stage w) (stage w')"
    using assms
    by (auto simp: organization_erasure_persist_def stage_def split: prod.splits option.splits sum.splits if_splits
        dest!: dispatch_Some intro!: r_into_rtranclp create_trans)
qed

lemma claim_exports_evolves:
  assumes "ids_ok (pw_requests w)" "claim_exports now busy w = (batch, w')"
  shows "dsr_evolves now U (stage w) (stage w')" "\<forall>r\<in>set batch. r \<in> set (pw_requests w') \<and> dq_type r = EXPORT"
proof -
  let ?rows = "snd (expireAbandonedExports now (pw_requests w))"
  have e: "dsr_trans now U (stage w) (?rows, pw_events w)" unfolding stage_def by (rule expire_trans)
  then have ok: "ids_ok ?rows" using trans_ids assms(1) by fastforce
  obtain rows where c: "claimExportBatch now busy EXPORT_BATCH_SIZE ?rows = (batch, rows)" and w': "w' = w\<lparr>pw_requests := rows\<rparr>"
    using assms(2) by (auto simp: claim_exports_def split: prod.splits)
  show "dsr_evolves now U (stage w) (stage w')"
    using e claimExport_trans(1)[OF ok c, of U "pw_events w"] by (auto simp: w')
  show "\<forall>r\<in>set batch. r \<in> set (pw_requests w') \<and> dq_type r = EXPORT" using claimExport_trans(2)[OF ok c] by (simp add: w')
qed

lemma claim_erasures_evolves:
  assumes "ids_ok (pw_requests w)" "claim_erasures now busy w = (batch, w')"
  shows "dsr_evolves now U (stage w) (stage w')" "\<forall>r\<in>set batch. r \<in> set (pw_requests w') \<and> is_erasure r"
  using assms claimErasure_trans[OF assms(1)]
  by (auto simp: claim_erasures_def stage_def split: prod.splits)


lemma trans_stale: "dsr_trans now U a b \<Longrightarrow> ids_ok (fst a) \<Longrightarrow> stale r (fst a) \<Longrightarrow> stale r (fst b)"
proof (induction rule: dsr_trans.induct)
  case (minor rows f evs)
  obtain x where x: "x \<in> set rows" "dq_id x = dq_id r" "dq_type x = EXPORT" "dq_status x \<in> {READY, PARTIAL, EXPIRED}"
    using minor.prems by (auto simp: stale_def)
  have "dq_status (f x) \<in> {READY, PARTIAL, EXPIRED}" "dq_id (f x) = dq_id r" "dq_type (f x) = EXPORT"
    using minor.hyps[OF x(1)] x(2-) by (auto simp: minor_step_def export_candidate_def erasure_candidate_def is_erasure_def)
  then show ?case using x(1) unfolding stale_def fst_conv set_map by (metis imageI)
next
  case (major x rows x' e evs)
  obtain y where y: "y \<in> set rows" "dq_id y = dq_id r" "dq_type y = EXPORT" "dq_status y \<in> {READY, PARTIAL, EXPIRED}"
    using major.prems by (auto simp: stale_def)
  have "dq_id y \<noteq> dq_id x"
    using ids_inj[of rows y x] major.prems(1) major.hyps(1,2) y(1,4) by (auto simp: major_step_def)
  then show ?case using y by (auto simp: stale_def)
qed (auto simp: stale_def)

lemma evolves_stale: "dsr_evolves now U a b \<Longrightarrow> ids_ok (fst a) \<Longrightarrow> stale r (fst a) \<Longrightarrow> stale r (fst b)"
  by (induction rule: rtranclp_induct) (auto intro: trans_stale evolves_ids)

lemma starts_ok: "starts_request now r \<Longrightarrow> dsr_ok now r"
  by (simp add: starts_request_def dsr_ok_def)

lemma trans_rows_ok: "dsr_trans now U a b \<Longrightarrow> \<forall>r\<in>set (fst a). dsr_ok now r \<Longrightarrow> \<forall>r\<in>set (fst b). dsr_ok now r"
proof (induction rule: dsr_trans.induct)
  case (minor rows f evs)
  then show ?case using minor_ok by auto
next
  case (major r rows r' e evs)
  then show ?case using major_ok[of now r r'] by auto
next
  case (opens r rows e evs)
  then show ?case using starts_ok by simp
qed

lemma evolves_rows_ok: "dsr_evolves now U a b \<Longrightarrow> \<forall>r\<in>set (fst a). dsr_ok now r \<Longrightarrow> \<forall>r\<in>set (fst b). dsr_ok now r"
  by (induction rule: rtranclp_induct) (simp, metis trans_rows_ok)

section \<open>Whole batches\<close>

lemma held_in: "r \<in> set rows \<Longrightarrow> held r rows"
  by (auto simp: held_def)

lemma fold_evolves:
  assumes "\<forall>r\<in>set rs. P r (pw_requests w)" "ids_ok (pw_requests w)"
    and step: "\<And>r w. P r (pw_requests w) \<Longrightarrow> ids_ok (pw_requests w) \<Longrightarrow> dsr_evolves now U (stage w) (stage (f r w))"
    and keep: "\<And>r a b. dsr_evolves now U a b \<Longrightarrow> ids_ok (fst a) \<Longrightarrow> P r (fst a) \<Longrightarrow> P r (fst b)"
  shows "dsr_evolves now U (stage w) (stage (fold f rs w))"
  using assms(1,2)
proof (induction rs arbitrary: w)
  case (Cons r rs)
  have s: "dsr_evolves now U (stage w) (stage (f r w))" using step Cons.prems by simp
  then have "\<forall>q\<in>set rs. P q (pw_requests (f r w))" "ids_ok (pw_requests (f r w))"
    using keep[OF s] evolves_ids[OF s] Cons.prems by simp_all
  from Cons.IH[OF this] s show ?case by simp
qed simp

lemma processBatch_evolves:
  assumes "ids_ok (pw_requests w)"
  shows "dsr_evolves now U (stage w) (stage (processBatch E now busy dates w))"
proof (cases "claim_exports now busy w")
  case (Pair batch w')
  note c = claim_exports_evolves(1)[OF assms Pair, where U = U] claim_exports_evolves(2)[OF assms Pair]
  have ok: "ids_ok (pw_requests w')" using evolves_ids[OF c(1)] assms by simp
  have "dsr_evolves now U (stage w') (stage (fold (\<lambda>r. processOne E now (dates (dq_subjectUserId r)) r) batch w'))"
    by (rule fold_evolves[where P = "\<lambda>r rows. held r rows \<and> dq_type r = EXPORT"])
      (use c(2) ok in \<open>auto intro: held_in processOne_evolves evolves_held[where a = a and b = b for a b]\<close>)
  then show ?thesis using Pair c(1) by (simp add: processBatch_def)
qed

lemma scrubExpiredExports_evolves:
  assumes "ids_ok (pw_requests w)" "\<forall>r\<in>set (pw_requests w). dsr_ok now r"
  shows "dsr_evolves now U (stage w) (stage (scrubExpiredExports now w))"
  unfolding scrubExpiredExports_def
proof (rule fold_evolves[where P = stale])
  show "\<forall>r\<in>set (findExpiredExportBatch now PURGE_BATCH_LIMIT (pw_requests w)). stale r (pw_requests w)"
  proof
    fix r assume "r \<in> set (findExpiredExportBatch now PURGE_BATCH_LIMIT (pw_requests w))"
    then have r: "r \<in> set (pw_requests w)" "dq_status r \<in> {READY, PARTIAL}"
      by (auto simp: findExpiredExportBatch_def dest!: in_set_takeD)
    then have "dq_type r = EXPORT" using assms(2) unfolding dsr_ok_def by blast
    then show "stale r (pw_requests w)" using r unfolding stale_def by blast
  qed
qed (use assms in \<open>auto intro: scrub_evolves evolves_stale\<close>)

lemma purge_after_claim:
  assumes "ids_ok (pw_requests w)" "\<forall>r\<in>set (pw_requests w). dsr_ok now r" "claim_erasures now busy w = (batch, w')"
  shows "dsr_evolves now U (stage w') (stage (PurgeExpiredErasuresCommand E now busy w))"
proof -
  let ?w = "fold (purge_one E now) batch w'"
  note c = claim_erasures_evolves(1)[OF assms(1,3), where U = U] claim_erasures_evolves(2)[OF assms(1,3)]
  have ok: "ids_ok (pw_requests w')" using evolves_ids[OF c(1)] assms(1) by simp
  have f: "dsr_evolves now U (stage w') (stage ?w)"
    by (rule fold_evolves[where P = "\<lambda>r rows. held r rows \<and> is_erasure r"])
      (use c(2) ok in \<open>auto intro: held_in purge_one_evolves evolves_held[where a = a and b = b for a b]\<close>)
  then have e: "dsr_evolves now U (stage w) (stage ?w)" using c(1) by simp
  have "dsr_evolves now U (stage ?w) (stage (scrubExpiredExports now ?w))"
    using scrubExpiredExports_evolves evolves_ids[OF e] evolves_rows_ok[OF e] assms by simp
  then show ?thesis using f assms(3) by (simp add: PurgeExpiredErasuresCommand_def)
qed

lemma PurgeExpiredErasures_evolves:
  assumes "ids_ok (pw_requests w)" "\<forall>r\<in>set (pw_requests w). dsr_ok now r"
  shows "dsr_evolves now U (stage w) (stage (PurgeExpiredErasuresCommand E now busy w))"
proof (cases "claim_erasures now busy w")
  case (Pair batch w')
  then show ?thesis
    using rtranclp_trans[OF claim_erasures_evolves(1)[OF assms(1) Pair] purge_after_claim[OF assms Pair]] by simp
qed

end
