(* ===== verification/PrivacyGuarantees.thy ===== *)
theory PrivacyGuarantees
  imports PrivacyRows
begin

text \<open>
  The privacy module under every interleaving of its commands and workers: a transition system
  whose steps are transactions, the invariant of its reachable states, and what follows for
  requests: they complete at most once, settle for good, and every erasure settles.
\<close>

section \<open>Steps\<close>

text \<open>
  Beside the table, the state holds what is in the hands of running programs: claimed requests,
  exports listed for scrubbing, and the users for whom \<open>enqueue\<close> has found no export and holds
  the advisory lock. Claims are never given back, so a worker may come late with any of them.
\<close>

record ('x, 's) pv_sys =
  pv_now :: int
  pv_world :: "('x, 's) privacy_world"
  pv_claims :: "dsr list"
  pv_listed :: "dsr list"
  pv_queued :: "string list"

datatype ('x, 's) pv_op = Wait int
  | Elsewhere tn_db "account list" 's 'x
  | LookForExport string | CreateExport string string | GiveUpExport string
  | ClaimExports "dsr \<Rightarrow> bool" | ProcessExport dsr "int \<times> int" | FailAttempt dsr
  | ExportWorker "dsr \<Rightarrow> bool" "string \<Rightarrow> int \<times> int"
  | AskAccountErasure int string string string string
  | AskOrganizationErasure string string string string
  | ClaimErasures "dsr \<Rightarrow> bool" | FulfillErasure dsr | FailErasure dsr
  | ListStale | ScrubStale dsr | PurgeWorker "dsr \<Rightarrow> bool"
  | Download string string

definition fresh_id :: "string \<Rightarrow> ('x, 's) pv_sys \<Rightarrow> bool" where
  "fresh_id rid s \<longleftrightarrow> rid \<notin> dq_id ` set (pw_requests (pv_world s))"

abbreviation pv_set :: "('x, 's) pv_sys \<Rightarrow> ('x, 's) privacy_world \<Rightarrow> ('x, 's) pv_sys" where
  "pv_set s w \<equiv> s\<lparr>pv_world := w\<rparr>"

text \<open>
  A step whose guard fails changes nothing: the primary key refuses an id in use, the lock
  admits one \<open>enqueue\<close> per user, and workers act on requests that they claimed or listed.
\<close>

fun pv_step :: "('x, 's) privacy_env \<Rightarrow> ('x, 's) pv_op \<Rightarrow> ('x, 's) pv_sys \<Rightarrow> ('x, 's) pv_sys" where
  "pv_step E (Wait n) s = s\<lparr>pv_now := pv_now s + max 0 n\<rparr>"
| "pv_step E (Elsewhere db accounts sessions x) s =
     pv_set s ((pv_world s)\<lparr>pw_tenancy := db, pw_accounts := accounts, pw_sessions := sessions, pw_modules := x\<rparr>)"
| "pv_step E (LookForExport u) s =
     (if u \<in> set (pv_queued s) \<or> findActiveExportForSubject (pv_now s) u (pw_requests (pv_world s)) \<noteq> None then s
      else s\<lparr>pv_queued := u # pv_queued s\<rparr>)"
| "pv_step E (CreateExport u rid) s =
     (if u \<in> set (pv_queued s) \<and> fresh_id rid s
      then (pv_set s (snd (in_unit (enqueue_create E (pv_now s) rid u) (pv_world s))))\<lparr>pv_queued := removeAll u (pv_queued s)\<rparr>
      else s)"
| "pv_step E (GiveUpExport u) s = s\<lparr>pv_queued := removeAll u (pv_queued s)\<rparr>"
| "pv_step E (ClaimExports busy) s =
     (case claim_exports (pv_now s) busy (pv_world s) of (batch, w) \<Rightarrow> (pv_set s w)\<lparr>pv_claims := batch @ pv_claims s\<rparr>)"
| "pv_step E (ProcessExport r dates) s =
     (if r \<in> set (pv_claims s) \<and> dq_type r = EXPORT
      then pv_set s (snd (process_export E (pv_now s) dates r (pv_world s))) else s)"
| "pv_step E (FailAttempt r) s =
     (if r \<in> set (pv_claims s) \<and> dq_type r = EXPORT
      then pv_set s ((pv_world s)\<lparr>pw_requests := snd (markExportAttemptFailed (pv_now s) (dq_id r) (dq_attempts r)
             (DSR_MAX_ATTEMPTS \<le> dq_attempts r) (pw_requests (pv_world s)))\<rparr>) else s)"
| "pv_step E (ExportWorker busy dates) s = pv_set s (processBatch E (pv_now s) busy dates (pv_world s))"
| "pv_step E (AskAccountErasure t rid hash u password) s =
     (if fresh_id rid s
      then pv_set s (snd (RequestAccountErasureCommand E t (pv_now s) rid hash u password (pv_world s))) else s)"
| "pv_step E (AskOrganizationErasure rid u t confirmationName) s =
     (if fresh_id rid s
      then pv_set s (snd (RequestOrganizationErasureCommand E (pv_now s) rid u t confirmationName (pv_world s))) else s)"
| "pv_step E (ClaimErasures busy) s =
     (case claim_erasures (pv_now s) busy (pv_world s) of (batch, w) \<Rightarrow> (pv_set s w)\<lparr>pv_claims := batch @ pv_claims s\<rparr>)"
| "pv_step E (FulfillErasure r) s =
     (if r \<in> set (pv_claims s) \<and> is_erasure r
      then pv_set s (snd (fulfillRequest E (pv_now s) r (pv_world s))) else s)"
| "pv_step E (FailErasure r) s =
     (if r \<in> set (pv_claims s) \<and> is_erasure r then pv_set s (markFailed (pv_now s) r (pv_world s)) else s)"
| "pv_step E ListStale s =
     s\<lparr>pv_listed := findExpiredExportBatch (pv_now s) PURGE_BATCH_LIMIT (pw_requests (pv_world s)) @ pv_listed s\<rparr>"
| "pv_step E (ScrubStale r) s = (if r \<in> set (pv_listed s) then pv_set s (scrub_one (pv_now s) r (pv_world s)) else s)"
| "pv_step E (PurgeWorker busy) s = pv_set s (PurgeExpiredErasuresCommand E (pv_now s) busy (pv_world s))"
| "pv_step E (Download rid u) s = pv_set s (snd (DownloadExportQuery E (pv_now s) rid u (pv_world s)))"

definition pv_run :: "('x, 's) privacy_env \<Rightarrow> ('x, 's) pv_op list \<Rightarrow> ('x, 's) pv_sys \<Rightarrow> ('x, 's) pv_sys" where
  "pv_run E ops s = fold (pv_step E) ops s"

text \<open>The module before its first request; the data of the others is arbitrary.\<close>

definition pv_start :: "('x, 's) pv_sys \<Rightarrow> bool" where
  "pv_start s \<longleftrightarrow> stage (pv_world s) = ([], []) \<and> pv_claims s = [] \<and> pv_listed s = [] \<and> pv_queued s = []"

section \<open>The invariant\<close>

definition one_active :: "int \<Rightarrow> dsr list \<Rightarrow> bool" where
  "one_active now rows \<longleftrightarrow> (\<forall>u. \<forall>r\<in>set rows. \<forall>r'\<in>set rows. active_export now u r \<longrightarrow> active_export now u r' \<longrightarrow> dq_id r = dq_id r')"

text \<open>How many completions the log holds for a request, by the status of its row.\<close>

fun counts :: "dsr_status \<Rightarrow> nat \<Rightarrow> bool" where
  "counts FULFILLED n = (n = 1)"
| "counts READY n = (n = 1)"
| "counts PARTIAL n = (n = 1)"
| "counts EXPIRED n = (n \<le> 1)"
| "counts st n = (n = 0)"

definition tally :: "dsr list \<times> privacy_event list \<Rightarrow> bool" where
  "tally st \<longleftrightarrow> (\<forall>r\<in>set (fst st). counts (dq_status r) (completions (dq_id r) (snd st))) \<and>
     (\<forall>i. i \<notin> dq_id ` set (fst st) \<longrightarrow> completions i (snd st) = 0)"

definition books :: "int \<Rightarrow> dsr list \<times> privacy_event list \<Rightarrow> bool" where
  "books now st \<longleftrightarrow> ids_ok (fst st) \<and> (\<forall>r\<in>set (fst st). dsr_ok now r) \<and> one_active now (fst st) \<and> tally st"

definition pv_inv :: "('x, 's) pv_sys \<Rightarrow> bool" where
  "pv_inv s \<longleftrightarrow> books (pv_now s) (stage (pv_world s)) \<and>
     (\<forall>r\<in>set (pv_claims s). held r (pw_requests (pv_world s))) \<and>
     (\<forall>r\<in>set (pv_listed s). stale r (pw_requests (pv_world s))) \<and>
     (\<forall>u\<in>set (pv_queued s). no_active (pv_now s) u (pw_requests (pv_world s)))"

lemma minor_active: "minor_step now r r' \<Longrightarrow> active_export now u r' \<Longrightarrow> active_export now u r"
  unfolding minor_step_def
  by (elim disjE conjE exE) (auto simp: active_export_def export_candidate_def erasure_candidate_def is_erasure_def unexpired_def)

lemma major_active: "major_step now r r' \<Longrightarrow> active_export now u r' \<Longrightarrow> active_export now u r"
  by (auto simp: major_step_def active_export_def is_erasure_def)

text \<open>Without the lock of a user nobody makes an export of the user active.\<close>

lemma trans_no_active: "dsr_trans now U a b \<Longrightarrow> u \<notin> U \<Longrightarrow> no_active now u (fst a) \<Longrightarrow> no_active now u (fst b)"
proof (induction rule: dsr_trans.induct)
  case (minor rows f evs)
  show ?case unfolding no_active_def fst_conv set_map
  proof
    fix x assume "x \<in> f ` set rows"
    then obtain r where "r \<in> set rows" "x = f r" by blast
    then show "\<not> active_export now u x" using minor_active[OF minor.hyps] minor.prems(2) by (auto simp: no_active_def)
  qed
next
  case (major r rows r' e evs)
  then show ?case using major_active[of now r r' u] by (auto simp: no_active_def)
next
  case (opens r rows e evs)
  then show ?case by (auto simp: no_active_def active_export_def)
qed

lemma evolves_no_active: "dsr_evolves now U a b \<Longrightarrow> u \<notin> U \<Longrightarrow> no_active now u (fst a) \<Longrightarrow> no_active now u (fst b)"
  by (induction rule: rtranclp_induct) (simp, metis trans_no_active)

lemma one_active_map:
  assumes "one_active now rows"
    and was: "\<And>u x. x \<in> set rows \<Longrightarrow> active_export now u (g x) \<Longrightarrow> active_export now u x \<and> dq_id (g x) = dq_id x"
  shows "one_active now (map g rows)"
  unfolding one_active_def
proof (intro allI ballI impI)
  fix u r r' assume r: "r \<in> set (map g rows)" "r' \<in> set (map g rows)" "active_export now u r" "active_export now u r'"
  obtain x y where "x \<in> set rows" "r = g x" "y \<in> set rows" "r' = g y" using r(1,2) by auto
  then show "dq_id r = dq_id r'" using was[of x u] was[of y u] assms(1) r(3,4) unfolding one_active_def by metis
qed

lemma trans_one_active:
  assumes "dsr_trans now U a b" "ids_ok (fst a)" "one_active now (fst a)"
  shows "one_active now (fst b)"
  using assms
proof (induction rule: dsr_trans.induct)
  case (minor rows f evs)
  show ?case unfolding fst_conv
    by (rule one_active_map) (use minor.prems minor.hyps in \<open>simp, meson minor_active minor_fields\<close>)
next
  case (major r rows r' e evs)
  let ?g = "\<lambda>x. if dq_id x = dq_id r then r' else x"
  have g: "active_export now u x \<and> dq_id (?g x) = dq_id x" if x: "x \<in> set rows" "active_export now u (?g x)" for x u
  proof (cases "dq_id x = dq_id r")
    case True
    then have "x = r" using ids_inj[of rows x r] major.prems(1) major.hyps(1) x(1) by simp
    then show ?thesis using x(2) major_active[OF major.hyps(2)] major_fields[OF major.hyps(2)] by simp
  qed (use x in simp)
  show ?case unfolding fst_conv by (rule one_active_map[OF major.prems(2)[unfolded fst_conv]]) (rule g)
next
  case (opens r rows e evs)
  have "\<not> active_export now u x" if "active_export now u r" "x \<in> set rows" for u x
    using that opens.hyps(3) by (auto simp: active_export_def no_active_def)
  then show ?case using opens.prems(2) unfolding one_active_def fst_conv set_append by (metis Un_iff empty_iff list.set(1) set_ConsD)
qed

lemma completions_append [simp]:
  "completions i (evs @ [e]) = completions i evs + (if completes e = Some i then 1 else 0)"
  by (simp add: completions_def)

lemma minor_counts: "minor_step now r r' \<Longrightarrow> counts (dq_status r) n \<Longrightarrow> counts (dq_status r') n"
  unfolding minor_step_def
  by (elim disjE conjE exE) (auto simp: export_candidate_def erasure_candidate_def)

lemma tally_map:
  assumes "\<And>x. x \<in> set rows \<Longrightarrow> dq_id (g x) = dq_id x"
    and "\<And>x. x \<in> set rows \<Longrightarrow> counts (dq_status (g x)) (completions (dq_id x) evs)"
    and "\<And>i. i \<notin> dq_id ` set rows \<Longrightarrow> completions i evs = 0"
  shows "tally (map g rows, evs)"
proof -
  have "map dq_id (map g rows) = map dq_id rows" using assms(1) by simp
  then have "dq_id ` set (map g rows) = dq_id ` set rows" by (metis list.set_map)
  then show ?thesis using assms by (simp add: tally_def)
qed

lemma trans_tally:
  assumes "dsr_trans now U a b" "ids_ok (fst a)" "tally a"
  shows "tally b"
  using assms
proof (induction rule: dsr_trans.induct)
  case (minor rows f evs)
  show ?case
    by (rule tally_map)
      (use minor.prems(2) minor_fields[OF minor.hyps] minor_counts[OF minor.hyps] in \<open>simp_all add: tally_def\<close>)
next
  case (major r rows r' e evs)
  have st: "dq_status r = PROCESSING" "counts (dq_status r') 1" "dq_id r' = dq_id r"
    using major.hyps(2) major_fields[OF major.hyps(2)] by (auto simp: major_step_def)
  have t: "counts (dq_status x) (completions (dq_id x) evs)" if "x \<in> set rows" for x
    using major.prems(2) that by (simp add: tally_def)
  have zero: "completions (dq_id r) evs = 0" using t[OF major.hyps(1)] st(1) by simp
  show ?case
  proof (rule tally_map)
    fix x assume x: "x \<in> set rows"
    show "dq_id (if dq_id x = dq_id r then r' else x) = dq_id x" using st(3) by simp
    show "counts (dq_status (if dq_id x = dq_id r then r' else x)) (completions (dq_id x) (evs @ [e]))"
      using st t[OF x] zero major.hyps(3) by (cases "dq_id x = dq_id r") simp_all
  next
    fix i assume "i \<notin> dq_id ` set rows"
    then show "completions i (evs @ [e]) = 0" using major.prems(2) major.hyps(1,3) by (auto simp: tally_def)
  qed
next
  case (opens r rows e evs)
  then show ?case by (auto simp: tally_def starts_request_def)
qed

lemma evolves_books: "dsr_evolves now U a b \<Longrightarrow> books now a \<Longrightarrow> books now b"
proof (induction rule: rtranclp_induct)
  case (step b c)
  then show ?case
    using trans_ids[OF step.hyps(2)] trans_rows_ok[OF step.hyps(2)] trans_one_active[OF step.hyps(2)] trans_tally[OF step.hyps(2)]
    unfolding books_def by blast
qed simp


lemma lease_mono: "lease_over now r \<Longrightarrow> now \<le> now' \<Longrightarrow> lease_over now' r"
  by (auto simp: lease_over_def split: option.splits)

lemma active_antimono: "active_export now' u r \<Longrightarrow> now \<le> now' \<Longrightarrow> active_export now u r"
  by (auto simp: active_export_def unexpired_def split: option.splits)

lemma dsr_ok_later: "dsr_ok now r \<Longrightarrow> now \<le> now' \<Longrightarrow> dsr_ok now' r"
  by (force simp: dsr_ok_def)

lemma no_active_later: "no_active now u rows \<Longrightarrow> now \<le> now' \<Longrightarrow> no_active now' u rows"
  unfolding no_active_def by (blast dest: active_antimono)

lemma one_active_later: "one_active now rows \<Longrightarrow> now \<le> now' \<Longrightarrow> one_active now' rows"
  unfolding one_active_def by (blast dest: active_antimono)

lemma books_later: "books now st \<Longrightarrow> now \<le> now' \<Longrightarrow> books now' st"
  unfolding books_def by (blast intro: one_active_later dsr_ok_later)

lemma pv_inv_later: "pv_inv s \<Longrightarrow> pv_inv (s\<lparr>pv_now := pv_now s + max 0 n\<rparr>)"
  by (auto simp: pv_inv_def intro: books_later no_active_later)

text \<open>A step that evolves the stage keeps the invariant, if the programs hold what they may.\<close>

lemma pv_inv_evolve:
  assumes "pv_inv s" "dsr_evolves (pv_now s) U (stage (pv_world s)) (stage (pv_world s'))" "pv_now s' = pv_now s"
    and "\<And>r. r \<in> set (pv_claims s') \<Longrightarrow> r \<in> set (pv_claims s) \<or> held r (pw_requests (pv_world s'))"
    and "\<And>r. r \<in> set (pv_listed s') \<Longrightarrow> r \<in> set (pv_listed s) \<or> stale r (pw_requests (pv_world s'))"
    and "\<And>u. u \<in> set (pv_queued s') \<Longrightarrow>
      (u \<in> set (pv_queued s) \<and> u \<notin> U) \<or> no_active (pv_now s) u (pw_requests (pv_world s'))"
  shows "pv_inv s'"
proof -
  note b = assms(1)[unfolded pv_inv_def]
  have ids: "ids_ok (fst (stage (pv_world s)))" using b by (simp add: books_def)
  have "books (pv_now s') (stage (pv_world s'))" unfolding assms(3) by (rule evolves_books[OF assms(2)]) (use b in simp)
  moreover have "held r (pw_requests (pv_world s'))" if "r \<in> set (pv_claims s')" for r
    using assms(4)[OF that] evolves_held[OF assms(2) ids, of r] b by auto
  moreover have "stale r (pw_requests (pv_world s'))" if "r \<in> set (pv_listed s')" for r
    using assms(5)[OF that] evolves_stale[OF assms(2) ids, of r] b by auto
  moreover have "no_active (pv_now s') u (pw_requests (pv_world s'))" if "u \<in> set (pv_queued s')" for u
    using assms(6)[OF that] evolves_no_active[OF assms(2), of u] b assms(3) by auto
  ultimately show ?thesis by (simp add: pv_inv_def)
qed

lemma pv_inv_parts:
  assumes "pv_inv s"
  shows "ids_ok (pw_requests (pv_world s))" "\<forall>r\<in>set (pw_requests (pv_world s)). dsr_ok (pv_now s) r"
    "r \<in> set (pv_claims s) \<Longrightarrow> held r (pw_requests (pv_world s))"
    "r \<in> set (pv_listed s) \<Longrightarrow> stale r (pw_requests (pv_world s))"
    "u \<in> set (pv_queued s) \<Longrightarrow> no_active (pv_now s) u (pw_requests (pv_world s))"
  using assms by (auto simp: pv_inv_def books_def)

lemma not_found_no_active: "findActiveExportForSubject now u rows = None \<Longrightarrow> no_active now u rows"
  by (simp add: findActiveExportForSubject_def no_active_def find_None_iff)

lemma findExpired_stale:
  assumes "\<forall>r\<in>set rows. dsr_ok now r" "r \<in> set (findExpiredExportBatch now limit rows)"
  shows "stale r rows"
proof -
  have r: "r \<in> set rows" "dq_status r \<in> {READY, PARTIAL}"
    using assms(2) by (auto simp: findExpiredExportBatch_def dest!: in_set_takeD)
  then have "dq_type r = EXPORT" using assms(1) unfolding dsr_ok_def by blast
  then show "stale r rows" using r unfolding stale_def by blast
qed


lemma pv_inv_start: "pv_start s \<Longrightarrow> pv_inv s"
  by (auto simp: pv_start_def pv_inv_def books_def ids_ok_def one_active_def tally_def stage_def completions_def)

text \<open>The users whose lock a step uses to open an export.\<close>

fun opens_for :: "('x, 's) pv_op \<Rightarrow> string set" where
  "opens_for (CreateExport u rid) = {u}"
| "opens_for _ = {}"

lemma pv_step_evolves:
  assumes "pv_inv s"
  shows "dsr_evolves (pv_now s) (opens_for e) (stage (pv_world s)) (stage (pv_world (pv_step E e s)))"
proof -
  note ids = pv_inv_parts(1)[OF assms] and ok = pv_inv_parts(2)[OF assms] and mine = pv_inv_parts(3)[OF assms]
    and listed = pv_inv_parts(4)[OF assms]
  show ?thesis
  proof (cases e)
    case (CreateExport u rid)
    have "dsr_evolves (pv_now s) {u} (stage (pv_world s)) (stage (snd (in_unit (enqueue_create E (pv_now s) rid u) (pv_world s))))"
      if go: "u \<in> set (pv_queued s)" "fresh_id rid s"
      by (rule in_unit_evolves)
        (use enqueue_create_evolves[of rid "pv_world s" "pv_now s" u "{u}" E] go pv_inv_parts(5)[OF assms go(1)] in
          \<open>auto simp: fresh_id_def\<close>)
    then show ?thesis using CreateExport by simp
  next
    case (ClaimExports busy)
    then show ?thesis using claim_exports_evolves(1)[OF ids] by (simp split: prod.split)
  next
    case (ProcessExport r dates)
    then show ?thesis using process_evolves[OF mine ids] by simp
  next
    case (FailAttempt r)
    then show ?thesis using failed_attempt_evolves[OF rtranclp.rtrancl_refl mine ids] by simp
  next
    case (ExportWorker busy dates)
    then show ?thesis using processBatch_evolves[OF ids] by simp
  next
    case (AskAccountErasure t rid hash u password)
    then show ?thesis using account_erasure_evolves[of rid "pv_world s"] by (simp add: fresh_id_def)
  next
    case (AskOrganizationErasure rid u t nm)
    then show ?thesis using organization_erasure_evolves[of rid "pv_world s"] by (simp add: fresh_id_def)
  next
    case (ClaimErasures busy)
    then show ?thesis using claim_erasures_evolves(1)[OF ids] by (simp split: prod.split)
  next
    case (FulfillErasure r)
    then show ?thesis using fulfillRequest_evolves[OF mine ids] by simp
  next
    case (FailErasure r)
    then show ?thesis using markFailed_evolves[OF rtranclp.rtrancl_refl mine ids] by simp
  next
    case (ScrubStale r)
    then show ?thesis using scrub_evolves[OF listed ids] by (simp add: r_into_rtranclp)
  next
    case (PurgeWorker busy)
    then show ?thesis using PurgeExpiredErasures_evolves[OF ids ok] by simp
  next
    case (Download rid u)
    then show ?thesis using download_evolves[OF ids ok] by simp
  qed (simp_all add: stage_def)
qed

lemma pv_inv_step:
  assumes "pv_inv s"
  shows "pv_inv (pv_step E e s)"
proof (cases "\<exists>n. e = Wait n")
  case True
  then show ?thesis using pv_inv_later[OF assms] by auto
next
  case False
  note c = claim_exports_evolves(2)[OF pv_inv_parts(1)[OF assms]] claim_erasures_evolves(2)[OF pv_inv_parts(1)[OF assms]]
  show ?thesis
  proof (rule pv_inv_evolve[OF assms pv_step_evolves[OF assms]])
    show "pv_now (pv_step E e s) = pv_now s" using False by (cases e) (auto split: prod.split)
  next
    fix r assume "r \<in> set (pv_claims (pv_step E e s))"
    then show "r \<in> set (pv_claims s) \<or> held r (pw_requests (pv_world (pv_step E e s)))"
      using c by (cases e) (auto split: prod.splits if_splits intro: held_in)
  next
    fix r assume "r \<in> set (pv_listed (pv_step E e s))"
    then show "r \<in> set (pv_listed s) \<or> stale r (pw_requests (pv_world (pv_step E e s)))"
      using findExpired_stale[OF pv_inv_parts(2)[OF assms]] by (cases e) (auto split: prod.splits if_splits)
  next
    fix u assume "u \<in> set (pv_queued (pv_step E e s))"
    then show "u \<in> set (pv_queued s) \<and> u \<notin> opens_for e \<or> no_active (pv_now s) u (pw_requests (pv_world (pv_step E e s)))"
      using not_found_no_active pv_inv_parts(5)[OF assms] by (cases e) (auto split: prod.splits if_splits)
  qed
qed

lemma pv_inv_run: "pv_inv s \<Longrightarrow> pv_inv (pv_run E ops s)"
  by (induction ops arbitrary: s) (simp_all add: pv_run_def pv_inv_step)

lemma pv_run_append: "pv_run E (ops @ ops') s = pv_run E ops' (pv_run E ops s)"
  by (simp add: pv_run_def)


section \<open>A request over time\<close>

text \<open>What one transaction can make of a row.\<close>

definition row_step :: "int \<Rightarrow> dsr \<Rightarrow> dsr \<Rightarrow> bool" where
  "row_step now x y \<longleftrightarrow> minor_step now x y \<or> major_step now x y"

lemma trans_row:
  assumes "dsr_trans now U a b" "ids_ok (fst a)" "x \<in> set (fst a)"
  shows "\<exists>y\<in>set (fst b). dq_id y = dq_id x \<and> row_step now x y"
  using assms
proof (induction rule: dsr_trans.induct)
  case (minor rows f evs)
  have "minor_step now x (f x)" using minor.hyps minor.prems(2) by simp
  then show ?case using minor.prems(2) minor_fields[of now x "f x"] by (auto simp: row_step_def)
next
  case (major r rows r' e evs)
  show ?case
  proof (cases "dq_id x = dq_id r")
    case True
    then have x: "x = r" using ids_inj[of rows x r] major.prems major.hyps(1) by simp
    have "r' \<in> set (map (\<lambda>y. if dq_id y = dq_id r then r' else y) rows)"
      using major.hyps(1) image_eqI[of r' "\<lambda>y. if dq_id y = dq_id r then r' else y" r "set rows"] by simp
    then show ?thesis using x major.hyps(2) major_fields[OF major.hyps(2)] unfolding row_step_def fst_conv by blast
  next
    case False
    then have "x \<in> set (map (\<lambda>y. if dq_id y = dq_id r then r' else y) rows)"
      using major.prems(2) image_eqI[of x "\<lambda>y. if dq_id y = dq_id r then r' else y" x "set rows"] by simp
    then show ?thesis using minor_refl unfolding row_step_def fst_conv by blast
  qed
next
  case (opens r rows e evs)
  then show ?case by (auto simp: row_step_def)
qed

text \<open>A reflexive and transitive relation that holds along every row step holds along every run.\<close>

lemma evolves_row:
  assumes "dsr_evolves now U a b" "ids_ok (fst a)" "\<forall>r\<in>set (fst a). dsr_ok now r" "x \<in> set (fst a)"
    and refl: "\<And>r. R r r" and trans: "\<And>p q r. R p q \<Longrightarrow> R q r \<Longrightarrow> R p r"
    and step: "\<And>p q. dsr_ok now p \<Longrightarrow> row_step now p q \<Longrightarrow> R p q"
  shows "\<exists>y\<in>set (fst b). dq_id y = dq_id x \<and> R x y"
  using assms(1)
proof (induction rule: rtranclp_induct)
  case base
  then show ?case using assms(4) refl by auto
next
  case (step b c)
  obtain y where y: "y \<in> set (fst b)" "dq_id y = dq_id x" "R x y" using step.IH by blast
  have ok: "ids_ok (fst b)" "dsr_ok now y"
    using evolves_ids[OF step.hyps(1) assms(2)] evolves_rows_ok[OF step.hyps(1) assms(3)] y(1) by simp_all
  obtain z where "z \<in> set (fst c)" "dq_id z = dq_id y" "row_step now y z"
    using trans_row[OF step.hyps(2) ok(1) y(1)] by blast
  then show ?case using y assms(7)[OF ok(2)] trans by metis
qed

lemma run_row:
  assumes s: "pv_inv s" "x \<in> set (pw_requests (pv_world s))"
    and refl: "\<And>r. R r r" and trans: "\<And>p q r. R p q \<Longrightarrow> R q r \<Longrightarrow> R p r"
    and step: "\<And>now p q. dsr_ok now p \<Longrightarrow> row_step now p q \<Longrightarrow> R p q"
  shows "\<exists>y\<in>set (pw_requests (pv_world (pv_run E ops s))). dq_id y = dq_id x \<and> R x y"
  using s
proof (induction ops arbitrary: s x)
  case Nil
  then show ?case using refl by (auto simp: pv_run_def)
next
  case (Cons e ops)
  let ?s = "pv_step E e s"
  have "\<exists>y\<in>set (fst (stage (pv_world ?s))). dq_id y = dq_id x \<and> R x y"
    by (rule evolves_row[OF pv_step_evolves[OF Cons.prems(1)]])
      (use pv_inv_parts(1,2)[OF Cons.prems(1)] Cons.prems(2) refl trans step in \<open>simp, simp, simp, blast+\<close>)
  then obtain y where y: "y \<in> set (pw_requests (pv_world ?s))" "dq_id y = dq_id x" "R x y" by auto
  obtain z where "z \<in> set (pw_requests (pv_world (pv_run E ops ?s)))" "dq_id z = dq_id y" "R y z"
    using Cons.IH[OF pv_inv_step[OF Cons.prems(1)] y(1)] by blast
  then show ?case using y trans unfolding pv_run_def by auto
qed

lemma final_row: "row_step now p q \<Longrightarrow> dq_status p \<in> {FULFILLED, FAILED} \<Longrightarrow> q = p"
  unfolding row_step_def minor_step_def major_step_def
  by (elim disjE conjE exE) (auto simp: export_candidate_def erasure_candidate_def)

lemma expired_row: "row_step now p q \<Longrightarrow> dq_status p = EXPIRED \<Longrightarrow> dq_status q = EXPIRED"
  unfolding row_step_def minor_step_def major_step_def
  by (elim disjE conjE exE) (auto simp: export_candidate_def erasure_candidate_def)

text \<open>
  How far an erasure is from its end: every round of claims lowers the number, and an erasure that
  keeps it has not changed at all.
\<close>

definition settled :: "dsr \<Rightarrow> bool" where
  "settled r \<longleftrightarrow> dq_status r \<in> {FULFILLED, FAILED}"

definition rank :: "dsr \<Rightarrow> nat" where
  "rank r = (if settled r then 0 else 4 - dq_attempts r)"

definition closer :: "dsr \<Rightarrow> dsr \<Rightarrow> bool" where
  "closer x y \<longleftrightarrow> is_erasure x \<longrightarrow> is_erasure y \<and> dq_expiresAt y = dq_expiresAt x \<and> (y = x \<or> rank y < rank x)"

lemma closer_trans: "closer p q \<Longrightarrow> closer q r \<Longrightarrow> closer p r"
  by (auto simp: closer_def)

lemma row_closer: "dsr_ok now p \<Longrightarrow> row_step now p q \<Longrightarrow> closer p q"
  unfolding row_step_def minor_step_def major_step_def
  by (elim disjE conjE exE)
    (auto simp: closer_def is_erasure_iff rank_def settled_def dsr_ok_def DSR_MAX_ATTEMPTS_def export_candidate_def erasure_candidate_def)

lemma run_closer:
  assumes "pv_inv s" "x \<in> set (pw_requests (pv_world s))"
  shows "\<exists>y\<in>set (pw_requests (pv_world (pv_run E ops s))). dq_id y = dq_id x \<and> closer x y"
  by (rule run_row[OF assms]) (auto intro: closer_trans row_closer simp: closer_def[of x x for x])


section \<open>Every erasure settles\<close>

fun elapsed :: "('x, 's) pv_op list \<Rightarrow> int" where
  "elapsed [] = 0"
| "elapsed (Wait n # ops) = max 0 n + elapsed ops"
| "elapsed (_ # ops) = elapsed ops"

text \<open>
  A round is what happens between two runs of the hourly worker, and then such a run. It counts
  for a request if the lease of a claim has passed meanwhile, no other transaction has locked the
  row, and the batch has room for all that wait.
\<close>

definition round_ok :: "('x, 's) privacy_env \<Rightarrow> string \<Rightarrow> ('x, 's) pv_op list \<Rightarrow> (dsr \<Rightarrow> bool) \<Rightarrow> ('x, 's) pv_sys \<Rightarrow> bool" where
  "round_ok E rid ops busy s \<longleftrightarrow>
     (let rows = pw_requests (pv_world (pv_run E ops s)); now = pv_now (pv_run E ops s)
      in ERASURE_LOCK_TIMEOUT_MINUTES * 60000 < elapsed ops \<and> list_all (\<lambda>r. dq_id r = rid \<longrightarrow> \<not> busy r) rows \<and>
         length (filter (erasure_candidate now) rows) \<le> PURGE_BATCH_LIMIT)"

fun rounds :: "('x, 's) privacy_env \<Rightarrow> (('x, 's) pv_op list \<times> (dsr \<Rightarrow> bool)) list \<Rightarrow> ('x, 's) pv_sys \<Rightarrow> ('x, 's) pv_sys" where
  "rounds E [] s = s"
| "rounds E ((ops, busy) # rs) s = rounds E rs (pv_step E (PurgeWorker busy) (pv_run E ops s))"

fun rounds_ok :: "('x, 's) privacy_env \<Rightarrow> string \<Rightarrow> (('x, 's) pv_op list \<times> (dsr \<Rightarrow> bool)) list \<Rightarrow> ('x, 's) pv_sys \<Rightarrow> bool" where
  "rounds_ok E rid [] s = True"
| "rounds_ok E rid ((ops, busy) # rs) s =
     (round_ok E rid ops busy s \<and> rounds_ok E rid rs (pv_step E (PurgeWorker busy) (pv_run E ops s)))"

lemma now_step: "pv_now (pv_step E e s) = pv_now s + elapsed [e]"
  by (cases e) (auto split: prod.split)

lemma elapsed_Cons: "elapsed (e # ops) = elapsed [e] + elapsed ops"
  by (cases e) auto

lemma elapsed_nonneg: "0 \<le> elapsed ops"
  by (induction ops rule: elapsed.induct) auto

lemma now_run: "pv_now (pv_run E ops s) = pv_now s + elapsed ops"
proof (induction ops arbitrary: s)
  case (Cons e ops)
  have "pv_run E (e # ops) s = pv_run E ops (pv_step E e s)" by (simp add: pv_run_def)
  then show ?case using Cons[of "pv_step E e s"] now_step[of E e s] elapsed_Cons[of e ops] by simp
qed (simp add: pv_run_def)

text \<open>The claim of the worker brings a waiting erasure one attempt nearer to its end.\<close>

lemma claim_lowers:
  assumes ids: "ids_ok rows" and x: "x \<in> set rows" "dsr_ok now x" "is_erasure x" "isExpired now x" "\<not> settled x"
    and lease: "dq_status x = PROCESSING \<Longrightarrow> lease_over now x" and free: "\<not> busy x"
    and room: "length (filter (erasure_candidate now) rows) \<le> limit"
    and c: "claimExpiredErasureBatch now busy limit rows = (batch, rows')"
  shows "\<exists>y\<in>set rows'. dq_id y = dq_id x \<and> rank y < rank x"
proof -
  let ?P = "\<lambda>r. erasure_candidate now r \<and> \<not> busy r"
  define I where "I = set (map dq_id (take limit (erasure_order (filter ?P rows))))"
  define f where "f = (\<lambda>r. if dq_id r \<in> I then claimed now r else if erasure_exhausted now r then settle now FAILED r else r)"
  have rows': "rows' = map f rows"
    using c unfolding claimExpiredErasureBatch_def claim_batch_def Let_def I_def f_def by simp
  have "length (filter ?P rows) \<le> length (filter (erasure_candidate now) rows)"
    by (metis filter_filter length_filter_le)
  then have "take limit (erasure_order (filter ?P rows)) = erasure_order (filter ?P rows)"
    using room by (simp add: erasure_order_def)
  then have I: "I = dq_id ` {r \<in> set rows. ?P r}" by (auto simp: I_def erasure_order_def)
  have st: "dq_status x = REQUESTED \<or> dq_status x = PROCESSING"
    using x(2,3,5) by (cases "dq_status x") (auto simp: settled_def dsr_ok_def is_erasure_iff)
  have att: "dq_attempts x \<le> 3" "dq_status x = REQUESTED \<Longrightarrow> dq_attempts x = 0"
    using x(2,3) by (auto simp: dsr_ok_def DSR_MAX_ATTEMPTS_def)
  have "rank (f x) < rank x"
  proof (cases "erasure_candidate now x")
    case True
    then have "dq_id x \<in> I" using x(1) free by (auto simp: I)
    then show ?thesis using True x(5) by (auto simp: f_def rank_def settled_def erasure_candidate_def DSR_MAX_ATTEMPTS_def)
  next
    case False
    then have full: "dq_attempts x = 3" "dq_status x = PROCESSING"
      using st att x(3,4) lease by (auto simp: erasure_candidate_def DSR_MAX_ATTEMPTS_def)
    moreover have "dq_id x \<notin> I" using False ids_inj[OF ids _ x(1)] by (auto simp: I)
    ultimately show ?thesis using x(3,5) lease by (simp add: f_def rank_def settled_def erasure_exhausted_def DSR_MAX_ATTEMPTS_def)
  qed
  moreover have "dq_id (f x) = dq_id x" by (simp add: f_def)
  ultimately show ?thesis using x(1) by (auto simp: rows')
qed

lemma round_lowers:
  assumes s: "pv_inv s" "x \<in> set (pw_requests (pv_world s))" "is_erasure x" "isExpired (pv_now s) x"
    and ok: "round_ok E (dq_id x) ops busy s" and pos: "0 < rank x"
  shows "\<exists>y\<in>set (pw_requests (pv_world (pv_step E (PurgeWorker busy) (pv_run E ops s)))).
    dq_id y = dq_id x \<and> is_erasure y \<and> dq_expiresAt y = dq_expiresAt x \<and> rank y < rank x"
proof -
  let ?s = "pv_run E ops s"
  let ?w = "pv_world ?s"
  have inv: "pv_inv ?s" by (rule pv_inv_run[OF s(1)])
  have now: "pv_now s \<le> pv_now ?s" "ERASURE_LOCK_TIMEOUT_MINUTES * 60000 < pv_now ?s - pv_now s"
    using ok elapsed_nonneg[of ops] by (auto simp: now_run round_ok_def Let_def)
  obtain y where y: "y \<in> set (pw_requests ?w)" "dq_id y = dq_id x" "closer x y" using run_closer[OF s(1,2)] by blast
  obtain batch w' where c: "claim_erasures (pv_now ?s) busy ?w = (batch, w')" by fastforce
  have end_row: "\<exists>v\<in>set (pw_requests (pv_world (pv_step E (PurgeWorker busy) ?s))). dq_id v = dq_id z \<and> closer z v"
    if "z \<in> set (pw_requests w')" for z
  proof -
    have e: "dsr_evolves (pv_now ?s) {} (stage ?w) (stage w')" by (rule claim_erasures_evolves(1)[OF pv_inv_parts(1)[OF inv] c])
    have "\<exists>v\<in>set (fst (stage (PurgeExpiredErasuresCommand E (pv_now ?s) busy ?w))). dq_id v = dq_id z \<and> closer z v"
      by (rule evolves_row[OF purge_after_claim[OF pv_inv_parts(1,2)[OF inv] c, where U = "{}"]])
        (use evolves_ids[OF e] evolves_rows_ok[OF e] pv_inv_parts(1,2)[OF inv] that in
          \<open>auto intro: closer_trans row_closer simp: closer_def[of x x for x]\<close>)
    then show ?thesis by simp
  qed
  have c': "claimExpiredErasureBatch (pv_now ?s) busy PURGE_BATCH_LIMIT (pw_requests ?w) = (batch, pw_requests w')"
    using c by (auto simp: claim_erasures_def split: prod.splits)
  have er: "is_erasure y" "dq_expiresAt y = dq_expiresAt x" using y(3) s(3) by (auto simp: closer_def)
  have "\<exists>z\<in>set (pw_requests w'). dq_id z = dq_id y \<and> rank z < rank x \<and> closer y z"
  proof -
    have "\<exists>z\<in>set (fst (stage w')). dq_id z = dq_id y \<and> closer y z"
      by (rule evolves_row[OF claim_erasures_evolves(1)[OF pv_inv_parts(1)[OF inv] c, where U = "{}"]])
        (use pv_inv_parts(1,2)[OF inv] y(1) in \<open>auto intro: closer_trans row_closer simp: closer_def[of x x for x]\<close>)
    then obtain z where z: "z \<in> set (pw_requests w')" "dq_id z = dq_id y" "closer y z" by auto
    have "rank z < rank x"
    proof (cases "rank y < rank x")
      case True
      then show ?thesis using z(3) er(1) by (auto simp: closer_def)
    next
      case False
      then have yx: "y = x" using y(3) s(3) by (auto simp: closer_def)
      have lease: "lease_over (pv_now ?s) x" if "dq_status x = PROCESSING"
        using pv_inv_parts(2)[OF s(1)] s(2) that now(2) by (force simp: dsr_ok_def lease_over_def)
      have "isExpired (pv_now ?s) x" using s(4) now(1) by (auto simp: isExpired_def split: option.splits)
      moreover have "\<not> settled x" using pos by (auto simp: rank_def)
      moreover have "\<not> busy x" "length (filter (erasure_candidate (pv_now ?s)) (pw_requests ?w)) \<le> PURGE_BATCH_LIMIT"
        using ok y(1) yx by (auto simp: round_ok_def Let_def list_all_iff)
      moreover have "dsr_ok (pv_now ?s) x" using pv_inv_parts(2)[OF inv] y(1) yx by blast
      ultimately obtain z' where "z' \<in> set (pw_requests w')" "dq_id z' = dq_id x" "rank z' < rank x"
        using claim_lowers[OF pv_inv_parts(1)[OF inv] _ _ s(3) _ _ lease _ _ c'] y(1) yx by blast
      moreover have "ids_ok (pw_requests w')"
        using evolves_ids[OF claim_erasures_evolves(1)[OF pv_inv_parts(1)[OF inv] c, where U = "{}"]] pv_inv_parts(1)[OF inv] by simp
      ultimately show ?thesis using ids_inj z(1,2) yx by metis
    qed
    then show ?thesis using z by blast
  qed
  then obtain z where z: "z \<in> set (pw_requests w')" "dq_id z = dq_id y" "rank z < rank x" "closer y z" by blast
  obtain v where "v \<in> set (pw_requests (pv_world (pv_step E (PurgeWorker busy) ?s)))" "dq_id v = dq_id z" "closer z v"
    using end_row[OF z(1)] by blast
  moreover have "is_erasure z" "dq_expiresAt z = dq_expiresAt x" using z(4) er by (auto simp: closer_def)
  ultimately show ?thesis using z(2,3) y(2) by (auto simp: closer_def)
qed


lemma rounds_settle:
  assumes "pv_inv s" "x \<in> set (pw_requests (pv_world s))" "is_erasure x" "isExpired (pv_now s) x"
    and "rounds_ok E (dq_id x) rs s" "rank x \<le> length rs"
  shows "\<exists>y\<in>set (pw_requests (pv_world (rounds E rs s))). dq_id y = dq_id x \<and> settled y"
  using assms
proof (induction rs arbitrary: s x)
  case Nil
  then have "dsr_ok (pv_now s) x" using pv_inv_parts(2) by blast
  then show ?case using Nil.prems by (auto simp: rank_def dsr_ok_def DSR_MAX_ATTEMPTS_def split: if_splits)
next
  case (Cons r rs)
  obtain ops busy where r: "r = (ops, busy)" by fastforce
  let ?s = "pv_step E (PurgeWorker busy) (pv_run E ops s)"
  have inv: "pv_inv ?s" by (rule pv_inv_step[OF pv_inv_run[OF Cons.prems(1)]])
  have ok: "round_ok E (dq_id x) ops busy s" "rounds_ok E (dq_id x) rs ?s" using Cons.prems(5) r by simp_all
  have "\<exists>y\<in>set (pw_requests (pv_world ?s)). dq_id y = dq_id x \<and> is_erasure y \<and> dq_expiresAt y = dq_expiresAt x \<and>
      rank y \<le> length rs"
  proof (cases "0 < rank x")
    case True
    obtain y where "y \<in> set (pw_requests (pv_world ?s))" "dq_id y = dq_id x" "is_erasure y"
      "dq_expiresAt y = dq_expiresAt x" "rank y < rank x"
      using round_lowers[OF Cons.prems(1-4) ok(1) True] by blast
    moreover from this have "rank y \<le> length rs" using Cons.prems(6) by simp
    ultimately show ?thesis by blast
  next
    case False
    obtain y where "y \<in> set (pw_requests (pv_world (pv_run E (ops @ [PurgeWorker busy]) s)))" "dq_id y = dq_id x" "closer x y"
      using run_closer[OF Cons.prems(1,2)] by blast
    moreover have "pv_run E (ops @ [PurgeWorker busy]) s = ?s" by (simp add: pv_run_def)
    moreover have "is_erasure y" "dq_expiresAt y = dq_expiresAt x" "rank y \<le> length rs"
      using \<open>closer x y\<close> Cons.prems(3) False by (auto simp: closer_def)
    ultimately show ?thesis by metis
  qed
  then obtain y where y: "y \<in> set (pw_requests (pv_world ?s))" "dq_id y = dq_id x" "is_erasure y"
    "dq_expiresAt y = dq_expiresAt x" "rank y \<le> length rs" by blast
  have "pv_now s \<le> pv_now ?s" using elapsed_nonneg[of ops] now_step[of E "PurgeWorker busy"] by (simp add: now_run)
  then have "isExpired (pv_now ?s) y" using Cons.prems(4) y(4) by (auto simp: isExpired_def split: option.splits)
  from Cons.IH[OF inv y(1,3) this _ y(5)] ok(2) y(2) show ?case by (simp add: r)
qed

lemma rank_bound: "rank x \<le> 4"
  by (simp add: rank_def)

end
