(* ===== verification/PrivacyErasure.thy ===== *)
theory PrivacyErasure
  imports Privacy TenancyRows
begin

text \<open>
  What the request for the erasure of an account leaves behind in the tables of other modules: the
  walk over the pages of organizations is complete, the statements on memberships and invitations
  reach every row, and the anonymized account has nothing left that identifies its owner.
\<close>

section \<open>The walk over the organizations of a user\<close>

definition access_of :: "tn_db \<Rightarrow> membership \<Rightarrow> (organization \<times> tenant_role) option" where
  "access_of db m = map_option (\<lambda>g. (g, ms_role m)) (find (\<lambda>g. og_id g = ms_tenantId m) (organizations_of db))"

lemma find_filter: "(\<And>x. P x \<Longrightarrow> Q x) \<Longrightarrow> find P (filter Q xs) = find P xs"
  by (induction xs) auto

lemma map_filter_append: "List.map_filter f (xs @ ys) = List.map_filter f xs @ List.map_filter f ys"
  by (simp add: List.map_filter_def)

lemma map_filter_cong: "(\<And>x. x \<in> set xs \<Longrightarrow> f x = g x) \<Longrightarrow> List.map_filter f xs = List.map_filter g xs"
  by (induction xs) (simp_all add: List.map_filter_def)

lemma list_page:
  "ListOrganizationsQuery u page limit db =
     (List.map_filter (access_of db) (take limit (drop ((page - 1) * limit) (memberships_for_user u db))),
      page_count (length (memberships_for_user u db)) limit)"
proof -
  let ?items = "take limit (drop ((page - 1) * limit) (memberships_for_user u db))"
  have "find (\<lambda>g. og_id g = ms_tenantId m) (findByIds (map ms_tenantId ?items) db) = find (\<lambda>g. og_id g = ms_tenantId m) (organizations_of db)"
    if m: "m \<in> set ?items" for m
  proof -
    let ?ids = "map ms_tenantId ?items"
    have mem: "ms_tenantId m \<in> set ?ids" using m by (simp only: set_map) (rule imageI)
    then have ne: "?ids \<noteq> []" by (metis empty_iff empty_set)
    have f: "findByIds ?ids db = filter (\<lambda>g. og_id g \<in> set ?ids) (organizations_of db)"
      unfolding findByIds_def using ne by (rule if_not_P)
    show ?thesis unfolding f by (rule find_filter) (use mem in \<open>simp only:\<close>)
  qed
  then show ?thesis unfolding ListOrganizationsQuery_def Let_def
    by (auto simp: access_of_def intro!: map_filter_cong)
qed

lemma page_count_reached:
  assumes "page_count n limit \<le> page" "0 < limit"
  shows "n \<le> page * limit"
proof -
  have "(n + limit - 1) div limit \<le> page" using assms(1) by (simp add: page_count_def)
  then have "(n + limit - 1) < (page + 1) * limit" using assms(2) by (simp add: div_less_iff_less_mult less_Suc_eq_le [symmetric])
  then show ?thesis by simp
qed

lemma collect_from:
  "1 \<le> page \<Longrightarrow> collect_pages u db page =
     List.map_filter (access_of db) (drop ((page - 1) * EXPORT_PAGE_LIMIT) (memberships_for_user u db))"
proof (induction u db page rule: collect_pages.induct)
  case (1 u db page)
  let ?all = "memberships_for_user u db" and ?n = "page_count (length (memberships_for_user u db)) EXPORT_PAGE_LIMIT"
  let ?rest = "drop ((page - 1) * EXPORT_PAGE_LIMIT) ?all"
  have lim: "0 < EXPORT_PAGE_LIMIT" by (simp add: EXPORT_PAGE_LIMIT_def)
  have turn: "page * EXPORT_PAGE_LIMIT = EXPORT_PAGE_LIMIT + (page - 1) * EXPORT_PAGE_LIMIT" using 1(2) by (cases page) auto
  show ?case
  proof (cases "?n \<le> page")
    case True
    then have "length ?all \<le> page * EXPORT_PAGE_LIMIT" by (rule page_count_reached[OF _ lim])
    then have "take EXPORT_PAGE_LIMIT ?rest = ?rest" by (simp add: turn)
    then show ?thesis using True by (subst collect_pages.simps) (simp add: list_page)
  next
    case False
    have "collect_pages u db (page + 1) = List.map_filter (access_of db) (drop (page * EXPORT_PAGE_LIMIT) ?all)"
      using 1(1)[OF list_page[symmetric] False] by simp
    also have "drop (page * EXPORT_PAGE_LIMIT) ?all = drop EXPORT_PAGE_LIMIT ?rest" by (simp add: turn)
    finally have rest: "collect_pages u db (page + 1) = List.map_filter (access_of db) (drop EXPORT_PAGE_LIMIT ?rest)" .
    have "collect_pages u db page = List.map_filter (access_of db) (take EXPORT_PAGE_LIMIT ?rest) @ collect_pages u db (page + 1)"
      using False by (subst collect_pages.simps) (simp add: list_page)
    then show ?thesis unfolding rest map_filter_append[symmetric] append_take_drop_id .
  qed
qed

lemma collect_all: "collect_pages u db 1 = List.map_filter (access_of db) (memberships_for_user u db)"
  using collect_from[of 1 u db] by simp

lemma collected_iff: "t \<in> set (collectTenantIds u db) \<longleftrightarrow>
    (\<exists>m\<in>set (memberships_for_user u db). \<exists>x. access_of db m = Some x \<and> og_id (fst x) = t)"
proof -
  have "set (collectTenantIds u db) = (og_id \<circ> fst) ` set (List.map_filter (access_of db) (memberships_for_user u db))"
    unfolding collectTenantIds_def collect_all by simp
  then have "t \<in> set (collectTenantIds u db) \<longleftrightarrow>
      (\<exists>x\<in>set (List.map_filter (access_of db) (memberships_for_user u db)). og_id (fst x) = t)"
    unfolding image_def comp_def by auto
  then show ?thesis unfolding Bex_def in_map_filter by blast
qed

lemma collected_ids:
  "set (collectTenantIds u db) =
     {og_id g |g m. m \<in> set (memberships_of db) \<and> ms_userId m = u \<and> g \<in> set (organizations_of db) \<and> og_id g = ms_tenantId m}"
proof -
  have one: "(\<exists>x. access_of db m = Some x \<and> og_id (fst x) = t) \<longleftrightarrow>
      (\<exists>g\<in>set (organizations_of db). og_id g = ms_tenantId m \<and> og_id g = t)" for m t
  proof (cases "find (\<lambda>g. og_id g = ms_tenantId m) (organizations_of db)")
    case None
    then have "\<forall>g\<in>set (organizations_of db). og_id g \<noteq> ms_tenantId m" by (auto simp: find_None_iff)
    then show ?thesis using None by (auto simp: access_of_def)
  next
    case (Some g)
    then have "g \<in> set (organizations_of db)" "og_id g = ms_tenantId m" by (auto simp: find_Some_iff)
    then show ?thesis using Some by (auto simp: access_of_def)
  qed
  show ?thesis
  proof (rule set_eqI)
    fix t
    have "t \<in> set (collectTenantIds u db) \<longleftrightarrow>
        (\<exists>m\<in>set (memberships_for_user u db). \<exists>g\<in>set (organizations_of db). og_id g = ms_tenantId m \<and> og_id g = t)"
      unfolding collected_iff one by (rule refl)
    also have "set (memberships_for_user u db) = {m \<in> set (memberships_of db). ms_userId m = u}"
      by (auto simp: memberships_for_user_def)
    finally show "t \<in> set (collectTenantIds u db) \<longleftrightarrow>
        t \<in> {og_id g |g m. m \<in> set (memberships_of db) \<and> ms_userId m = u \<and> g \<in> set (organizations_of db) \<and> og_id g = ms_tenantId m}"
      by blast
  qed
qed

lemma plan_read:
  assumes "\<forall>t\<in>set ts. t \<noteq> []"
  shows "\<exists>plan. readTenantPlan (Some (erasure_plan ts)) = Some plan \<and> set plan = set ts"
proof -
  have "List.map_filter js_string (map JStr ts) = ts" by (induction ts) (simp_all add: List.map_filter_def)
  then show ?thesis using assms by (simp add: readTenantPlan_def erasure_plan_def plan_id_def list_all_iff)
qed


section \<open>Rows that are gone\<close>

lemma delete_rows:
  assumes "jm_ok db"
  shows "jm_get (fold put_row (map (\<lambda>x. (f x, None)) xs) db) k = (if k \<in> f ` set xs then None else jm_get db k)"
    "jm_ok (fold put_row (map (\<lambda>x. (f x, None)) xs) db)"
  using assms
proof (induction xs arbitrary: db)
  case (Cons x xs)
  { case 1 then show ?case using Cons(1)[of "jm_delete (f x) db"] by (auto simp: jmap_laws) }
  { case 2 then show ?case using Cons(2)[of "jm_delete (f x) db"] by (auto simp: jmap_laws) }
qed simp_all

lemma delete_keeps_ok:
  assumes "tables_ok db"
  shows "tables_ok (fold put_row (map (\<lambda>x. (f x, None)) xs) db)"
  using assms delete_rows[OF tables_okD(1)[OF assms], of f xs]
  unfolding tables_ok_def tables_typed_def ids_unique_def member_at_def by (auto split: if_splits)

lemma members_deleted:
  assumes "tables_ok db"
  shows "set (memberships_of (fold put_row (map (\<lambda>m. (member_key m, None)) (filter p (memberships_of db))) db)) =
      {m \<in> set (memberships_of db). \<not> p m}"
    "set (invitations_of (fold put_row (map (\<lambda>m. (member_key m, None)) (filter p (memberships_of db))) db)) =
      set (invitations_of db)"
proof -
  let ?xs = "filter p (memberships_of db)"
  let ?db = "fold put_row (map (\<lambda>m. (member_key m, None)) ?xs) db"
  have ok: "tables_ok ?db" by (rule delete_keeps_ok[OF assms])
  have get: "jm_get ?db k = (if k \<in> member_key ` set ?xs then None else jm_get db k)" for k
    by (rule delete_rows(1)[OF tables_okD(1)[OF assms]])
  have same: "m = n" if "m \<in> set (memberships_of db)" "n \<in> set (memberships_of db)" "member_key m = member_key n" for m n
    using that members_at[OF assms] by (auto simp: member_at_def)
  show "set (memberships_of ?db) = {m \<in> set (memberships_of db). \<not> p m}"
    using same by (auto simp: members_at[OF ok] members_at[OF assms] member_at_def get split: if_splits)
  show "set (invitations_of ?db) = set (invitations_of db)"
  proof (rule set_eqI)
    fix i :: invitation
    have "InviteKey (iv_id i) \<notin> member_key ` set ?xs" by (auto simp: member_key_def)
    then show "i \<in> set (invitations_of ?db) \<longleftrightarrow> i \<in> set (invitations_of db)"
      unfolding invites_at[OF ok] invites_at[OF assms] get by simp
  qed
qed

lemma invites_deleted:
  assumes "tables_ok db"
  shows "set (invitations_of (fold put_row (map (\<lambda>i. (InviteKey (iv_id i), None)) (filter p (invitations_of db))) db)) =
      {i \<in> set (invitations_of db). \<not> p i}"
    "set (memberships_of (fold put_row (map (\<lambda>i. (InviteKey (iv_id i), None)) (filter p (invitations_of db))) db)) =
      set (memberships_of db)"
proof -
  let ?xs = "filter p (invitations_of db)"
  let ?db = "fold put_row (map (\<lambda>i. (InviteKey (iv_id i), None)) ?xs) db"
  have ok: "tables_ok ?db" by (rule delete_keeps_ok[OF assms])
  have get: "jm_get ?db k = (if k \<in> (\<lambda>i. InviteKey (iv_id i)) ` set ?xs then None else jm_get db k)" for k
    by (rule delete_rows(1)[OF tables_okD(1)[OF assms]])
  have same: "i = j" if "i \<in> set (invitations_of db)" "j \<in> set (invitations_of db)" "iv_id i = iv_id j" for i j
    using that invites_at[OF assms] by auto
  show "set (invitations_of ?db) = {i \<in> set (invitations_of db). \<not> p i}"
    using same by (auto simp: invites_at[OF ok] invites_at[OF assms] get split: if_splits)
  show "set (memberships_of ?db) = set (memberships_of db)"
  proof (rule set_eqI)
    fix m :: membership
    have "member_key m \<notin> (\<lambda>i. InviteKey (iv_id i)) ` set ?xs" by (auto simp: member_key_def)
    then show "m \<in> set (memberships_of ?db) \<longleftrightarrow> m \<in> set (memberships_of db)"
      unfolding members_at[OF ok] members_at[OF assms] member_at_def get by simp
  qed
qed

lemma user_purged:
  assumes "tables_ok db"
  shows "\<exists>db'. nested_script (PurgeUserTenancyDataCommand u email) now db = (Inr Done, db') \<and>
    set (memberships_of db') = {m \<in> set (memberships_of db). ms_userId m \<noteq> u} \<and>
    set (invitations_of db') = {i \<in> set (invitations_of db). iv_email i \<noteq> email}"
proof -
  let ?db1 = "fold put_row (map (\<lambda>m. (member_key m, None)) (filter (\<lambda>m. ms_userId m = u) (memberships_of db))) db"
  let ?db2 = "fold put_row (map (\<lambda>i. (InviteKey (iv_id i), None)) (filter (\<lambda>i. iv_email i = email) (invitations_of ?db1))) ?db1"
  have ok: "tables_ok ?db1" by (rule delete_keeps_ok[OF assms])
  have "nested_script (PurgeUserTenancyDataCommand u email) now db = (Inr Done, ?db2)"
    by (simp add: nested_script_def PurgeUserTenancyDataCommand_def ask_def removeUser_def delete_members_def
        invitations_deleteByEmail_def delete_invites_def Let_def)
  moreover have "set (memberships_of ?db2) = {m \<in> set (memberships_of db). ms_userId m \<noteq> u}"
    unfolding invites_deleted(2)[OF ok] members_deleted(1)[OF assms] by (rule refl)
  moreover have "set (invitations_of ?db2) = {i \<in> set (invitations_of db). iv_email i \<noteq> email}"
    unfolding invites_deleted(1)[OF ok] members_deleted(2)[OF assms] by (rule refl)
  ultimately show ?thesis by blast
qed


section \<open>The account\<close>

abbreviation live_account :: "string \<Rightarrow> account \<Rightarrow> bool" where
  "live_account u a \<equiv> us_id (ac_user a) = u \<and> \<not> ac_deleted a"

lemma find_map: "(\<And>a. Q (h a) = Q a) \<Longrightarrow> find Q (map h xs) = map_option h (find Q xs)"
  by (induction xs) auto

lemma findById_map:
  assumes "\<And>a. us_id (ac_user (h a)) = us_id (ac_user a)" "\<And>a. ac_deleted (h a) = ac_deleted a"
  shows "findById (map h accounts) u = map_option (ac_user \<circ> h) (find (live_account u) accounts)"
proof -
  have "find (live_account u) (map h accounts) = map_option h (find (live_account u) accounts)"
    by (rule find_map) (simp add: assms)
  then show ?thesis by (simp add: findById_def find_account_def option.map_comp comp_def)
qed

lemma findById_row:
  assumes "findById accounts u = Some old"
  obtains a where "find (live_account u) accounts = Some a" "ac_user a = old" "live_account u a" "a \<in> set accounts"
  using assms by (auto simp: findById_def find_account_def find_Some_iff dest: nth_mem)

lemma version_raised:
  assumes "findById accounts u = Some old"
  shows "\<exists>found accounts'. incrementAuthVersion u accounts = (Some found, accounts') \<and>
    findById accounts' u = Some (bump_version old)"
proof -
  obtain a where a: "find (live_account u) accounts = Some a" "ac_user a = old" "live_account u a" "a \<in> set accounts"
    by (rule findById_row[OF assms])
  have "find (\<lambda>a. us_id (ac_user a) = u) accounts \<noteq> None" using a(3,4) by (auto simp: find_None_iff)
  moreover have "findById (map (\<lambda>a. if us_id (ac_user a) = u then a\<lparr>ac_user := bump_version (ac_user a)\<rparr> else a) accounts) u =
      Some (bump_version old)"
    by (subst findById_map) (use a in \<open>auto simp: bump_version_def\<close>)
  ultimately show ?thesis by (auto simp: incrementAuthVersion_def update_accounts_def find_account_def)
qed

definition traceless :: "string \<Rightarrow> account \<Rightarrow> bool" where
  "traceless u a \<longleftrightarrow> us_email (ac_user a) = anonymizedEmail u \<and> us_name (ac_user a) = ANONYMIZED_USER_NAME \<and>
     us_avatarFileId (ac_user a) = None \<and> ac_resetTokenHash a = None \<and> ac_verificationTokenHash a = None \<and>
     ac_pendingEmail a = None \<and> ac_emailChangeTokenHash a = None"

lemma account_anonymized:
  assumes "findById accounts u = Some old" "AnonymizeUserCommand u hash accounts = Some accounts'"
  shows "findById accounts' u = Some (old\<lparr>us_email := anonymizedEmail u, us_name := ANONYMIZED_USER_NAME, us_avatarFileId := None\<rparr>) \<and>
    (\<forall>a\<in>set accounts'. us_id (ac_user a) = u \<longrightarrow> \<not> ac_deleted a \<longrightarrow> traceless u a \<and> ac_passwordHash a = hash)"
proof -
  have a': "accounts' = snd (update_accounts (\<lambda>a. us_id (ac_user a) = u \<and> \<not> ac_deleted a) (anonymized hash) accounts)"
    using assms by (auto simp: AnonymizeUserCommand_def Let_def split: if_splits)
  obtain a where a: "find (live_account u) accounts = Some a" "ac_user a = old" "live_account u a"
    by (rule findById_row[OF assms(1)])
  have "findById accounts' u = Some (old\<lparr>us_email := anonymizedEmail u, us_name := ANONYMIZED_USER_NAME, us_avatarFileId := None\<rparr>)"
    unfolding a' update_accounts_def snd_conv by (subst findById_map) (use a in \<open>auto simp: anonymized_def\<close>)
  moreover have "traceless u a \<and> ac_passwordHash a = hash" if here: "a \<in> set accounts'" "us_id (ac_user a) = u" "\<not> ac_deleted a" for a
  proof -
    obtain x where "x \<in> set accounts" "a = (if live_account u x then anonymized hash x else x)"
      using here(1) unfolding a' update_accounts_def snd_conv set_map by blast
    then have "us_id (ac_user x) = u" "a = anonymized hash x" using here(2,3) by (auto simp: anonymized_def split: if_splits)
    then show ?thesis by (simp add: traceless_def anonymized_def)
  qed
  ultimately show ?thesis by blast
qed

lemma credentials_user:
  assumes "verify_user_credentials W accounts email password = Some v"
  shows "findById accounts (us_id v) = Some v"
proof -
  obtain i where i: "findById accounts i = Some v"
    using assms by (auto simp: verify_user_credentials_def Let_def split: option.splits if_splits)
  obtain a where "ac_user a = v" "live_account i a" by (rule findById_row[OF i])
  then show ?thesis using i by auto
qed


lemma persisted:
  assumes ok: "tables_ok (pw_tenancy w)" and old: "findById (pw_accounts w) u = Some old"
    and run: "account_erasure_persist E now rid u email hash w = (Inr r, w')"
  shows "findById (pw_accounts w') u = Some ((bump_version old)\<lparr>us_email := anonymizedEmail u, us_name := ANONYMIZED_USER_NAME,
      us_avatarFileId := None\<rparr>)"
    "\<forall>a\<in>set (pw_accounts w'). live_account u a \<longrightarrow> traceless u a \<and> ac_passwordHash a = hash"
    "set (memberships_of (pw_tenancy w')) = {m \<in> set (memberships_of (pw_tenancy w)). ms_userId m \<noteq> u}"
    "set (invitations_of (pw_tenancy w')) = {i \<in> set (invitations_of (pw_tenancy w)). iv_email i \<noteq> email}"
    "dq_payload r = Some (erasure_plan (collectTenantIds u (pw_tenancy w)))" "dq_status r = REQUESTED"
    "dq_expiresAt r = Some (now + GRACE_DAYS * 86400000)" "r \<in> set (pw_requests w')"
    "pw_events w' = pw_events w @ [AccountErasureRequested rid u]"
proof -
  obtain found accounts1 where v: "incrementAuthVersion u (pw_accounts w) = (Some found, accounts1)"
    "findById accounts1 u = Some (bump_version old)" using version_raised[OF old] by blast
  obtain db where d: "nested_script (PurgeUserTenancyDataCommand u email) now (pw_tenancy w) = (Inr Done, db)"
    "set (memberships_of db) = {m \<in> set (memberships_of (pw_tenancy w)). ms_userId m \<noteq> u}"
    "set (invitations_of db) = {i \<in> set (invitations_of (pw_tenancy w)). iv_email i \<noteq> email}"
    using user_purged[OF ok] by blast
  obtain accounts2 where a: "AnonymizeUserCommand u hash accounts1 = Some accounts2" "pw_accounts w' = accounts2"
    and rest: "pw_tenancy w' = db" "dq_payload r = Some (erasure_plan (collectTenantIds u (pw_tenancy w)))"
      "dq_status r = REQUESTED" "dq_expiresAt r = Some (now + GRACE_DAYS * 86400000)" "r \<in> set (pw_requests w')"
      "pw_events w' = pw_events w @ [AccountErasureRequested rid u]"
    using run unfolding account_erasure_persist_def Let_def v(1) d(1)
    by (auto simp: dsr_create_def Let_def dispatchGlobal_def split: if_splits option.splits)
  note an = account_anonymized[OF v(2) a(1)]
  show "findById (pw_accounts w') u = Some ((bump_version old)\<lparr>us_email := anonymizedEmail u, us_name := ANONYMIZED_USER_NAME,
      us_avatarFileId := None\<rparr>)" using an a(2) by simp
  show "\<forall>a\<in>set (pw_accounts w'). live_account u a \<longrightarrow> traceless u a \<and> ac_passwordHash a = hash" using an a(2) by blast
  show "set (memberships_of (pw_tenancy w')) = {m \<in> set (memberships_of (pw_tenancy w)). ms_userId m \<noteq> u}"
    "set (invitations_of (pw_tenancy w')) = {i \<in> set (invitations_of (pw_tenancy w)). iv_email i \<noteq> email}"
    using rest(1) d(2,3) by simp_all
  show "dq_payload r = Some (erasure_plan (collectTenantIds u (pw_tenancy w)))" "dq_status r = REQUESTED"
    "dq_expiresAt r = Some (now + GRACE_DAYS * 86400000)" "r \<in> set (pw_requests w')"
    "pw_events w' = pw_events w @ [AccountErasureRequested rid u]"
    using rest by simp_all
qed

end
