(* ===== verification/PrivacyProperties.thy ===== *)
theory PrivacyProperties
  imports PrivacyGuarantees PrivacyErasure AuthenticationGuarantees
begin

text \<open>
  The properties of the privacy module, each applied to a concrete run: a user asks for an export
  and for the erasure of the account, and the workers take them to their ends. Also runs of what
  goes wrong.
\<close>

section \<open>A small world\<close>

definition privacy_demo_env :: "(unit, demo_store) privacy_env" where
  "privacy_demo_env = \<lparr>pe_single = False, pe_contributors = [], pe_dispatch = (\<lambda>_. True), pe_userDispatch = (\<lambda>_. True),
     pe_bytes = (\<lambda>_. 0), pe_iso = (\<lambda>_. ''now''), pe_parse = Some, pe_auth = demo_auth\<lparr>aw_connected := False\<rparr>\<rparr>"

definition privacy_demo_tables :: tn_db where
  "privacy_demo_tables =
     [(OrgKey ''o'', OrgRow \<lparr>og_id = ''o'', og_name = ''Org'', og_slug = ''org'', og_createdBy = ''x'', og_createdAt = 0,
         og_updatedAt = 0, og_deletedAt = None\<rparr>),
      (MemberKey ''o'' ''u'', MemberRow \<lparr>ms_id = ''m'', ms_tenantId = ''o'', ms_userId = ''u'', ms_userEmail = ''e'',
         ms_userName = ''n'', ms_role = MEMBER, ms_createdAt = 0, ms_updatedAt = 0\<rparr>),
      (InviteKey ''i'', InviteRow \<lparr>iv_id = ''i'', iv_tenantId = ''o'', iv_email = ''e'', iv_role = AS_MEMBER,
         iv_tokenHash = ''h'', iv_invitedBy = ''x'', iv_status = Pending, iv_expiresAt = 10, iv_acceptedBy = None,
         iv_acceptedAt = None, iv_createdAt = 0, iv_updatedAt = 0\<rparr>)]"

definition privacy_demo_world :: "(unit, demo_store) privacy_world" where
  "privacy_demo_world = \<lparr>pw_requests = [], pw_events = [], pw_tenancy = privacy_demo_tables,
     pw_accounts = [demo_account], pw_sessions = demo_live, pw_modules = ()\<rparr>"

definition privacy_demo :: "(unit, demo_store) pv_sys" where
  "privacy_demo = \<lparr>pv_now = 0, pv_world = privacy_demo_world, pv_claims = [], pv_listed = [], pv_queued = []\<rparr>"

lemma privacy_demo_start: "pv_start privacy_demo"
  by (simp add: pv_start_def privacy_demo_def privacy_demo_world_def stage_def)

text \<open>An export from the request to the download that comes too late, and an erasure.\<close>

definition export_ops :: "(unit, demo_store) pv_op list" where
  "export_ops = [LookForExport ''u'', CreateExport ''u'' ''x'', LookForExport ''u'', Wait 60000, ExportWorker (\<lambda>_. False) (\<lambda>_. (0, 0))]"

definition erasure_ops :: "(unit, demo_store) pv_op list" where
  "erasure_ops = [AskAccountErasure 0 ''r'' ''h'' ''u'' ''p'', Wait 2592000000]"

section \<open>Properties\<close>

text \<open>
  C8. A request completes at most once, whatever the interleaving of commands, workers that are
  late, and failures: the outbox never holds two completion events for one request (export ready,
  account purged, organization purged), it holds one if the request is ready, partial or
  fulfilled, and none while it is waiting or has failed.
\<close>

theorem completion_exactly_once:
  assumes "pv_start s"
  shows "(\<forall>i. completions i (pw_events (pv_world (pv_run E ops s))) \<le> 1) \<and>
    (\<forall>r\<in>set (pw_requests (pv_world (pv_run E ops s))).
       (dq_status r \<in> {READY, PARTIAL, FULFILLED} \<longrightarrow> completions (dq_id r) (pw_events (pv_world (pv_run E ops s))) = 1) \<and>
       (dq_status r \<in> {REQUESTED, PROCESSING, FAILED} \<longrightarrow> completions (dq_id r) (pw_events (pv_world (pv_run E ops s))) = 0))"
proof -
  let ?w = "pv_world (pv_run E ops s)"
  have t: "tally (stage ?w)" using pv_inv_run[OF pv_inv_start[OF assms]] unfolding pv_inv_def books_def by blast
  have c: "counts (dq_status r) (completions (dq_id r) (pw_events ?w))" if "r \<in> set (pw_requests ?w)" for r
    using t that by (simp add: tally_def)
  have row: "completions (dq_id r) (pw_events ?w) \<le> 1" if "r \<in> set (pw_requests ?w)" for r
    using c[OF that] by (cases "dq_status r") simp_all
  have "completions i (pw_events ?w) \<le> 1" for i
  proof (cases "i \<in> dq_id ` set (pw_requests ?w)")
    case True
    then show ?thesis using row by blast
  next
    case False
    then show ?thesis using t by (simp add: tally_def)
  qed
  moreover have "(dq_status r \<in> {READY, PARTIAL, FULFILLED} \<longrightarrow> completions (dq_id r) (pw_events ?w) = 1) \<and>
      (dq_status r \<in> {REQUESTED, PROCESSING, FAILED} \<longrightarrow> completions (dq_id r) (pw_events ?w) = 0)"
    if "r \<in> set (pw_requests ?w)" for r
    using c[OF that] by (cases "dq_status r") simp_all
  ultimately show ?thesis by blast
qed

lemma completion_exactly_once_witness:
  "completions ''x'' (pw_events (pv_world (pv_run privacy_demo_env (export_ops @ [Wait 60000, ExportWorker (\<lambda>_. False) (\<lambda>_. (0, 0))]) privacy_demo))) \<le> 1 \<and>
   pw_events (pv_world (pv_run privacy_demo_env export_ops privacy_demo)) = [ExportRequested ''x'' ''u'', ExportReady ''x'' ''u'']"
proof -
  have "pw_events (pv_world (pv_run privacy_demo_env export_ops privacy_demo)) = [ExportRequested ''x'' ''u'', ExportReady ''x'' ''u'']"
    by code_simp
  then show ?thesis using completion_exactly_once[OF privacy_demo_start] by blast
qed

text \<open>
  C35. A request that is fulfilled or has failed is never changed again by any command or worker,
  and an export that has expired stays expired.
\<close>

theorem settled_final:
  assumes "pv_start s" "r \<in> set (pw_requests (pv_world (pv_run E ops s)))"
  shows "(dq_status r \<in> {FULFILLED, FAILED} \<longrightarrow> r \<in> set (pw_requests (pv_world (pv_run E (ops @ later) s)))) \<and>
    (dq_status r = EXPIRED \<longrightarrow>
       (\<exists>x\<in>set (pw_requests (pv_world (pv_run E (ops @ later) s))). dq_id x = dq_id r \<and> dq_status x = EXPIRED))"
proof -
  note inv = pv_inv_run[OF pv_inv_start[OF assms(1)], of E ops]
  have "\<exists>y\<in>set (pw_requests (pv_world (pv_run E later (pv_run E ops s)))). dq_id y = dq_id r \<and>
      (dq_status r \<in> {FULFILLED, FAILED} \<longrightarrow> y = r)"
    by (rule run_row[OF inv assms(2), where R = "\<lambda>p q. dq_status p \<in> {FULFILLED, FAILED} \<longrightarrow> q = p"]) (simp, metis, metis final_row)
  moreover have "\<exists>y\<in>set (pw_requests (pv_world (pv_run E later (pv_run E ops s)))). dq_id y = dq_id r \<and>
      (dq_status r = EXPIRED \<longrightarrow> dq_status y = EXPIRED)"
    by (rule run_row[OF inv assms(2), where R = "\<lambda>p q. dq_status p = EXPIRED \<longrightarrow> dq_status q = EXPIRED"]) (simp, metis, metis expired_row)
  ultimately show ?thesis unfolding pv_run_append by metis
qed

definition requests_after :: "(unit, demo_store) pv_op list \<Rightarrow> dsr list" where
  "requests_after ops = pw_requests (pv_world (pv_run privacy_demo_env ops privacy_demo))"

definition doomed_ops :: "(unit, demo_store) pv_op list" where
  "doomed_ops = erasure_ops @ [PurgeWorker (\<lambda>_. False)]"

lemma privacy_demo_one_row: "\<exists>r. requests_after export_ops = [r]" "\<exists>r. requests_after erasure_ops = [r]"
proof -
  have "length (requests_after export_ops) = 1" "length (requests_after erasure_ops) = 1" by code_simp+
  then show "\<exists>r. requests_after export_ops = [r]" "\<exists>r. requests_after erasure_ops = [r]" by (simp_all add: length_Suc_conv)
qed

lemma settled_final_witness:
  "list_all (\<lambda>r. dq_status r = FULFILLED \<and> r \<in> set (requests_after (doomed_ops @ [Wait 1000000, PurgeWorker (\<lambda>_. False)])))
     (requests_after doomed_ops) \<and> length (requests_after doomed_ops) = 1"
proof -
  have "list_all (\<lambda>r. dq_status r = FULFILLED) (requests_after doomed_ops)" "length (requests_after doomed_ops) = 1"
    by code_simp+
  moreover have "r \<in> set (requests_after (doomed_ops @ [Wait 1000000, PurgeWorker (\<lambda>_. False)]))"
    if "r \<in> set (requests_after doomed_ops)" "dq_status r = FULFILLED" for r
    using settled_final[OF privacy_demo_start that(1)[unfolded requests_after_def]] that(2) unfolding requests_after_def by blast
  ultimately show ?thesis by (auto simp: list_all_iff)
qed

text \<open>
  C24. However requests for exports, workers and clocks interleave, a user has at most one export
  that is waiting, in progress or ready and has not expired.
\<close>

theorem one_active_export:
  assumes "pv_start s" "r \<in> set (pw_requests (pv_world (pv_run E ops s)))" "r' \<in> set (pw_requests (pv_world (pv_run E ops s)))"
    and "active_export (pv_now (pv_run E ops s)) u r" "active_export (pv_now (pv_run E ops s)) u r'"
  shows "r' = r"
proof -
  note inv = pv_inv_run[OF pv_inv_start[OF assms(1)], of E ops]
  have "one_active (pv_now (pv_run E ops s)) (pw_requests (pv_world (pv_run E ops s)))"
    using inv by (simp add: pv_inv_def books_def)
  then have "dq_id r' = dq_id r" using assms(2-5) unfolding one_active_def by blast
  then show ?thesis using ids_inj[OF pv_inv_parts(1)[OF inv] assms(3,2)] by blast
qed

lemma one_active_export_witness:
  "\<exists>r. requests_after export_ops = [r] \<and> active_export 60000 ''u'' r \<and> (\<forall>x\<in>{r}. x = r)"
proof -
  obtain r where r: "requests_after export_ops = [r]" using privacy_demo_one_row(1) by blast
  have now: "pv_now (pv_run privacy_demo_env export_ops privacy_demo) = 60000" by code_simp
  have "list_all (active_export 60000 ''u'') (requests_after export_ops)" by code_simp
  then have a: "active_export 60000 ''u'' r" by (simp add: r)
  have "x = r" if "x \<in> {r}" for x
    by (rule one_active_export[OF privacy_demo_start, where E = privacy_demo_env and ops = export_ops and u = "''u''"])
      (use that a r in \<open>simp_all add: requests_after_def now\<close>)
  then show ?thesis using r a by blast
qed


text \<open>A worker that dies after every claim: nothing but claims happens to the request.\<close>

definition dying_rounds :: "((unit, demo_store) pv_op list \<times> (dsr \<Rightarrow> bool)) list" where
  "dying_rounds = [([ClaimErasures (\<lambda>_. False), Wait 1000000], \<lambda>_. False), ([ClaimErasures (\<lambda>_. False), Wait 1000000], \<lambda>_. False),
     ([Wait 1000000], \<lambda>_. False), ([Wait 1000000], \<lambda>_. False)]"


text \<open>
  C9. A request for the erasure of an account that succeeds has revoked and erased everything it
  promises in the tables of the other modules: the account keeps its id and gets a higher version,
  no token, address or name of the owner is left in it, every membership of the user and every
  invitation to the address is gone and no other row is, and the plan for the purge after the
  grace period names every organization of the user, however many pages they fill.
\<close>

theorem account_erasure_complete:
  assumes "tables_ok (pw_tenancy w)" "\<forall>g\<in>set (organizations_of (pw_tenancy w)). og_id g \<noteq> []"
    and "RequestAccountErasureCommand E t now rid hash u password w = (Inr r, w')"
  shows "\<exists>old plan. findById (pw_accounts w) u = Some old \<and>
    findById (pw_accounts w') u = Some ((bump_version old)\<lparr>us_email := anonymizedEmail u, us_name := ANONYMIZED_USER_NAME,
      us_avatarFileId := None\<rparr>) \<and>
    (\<forall>a\<in>set (pw_accounts w'). live_account u a \<longrightarrow> traceless u a \<and> ac_passwordHash a = hash) \<and>
    set (memberships_of (pw_tenancy w')) = {m \<in> set (memberships_of (pw_tenancy w)). ms_userId m \<noteq> u} \<and>
    set (invitations_of (pw_tenancy w')) = {i \<in> set (invitations_of (pw_tenancy w)). iv_email i \<noteq> us_email old} \<and>
    r \<in> set (pw_requests w') \<and> dq_status r = REQUESTED \<and> dq_expiresAt r = Some (now + GRACE_DAYS * 86400000) \<and>
    readTenantPlan (dq_payload r) = Some plan \<and>
    set plan = {og_id g |g m. m \<in> set (memberships_of (pw_tenancy w)) \<and> ms_userId m = u \<and>
      g \<in> set (organizations_of (pw_tenancy w)) \<and> og_id g = ms_tenantId m}"
proof -
  obtain old v where old: "findById (pw_accounts w) u = Some old"
    and v: "verify_user_credentials (pe_auth E) (pw_accounts w) (us_email old) password = Some v" "us_id v = u"
    using assms(3) by (auto simp: RequestAccountErasureCommand_def split: option.splits if_splits)
  have "v = old" using credentials_user[OF v(1)] v(2) old by simp
  then obtain w1 where p: "account_erasure_persist E now rid u (us_email old) hash w = (Inr r, w1)"
    and w': "w' = w1\<lparr>pw_sessions := revokeAllForUser (aw_db (pe_auth E)) (aw_connected (pe_auth E)) t u (pw_sessions w1)\<rparr>"
    using assms(3) old v by (auto simp: RequestAccountErasureCommand_def in_unit_def split: prod.splits sum.splits)
  note all = persisted[OF assms(1) old p]
  have "\<forall>x\<in>set (collectTenantIds u (pw_tenancy w)). x \<noteq> []" using assms(2) unfolding collected_ids by auto
  from plan_read[OF this] obtain plan where "readTenantPlan (dq_payload r) = Some plan" "set plan = set (collectTenantIds u (pw_tenancy w))"
    unfolding all(5) by blast
  then show ?thesis using old all(1-4,6-8) w' unfolding collected_ids by simp
qed


lemma privacy_demo_tables_ok: "tables_ok privacy_demo_tables"
  by (auto simp: tables_ok_def tables_typed_def ids_unique_def member_at_def jm_ok_def privacy_demo_tables_def jm_get_def jm_keys_def
      split: if_splits)

lemma account_erasure_complete_witness:
  "case RequestAccountErasureCommand privacy_demo_env 0 0 ''r'' ''h'' ''u'' ''p'' privacy_demo_world of
     (Inl e, w') \<Rightarrow> False
   | (Inr r, w') \<Rightarrow> memberships_of (pw_tenancy w') = [] \<and> invitations_of (pw_tenancy w') = [] \<and>
       map_option set (readTenantPlan (dq_payload r)) = Some {''o''}"
proof -
  let ?run = "RequestAccountErasureCommand privacy_demo_env 0 0 ''r'' ''h'' ''u'' ''p'' privacy_demo_world"
  have "case fst ?run of Inl e \<Rightarrow> False | Inr r \<Rightarrow> True" by code_simp
  then obtain r w' where run: "?run = (Inr r, w')" by (cases ?run) (auto split: sum.splits)
  have "\<forall>g\<in>set (organizations_of (pw_tenancy privacy_demo_world)). og_id g \<noteq> []" "tables_ok (pw_tenancy privacy_demo_world)"
    using privacy_demo_tables_ok
    by (simp_all add: privacy_demo_world_def privacy_demo_tables_def organizations_of_def List.map_filter_def)
  note all = account_erasure_complete[OF this(2,1) run]
  let ?db = "pw_tenancy privacy_demo_world"
  have u: "list_all (\<lambda>m. ms_userId m = ''u'') (memberships_of ?db)" "list_all (\<lambda>i. iv_email i = ''e'') (invitations_of ?db)"
    "map_option us_email (findById (pw_accounts privacy_demo_world) ''u'') = Some ''e''" by code_simp+
  have g: "list_all (\<lambda>g. og_id g = ''o'') (organizations_of ?db)"
    "list_ex (\<lambda>g. list_ex (\<lambda>m. ms_userId m = ''u'' \<and> og_id g = ms_tenantId m) (memberships_of ?db)) (organizations_of ?db)"
    by code_simp+
  obtain old plan where old: "findById (pw_accounts privacy_demo_world) ''u'' = Some old"
    and ms: "set (memberships_of (pw_tenancy w')) = {m \<in> set (memberships_of ?db). ms_userId m \<noteq> ''u''}"
    and iv: "set (invitations_of (pw_tenancy w')) = {i \<in> set (invitations_of ?db). iv_email i \<noteq> us_email old}"
    and plan: "readTenantPlan (dq_payload r) = Some plan" "set plan = {og_id g |g m. m \<in> set (memberships_of ?db) \<and>
      ms_userId m = ''u'' \<and> g \<in> set (organizations_of ?db) \<and> og_id g = ms_tenantId m}"
    using all by blast
  have "us_email old = ''e''" using old u(3) by simp
  then have "memberships_of (pw_tenancy w') = []" "invitations_of (pw_tenancy w') = []"
    using ms iv u(1,2) unfolding list_all_iff by (simp_all flip: set_empty)
  moreover have "set plan = {''o''}"
  proof
    show "set plan \<subseteq> {''o''}" unfolding plan(2) using g(1) by (auto simp: list_all_iff)
    show "{''o''} \<subseteq> set plan" unfolding plan(2) using g unfolding list_all_iff list_ex_iff by force
  qed
  ultimately show ?thesis using plan(1) by (simp add: run)
qed

section \<open>What goes wrong\<close>

text \<open>
  A download that comes after the export ran out sets the status to expired and nothing else. The
  scrubbing of expired exports looks for ready and partial ones only, so the copy of the personal
  data stays in the table for good.
\<close>

definition late_download :: "(unit, demo_store) pv_op list" where
  "late_download = export_ops @ [Wait 700000000, Download ''x'' ''u'', Wait 1, PurgeWorker (\<lambda>_. False)]"

lemma late_download_keeps_payload:
  "list_all (\<lambda>r. dq_status r = EXPIRED \<and> dq_payload r \<noteq> None) (requests_after late_download) \<and>
   length (requests_after late_download) = 1 \<and>
   list_all (\<lambda>r. dq_status r = EXPIRED \<and> dq_payload r = None) (requests_after (export_ops @ [Wait 700000000, PurgeWorker (\<lambda>_. False)]))"
proof (intro conjI)
  show "list_all (\<lambda>r. dq_status r = EXPIRED \<and> dq_payload r \<noteq> None) (requests_after late_download)" by code_simp
  show "length (requests_after late_download) = 1" by code_simp
  show "list_all (\<lambda>r. dq_status r = EXPIRED \<and> dq_payload r = None)
    (requests_after (export_ops @ [Wait 700000000, PurgeWorker (\<lambda>_. False)]))" by code_simp
qed

end
