(* ===== verification/Spec2Isabelle.thy ===== *)
theory Spec2Isabelle
  imports AccessControl CursorGuarantees SseConnection RealtimeGuarantees IdempotencyGuarantees Fingerprints RedisLock
    AccountLockout RateLimit OutboxProperties SessionGuarantees AuthenticationGuarantees
    TransactionGuarantees TenancyGuarantees PrivacyProperties
begin

text \<open>
  \<^bold>\<open>The program.\<close> A multi-tenant modular monolith in TypeScript: the NestJS server \<open>apps/api\<close> with
  the packages it shares with its clients (\<open>packages/authorization\<close>, \<open>packages/contracts\<close>). Requests
  pass guards (authentication, rate limit, permissions) and interceptors (idempotency, bulkhead) into
  the commands of a module; commands work on PostgreSQL through base repositories and on Redis
  through services, and hand their events to a transactional outbox. This development models the
  infrastructure on which the modules rely and, over it, the modules for authentication, tenancy and privacy.

  \<^bold>\<open>How the model reads.\<close> A class is a record, an enumeration a datatype, a method a function that
  takes the state and returns the new one; \<open>err\<close> and \<open>ok\<close> of neverthrow are the two sides of a sum,
  exceptions are values. Integers are \<open>int\<close> or \<open>nat\<close>: the program stays far below the range in which
  JavaScript numbers are exact, and where it checks that range the check is modelled. A Lua script is
  one function, as Redis runs it in one step; calls that can be interleaved are separate steps.
  What is not under \<open>src/\<close> is an argument: the server of Redis by the laws of its commands, the JWT
  library, Argon2, hashes, random ids, clocks, BullMQ, the comparison of values in PostgreSQL. The
  laws are the premises of the theorems that need them, and every theorem with premises is applied
  to a concrete instance in its witness.

  \<^bold>\<open>Theories and sources\<close> (below \<open>apps/api/src\<close> unless said otherwise).
  \<^item> \<open>Prelude\<close>, \<open>JsValue\<close>: strings, \<open>Map\<close> and \<open>Set\<close> in insertion order, dynamically typed values.
  \<^item> \<open>Permissions\<close>, \<open>Authorization\<close>: \<open>packages/authorization/src\<close> (permission tables, wildcard
    matching, ownership, policy evaluator). \<open>Policies\<close>: the policies of the modules, the guard
    \<open>common/guards/permissions.guard.ts\<close> and the service. \<open>AccessControl\<close>: their properties, deny
    overrides, isolation of tenants, independence of the order of policies, what clients can influence.
  \<^item> \<open>Repository\<close>: \<open>infrastructure/database/repositories\<close> and the tenant context.
    \<open>RepositoryGuarantees\<close>: a shared table is a private table for each tenant, by an unwinding argument
    over interleaved requests. \<open>CursorGuarantees\<close>: walks along cursors lose and repeat nothing.
  \<^item> \<open>Transactions\<close>: \<open>database.service.ts\<close> and \<open>database/transactions\<close>, units of work, savepoints,
    after-commit callbacks, scopes, on one session of PostgreSQL. \<open>TransactionGuarantees\<close>: each method
    implements a specification without savepoints, in which a failed unit has not run; programs that
    nest the methods at will inherit it.
  \<^item> \<open>SseConnection\<close>: \<open>realtime/transports/sse-connection.ts\<close>, backlog and order of frames.
    \<open>CounterTable\<close>: the bulkhead of \<open>common/utils/bulkhead.ts\<close> over a locale of counter tables.
    \<open>RealtimeRegistry\<close>: \<open>realtime/connections\<close>. \<open>RegistryInvariants\<close>, \<open>RegistryClosing\<close>,
    \<open>RealtimeGuarantees\<close>: the books of the registry are exact in every reachable state, revocation
    closes exactly what it should, a message reaches each writable connection once.
  \<^item> \<open>RedisStore\<close>: the string commands of Redis and their laws, with links that may lose a reply.
    \<open>Idempotency\<close>: \<open>common/utils/idempotency*.ts\<close> and the interceptor. \<open>IdempotencyGuarantees\<close>: a
    transition system of clients that run these scripts on a shared store; handlers started, ends of
    leases, replays. \<open>Fingerprints\<close>: request fingerprints and cache keys.
  \<^item> \<open>RedisLock\<close>: \<open>infrastructure/redis\<close>, the distributed lock with its heartbeat.
  \<^item> \<open>AccountLockout\<close>: \<open>security/lockout\<close>, both stores. \<open>RateLimit\<close>: \<open>rate-limit\<close> and its two guards.
  \<^item> \<open>OperationReceipts\<close>: \<open>infrastructure/idempotency\<close>, receipts in the database.
  \<^item> \<open>Outbox\<close>: \<open>infrastructure/outbox\<close>, storing, relaying, consuming, retrying, pruning and replaying
    events. \<open>OutboxGuarantees\<close>: the transition system of producers, relays, queue workers and
    retention under faults, and its invariant. \<open>OutboxProperties\<close>: what follows for events.
  \<^item> \<open>Sessions\<close>: \<open>infrastructure/session\<close>. \<open>SessionGuarantees\<close>: chains of refresh tokens, the limit of
    sessions, revocation. \<open>Authentication\<close>: key rings and tokens, the guard, the statements on the
    table of users, the commands of \<open>modules/auth/application\<close>. \<open>AuthenticationGuarantees\<close>: signing out
    is final, a reused token ends its session; these rest on the lemmas on sessions.
  \<^item> \<open>ReadCommitted\<close>: commands as scripts of statements, interleaved at the isolation level the
    program runs on, with row locks and advisory locks; a locale for the invariants of a module.
    \<open>Tenancy\<close>: \<open>modules/tenancy\<close>. \<open>TenancyRows\<close>, \<open>TenancyOwners\<close>, \<open>TenancyInvitations\<close>: three
    interpretations of the locale over all its commands; \<open>TenancyGuarantees\<close>: typed tables, no
    organization without an owner, invitations accepted once, slugs, and runs of what can go wrong.
  \<^item> \<open>Privacy\<close>: \<open>modules/privacy\<close> and \<open>infrastructure/lifecycle\<close>, exports and erasures, their statements,
    commands and workers, with what they call in the modules for users and tenancy. \<open>PrivacyRows\<close>: what
    a transaction may do to requests and events, and that every command stays within it.
    \<open>PrivacyGuarantees\<close>: the transition system of commands and workers, its invariant, and a rank that
    every run of the hourly worker lowers. \<open>PrivacyErasure\<close>: what an erasure does to the other modules.
    \<open>PrivacyProperties\<close>: completion at most once, final states, every erasure settles.

  \<^bold>\<open>Bounds.\<close> The claim of an idempotency key is a loop over replies of the store; nine commands settle
  it (\<open>claim_terminates\<close>), so the fuel of \<open>claimOrRead\<close> is nine. A walk over \<open>k\<close> pages needs at most \<open>k\<close>
  calls (\<open>cursor_walk_complete\<close>). All other recursion is structural or has a measure. Limits of the code
  (64 frames and 16 KiB, 1000 rows, 5000 lockout entries, 20 sessions, 100 events a tick, five attempts,
  ten batches of 500 invitations)
  are definitions with the values of the source.

  \<^bold>\<open>Findings\<close> that modelling gave are lemmas of their component: \<open>tenant_admin_reads_privacy_requests\<close>,
  \<open>anonymous_ipv6_collision\<close>, \<open>crash_exhausts_retries\<close>, \<open>replay_of_live_event\<close>, \<open>touch_resurrects\<close>,
  \<open>deleted_row_shadows_login\<close>, \<open>null_cursor_selects_nothing\<close>, \<open>swallowed_failure_reports_success\<close>,
  \<open>tenant_scope_left_behind\<close>, \<open>erasure_orphans_organization\<close>, \<open>concurrent_invitations\<close>,
  \<open>erasure_leaves_membership\<close>, \<open>cut_slug_not_accepted\<close>, \<open>nameless_slugs_collide\<close>,
  \<open>late_download_keeps_payload\<close>.

  \<^bold>\<open>Not modelled.\<close> Log lines, metrics, translations and e-mails, which decide nothing. Schemas and
  presentation layers. PostgreSQL's own checks: row level security, constraints other than those named,
  deadlock detection and, outside the modules for tenancy and privacy, interleaving within a transaction (a statement is
  one step; in the privacy module a transaction is). Caches of users, which authentication bypasses, and of memberships, which nothing reads.
  Planned, in this order: feature flags, the consumer of realtime
  streams, delivery of notifications, uploads of \<open>modules/files\<close>, the coordination of refreshes in
  \<open>packages/api-client\<close>. Left out for good: user interfaces, generators and scripts, configuration.
\<close>

end
